(* ===== verification/Glop_Prelude.thy ===== *)
theory Glop_Prelude
  imports Main "HOL-Library.Word" "HOL-Library.Sublist"
begin

text \<open>
  Shared vocabulary of the development: the machine types of the Rust sources, the
  standard library's \<open>ControlFlow\<close>, the generic run of a component that consumes a
  queue of commands and emits effects, the interface of an inductive invariant of such
  a component, and the list and word lemmas that several components use.
\<close>

subsection \<open>Machine types\<close>

type_synonym u8 = "8 word"
type_synonym u16 = "16 word"
type_synonym u32 = "32 word"
type_synonym i32 = "32 word"
type_synonym u64 = "64 word"
type_synonym bytes = "u8 list"

text \<open>
  \<open>Vec::len() as u64\<close>: the length of a buffer as a \<open>u64\<close>. A buffer is never longer than
  the address space, so the conversion is exact for every buffer a program can hold.
\<close>

definition len64 :: "'a list \<Rightarrow> u64" where
  "len64 xs = of_nat (length xs)"

text \<open>\<open>std::ops::ControlFlow\<close>.\<close>

datatype ('b, 'c) control_flow = Break 'b | Continue 'c

type_synonym flow = "(unit, unit) control_flow"

definition is_break :: "('b, 'c) control_flow \<Rightarrow> bool" where
  "is_break f = (case f of Break _ \<Rightarrow> True | Continue _ \<Rightarrow> False)"

lemma is_break_simps [simp]: "is_break (Break b)" "\<not> is_break (Continue c)"
  by (simp_all add: is_break_def)

subsection \<open>Lemma collections\<close>

named_theorems step_inv \<open>preservation of a component's invariant by one operation\<close>
named_theorems effect_simps \<open>projections of the effects an operation emits\<close>

subsection \<open>Lists and words\<close>

lemma unat_len64: "length xs < 2 ^ 64 \<Longrightarrow> unat (len64 xs) = length xs"
  by (simp add: len64_def unat_of_nat)

lemma unat_u64: "unat (p :: u64) < 2 ^ 64"
  using unsigned_less [of p] by simp

lemma unat_of_nat_len: "n < 2 ^ 64 \<Longrightarrow> unat (of_nat n :: u64) = n"
  by (simp add: unat_of_nat)

lemma len64_Nil [simp]: "len64 [] = 0"
  by (simp add: len64_def)

lemma unat_add_len64:
  assumes "unat p + length xs < 2 ^ 64"
  shows "unat (p + len64 xs) = unat p + length xs"
proof -
  have l: "unat (len64 xs) = length xs"
    using assms by (intro unat_len64) simp
  have "unat (p + len64 xs) = (unat p + unat (len64 xs)) mod 2 ^ 64"
    by (simp add: unat_word_ariths)
  also have "\<dots> = unat p + length xs"
    unfolding l using assms by (intro mod_less) simp
  finally show ?thesis .
qed

lemma prefix_drop_append:
  "prefix xs (drop n zs) \<Longrightarrow> prefix ys (drop (n + length xs) zs) \<Longrightarrow> prefix (xs @ ys) (drop n zs)"
proof -
  assume xs: "prefix xs (drop n zs)" and ys: "prefix ys (drop (n + length xs) zs)"
  from xs obtain r where r: "drop n zs = xs @ r" by (auto simp: prefix_def)
  have "drop (n + length xs) zs = drop (length xs) (drop n zs)"
    by (simp add: add.commute)
  also have "\<dots> = r" by (simp add: r)
  finally have "prefix ys r" using ys by simp
  then show ?thesis by (auto simp: r prefix_def)
qed

lemma prefix_drop_length:
  "prefix xs (drop n zs) \<Longrightarrow> xs = [] \<or> n + length xs \<le> length zs"
  using prefix_length_le [of xs "drop n zs"] by (cases xs) auto

subsection \<open>Components that consume a queue of commands\<close>

text \<open>
  A component is a step function: one command takes a state to a control flow, a new
  state and the effects emitted, in order. It runs until its queue is empty or a step
  breaks; what is still queued then is dropped with the queue.
\<close>

fun run_machine ::
  "('s \<Rightarrow> 'c \<Rightarrow> flow \<times> 's \<times> 'e list) \<Rightarrow> 's \<Rightarrow> 'c list \<Rightarrow> flow \<times> 's \<times> 'e list" where
  "run_machine step s [] = (Continue (), s, [])"
| "run_machine step s (c # cs) =
     (case step s c of
        (Break _, s', es) \<Rightarrow> (Break (), s', es)
      | (Continue _, s', es) \<Rightarrow>
          (case run_machine step s' cs of (f, s'', es') \<Rightarrow> (f, s'', es @ es')))"

text \<open>
  What an environment may send: \<open>run_allowed\<close> says that every command of the queue is
  one the environment is allowed to send in the state the component has reached.
\<close>

fun run_allowed ::
  "('s \<Rightarrow> 'c \<Rightarrow> flow \<times> 's \<times> 'e list) \<Rightarrow> ('s \<Rightarrow> 'c \<Rightarrow> bool) \<Rightarrow> 's \<Rightarrow> 'c list \<Rightarrow> bool" where
  "run_allowed step ok s [] = True"
| "run_allowed step ok s (c # cs) =
     (ok s c \<and>
      (case step s c of
         (Break _, _, _) \<Rightarrow> True
       | (Continue _, s', _) \<Rightarrow> run_allowed step ok s' cs))"

lemma run_allowed_True [simp]: "run_allowed step (\<lambda>_ _. True) s cs"
  by (induction cs arbitrary: s) (auto split: prod.splits control_flow.splits)

text \<open>
  The contract of an inductive invariant under an environment, and what it gives for
  whole runs. Every stateful component of the development interprets it, or the contract
  without assumptions on the environment, on its own step function.
\<close>

locale guarded_invariant =
  fixes step :: "'s \<Rightarrow> 'c \<Rightarrow> flow \<times> 's \<times> 'e list"
    and inv :: "'s \<Rightarrow> bool"
    and ok :: "'s \<Rightarrow> 'c \<Rightarrow> bool"
  assumes guarded_step_keeps: "inv s \<Longrightarrow> ok s c \<Longrightarrow> step s c = (f, s', es) \<Longrightarrow> inv s'"
begin

lemma guarded_run_keeps:
  "inv s \<Longrightarrow> run_allowed step ok s cs \<Longrightarrow> run_machine step s cs = (f, s', es) \<Longrightarrow> inv s'"
proof (induction cs arbitrary: s es)
  case Nil
  then show ?case by simp
next
  case (Cons c cs)
  obtain f1 s1 es1 where st: "step s c = (f1, s1, es1)" by (cases "step s c")
  have "inv s1"
    using Cons.prems(1,2) st by (auto intro: guarded_step_keeps)
  then show ?case
    using Cons.prems(2,3) Cons.IH [of s1] st
    by (auto split: control_flow.splits prod.splits)
qed

end

locale machine_invariant =
  fixes step :: "'s \<Rightarrow> 'c \<Rightarrow> flow \<times> 's \<times> 'e list"
    and inv :: "'s \<Rightarrow> bool"
  assumes step_keeps: "inv s \<Longrightarrow> step s c = (f, s', es) \<Longrightarrow> inv s'"

sublocale machine_invariant \<subseteq> guarded_invariant step inv "\<lambda>_ _. True"
  by unfold_locales (auto intro: step_keeps)

context machine_invariant
begin

lemma run_keeps: "inv s \<Longrightarrow> run_machine step s cs = (f, s', es) \<Longrightarrow> inv s'"
  by (rule guarded_run_keeps) simp_all

end

lemma run_machine_append:
  "run_machine step s (cs @ ds) =
     (case run_machine step s cs of
        (Break _, s', es) \<Rightarrow> (Break (), s', es)
      | (Continue _, s', es) \<Rightarrow>
          (case run_machine step s' ds of (f, s'', es') \<Rightarrow> (f, s'', es @ es')))"
  by (induction cs arbitrary: s)
    (auto split: control_flow.splits prod.splits)

end
