(* ===== verification/Wire_Messages.thy ===== *)
theory Wire_Messages
  imports Glop_Prelude
begin

text \<open>
  The messages of the two protobuf schemas,
  \<^verbatim>\<open>glopfile-relay/proto/glopfile_websocket_protocol.proto\<close> (the same file as the client's
  \<^verbatim>\<open>websocket.proto\<close>) and \<^verbatim>\<open>rust-client/glopfile/src/p2p.proto\<close>. A \<open>oneof\<close> is an option of
  a datatype, as prost generates it. The byte encoding itself is prost's and is not under
  \<^verbatim>\<open>src/\<close>: every definition that needs it takes the encoder or decoder as an argument.
\<close>

subsection \<open>Websocket protocol\<close>

record upload_data_ack = ack_offset :: u64

record encrypted_rtc_signaling = ers_ciphertext :: bytes

datatype ws_inner =
    UploadDataAck upload_data_ack
  | RtcSignaling encrypted_rtc_signaling

record web_socket_message = wsm_inner :: "ws_inner option"

text \<open>An enumeration travels as its number; the accessor that prost generates for a field takes
  an unknown number for the first variant.\<close>

datatype sdp_type = Answer | Offer | Pranswer | Rollback

fun sdp_number :: "sdp_type \<Rightarrow> i32" where
  "sdp_number Answer = 0"
| "sdp_number Offer = 1"
| "sdp_number Pranswer = 2"
| "sdp_number Rollback = 3"

definition sdp_of_number :: "i32 \<Rightarrow> sdp_type option" where
  "sdp_of_number n = find (\<lambda>t. sdp_number t = n) [Answer, Offer, Pranswer, Rollback]"

lemma sdp_of_number_Some: "sdp_of_number n = Some t \<longleftrightarrow> sdp_number t = n"
  by (cases t) (auto simp: sdp_of_number_def split: if_splits)

lemma sdp_of_number_number [simp]: "sdp_of_number (sdp_number t) = Some t"
  by (simp add: sdp_of_number_Some)

record ice_candidate =
  candidate :: string
  mid :: string

record session_description =
  sdp :: string
  sd_type :: i32

definition description_type :: "session_description \<Rightarrow> sdp_type" where
  "description_type d = (case sdp_of_number (sd_type d) of Some t \<Rightarrow> t | None \<Rightarrow> Answer)"

datatype rtc_inner =
    IceCandidate ice_candidate
  | SessionDescription session_description

record rtc_signaling_message = rtc_inner :: "rtc_inner option"

subsection \<open>Peer-to-peer protocol\<close>

record data_request =
  req_offset :: u64
  req_len :: u64

record data_response =
  resp_offset :: u64
  resp_data :: bytes

datatype downloader_inner =
    DataRequest data_request
  | TransferFinished
  | DownloaderHello

datatype uploader_inner =
    DataResponse data_response
  | UploaderHello

record downloader_message = dm_inner :: "downloader_inner option"
record uploader_message = um_inner :: "uploader_inner option"

text \<open>
  What the program relies on of a message codec: decoding gives back what was encoded.
\<close>

definition codec_law :: "('m \<Rightarrow> bytes) \<Rightarrow> (bytes \<Rightarrow> 'm option) \<Rightarrow> bool" where
  "codec_law enc dec = (\<forall>m. dec (enc m) = Some m)"

lemma codec_lawD [dest]: "codec_law enc dec \<Longrightarrow> dec (enc m) = Some m"
  by (simp add: codec_law_def)

end
