(* ===== verification/Relay_Session.thy ===== *)
theory Relay_Session
  imports Wire_Messages
begin

text \<open>
  \<^verbatim>\<open>glopfile-relay/src/session.rs\<close>: the task that owns one transfer session. The state is
  the struct \<open>State\<close>, one command of the session's queue is one call of \<open>handle\<close>, and
  what the Rust code sends on a channel is an effect of the step, in the order of the
  sends. A channel is named by a number (\<open>chan\<close> for the unbounded queues to a peer,
  \<open>waiter\<close> for a oneshot reply). Sends ignore their errors in the code (\<open>let _ =\<close>), so an
  effect is emitted whether or not somebody still listens. The first argument \<open>pb\<close> of the
  operations is prost's \<open>encode_to_vec\<close>.
\<close>

subsection \<open>Data\<close>

type_synonym position = u64
type_synonym token = u64
type_synonym chan = nat
type_synonym waiter = nat
type_synonym session_id = bytes
type_synonym encoder = "web_socket_message \<Rightarrow> bytes"

datatype chunk = MoreChunk bytes | FinalChunk bytes

datatype download_event = MoreEvent bytes | FinalEvent bytes | ReplacedEvent

datatype frame = TextFrame string | BinaryFrame bytes

datatype direction = Upload | Download

datatype upload_error =
    NotFound
  | ConnectionReplaced
  | Position position
  | Finished
  | DataPending

type_synonym upload_result = "upload_error + unit"

datatype ws_command = WsSend frame | WsSessionError

record ws_peer =
  wp_token :: token
  wp_commands :: chan

datatype peer = DownloaderPeer bool | UploaderPeer | WebsocketPeer direction

record downloader =
  d_token :: token
  d_position :: position
  d_events :: chan

record uploader =
  u_token :: token
  u_position :: position

datatype downloader_slot = Disconnected | Connected downloader | DownloadFinished

datatype pending =
    NoPending
  | PendingData chunk "waiter option" position u64
  | PendingError upload_error

record state =
  sid :: session_id
  metadata :: string
  downloader_slot :: downloader_slot
  downloader_ws :: "ws_peer option"
  downloader_ws_held :: "frame list"
  uploader_slot :: "uploader option"
  uploader_ws :: "ws_peer option"
  uploader_ws_held :: "frame list"
  pending :: pending

datatype command =
    Metadata waiter
  | StartDownload downloader waiter
  | FinishDownload waiter
  | CheckStartUpload position waiter
  | StartUpload token position waiter
  | UploadData token chunk waiter
  | FlushUpload token waiter
  | StartWebsocket direction ws_peer waiter
  | WebsocketData direction frame
  | DisconnectedCmd token peer

datatype reply = MetadataReply string | UnitReply | UploadReply upload_result

datatype effect =
    Reply waiter reply
  | Event chan download_event
  | WsCommand chan ws_command

definition MAX_HELD_FRAMES :: nat where
  "MAX_HELD_FRAMES = 64"

definition initial_state :: "session_id \<Rightarrow> string \<Rightarrow> state" where
  "initial_state i m =
     \<lparr>sid = i, metadata = m, downloader_slot = Disconnected,
      downloader_ws = None, downloader_ws_held = [],
      uploader_slot = None, uploader_ws = None, uploader_ws_held = [],
      pending = NoPending\<rparr>"

subsection \<open>Helpers\<close>

definition chunk_data :: "chunk \<Rightarrow> bytes" where
  "chunk_data c = (case c of MoreChunk d \<Rightarrow> d | FinalChunk d \<Rightarrow> d)"

definition chunk_len :: "chunk \<Rightarrow> u64" where
  "chunk_len c = (case c of MoreChunk d \<Rightarrow> len64 d | FinalChunk d \<Rightarrow> len64 d)"

definition into_event :: "chunk \<Rightarrow> download_event" where
  "into_event c = (case c of MoreChunk d \<Rightarrow> MoreEvent d | FinalChunk d \<Rightarrow> FinalEvent d)"

definition reply_to :: "waiter option \<Rightarrow> upload_result \<Rightarrow> effect list" where
  "reply_to w r = (case w of None \<Rightarrow> [] | Some w \<Rightarrow> [Reply w (UploadReply r)])"

definition send_upload_progress ::
  "encoder \<Rightarrow> ws_peer option \<Rightarrow> position \<Rightarrow> effect list" where
  "send_upload_progress pb ws p =
     (case ws of
        None \<Rightarrow> []
      | Some peer \<Rightarrow>
          [WsCommand (wp_commands peer)
            (WsSend (BinaryFrame
              (pb \<lparr>wsm_inner = Some (UploadDataAck \<lparr>ack_offset = p\<rparr>)\<rparr>)))])"

definition uploader_token :: "state \<Rightarrow> token option" where
  "uploader_token s = map_option u_token (uploader_slot s)"

definition websocket :: "direction \<Rightarrow> state \<Rightarrow> ws_peer option" where
  "websocket d s = (case d of Upload \<Rightarrow> uploader_ws s | Download \<Rightarrow> downloader_ws s)"

definition set_websocket :: "direction \<Rightarrow> ws_peer option \<Rightarrow> state \<Rightarrow> state" where
  "set_websocket d w s =
     (case d of Upload \<Rightarrow> s\<lparr>uploader_ws := w\<rparr> | Download \<Rightarrow> s\<lparr>downloader_ws := w\<rparr>)"

definition held_frames :: "direction \<Rightarrow> state \<Rightarrow> frame list" where
  "held_frames d s =
     (case d of Upload \<Rightarrow> uploader_ws_held s | Download \<Rightarrow> downloader_ws_held s)"

definition set_held_frames :: "direction \<Rightarrow> frame list \<Rightarrow> state \<Rightarrow> state" where
  "set_held_frames d h s =
     (case d of Upload \<Rightarrow> s\<lparr>uploader_ws_held := h\<rparr>
      | Download \<Rightarrow> s\<lparr>downloader_ws_held := h\<rparr>)"

subsection \<open>Operations\<close>

definition terminate_uploader :: "state \<Rightarrow> upload_error \<Rightarrow> state \<times> effect list" where
  "terminate_uploader s e =
     (if uploader_slot s = None then (s, [])
      else case pending s of
        PendingData c w p n \<Rightarrow>
          (s\<lparr>pending := PendingData c None p n, uploader_slot := None\<rparr>, reply_to w (Inl e))
      | _ \<Rightarrow> (s\<lparr>pending := PendingError e\<rparr>, []))"

text \<open>\<open>mem::replace\<close> of the downloader slot, telling a connected downloader it was replaced.\<close>

definition replace_downloader ::
  "downloader_slot \<Rightarrow> state \<Rightarrow> state \<times> effect list" where
  "replace_downloader slot s =
     (s\<lparr>downloader_slot := slot\<rparr>,
      case downloader_slot s of
        Connected replaced \<Rightarrow> [Event (d_events replaced) ReplacedEvent]
      | _ \<Rightarrow> [])"

text \<open>The middle of \<open>start_download\<close>: what becomes of a chunk that waited for a downloader.\<close>

definition take_pending ::
  "encoder \<Rightarrow> downloader \<Rightarrow> state \<Rightarrow> downloader \<times> state \<times> effect list" where
  "take_pending pb d s =
     (case pending s of
        PendingData c w p n \<Rightarrow>
          (if d_position d = p then
             let d' = d\<lparr>d_position := d_position d + n\<rparr>
             in (d', s\<lparr>pending := NoPending\<rparr>,
                 [Event (d_events d') (into_event c)]
                 @ send_upload_progress pb (uploader_ws s) (d_position d')
                 @ reply_to w (Inr ()))
           else (d, s\<lparr>pending := NoPending\<rparr>, reply_to w (Inl (Position (d_position d)))))
      | _ \<Rightarrow> (d, s\<lparr>pending := NoPending\<rparr>, []))"

definition start_download :: "encoder \<Rightarrow> state \<Rightarrow> downloader \<Rightarrow> state \<times> effect list" where
  "start_download pb s d =
     (let (s1, e1) = replace_downloader Disconnected s;
          (d', s2, e2) = take_pending pb d s1;
          (s3, e3) =
            (case uploader_slot s2 of
               Some u \<Rightarrow>
                 if u_position u \<noteq> d_position d'
                 then terminate_uploader s2 (Position (d_position d')) else (s2, [])
             | None \<Rightarrow> (s2, []))
      in (s3\<lparr>downloader_slot := Connected d'\<rparr>, e1 @ e2 @ e3))"

definition finish_download :: "state \<Rightarrow> waiter \<Rightarrow> flow \<times> state \<times> effect list" where
  "finish_download s reply =
     (let (s1, e1) = replace_downloader DownloadFinished s;
          (s2, e2) = terminate_uploader s1 Finished
      in (if uploader_slot s2 = None then Break () else Continue (),
          s2, e1 @ e2 @ [Reply reply UnitReply]))"

definition check_start_position :: "state \<Rightarrow> position \<Rightarrow> upload_result" where
  "check_start_position s p =
     (let pending_check =
            (case pending s of
               PendingData _ _ q n \<Rightarrow>
                 (if p \<noteq> q + n then Inl (Position (q + n)) else Inr ())
             | _ \<Rightarrow> Inr ())
      in case downloader_slot s of
           Connected d \<Rightarrow>
             (if p \<noteq> d_position d then Inl (Position (d_position d)) else pending_check)
         | _ \<Rightarrow> pending_check)"

definition start_upload ::
  "encoder \<Rightarrow> state \<Rightarrow> token \<Rightarrow> position \<Rightarrow> waiter \<Rightarrow> state \<times> effect list" where
  "start_upload pb s t p reply =
     (let (s1, e1) =
            (if uploader_slot s \<noteq> None then
               let (s', e) = terminate_uploader s ConnectionReplaced
               in (s'\<lparr>uploader_slot := None\<rparr>, e)
             else (s, []))
      in case check_start_position s1 p of
           Inl e \<Rightarrow> (s1, e1 @ [Reply reply (UploadReply (Inl e))])
         | Inr _ \<Rightarrow>
             let s2 = (case pending s1 of
                         PendingError _ \<Rightarrow> s1\<lparr>pending := NoPending\<rparr> | _ \<Rightarrow> s1)
             in (s2\<lparr>uploader_slot := Some \<lparr>u_token = t, u_position = p\<rparr>\<rparr>,
                 e1 @ send_upload_progress pb (uploader_ws s2) p
                 @ [Reply reply (UploadReply (Inr ()))]))"

definition upload_data ::
  "encoder \<Rightarrow> state \<Rightarrow> token \<Rightarrow> chunk \<Rightarrow> waiter \<Rightarrow> state \<times> effect list" where
  "upload_data pb s t c reply =
     (case uploader_slot s of
        None \<Rightarrow> (s, [Reply reply (UploadReply (Inl ConnectionReplaced))])
      | Some u \<Rightarrow>
          if u_token u \<noteq> t then (s, [Reply reply (UploadReply (Inl ConnectionReplaced))])
          else case pending s of
            PendingData _ _ _ _ \<Rightarrow> (s, [Reply reply (UploadReply (Inl DataPending))])
          | PendingError e \<Rightarrow> (s, [Reply reply (UploadReply (Inl e))])
          | NoPending \<Rightarrow>
              let n = chunk_len c;
                  p = u_position u;
                  s1 = s\<lparr>uploader_slot := Some (u\<lparr>u_position := p + n\<rparr>)\<rparr>
              in case downloader_slot s1 of
                   Connected d \<Rightarrow>
                     (s1\<lparr>downloader_slot := Connected (d\<lparr>d_position := p + n\<rparr>)\<rparr>,
                      [Event (d_events d) (into_event c)]
                      @ send_upload_progress pb (uploader_ws s1) (p + n)
                      @ [Reply reply (UploadReply (Inr ()))])
                 | _ \<Rightarrow> (s1\<lparr>pending := PendingData c (Some reply) p n\<rparr>, []))"

definition flush_upload :: "state \<Rightarrow> token \<Rightarrow> waiter \<Rightarrow> state \<times> effect list" where
  "flush_upload s t reply =
     (if uploader_token s \<noteq> Some t
      then (s, [Reply reply (UploadReply (Inl ConnectionReplaced))])
      else case pending s of
        PendingError e \<Rightarrow> (s, [Reply reply (UploadReply (Inl e))])
      | PendingData c _ p n \<Rightarrow> (s\<lparr>pending := PendingData c (Some reply) p n\<rparr>, [])
      | NoPending \<Rightarrow> (s, [Reply reply (UploadReply (Inr ()))]))"

definition start_websocket :: "state \<Rightarrow> direction \<Rightarrow> ws_peer \<Rightarrow> state \<times> effect list" where
  "start_websocket s d peer =
     (let e1 = map (\<lambda>f. WsCommand (wp_commands peer) (WsSend f)) (held_frames d s);
          s1 = set_held_frames d [] s;
          e2 = (case websocket d s1 of
                  Some replaced \<Rightarrow> [WsCommand (wp_commands replaced) WsSessionError]
                | None \<Rightarrow> [])
      in (set_websocket d (Some peer) s1, e1 @ e2))"

definition hold_frame :: "state \<Rightarrow> direction \<Rightarrow> frame \<Rightarrow> state" where
  "hold_frame s d f =
     (if length (held_frames d s) = MAX_HELD_FRAMES then s
      else set_held_frames d (held_frames d s @ [f]) s)"

definition other_direction :: "direction \<Rightarrow> direction" where
  "other_direction d = (case d of Upload \<Rightarrow> Download | Download \<Rightarrow> Upload)"

definition relay_frame :: "state \<Rightarrow> direction \<Rightarrow> frame \<Rightarrow> state \<times> effect list" where
  "relay_frame s from_dir f =
     (let d = other_direction from_dir
      in case websocket d s of
           Some peer \<Rightarrow> (s, [WsCommand (wp_commands peer) (WsSend f)])
         | None \<Rightarrow> (hold_frame s d f, []))"

definition disconnected :: "state \<Rightarrow> token \<Rightarrow> peer \<Rightarrow> flow \<times> state" where
  "disconnected s t p =
     (case p of
        DownloaderPeer completed \<Rightarrow>
          (case downloader_slot s of
             Connected d \<Rightarrow>
               if d_token d \<noteq> t then (Continue (), s)
               else if completed then (Break (), s\<lparr>downloader_slot := DownloadFinished\<rparr>)
               else (Continue (), s\<lparr>downloader_slot := Disconnected\<rparr>)
           | _ \<Rightarrow> (Continue (), s))
      | UploaderPeer \<Rightarrow>
          if uploader_token s \<noteq> Some t then (Continue (), s)
          else
            let s1 = s\<lparr>uploader_slot := None\<rparr>
            in (case downloader_slot s1 of
                  DownloadFinished \<Rightarrow> (Break (), s1)
                | _ \<Rightarrow>
                    (Continue (),
                     case pending s1 of
                       PendingError _ \<Rightarrow> s1\<lparr>pending := NoPending\<rparr> | _ \<Rightarrow> s1))
      | WebsocketPeer d \<Rightarrow>
          (Continue (),
           if map_option wp_token (websocket d s) = Some t
           then set_websocket d None s else s))"

text \<open>Lift an operation that always continues.\<close>

definition continue :: "state \<times> effect list \<Rightarrow> flow \<times> state \<times> effect list" where
  "continue r = (Continue (), fst r, snd r)"

fun handle :: "encoder \<Rightarrow> state \<Rightarrow> command \<Rightarrow> flow \<times> state \<times> effect list" where
  "handle pb s (Metadata reply) =
     (Continue (), s, [Reply reply (MetadataReply (metadata s))])"
| "handle pb s (StartDownload d reply) =
     (let (s', e) = start_download pb s d in (Continue (), s', e @ [Reply reply UnitReply]))"
| "handle pb s (FinishDownload reply) = finish_download s reply"
| "handle pb s (CheckStartUpload p reply) =
     (Continue (), s, [Reply reply (UploadReply (check_start_position s p))])"
| "handle pb s (StartUpload t p reply) = continue (start_upload pb s t p reply)"
| "handle pb s (UploadData t c reply) = continue (upload_data pb s t c reply)"
| "handle pb s (FlushUpload t reply) = continue (flush_upload s t reply)"
| "handle pb s (StartWebsocket d peer reply) =
     (let (s', e) = start_websocket s d peer in (Continue (), s', e @ [Reply reply UnitReply]))"
| "handle pb s (WebsocketData d f) = continue (relay_frame s d f)"
| "handle pb s (DisconnectedCmd t p) =
     (let (f, s') = disconnected s t p in (f, s', []))"

text \<open>
  \<open>State::run\<close>: commands are handled one at a time until one breaks the loop. What is
  queued after that is dropped, and its callers see their reply channel close.
\<close>

definition run_session ::
  "encoder \<Rightarrow> state \<Rightarrow> command list \<Rightarrow> flow \<times> state \<times> effect list" where
  "run_session pb = run_machine (handle pb)"

end
