(* ===== verification/Relay_Session_Inv.thy ===== *)
theory Relay_Session_Inv
  imports Relay_Session
begin

text \<open>
  What the session task keeps true between its fields: the rendezvous invariant between
  downloader, uploader and pending chunk, the bound on held websocket frames, the
  abstract view of a session as one expected position, and what each operation answers.
\<close>

subsection \<open>The rendezvous invariant\<close>

text \<open>
  A chunk only waits while no downloader is connected, and the uploader it came from
  stands right behind it. When nothing is pending and both sides are connected, they
  stand at the same position: this is what the \<open>debug_assert_eq!\<close> of \<open>upload_data\<close> checks.
\<close>

fun rendezvous :: "downloader_slot \<Rightarrow> uploader option \<Rightarrow> pending \<Rightarrow> bool" where
  "rendezvous (Connected d) up (PendingData c w p n) = False"
| "rendezvous _ up (PendingData c w p n) =
     (n = chunk_len c \<and> pred_option (\<lambda>u. u_position u = p + n) up)"
| "rendezvous (Connected d) up NoPending = pred_option (\<lambda>u. u_position u = d_position d) up"
| "rendezvous _ up NoPending = True"
| "rendezvous _ up (PendingError e) = True"

definition rendezvous_inv :: "state \<Rightarrow> bool" where
  "rendezvous_inv s = rendezvous (downloader_slot s) (uploader_slot s) (pending s)"

lemma rendezvous_inv_initial [simp]: "rendezvous_inv (initial_state i m)"
  by (simp add: rendezvous_inv_def initial_state_def)

lemma terminate_uploader_frame:
  assumes "terminate_uploader s e = (s', es)"
  shows "downloader_slot s' = downloader_slot s"
    and "uploader_slot s = None \<Longrightarrow> s' = s \<and> es = []"
    and "uploader_slot s \<noteq> None \<Longrightarrow> pending s = PendingData c w p n \<Longrightarrow>
           uploader_slot s' = None \<and> pending s' = PendingData c None p n
           \<and> es = reply_to w (Inl e)"
    and "uploader_slot s \<noteq> None \<Longrightarrow> (\<forall>c w p n. pending s \<noteq> PendingData c w p n) \<Longrightarrow>
           uploader_slot s' = uploader_slot s \<and> pending s' = PendingError e \<and> es = []"
  using assms by (auto simp: terminate_uploader_def split: if_splits pending.splits)

lemma terminate_uploader_rendezvous:
  "rendezvous_inv s \<Longrightarrow> terminate_uploader s e = (s', es) \<Longrightarrow> rendezvous_inv s'"
  by (cases "pending s"; cases "downloader_slot s"; cases "uploader_slot s")
    (auto simp: rendezvous_inv_def terminate_uploader_def)

lemma start_download_rendezvous [step_inv]:
  "rendezvous_inv s \<Longrightarrow> start_download pb s d = (s', es) \<Longrightarrow> rendezvous_inv s'"
  by (cases "pending s"; cases "downloader_slot s"; cases "uploader_slot s")
    (auto simp: rendezvous_inv_def start_download_def replace_downloader_def take_pending_def
        terminate_uploader_def Let_def split: if_splits)

lemma finish_download_rendezvous [step_inv]:
  "rendezvous_inv s \<Longrightarrow> finish_download s w = (f, s', es) \<Longrightarrow> rendezvous_inv s'"
  by (cases "pending s"; cases "downloader_slot s"; cases "uploader_slot s")
    (auto simp: rendezvous_inv_def finish_download_def replace_downloader_def
        terminate_uploader_def Let_def split: if_splits)

lemma start_upload_rendezvous [step_inv]:
  "rendezvous_inv s \<Longrightarrow> start_upload pb s t p w = (s', es) \<Longrightarrow> rendezvous_inv s'"
  by (cases "pending s"; cases "downloader_slot s"; cases "uploader_slot s")
    (auto simp: rendezvous_inv_def start_upload_def check_start_position_def
        terminate_uploader_def Let_def split: if_splits)

lemma upload_data_rendezvous [step_inv]:
  "rendezvous_inv s \<Longrightarrow> upload_data pb s t c w = (s', es) \<Longrightarrow> rendezvous_inv s'"
  by (cases "pending s"; cases "downloader_slot s"; cases "uploader_slot s")
    (auto simp: rendezvous_inv_def upload_data_def Let_def split: if_splits)

lemma flush_upload_rendezvous [step_inv]:
  "rendezvous_inv s \<Longrightarrow> flush_upload s t w = (s', es) \<Longrightarrow> rendezvous_inv s'"
  by (cases "pending s"; cases "downloader_slot s")
    (auto simp: rendezvous_inv_def flush_upload_def split: if_splits)

lemma websocket_ops_frame [simp]:
  "pending (set_websocket d w s) = pending s"
  "downloader_slot (set_websocket d w s) = downloader_slot s"
  "uploader_slot (set_websocket d w s) = uploader_slot s"
  "pending (set_held_frames d h s) = pending s"
  "downloader_slot (set_held_frames d h s) = downloader_slot s"
  "uploader_slot (set_held_frames d h s) = uploader_slot s"
  "sid (set_websocket d w s) = sid s" "sid (set_held_frames d h s) = sid s"
  "metadata (set_websocket d w s) = metadata s"
  "metadata (set_held_frames d h s) = metadata s"
  by (simp_all add: set_websocket_def set_held_frames_def split: direction.splits)

lemma rendezvous_inv_websocket [simp]:
  "rendezvous_inv (set_websocket d w s) = rendezvous_inv s"
  "rendezvous_inv (set_held_frames d h s) = rendezvous_inv s"
  by (simp_all add: rendezvous_inv_def)

lemma start_websocket_rendezvous [step_inv]:
  "rendezvous_inv s \<Longrightarrow> start_websocket s d p = (s', es) \<Longrightarrow> rendezvous_inv s'"
  by (auto simp: start_websocket_def Let_def)

lemma relay_frame_rendezvous [step_inv]:
  "rendezvous_inv s \<Longrightarrow> relay_frame s d fr = (s', es) \<Longrightarrow> rendezvous_inv s'"
  by (auto simp: relay_frame_def hold_frame_def Let_def split: option.splits if_splits)

lemma disconnected_rendezvous [step_inv]:
  "rendezvous_inv s \<Longrightarrow> disconnected s t p = (f, s') \<Longrightarrow> rendezvous_inv s'"
  by (cases "pending s"; cases "downloader_slot s"; cases "uploader_slot s"; cases p)
    (auto simp: rendezvous_inv_def disconnected_def uploader_token_def Let_def
        split: if_splits)

text \<open>
  What a step of \<open>handle\<close> is, one case per command: the elimination rule every proof about
  steps starts from.
\<close>

lemma handle_cases [consumes 1, case_names Metadata StartDownload FinishDownload
    CheckStartUpload StartUpload UploadData FlushUpload StartWebsocket WebsocketData
    Disconnected]:
  assumes "handle pb s c = (f, s', es)"
  obtains
    (Metadata) w where "c = Metadata w" "f = Continue ()" "s' = s"
      "es = [Reply w (MetadataReply (metadata s))]"
  | (StartDownload) d w e where "c = StartDownload d w" "f = Continue ()"
      "start_download pb s d = (s', e)" "es = e @ [Reply w UnitReply]"
  | (FinishDownload) w where "c = FinishDownload w" "finish_download s w = (f, s', es)"
  | (CheckStartUpload) p w where "c = CheckStartUpload p w" "f = Continue ()" "s' = s"
      "es = [Reply w (UploadReply (check_start_position s p))]"
  | (StartUpload) t p w where "c = StartUpload t p w" "f = Continue ()"
      "start_upload pb s t p w = (s', es)"
  | (UploadData) t ch w where "c = UploadData t ch w" "f = Continue ()"
      "upload_data pb s t ch w = (s', es)"
  | (FlushUpload) t w where "c = FlushUpload t w" "f = Continue ()"
      "flush_upload s t w = (s', es)"
  | (StartWebsocket) d p w e where "c = StartWebsocket d p w" "f = Continue ()"
      "start_websocket s d p = (s', e)" "es = e @ [Reply w UnitReply]"
  | (WebsocketData) d fr where "c = WebsocketData d fr" "f = Continue ()"
      "relay_frame s d fr = (s', es)"
  | (Disconnected) t p where "c = DisconnectedCmd t p" "disconnected s t p = (f, s')"
      "es = []"
  using assms by (cases c) (auto simp: continue_def prod_eq_iff split: prod.splits)

lemma handle_rendezvous:
  assumes "handle pb s c = (f, s', es)" and "rendezvous_inv s"
  shows "rendezvous_inv s'"
  using assms by (cases rule: handle_cases) (auto intro: step_inv)

interpretation rendezvous: machine_invariant "handle pb" rendezvous_inv
  by unfold_locales (rule handle_rendezvous)

text \<open>C19: In every state a session can reach, an uploader with nothing pending that
  finds a downloader connected stands at exactly the downloader's position: the
  \<open>debug_assert_eq!\<close> in \<open>upload_data\<close> cannot fail, whatever commands were handled.\<close>

theorem upload_data_assertion_holds:
  assumes run: "run_session pb (initial_state i m) cs = (f, s, es)"
    and up: "uploader_slot s = Some u" and idle: "pending s = NoPending"
    and down: "downloader_slot s = Connected d"
  shows "d_position d = u_position u"
proof -
  have "rendezvous_inv s"
    using rendezvous.run_keeps [OF rendezvous_inv_initial] run
    unfolding run_session_def by blast
  with up idle down show ?thesis by (simp add: rendezvous_inv_def)
qed

definition example_connected :: state where
  "example_connected =
     (initial_state [1] ''m'')
       \<lparr>downloader_slot := Connected \<lparr>d_token = 2, d_position = 5, d_events = 7\<rparr>,
        uploader_slot := Some \<lparr>u_token = 1, u_position = 5\<rparr>\<rparr>"

lemma example_connected_run:
  "run_session (\<lambda>_. []) (initial_state [1] ''m'')
     [StartDownload \<lparr>d_token = 2, d_position = 5, d_events = 7\<rparr> 0, StartUpload 1 5 1]
   = (Continue (), example_connected, [Reply 0 UnitReply, Reply 1 (UploadReply (Inr ()))])"
  by (simp add: run_session_def example_connected_def initial_state_def continue_def
      start_download_def replace_downloader_def take_pending_def start_upload_def
      check_start_position_def send_upload_progress_def)

theorem upload_data_assertion_holds_witness:
  "d_position \<lparr>d_token = 2, d_position = 5, d_events = 7\<rparr> = u_position \<lparr>u_token = 1, u_position = 5\<rparr>"
  by (rule upload_data_assertion_holds [OF example_connected_run])
    (simp_all add: example_connected_def initial_state_def)

lemma reachable_rendezvous:
  "run_session pb (initial_state i m) cs = (f, s, es) \<Longrightarrow> rendezvous_inv s"
  unfolding run_session_def by (rule rendezvous.run_keeps [OF rendezvous_inv_initial])

subsection \<open>The abstract view: one expected position\<close>

text \<open>
  For an uploader, a session is one optional position: where the content has to
  continue. It is behind the chunk that waits, or else where the downloader stands.
\<close>

definition expected_position :: "state \<Rightarrow> position option" where
  "expected_position s =
     (case pending s of
        PendingData c w p n \<Rightarrow> Some (p + n)
      | _ \<Rightarrow> (case downloader_slot s of Connected d \<Rightarrow> Some (d_position d) | _ \<Rightarrow> None))"

definition admit :: "position option \<Rightarrow> position \<Rightarrow> upload_result" where
  "admit e p =
     (case e of None \<Rightarrow> Inr () | Some q \<Rightarrow> if p = q then Inr () else Inl (Position q))"

lemma check_start_position_admit:
  "rendezvous_inv s \<Longrightarrow> check_start_position s p = admit (expected_position s) p"
  by (cases "pending s"; cases "downloader_slot s")
    (simp_all add: rendezvous_inv_def check_start_position_def admit_def expected_position_def)

lemma admit_conflict:
  "admit e p = Inl err \<longleftrightarrow> (\<exists>q. err = Position q \<and> e = Some q \<and> p \<noteq> q)"
  by (auto simp: admit_def split: option.splits)

lemma admit_expected [simp]: "admit (Some q) q = Inr ()"
  by (simp add: admit_def)

lemma terminate_uploader_expected:
  "terminate_uploader s e = (s', es) \<Longrightarrow> expected_position s' = expected_position s"
  by (cases "pending s")
    (auto simp: terminate_uploader_def expected_position_def split: if_splits)

lemma clear_uploader_expected [simp]:
  "expected_position (s\<lparr>uploader_slot := u\<rparr>) = expected_position s"
  by (simp add: expected_position_def split: pending.split)

text \<open>The 409 protocol resumes: when the session refuses a start position, the error
  carries a position that the very same session accepts, both when it is only asked
  (\<open>CheckStartUpload\<close>) and when the upload starts there.\<close>

theorem conflict_position_is_accepted:
  assumes run: "run_session pb (initial_state i m) cs = (f, s, es)"
    and refused: "check_start_position s p = Inl e"
  shows "\<exists>q. e = Position q \<and> q \<noteq> p \<and> check_start_position s q = Inr ()"
  using reachable_rendezvous [OF run] refused
  by (auto simp: check_start_position_admit admit_conflict)

theorem conflict_position_is_accepted_witness:
  "\<exists>q. Position 5 = Position q \<and> q \<noteq> 0 \<and> check_start_position example_connected q = Inr ()"
  by (rule conflict_position_is_accepted [OF example_connected_run])
    (simp add: check_start_position_def example_connected_def initial_state_def)

text \<open>What \<open>start_upload\<close> answers, against the abstract view.\<close>

lemma start_upload_reply:
  assumes inv: "rendezvous_inv s" and su: "start_upload pb s t p w = (s', es)"
  shows "last es = Reply w (UploadReply (admit (expected_position s) p))"
    and "admit (expected_position s) p = Inr () \<Longrightarrow>
           uploader_slot s' = Some \<lparr>u_token = t, u_position = p\<rparr>"
    and "admit (expected_position s) p \<noteq> Inr () \<Longrightarrow> uploader_slot s' = None"
    and "expected_position s' = expected_position s"
proof -
  obtain s1 e1 where k: "(if uploader_slot s \<noteq> None then
      let (s', e) = terminate_uploader s ConnectionReplaced in (s'\<lparr>uploader_slot := None\<rparr>, e)
      else (s, [])) = (s1, e1)" by (metis surj_pair)
  have s1: "expected_position s1 = expected_position s" "uploader_slot s1 = None"
    using k terminate_uploader_expected
    by (auto split: if_splits prod.splits)
  have "rendezvous_inv (s'\<lparr>uploader_slot := None\<rparr>)" if "rendezvous_inv s'" for s' :: state
    using that by (cases "pending s'"; cases "downloader_slot s'") (auto simp: rendezvous_inv_def)
  then have "rendezvous_inv s1"
    using k inv by (auto split: if_splits prod.splits intro: terminate_uploader_rendezvous)
  note chk = check_start_position_admit [OF this, of p, unfolded s1]
  show "last es = Reply w (UploadReply (admit (expected_position s) p))"
    and "admit (expected_position s) p = Inr () \<Longrightarrow>
           uploader_slot s' = Some \<lparr>u_token = t, u_position = p\<rparr>"
    and "admit (expected_position s) p \<noteq> Inr () \<Longrightarrow> uploader_slot s' = None"
    using su k s1 chk by (auto simp: start_upload_def Let_def split: sum.splits)
  show "expected_position s' = expected_position s"
    using su k s1
    by (auto simp: start_upload_def Let_def expected_position_def
        split: sum.splits pending.splits)
qed

text \<open>C26: Asking is a faithful preview: in any reachable state \<open>CheckStartUpload\<close> leaves the
  session unchanged and answers what \<open>StartUpload\<close> would answer at the same position.\<close>

theorem check_start_previews_start:
  assumes run: "run_session pb (initial_state i m) cs = (f, s, es)"
  shows "handle pb s (CheckStartUpload p w) = (Continue (), s, [Reply w r]) \<longleftrightarrow>
         last (snd (snd (handle pb s (StartUpload t p w)))) = Reply w r"
proof -
  obtain s' e where su: "start_upload pb s t p w = (s', e)" by (cases "start_upload pb s t p w")
  show ?thesis
    using start_upload_reply(1) [OF reachable_rendezvous [OF run] su]
      check_start_position_admit [OF reachable_rendezvous [OF run], of p]
    by (auto simp: continue_def su)
qed

theorem check_start_previews_start_witness:
  "handle (\<lambda>_. []) example_connected (CheckStartUpload 0 3)
     = (Continue (), example_connected, [Reply 3 (UploadReply (Inl (Position 5)))]) \<longleftrightarrow>
   last (snd (snd (handle (\<lambda>_. []) example_connected (StartUpload 4 0 3))))
     = Reply 3 (UploadReply (Inl (Position 5)))"
  by (rule check_start_previews_start [OF example_connected_run])

subsection \<open>Held websocket frames\<close>

definition frames_inv :: "state \<Rightarrow> bool" where
  "frames_inv s =
     (\<forall>d\<in>{Upload, Download}. length (held_frames d s) \<le> MAX_HELD_FRAMES \<and>
        (websocket d s \<noteq> None \<longrightarrow> held_frames d s = []))"

lemma frames_invI:
  "(\<And>d. length (held_frames d s) \<le> MAX_HELD_FRAMES) \<Longrightarrow>
   (\<And>d. websocket d s \<noteq> None \<Longrightarrow> held_frames d s = []) \<Longrightarrow> frames_inv s"
  by (simp add: frames_inv_def)

lemma frames_invD:
  assumes "frames_inv s"
  shows "length (held_frames d s) \<le> MAX_HELD_FRAMES"
    and "websocket d s = Some p \<Longrightarrow> held_frames d s = []"
  using assms by (cases d; auto simp: frames_inv_def)+

lemma websocket_set_websocket [simp]:
  "websocket d (set_websocket d' w s) = (if d = d' then w else websocket d s)"
  "held_frames d (set_websocket d' w s) = held_frames d s"
  "websocket d (set_held_frames d' h s) = websocket d s"
  "held_frames d (set_held_frames d' h s) = (if d = d' then h else held_frames d s)"
  by (cases d; cases d';
      simp add: websocket_def set_websocket_def held_frames_def set_held_frames_def)+

lemma websocket_frame [simp]:
  "websocket d (s\<lparr>pending := x\<rparr>) = websocket d s"
  "websocket d (s\<lparr>downloader_slot := y\<rparr>) = websocket d s"
  "websocket d (s\<lparr>uploader_slot := z\<rparr>) = websocket d s"
  "held_frames d (s\<lparr>pending := x\<rparr>) = held_frames d s"
  "held_frames d (s\<lparr>downloader_slot := y\<rparr>) = held_frames d s"
  "held_frames d (s\<lparr>uploader_slot := z\<rparr>) = held_frames d s"
  by (simp_all add: websocket_def held_frames_def split: direction.splits)

text \<open>The content operations do not touch the websocket fields.\<close>

definition same_websockets :: "state \<Rightarrow> state \<Rightarrow> bool" where
  "same_websockets s s' =
     (\<forall>d. websocket d s' = websocket d s \<and> held_frames d s' = held_frames d s)"

lemma same_websockets_frames: "same_websockets s s' \<Longrightarrow> frames_inv s \<Longrightarrow> frames_inv s'"
  by (simp add: same_websockets_def frames_inv_def)

lemma content_ops_same_websockets:
  "start_download pb s d = (s', es) \<Longrightarrow> same_websockets s s'"
  "finish_download s w = (f, s', es) \<Longrightarrow> same_websockets s s'"
  "start_upload pb s t p w = (s', es) \<Longrightarrow> same_websockets s s'"
  "upload_data pb s t c w = (s', es) \<Longrightarrow> same_websockets s s'"
  "flush_upload s t w = (s', es) \<Longrightarrow> same_websockets s s'"
  by (auto simp: same_websockets_def start_download_def finish_download_def start_upload_def
      upload_data_def flush_upload_def terminate_uploader_def replace_downloader_def
      take_pending_def Let_def
      split: option.splits prod.splits if_splits pending.splits downloader_slot.splits
        sum.splits)

lemma start_websocket_frames [step_inv]:
  "frames_inv s \<Longrightarrow> start_websocket s d p = (s', es) \<Longrightarrow> frames_inv s'"
  by (auto simp: start_websocket_def Let_def intro!: frames_invI
      dest: frames_invD split: if_splits)

lemma relay_frame_frames [step_inv]:
  assumes "frames_inv s" and "relay_frame s d fr = (s', es)"
  shows "frames_inv s'"
proof (rule frames_invI)
  fix dir
  show "length (held_frames dir s') \<le> MAX_HELD_FRAMES"
    using assms(2) frames_invD(1) [OF assms(1), of dir]
    by (auto simp: relay_frame_def hold_frame_def Let_def split: option.splits if_splits)
  show "held_frames dir s' = []" if "websocket dir s' \<noteq> None"
    using assms(2) that frames_invD(2) [OF assms(1), of dir]
    by (auto simp: relay_frame_def hold_frame_def Let_def split: option.splits if_splits)
qed

lemma disconnected_frames [step_inv]:
  "frames_inv s \<Longrightarrow> disconnected s t p = (f, s') \<Longrightarrow> frames_inv s'"
  by (cases p; cases "downloader_slot s"; cases "pending s")
    (auto simp: disconnected_def Let_def intro!: frames_invI dest: frames_invD
        split: if_splits)

lemma handle_frames:
  assumes "handle pb s c = (f, s', es)" and "frames_inv s"
  shows "frames_inv s'"
  using assms
  by (cases rule: handle_cases)
    (auto intro: step_inv same_websockets_frames content_ops_same_websockets)

interpretation frames: machine_invariant "handle pb" frames_inv
  by unfold_locales (rule handle_frames)

text \<open>However many frames a peer sends to one that is not there, the session holds at
  most 64 of them, and none at all for a peer that is connected.\<close>

theorem held_frames_bounded:
  assumes "run_session pb (initial_state i m) cs = (f, s, es)"
  shows "length (held_frames d s) \<le> 64 \<and> (websocket d s \<noteq> None \<longrightarrow> held_frames d s = [])"
proof -
  have "frames_inv (initial_state i m)"
    by (rule frames_invI) (auto simp: initial_state_def held_frames_def websocket_def
        split: direction.splits)
  then have "frames_inv s"
    using assms frames.run_keeps unfolding run_session_def by blast
  from frames_invD [OF this, of d] show ?thesis by (auto simp: MAX_HELD_FRAMES_def)
qed

theorem held_frames_bounded_witness:
  "let (f, s, es) = run_session (\<lambda>_. []) (initial_state [7] ''meta'')
        [WebsocketData Download (TextFrame ''a''), WebsocketData Upload (TextFrame ''b''),
         StartWebsocket Upload \<lparr>wp_token = 1, wp_commands = 5\<rparr> 6]
   in length (held_frames Download s) = 1 \<and> length (held_frames Download s) \<le> 64 \<and>
      websocket Upload s \<noteq> None \<and> held_frames Upload s = []"
proof -
  let ?cs = "[WebsocketData Download (TextFrame ''a''), WebsocketData Upload (TextFrame ''b''),
    StartWebsocket Upload \<lparr>wp_token = 1, wp_commands = 5\<rparr> 6]"
  obtain f s es where r: "run_session (\<lambda>_. []) (initial_state [7] ''meta'') ?cs = (f, s, es)"
    by (cases "run_session (\<lambda>_. []) (initial_state [7] ''meta'') ?cs")
  have "websocket Upload s \<noteq> None" "length (held_frames Download s) = 1"
    using r by (auto simp: run_session_def initial_state_def relay_frame_def hold_frame_def
        continue_def other_direction_def websocket_def held_frames_def set_held_frames_def
        set_websocket_def start_websocket_def MAX_HELD_FRAMES_def Let_def)
  then show ?thesis
    using held_frames_bounded [OF r, of Upload] held_frames_bounded [OF r, of Download] r by simp
qed

end
