(* ===== verification/Relay_Session_Replies.thy ===== *)
theory Relay_Session_Replies
  imports Relay_Session_Inv "HOL-Library.Multiset"
begin

text \<open>
  Who is answered, and when. Every request to a session carries a oneshot reply; the
  session answers at once or keeps the reply with the chunk that waits for a downloader.
  The lemmas balance the replies an operation takes in, sends and keeps; the properties
  follow: no request is answered twice, a held upload is released by the next
  downloader, finishing a download ends the session, and stale peers change nothing.
\<close>

subsection \<open>Bookkeeping of replies\<close>

definition answered_by :: "effect \<Rightarrow> waiter list" where
  "answered_by e = (case e of Reply w r \<Rightarrow> [w] | _ \<Rightarrow> [])"

definition answered :: "effect list \<Rightarrow> waiter list" where
  "answered es = concat (map answered_by es)"

definition asked :: "command \<Rightarrow> waiter list" where
  "asked c =
     (case c of
        Metadata w \<Rightarrow> [w] | StartDownload d w \<Rightarrow> [w] | FinishDownload w \<Rightarrow> [w]
      | CheckStartUpload p w \<Rightarrow> [w] | StartUpload t p w \<Rightarrow> [w] | UploadData t ch w \<Rightarrow> [w]
      | FlushUpload t w \<Rightarrow> [w] | StartWebsocket d p w \<Rightarrow> [w]
      | WebsocketData d f \<Rightarrow> [] | DisconnectedCmd t p \<Rightarrow> [])"

definition waiting :: "state \<Rightarrow> waiter list" where
  "waiting s = (case pending s of PendingData c (Some w) p n \<Rightarrow> [w] | _ \<Rightarrow> [])"

text \<open>The reply that a flush replaces: the same uploader asked before and asks again.\<close>

definition superseded :: "state \<Rightarrow> command \<Rightarrow> waiter list" where
  "superseded s c =
     (case c of FlushUpload t w \<Rightarrow> if uploader_token s = Some t then waiting s else []
      | _ \<Rightarrow> [])"

lemma answered_simps [simp, effect_simps]:
  "answered [] = []"
  "answered (e # es) = answered_by e @ answered es"
  "answered (es @ es') = answered es @ answered es'"
  by (simp_all add: answered_def)

lemma answered_by_simps [simp, effect_simps]:
  "answered_by (Reply w r) = [w]"
  "answered_by (Event ch ev) = []"
  "answered_by (WsCommand k x) = []"
  by (simp_all add: answered_by_def)

lemma answered_ws_map [simp]: "answered (map (\<lambda>f. WsCommand k (WsSend f)) fs) = []"
  by (induction fs) simp_all

lemma answered_progress [simp, effect_simps]: "answered (send_upload_progress pb ws p) = []"
  by (simp add: send_upload_progress_def split: option.split)

lemma answered_reply_to [simp, effect_simps]:
  "answered (reply_to w r) = (case w of None \<Rightarrow> [] | Some w \<Rightarrow> [w])"
  by (simp add: reply_to_def split: option.split)

lemma waiting_simps [simp]:
  "pending s = NoPending \<Longrightarrow> waiting s = []"
  "pending s = PendingError e \<Longrightarrow> waiting s = []"
  "pending s = PendingData c w p n \<Longrightarrow> waiting s = (case w of None \<Rightarrow> [] | Some w \<Rightarrow> [w])"
  by (simp_all add: waiting_def split: option.split)

lemma start_download_balance:
  "start_download pb s d = (s', es) \<Longrightarrow> answered es = waiting s \<and> waiting s' = []"
  by (cases "pending s"; cases "downloader_slot s"; cases "uploader_slot s")
    (auto simp: start_download_def replace_downloader_def take_pending_def
        terminate_uploader_def Let_def split: if_splits)

lemma finish_download_balance:
  "finish_download s w = (f, s', es) \<Longrightarrow>
     mset (answered es) + mset (waiting s') = mset (waiting s) + {#w#}"
  by (cases "pending s"; cases "downloader_slot s"; cases "uploader_slot s")
    (auto simp: finish_download_def replace_downloader_def terminate_uploader_def Let_def
        split: if_splits option.splits)

lemma start_upload_balance:
  "start_upload pb s t p w = (s', es) \<Longrightarrow>
     mset (answered es) + mset (waiting s') = mset (waiting s) + {#w#}"
  by (cases "pending s"; cases "uploader_slot s")
    (auto simp: start_upload_def terminate_uploader_def Let_def
        split: if_splits sum.splits option.splits)

lemma upload_data_balance:
  "upload_data pb s t c w = (s', es) \<Longrightarrow>
     mset (answered es) + mset (waiting s') = mset (waiting s) + {#w#}"
  by (cases "pending s"; cases "downloader_slot s"; cases "uploader_slot s")
    (auto simp: upload_data_def Let_def split: if_splits option.splits)

lemma flush_upload_balance:
  "flush_upload s t w = (s', es) \<Longrightarrow>
     mset (answered es) + mset (waiting s')
       + mset (if uploader_token s = Some t then waiting s else [])
     = mset (waiting s) + {#w#}"
  by (cases "pending s") (auto simp: flush_upload_def split: if_splits option.splits)

lemma websocket_ops_waiting [simp]:
  "waiting (set_websocket d w s) = waiting s"
  "waiting (set_held_frames d h s) = waiting s"
  by (simp_all add: waiting_def)

lemma start_websocket_balance:
  "start_websocket s d p = (s', es) \<Longrightarrow> answered es = [] \<and> waiting s' = waiting s"
  by (auto simp: start_websocket_def Let_def split: option.splits if_splits)

lemma relay_frame_balance:
  "relay_frame s d fr = (s', es) \<Longrightarrow> answered es = [] \<and> waiting s' = waiting s"
  by (auto simp: relay_frame_def hold_frame_def Let_def split: option.splits if_splits)

lemma disconnected_balance: "disconnected s t p = (f, s') \<Longrightarrow> waiting s' = waiting s"
  by (cases "pending s"; cases "downloader_slot s"; cases p)
    (auto simp: disconnected_def Let_def split: if_splits option.splits)

lemmas balance =
  start_download_balance finish_download_balance start_upload_balance upload_data_balance
  flush_upload_balance start_websocket_balance relay_frame_balance disconnected_balance

text \<open>The balance of one step: taken in = answered + kept + superseded.\<close>

lemma handle_balance:
  assumes "handle pb s c = (f, s', es)"
  shows "mset (answered es) + mset (waiting s') + mset (superseded s c)
         = mset (waiting s) + mset (asked c)"
  using assms
  by (cases rule: handle_cases)
    (auto simp: asked_def superseded_def dest: balance)

lemma balance_chain:
  fixes A1 A2 W W1 W2 C D :: "'a multiset"
  assumes "A1 + W1 \<subseteq># W + C" and "A2 + W2 \<subseteq># W1 + D"
  shows "A1 + A2 + W2 \<subseteq># W + (C + D)"
proof (rule mset_subset_eqI)
  fix a
  show "count (A1 + A2 + W2) a \<le> count (W + (C + D)) a"
    using mset_subset_eq_count [OF assms(1), of a] mset_subset_eq_count [OF assms(2), of a]
    by simp
qed

lemma run_balance:
  "run_session pb s cs = (f, s', es) \<Longrightarrow>
     mset (answered es) + mset (waiting s') \<subseteq># mset (waiting s) + mset (concat (map asked cs))"
proof (induction cs arbitrary: s es)
  case Nil
  then show ?case by (simp add: run_session_def)
next
  case (Cons c cs)
  obtain f1 s1 es1 where st: "handle pb s c = (f1, s1, es1)" by (cases "handle pb s c")
  note b = handle_balance [OF st]
  show ?case
  proof (cases f1)
    case (Break u)
    with Cons.prems st have "s' = s1" "es = es1" by (auto simp: run_session_def)
    moreover have "mset (answered es1) + mset (waiting s1) \<subseteq># mset (waiting s) + mset (asked c)"
      unfolding b [symmetric] by simp
    ultimately show ?thesis by (auto intro: subset_mset.order_trans)
  next
    case (Continue u)
    with Cons.prems st obtain es2 where r: "run_session pb s1 cs = (f, s', es2)"
      and es: "es = es1 @ es2"
      by (auto simp: run_session_def split: prod.splits)
    have two: "mset (answered es2) + mset (waiting s')
        \<subseteq># mset (waiting s1) + mset (concat (map asked cs))"
      by (rule Cons.IH [OF r])
    have "mset (answered es1) + mset (waiting s1) \<subseteq># mset (waiting s) + mset (asked c)"
      unfolding b [symmetric] by simp
    from balance_chain [OF this two] show ?thesis by (simp add: es)
  qed
qed

text \<open>C20: No request is ever answered twice: over any run from a new session, with a
  distinct reply channel per request, the replies sent are distinct, and each one answers
  a request of the run.\<close>

theorem replies_at_most_once:
  assumes run: "run_session pb (initial_state i m) cs = (f, s', es)"
    and dist: "distinct (concat (map asked cs))"
  shows "distinct (answered es) \<and> set (answered es) \<subseteq> set (concat (map asked cs))"
proof -
  have "waiting (initial_state i m) = []" by (simp add: initial_state_def)
  then have sub: "mset (answered es) \<subseteq># mset (concat (map asked cs))"
    using run_balance [OF run] by simp (metis mset_subset_eq_add_left subset_mset.order_trans)
  have "distinct (answered es)"
    unfolding distinct_count_atmost_1
  proof
    fix w
    have "count (mset (answered es)) w \<le> count (mset (concat (map asked cs))) w"
      using sub by (rule mset_subset_eq_count)
    also have "\<dots> \<le> 1"
      using dist by (simp only: distinct_count_atmost_1) simp
    finally show "count (mset (answered es)) w = (if w \<in> set (answered es) then 1 else 0)"
      by (metis count_greater_zero_iff count_mset_0_iff le_antisym less_one not_le
          set_mset_mset)
  qed
  moreover have "set (answered es) \<subseteq> set (concat (map asked cs))"
    using set_mset_mono [OF sub] by simp
  ultimately show ?thesis by blast
qed

theorem replies_at_most_once_witness:
  "distinct (answered [Reply 0 UnitReply, Reply 1 (UploadReply (Inr ()))]) \<and>
   set (answered [Reply 0 UnitReply, Reply 1 (UploadReply (Inr ()))])
     \<subseteq> set (concat (map asked
          [StartDownload \<lparr>d_token = 2, d_position = 5, d_events = 7\<rparr> 0, StartUpload 1 5 1]))"
  by (rule replies_at_most_once [OF example_connected_run]) (simp add: asked_def)

text \<open>C21: Every request is answered at once or kept: after one step the reply of the handled
  command has been sent, or it is the one the session now holds with its chunk; and a
  reply that was held before is sent, still held, or replaced by the same uploader's own
  later flush. None is forgotten.\<close>

theorem no_reply_forgotten:
  assumes "handle pb s c = (f, s', es)"
  shows "set (asked c) \<union> set (waiting s)
         = set (answered es) \<union> set (waiting s') \<union> set (superseded s c)"
proof -
  have "set_mset (mset (answered es) + mset (waiting s') + mset (superseded s c))
      = set_mset (mset (waiting s) + mset (asked c))"
    using handle_balance [OF assms] by simp
  then show ?thesis by auto
qed

definition example_held :: state where
  "example_held =
     (initial_state [1] ''m'')
       \<lparr>uploader_slot := Some \<lparr>u_token = 1, u_position = 2\<rparr>,
        pending := PendingData (MoreChunk [10, 11]) (Some 3) 0 2\<rparr>"

lemma example_held_flush:
  "handle (\<lambda>_. []) example_held (FlushUpload 1 4)
   = (Continue (),
      example_held\<lparr>pending := PendingData (MoreChunk [10, 11]) (Some 4) 0 2\<rparr>, [])"
  by (simp add: example_held_def initial_state_def continue_def flush_upload_def
      uploader_token_def)

theorem no_reply_forgotten_witness:
  "set (asked (FlushUpload 1 4)) \<union> set (waiting example_held)
   = set (answered [])
     \<union> set (waiting (example_held\<lparr>pending := PendingData (MoreChunk [10, 11]) (Some 4) 0 2\<rparr>))
     \<union> set (superseded example_held (FlushUpload 1 4))"
  by (rule no_reply_forgotten [OF example_held_flush])

subsection \<open>A held chunk is released by the next downloader\<close>

text \<open>A chunk held for a downloader is released by the next \<open>StartDownload\<close>: at the
  chunk's position the downloader gets the chunk and its uploader \<open>Ok\<close>; anywhere else
  the chunk is dropped and its uploader told the position to resume from. Afterwards
  nothing is held and the downloader is connected, behind the chunk or where it asked.\<close>

theorem start_download_releases_held_chunk:
  assumes held: "pending s = PendingData c (Some w) p n"
    and step: "handle pb s (StartDownload d r) = (f, s', es)"
  shows "f = Continue () \<and> waiting s' = [] \<and>
    (if d_position d = p
     then Event (d_events d) (into_event c) \<in> set es \<and> Reply w (UploadReply (Inr ())) \<in> set es
          \<and> downloader_slot s' = Connected (d\<lparr>d_position := p + n\<rparr>)
     else Reply w (UploadReply (Inl (Position (d_position d)))) \<in> set es
          \<and> (\<forall>ev. Event (d_events d) ev \<in> set es \<longrightarrow> ev = ReplacedEvent)
          \<and> downloader_slot s' = Connected d)"
  using assms
  by (cases "downloader_slot s"; cases "uploader_slot s"; cases "uploader_ws s")
    (auto simp: start_download_def replace_downloader_def take_pending_def
        terminate_uploader_def reply_to_def send_upload_progress_def Let_def
        split: if_splits)

definition example_released :: "flow \<times> state \<times> effect list" where
  "example_released =
     handle (\<lambda>_. []) example_held
       (StartDownload \<lparr>d_token = 2, d_position = 0, d_events = 7\<rparr> 5)"

theorem start_download_releases_held_chunk_witness:
  "waiting (fst (snd example_released)) = [] \<and>
   Event 7 (MoreEvent [10, 11]) \<in> set (snd (snd example_released)) \<and>
   Reply 3 (UploadReply (Inr ())) \<in> set (snd (snd example_released))"
proof -
  have held: "pending example_held = PendingData (MoreChunk [10, 11]) (Some 3) 0 2"
    by (simp add: example_held_def)
  have "handle (\<lambda>_. []) example_held
      (StartDownload \<lparr>d_token = 2, d_position = 0, d_events = 7\<rparr> 5)
    = (fst example_released, fst (snd example_released), snd (snd example_released))"
    by (simp add: example_released_def)
  from start_download_releases_held_chunk [OF held this] show ?thesis
    by (simp add: into_event_def)
qed

subsection \<open>Finishing a download ends the session\<close>

lemma finish_download_outcome:
  assumes "finish_download s w = (f, s', es)"
  shows "downloader_slot s' = DownloadFinished"
    and "Reply w (reply.UnitReply) \<in> set es"
    and "f = Break () \<longleftrightarrow> uploader_slot s' = None"
    and "uploader_slot s' = Some u \<Longrightarrow> uploader_slot s = Some u \<and> pending s' = PendingError Finished"
  using assms
  by (cases "pending s"; cases "downloader_slot s"; cases "uploader_slot s";
      auto simp: finish_download_def replace_downloader_def terminate_uploader_def Let_def
        split: if_splits)+

text \<open>
  A session that is finishing: the download is over and an uploader is still connected. It stays
  so until that uploader leaves or a transfer starts anew.
\<close>

definition finishing :: "uploader \<Rightarrow> state \<Rightarrow> bool" where
  "finishing u s =
     (downloader_slot s = DownloadFinished \<and> uploader_slot s = Some u \<and> pending s = PendingError Finished)"

definition waits_out :: "uploader \<Rightarrow> command \<Rightarrow> bool" where
  "waits_out u c =
     (case c of
        StartDownload _ _ \<Rightarrow> False
      | StartUpload _ _ _ \<Rightarrow> False
      | DisconnectedCmd t UploaderPeer \<Rightarrow> t \<noteq> u_token u
      | _ \<Rightarrow> True)"

definition calls_of :: "uploader \<Rightarrow> command list \<Rightarrow> waiter set" where
  "calls_of u cs = {w. FlushUpload (u_token u) w \<in> set cs \<or> (\<exists>c. UploadData (u_token u) c w \<in> set cs)}"

lemma calls_of_Cons:
  "calls_of u (c # cs) = calls_of u [c] \<union> calls_of u cs"
  by (auto simp: calls_of_def)

lemma finishing_step:
  assumes "finishing u s" and "waits_out u c"
  shows "\<exists>s' es. handle pb s c = (Continue (), s', es) \<and> finishing u s' \<and>
    (\<forall>w\<in>calls_of u [c]. Reply w (UploadReply (Inl Finished)) \<in> set es)"
proof (cases c)
  case (FinishDownload w)
  then show ?thesis
    using assms(1)
    by (simp add: finish_download_def replace_downloader_def terminate_uploader_def finishing_def calls_of_def)
next
  case (UploadData t ch w)
  then show ?thesis
    using assms(1) by (simp add: upload_data_def continue_def finishing_def calls_of_def)
next
  case (FlushUpload t w)
  then show ?thesis
    using assms(1) by (simp add: flush_upload_def continue_def uploader_token_def finishing_def calls_of_def)
next
  case (StartWebsocket d p w)
  then show ?thesis
    using assms(1)
    by (cases d) (simp_all add: start_websocket_def set_websocket_def set_held_frames_def finishing_def calls_of_def Let_def)
next
  case (WebsocketData d fr)
  then show ?thesis
    using assms(1)
    by (cases d)
      (auto simp: relay_frame_def other_direction_def hold_frame_def set_held_frames_def continue_def finishing_def
        calls_of_def Let_def split: option.split)
next
  case (DisconnectedCmd t p)
  then show ?thesis
    using assms
    by (cases p)
      (auto simp: disconnected_def set_websocket_def uploader_token_def finishing_def waits_out_def calls_of_def
        split: direction.split)
qed (use assms in \<open>auto simp: finishing_def waits_out_def calls_of_def\<close>)

lemma finishing_run:
  "finishing u s \<Longrightarrow> list_all (waits_out u) cs \<Longrightarrow>
   \<exists>s' es. run_session pb s cs = (Continue (), s', es) \<and> finishing u s' \<and>
     (\<forall>w\<in>calls_of u cs. Reply w (UploadReply (Inl Finished)) \<in> set es)"
proof (induction cs arbitrary: s)
  case Nil
  then show ?case by (auto simp: run_session_def calls_of_def)
next
  case (Cons c cs)
  obtain s1 es1 where 1: "handle pb s c = (Continue (), s1, es1)" "finishing u s1"
    "\<forall>w\<in>calls_of u [c]. Reply w (UploadReply (Inl Finished)) \<in> set es1"
    using finishing_step [OF Cons.prems(1), of c pb] Cons.prems(2) by auto
  obtain s2 es2 where 2: "run_session pb s1 cs = (Continue (), s2, es2)" "finishing u s2"
    "\<forall>w\<in>calls_of u cs. Reply w (UploadReply (Inl Finished)) \<in> set es2"
    using Cons.IH [OF 1(2)] Cons.prems(2) by auto
  have "run_session pb s (c # cs) = (Continue (), s2, es1 @ es2)"
    using 1(1) 2(1) by (simp add: run_session_def)
  then show ?case using 1(3) 2(2,3) by (auto simp: calls_of_Cons [of u c cs])
qed

lemma finishing_leave:
  "finishing u s \<Longrightarrow> fst (handle pb s (DisconnectedCmd (u_token u) UploaderPeer)) = Break ()"
  by (simp add: disconnected_def uploader_token_def finishing_def Let_def)

text \<open>C22: \<open>FinishDownload\<close> is answered, and it ends the session. If no uploader is left connected,
  the session ends at once. Otherwise it waits for the connected one: whatever commands come
  then, unless they start a download or an upload anew, the session goes on while that uploader
  stays, answers \<open>Finished\<close> to everything it sends or flushes, and ends when it disconnects.\<close>

theorem finish_download_ends_session:
  assumes "handle pb s (FinishDownload w) = (f, s', es)"
  shows "Reply w UnitReply \<in> set es \<and>
    (case uploader_slot s' of
       None \<Rightarrow> f = Break ()
     | Some u \<Rightarrow>
         f = Continue () \<and>
         (\<forall>cs. list_all (waits_out u) cs \<longrightarrow>
            (\<exists>s'' es''. run_session pb s' cs = (Continue (), s'', es'') \<and> uploader_slot s'' = Some u \<and>
               (\<forall>w'\<in>calls_of u cs. Reply w' (UploadReply (Inl Finished)) \<in> set es'') \<and>
               fst (handle pb s'' (DisconnectedCmd (u_token u) UploaderPeer)) = Break ())))"
proof -
  have fd: "finish_download s w = (f, s', es)" using assms by simp
  note o = finish_download_outcome [OF fd]
  show ?thesis
  proof (cases "uploader_slot s'")
    case None
    with o show ?thesis by simp
  next
    case (Some u)
    have "finishing u s'" using o(1,4) Some by (simp add: finishing_def)
    then have run: "\<exists>s'' es''. run_session pb s' cs = (Continue (), s'', es'') \<and> uploader_slot s'' = Some u \<and>
        (\<forall>w'\<in>calls_of u cs. Reply w' (UploadReply (Inl Finished)) \<in> set es'') \<and>
        fst (handle pb s'' (DisconnectedCmd (u_token u) UploaderPeer)) = Break ()"
      if "list_all (waits_out u) cs" for cs
      using finishing_run [OF _ that] finishing_leave by (fastforce simp: finishing_def)
    have "f = Continue ()" using o(3) Some by (cases f) auto
    then show ?thesis using o(2) Some run by simp
  qed
qed

theorem finish_download_ends_session_witness:
  "\<exists>s'' es''. run_session (\<lambda>_. []) ((initial_state [1] ''m'')\<lparr>downloader_slot := DownloadFinished,
       uploader_slot := Some \<lparr>u_token = 1, u_position = 0\<rparr>, pending := PendingError Finished\<rparr>)
     [UploadData 1 (MoreChunk []) 7, CheckStartUpload 3 8, DisconnectedCmd 2 UploaderPeer, FlushUpload 1 9]
   = (Continue (), s'', es'') \<and>
   Reply 7 (UploadReply (Inl Finished)) \<in> set es'' \<and> Reply 9 (UploadReply (Inl Finished)) \<in> set es''"
proof -
  let ?cs = "[UploadData 1 (MoreChunk []) 7, CheckStartUpload 3 8, DisconnectedCmd 2 UploaderPeer, FlushUpload 1 9]"
  let ?u = "\<lparr>u_token = 1, u_position = 0\<rparr>"
  let ?s = "(initial_state [1] ''m'')\<lparr>downloader_slot := DownloadFinished, uploader_slot := Some ?u,
    pending := PendingError Finished\<rparr>"
  have h: "handle (\<lambda>_. []) ((initial_state [1] ''m'')\<lparr>uploader_slot := Some ?u\<rparr>) (FinishDownload 6)
      = (Continue (), ?s, [Reply 6 UnitReply])"
    by (simp add: finish_download_def replace_downloader_def terminate_uploader_def initial_state_def)
  have u: "uploader_slot ?s = Some ?u" by simp
  have "list_all (waits_out ?u) ?cs" by (simp add: waits_out_def)
  then obtain s'' es'' where "run_session (\<lambda>_. []) ?s ?cs = (Continue (), s'', es'')"
    "\<forall>w'\<in>calls_of ?u ?cs. Reply w' (UploadReply (Inl Finished)) \<in> set es''"
    using finish_download_ends_session [OF h, unfolded u option.case] by blast
  moreover have "7 \<in> calls_of ?u ?cs" "9 \<in> calls_of ?u ?cs" by (auto simp: calls_of_def)
  ultimately show ?thesis by blast
qed

subsection \<open>Replaced peers change nothing\<close>

text \<open>A connection that was replaced cannot disturb its successor: content sent with a
  token that is not the current uploader's is refused, and the disconnection of a
  downloader, uploader or websocket that is not the current one changes nothing.\<close>

theorem stale_peers_change_nothing:
  "(uploader_token s \<noteq> Some t \<longrightarrow>
      handle pb s (UploadData t c w)
        = (Continue (), s, [Reply w (UploadReply (Inl ConnectionReplaced))]) \<and>
      handle pb s (FlushUpload t w)
        = (Continue (), s, [Reply w (UploadReply (Inl ConnectionReplaced))]) \<and>
      handle pb s (DisconnectedCmd t UploaderPeer) = (Continue (), s, []))
   \<and> ((\<forall>d. downloader_slot s = Connected d \<longrightarrow> d_token d \<noteq> t) \<longrightarrow>
      handle pb s (DisconnectedCmd t (DownloaderPeer b)) = (Continue (), s, []))
   \<and> (map_option wp_token (websocket dir s) \<noteq> Some t \<longrightarrow>
      handle pb s (DisconnectedCmd t (WebsocketPeer dir)) = (Continue (), s, []))"
  by (auto simp: continue_def upload_data_def flush_upload_def uploader_token_def
      disconnected_def split: option.splits downloader_slot.splits)

theorem stale_peers_change_nothing_witness:
  "handle (\<lambda>_. []) example_held (UploadData 9 (MoreChunk [1]) 5)
     = (Continue (), example_held, [Reply 5 (UploadReply (Inl ConnectionReplaced))]) \<and>
   handle (\<lambda>_. []) example_held (DisconnectedCmd 9 UploaderPeer)
     = (Continue (), example_held, [])"
  using stale_peers_change_nothing [of example_held 9 "\<lambda>_. []" "MoreChunk [1]" 5]
  by (simp add: example_held_def uploader_token_def)

end
