(* ===== verification/Relay_Session_Pipe.thy ===== *)
theory Relay_Session_Pipe
  imports Relay_Session_Inv
begin

text \<open>
  The session as a pipe. The relay stores nothing and holds at most one chunk, yet
  uploaders and downloaders come and go and resume at positions of their own. The main
  result: if every uploader sends the bytes of one content \<open>F\<close> from the position the
  session gave it, then every downloader receives a prefix of \<open>F\<close> from the position it
  asked for, in order and without gap or repetition, and one that is told the content is
  complete has received all of the rest of it.
\<close>

subsection \<open>What a downloader's channel receives\<close>

definition event_bytes :: "chan \<Rightarrow> effect \<Rightarrow> bytes" where
  "event_bytes ch e =
     (case e of
        Event k ev \<Rightarrow>
          if k = ch then (case ev of MoreEvent b \<Rightarrow> b | FinalEvent b \<Rightarrow> b | ReplacedEvent \<Rightarrow> [])
          else []
      | _ \<Rightarrow> [])"

definition delivered :: "chan \<Rightarrow> effect list \<Rightarrow> bytes" where
  "delivered ch es = concat (map (event_bytes ch) es)"

definition final_sent :: "chan \<Rightarrow> effect list \<Rightarrow> bool" where
  "final_sent ch es =
     list_ex (\<lambda>e. case e of Event k (FinalEvent b) \<Rightarrow> k = ch | _ \<Rightarrow> False) es"

lemma delivered_simps [simp, effect_simps]:
  "delivered ch [] = []"
  "delivered ch (e # es) = event_bytes ch e @ delivered ch es"
  "delivered ch (es @ es') = delivered ch es @ delivered ch es'"
  by (simp_all add: delivered_def)

lemma final_sent_simps [simp, effect_simps]:
  "\<not> final_sent ch []"
  "final_sent ch (e # es) =
     ((case e of Event k (FinalEvent b) \<Rightarrow> k = ch | _ \<Rightarrow> False) \<or> final_sent ch es)"
  "final_sent ch (es @ es') = (final_sent ch es \<or> final_sent ch es')"
  by (simp_all add: final_sent_def)

lemma event_bytes_simps [simp, effect_simps]:
  "event_bytes ch (Reply w r) = []"
  "event_bytes ch (WsCommand k x) = []"
  "event_bytes ch (Event k ReplacedEvent) = []"
  "event_bytes ch (Event k (into_event c)) = (if k = ch then chunk_data c else [])"
  by (simp_all add: event_bytes_def into_event_def chunk_data_def split: chunk.split)

lemma final_into_event [simp]:
  "(case into_event c of FinalEvent b \<Rightarrow> k = ch | _ \<Rightarrow> False)
     = (k = ch \<and> (\<exists>b. c = FinalChunk b))"
  by (simp add: into_event_def split: chunk.split)

text \<open>Effects that carry no content.\<close>

definition silent :: "effect list \<Rightarrow> bool" where
  "silent es = (\<forall>ch. delivered ch es = [] \<and> \<not> final_sent ch es)"

lemma silent_simps [simp, effect_simps]:
  "silent []"
  "silent (es @ es') = (silent es \<and> silent es')"
  "silent (Reply w r # es) = silent es"
  "silent (WsCommand k x # es) = silent es"
  "silent (Event k ReplacedEvent # es) = silent es"
  by (auto simp: silent_def)

lemma silent_progress [simp]: "silent (send_upload_progress pb ws p)"
  by (simp add: send_upload_progress_def split: option.split)

lemma silent_reply_to [simp]: "silent (reply_to w r)"
  by (simp add: reply_to_def split: option.split)

lemma silent_ws_map [simp]: "silent (map (\<lambda>f. WsCommand k (WsSend f)) fs)"
  by (induction fs) simp_all

lemma silentD [simp]:
  "silent es \<Longrightarrow> delivered ch es = []" "silent es \<Longrightarrow> \<not> final_sent ch es"
  by (simp_all add: silent_def)

subsection \<open>Uploaders that send one content\<close>

text \<open>
  \<open>honest_chunk F p c\<close>: the chunk is the content's bytes at \<open>p\<close>, and it is only marked
  final when it reaches the end. \<open>honest_command\<close> asks this of the chunks the session would
  accept, those sent with the current uploader's token.
\<close>

definition honest_chunk :: "bytes \<Rightarrow> position \<Rightarrow> chunk \<Rightarrow> bool" where
  "honest_chunk F p c =
     (prefix (chunk_data c) (drop (unat p) F) \<and>
      (case c of FinalChunk b \<Rightarrow> unat p + length b = length F | _ \<Rightarrow> True))"

definition honest_command :: "bytes \<Rightarrow> state \<Rightarrow> command \<Rightarrow> bool" where
  "honest_command F s c =
     (case c of
        UploadData t ch w \<Rightarrow>
          (case uploader_slot s of
             Some u \<Rightarrow> u_token u = t \<longrightarrow> honest_chunk F (u_position u) ch
           | None \<Rightarrow> True)
      | _ \<Rightarrow> True)"

lemma chunk_len_data: "chunk_len c = len64 (chunk_data c)"
  by (simp add: chunk_len_def chunk_data_def split: chunk.split)

lemma honest_chunk_position:
  assumes "honest_chunk F p c" and "length F < 2 ^ 64"
  shows "unat (p + chunk_len c) = unat p + length (chunk_data c)"
proof -
  have "unat p < 2 ^ 64" by (rule unat_u64)
  moreover have "chunk_data c = [] \<or> unat p + length (chunk_data c) \<le> length F"
    using assms(1) by (auto simp: honest_chunk_def dest: prefix_drop_length)
  ultimately have "unat p + length (chunk_data c) < 2 ^ 64" using assms(2) by auto
  then show ?thesis by (simp add: chunk_len_data unat_add_len64)
qed

subsection \<open>The pipe invariant\<close>

text \<open>
  \<open>st\<close> records the position each started channel asked for, \<open>log\<close> all effects so far.
\<close>

definition channel_ok :: "bytes \<Rightarrow> nat option \<Rightarrow> bytes \<Rightarrow> bool \<Rightarrow> bool" where
  "channel_ok F start got complete =
     (case start of
        None \<Rightarrow> got = [] \<and> \<not> complete
      | Some q \<Rightarrow> prefix got (drop q F) \<and> (complete \<longrightarrow> got = drop q F))"

definition channels_ok :: "bytes \<Rightarrow> (chan \<rightharpoonup> nat) \<Rightarrow> effect list \<Rightarrow> bool" where
  "channels_ok F st log =
     (\<forall>ch. channel_ok F (st ch) (delivered ch log) (final_sent ch log))"

definition at_position :: "(chan \<rightharpoonup> nat) \<Rightarrow> effect list \<Rightarrow> downloader \<Rightarrow> bool" where
  "at_position st log d =
     (\<exists>q. st (d_events d) = Some q \<and>
          unat (d_position d) = q + length (delivered (d_events d) log))"

definition pipe_inv :: "bytes \<Rightarrow> (chan \<rightharpoonup> nat) \<Rightarrow> effect list \<Rightarrow> state \<Rightarrow> bool" where
  "pipe_inv F st log s =
     (channels_ok F st log \<and>
      (\<forall>d. downloader_slot s = Connected d \<longrightarrow> at_position st log d) \<and>
      (\<forall>c w p n. pending s = PendingData c w p n \<longrightarrow> honest_chunk F p c))"

definition note_start :: "(chan \<rightharpoonup> nat) \<Rightarrow> command \<Rightarrow> (chan \<rightharpoonup> nat)" where
  "note_start st c =
     (case c of StartDownload d w \<Rightarrow> st(d_events d \<mapsto> unat (d_position d)) | _ \<Rightarrow> st)"

lemma channels_ok_silent [simp]: "silent es \<Longrightarrow> channels_ok F st (log @ es) = channels_ok F st log"
  by (simp add: channels_ok_def)

lemma at_position_silent [simp]: "silent es \<Longrightarrow> at_position st (log @ es) d = at_position st log d"
  by (simp add: at_position_def)

text \<open>One chunk delivered to one channel.\<close>

lemma deliver_chunk:
  assumes pos: "unat p = q + length got"
    and ok: "channel_ok F (Some q) got complete"
    and hon: "honest_chunk F p c"
  shows "channel_ok F (Some q) (got @ chunk_data c) (complete \<or> (\<exists>b. c = FinalChunk b))"
proof -
  from ok have pre: "prefix got (drop q F)" by (simp add: channel_ok_def)
  moreover have "prefix (chunk_data c) (drop (q + length got) F)"
    using hon pos by (simp add: honest_chunk_def)
  ultimately have pre': "prefix (got @ chunk_data c) (drop q F)"
    by (rule prefix_drop_append)
  then obtain r where r: "drop q F = (got @ chunk_data c) @ r" by (auto simp: prefix_def)
  have "r = []" if "complete"
    using ok that r by (auto simp: channel_ok_def)
  moreover have "r = []" if "c = FinalChunk b" for b
  proof -
    have "q + length got + length (chunk_data c) = length F"
      using hon pos that by (simp add: honest_chunk_def chunk_data_def)
    moreover have "length (drop q F) = length got + length (chunk_data c) + length r"
      by (simp add: r)
    ultimately have "length r = 0" by (simp del: length_0_conv)
    then show "r = []" by simp
  qed
  ultimately show ?thesis
    using pre' r by (auto simp: channel_ok_def)
qed

lemma channels_ok_deliver:
  assumes ok: "channels_ok F st log" and at: "at_position st log d"
    and hon: "honest_chunk F (d_position d) c" and len: "length F < 2 ^ 64"
    and sil: "silent e1" "silent e2"
  defines "log' \<equiv> log @ e1 @ [Event (d_events d) (into_event c)] @ e2"
  shows "channels_ok F st log'"
    and "at_position st log' (d\<lparr>d_position := d_position d + chunk_len c\<rparr>)"
proof -
  obtain q where q: "st (d_events d) = Some q"
    "unat (d_position d) = q + length (delivered (d_events d) log)"
    using at by (auto simp: at_position_def)
  have "channel_ok F (Some q) (delivered (d_events d) log) (final_sent (d_events d) log)"
    using ok q(1) by (metis channels_ok_def)
  from deliver_chunk [OF q(2) this hon]
  show "channels_ok F st log'"
    using ok sil q(1) by (auto simp: channels_ok_def log'_def)
  show "at_position st log' (d\<lparr>d_position := d_position d + chunk_len c\<rparr>)"
    using q sil honest_chunk_position [OF hon len] by (simp add: at_position_def log'_def)
qed

lemma channels_ok_start:
  assumes "channels_ok F st log" and "st ch = None"
  shows "channels_ok F (st(ch \<mapsto> q)) log"
proof -
  have "channel_ok F None (delivered ch log) (final_sent ch log)"
    using assms by (metis channels_ok_def)
  then show ?thesis using assms(1) by (auto simp: channels_ok_def channel_ok_def)
qed

lemma at_position_start:
  assumes "channels_ok F st log" and "st (d_events d) = None"
  shows "at_position (st(d_events d \<mapsto> unat (d_position d))) log d"
proof -
  have "channel_ok F None (delivered (d_events d) log) (final_sent (d_events d) log)"
    using assms by (metis channels_ok_def)
  then show ?thesis by (simp add: at_position_def channel_ok_def)
qed

subsection \<open>Every operation keeps the pipe\<close>

lemma terminate_uploader_pipe:
  assumes "terminate_uploader s e = (s', es)"
  shows "silent es" and "downloader_slot s' = downloader_slot s"
    and "\<forall>c w p n. pending s' = PendingData c w p n \<longrightarrow> (\<exists>w'. pending s = PendingData c w' p n)"
  using assms by (auto simp: terminate_uploader_def split: if_splits pending.splits)

lemma replace_downloader_pipe:
  assumes "replace_downloader x s = (s', es)"
  shows "silent es" and "downloader_slot s' = x" and "pending s' = pending s"
    and "uploader_slot s' = uploader_slot s"
  using assms by (auto simp: replace_downloader_def split: downloader_slot.splits)

lemma take_pending_pipe:
  assumes ok: "channels_ok F st log" and at: "at_position st log d"
    and hon: "\<forall>c w p n. pending s = PendingData c w p n \<longrightarrow>
                honest_chunk F p c \<and> n = chunk_len c"
    and len: "length F < 2 ^ 64"
    and tp: "take_pending pb d s = (d', s', es)"
  shows "channels_ok F st (log @ es)" and "at_position st (log @ es) d'"
    and "pending s' = NoPending"
proof -
  have "channels_ok F st (log @ es) \<and> at_position st (log @ es) d' \<and> pending s' = NoPending"
  proof (cases "\<exists>c w n. pending s = PendingData c w (d_position d) n")
    case True
    then obtain c w n where p: "pending s = PendingData c w (d_position d) n" by blast
    with hon have h: "honest_chunk F (d_position d) c" and n: "n = chunk_len c" by auto
    from channels_ok_deliver [OF ok at h len, of "[]"]
    show ?thesis using tp p n by (auto simp: take_pending_def)
  next
    case False
    then show ?thesis
      using tp ok at by (auto simp: take_pending_def split: pending.splits if_splits)
  qed
  then show "channels_ok F st (log @ es)" and "at_position st (log @ es) d'"
    and "pending s' = NoPending" by simp_all
qed

lemma start_download_pipe:
  assumes inv: "pipe_inv F st log s" and rv: "rendezvous_inv s"
    and fresh: "st (d_events d) = None" and len: "length F < 2 ^ 64"
    and sd: "start_download pb s d = (s', es)"
  shows "pipe_inv F (st(d_events d \<mapsto> unat (d_position d))) (log @ es) s'"
proof -
  let ?st = "st(d_events d \<mapsto> unat (d_position d))"
  obtain s1 e1 where r: "replace_downloader Disconnected s = (s1, e1)"
    by (cases "replace_downloader Disconnected s")
  obtain d' s2 e2 where t: "take_pending pb d s1 = (d', s2, e2)"
    by (cases "take_pending pb d s1")
  note r1 = replace_downloader_pipe [OF r]
  have ok: "channels_ok F ?st (log @ e1)" and at: "at_position ?st (log @ e1) d"
    using inv fresh r1(1)
    by (simp_all add: pipe_inv_def channels_ok_start at_position_start [of F])
  have hon: "\<forall>c w p n. pending s1 = PendingData c w p n \<longrightarrow>
      honest_chunk F p c \<and> n = chunk_len c"
    using inv rv r1(3) unfolding pipe_inv_def rendezvous_inv_def
    by (cases "downloader_slot s") auto
  note t1 = take_pending_pipe [OF ok at hon len t]
  obtain s3 e3 where x: "(case uploader_slot s2 of
      Some u \<Rightarrow> if u_position u \<noteq> d_position d'
        then terminate_uploader s2 (Position (d_position d')) else (s2, [])
    | None \<Rightarrow> (s2, [])) = (s3, e3)" by (metis surj_pair)
  have e3: "silent e3" and p3: "\<forall>c w p n. pending s3 \<noteq> PendingData c w p n"
    using x t1(3) terminate_uploader_pipe [of s2 "Position (d_position d')" s3 e3]
    by (auto split: option.splits if_splits)
  have "s' = s3\<lparr>downloader_slot := Connected d'\<rparr>" "es = e1 @ e2 @ e3"
    using sd r t x by (auto simp: start_download_def Let_def)
  then show ?thesis
    using t1(1,2) e3 p3 by (auto simp: pipe_inv_def simp flip: append_assoc)
qed

lemma upload_data_pipe:
  assumes inv: "pipe_inv F st log s" and rv: "rendezvous_inv s"
    and hon: "honest_command F s (UploadData t c w)" and len: "length F < 2 ^ 64"
    and ud: "upload_data pb s t c w = (s', es)"
  shows "pipe_inv F st (log @ es) s'"
proof (cases "\<exists>u. uploader_slot s = Some u \<and> u_token u = t \<and> pending s = NoPending")
  case False
  then have "s' = s \<and> silent es"
    using ud by (auto simp: upload_data_def split: option.splits if_splits pending.splits)
  with inv show ?thesis by (simp add: pipe_inv_def)
next
  case True
  then obtain u where u: "uploader_slot s = Some u" "u_token u = t" "pending s = NoPending"
    by blast
  with hon have h: "honest_chunk F (u_position u) c" by (simp add: honest_command_def)
  show ?thesis
  proof (cases "downloader_slot s")
    case (Connected d)
    with rv u have pos: "u_position u = d_position d" by (simp add: rendezvous_inv_def)
    have "channels_ok F st log" "at_position st log d"
      using inv Connected by (simp_all add: pipe_inv_def)
    from channels_ok_deliver [OF this h [unfolded pos] len, of "[]"
        "send_upload_progress pb (uploader_ws s) (d_position d + chunk_len c)
         @ [Reply w (UploadReply (Inr ()))]"]
    show ?thesis
      using ud u Connected pos by (auto simp: upload_data_def pipe_inv_def Let_def)
  qed (use inv ud u h in \<open>auto simp: upload_data_def pipe_inv_def Let_def\<close>)
qed

lemma pipe_inv_silent:
  assumes "pipe_inv F st log s" and "silent es"
    and "\<forall>d. downloader_slot s' = Connected d \<longrightarrow> downloader_slot s = Connected d"
    and "\<forall>c w p n. pending s' = PendingData c w p n \<longrightarrow> (\<exists>w'. pending s = PendingData c w' p n)"
  shows "pipe_inv F st (log @ es) s'"
  using assms by (fastforce simp: pipe_inv_def)

lemma finish_download_silent:
  assumes fd: "finish_download s w = (f, s', es)"
  shows "silent es" and "\<forall>d. downloader_slot s' \<noteq> Connected d"
    and "\<forall>c w p n. pending s' = PendingData c w p n \<longrightarrow> (\<exists>w'. pending s = PendingData c w' p n)"
proof -
  obtain s1 e1 where r: "replace_downloader DownloadFinished s = (s1, e1)"
    by (cases "replace_downloader DownloadFinished s")
  obtain s2 e2 where t: "terminate_uploader s1 Finished = (s2, e2)"
    by (cases "terminate_uploader s1 Finished")
  have "s' = s2" "es = e1 @ e2 @ [Reply w UnitReply]"
    using fd r t by (auto simp: finish_download_def Let_def)
  with replace_downloader_pipe [OF r] terminate_uploader_pipe [OF t]
  show "silent es" "\<forall>d. downloader_slot s' \<noteq> Connected d"
    "\<forall>c w p n. pending s' = PendingData c w p n \<longrightarrow> (\<exists>w'. pending s = PendingData c w' p n)"
    by simp_all
qed

lemma start_upload_silent:
  assumes su: "start_upload pb s t p w = (s', es)"
  shows "silent es" and "downloader_slot s' = downloader_slot s"
    and "\<forall>c w p n. pending s' = PendingData c w p n \<longrightarrow> (\<exists>w'. pending s = PendingData c w' p n)"
proof -
  obtain s1 e1 where k: "(if uploader_slot s \<noteq> None then
      let (s', e) = terminate_uploader s ConnectionReplaced in (s'\<lparr>uploader_slot := None\<rparr>, e)
      else (s, [])) = (s1, e1)" by (metis surj_pair)
  obtain s0 e0 where t: "terminate_uploader s ConnectionReplaced = (s0, e0)"
    by (cases "terminate_uploader s ConnectionReplaced")
  have "silent e1 \<and> downloader_slot s1 = downloader_slot s \<and>
      (\<forall>c w p n. pending s1 = PendingData c w p n \<longrightarrow> (\<exists>w'. pending s = PendingData c w' p n))"
    using k t terminate_uploader_pipe [OF t] by (auto split: if_splits)
  with su k show "silent es" "downloader_slot s' = downloader_slot s"
    "\<forall>c w p n. pending s' = PendingData c w p n \<longrightarrow> (\<exists>w'. pending s = PendingData c w' p n)"
    by (auto simp: start_upload_def Let_def split: sum.splits pending.splits)
qed

lemma flush_upload_silent:
  assumes "flush_upload s t w = (s', es)"
  shows "silent es" and "downloader_slot s' = downloader_slot s"
    and "\<forall>c w p n. pending s' = PendingData c w p n \<longrightarrow> (\<exists>w'. pending s = PendingData c w' p n)"
  using assms by (auto simp: flush_upload_def split: if_splits pending.splits)

lemma websocket_ops_silent:
  "start_websocket s d p = (s', es) \<Longrightarrow>
     silent es \<and> downloader_slot s' = downloader_slot s \<and> pending s' = pending s"
  "relay_frame s d fr = (s', es) \<Longrightarrow>
     silent es \<and> downloader_slot s' = downloader_slot s \<and> pending s' = pending s"
  by (auto simp: start_websocket_def relay_frame_def hold_frame_def Let_def
      split: option.splits if_splits)

lemma disconnected_silent:
  assumes "disconnected s t p = (f, s')"
  shows "\<forall>d. downloader_slot s' = Connected d \<longrightarrow> downloader_slot s = Connected d"
    and "\<forall>c w p n. pending s' = PendingData c w p n \<longrightarrow> pending s = PendingData c w p n"
  using assms
  by (cases p; cases "downloader_slot s"; cases "pending s";
      auto simp: disconnected_def Let_def split: if_splits)+

lemma handle_pipe:
  assumes step: "handle pb s c = (f, s', es)"
    and inv: "pipe_inv F st log s" and rv: "rendezvous_inv s"
    and hon: "honest_command F s c" and len: "length F < 2 ^ 64"
    and fresh: "\<And>d w. c = StartDownload d w \<Longrightarrow> st (d_events d) = None"
  shows "pipe_inv F (note_start st c) (log @ es) s'"
  using step
proof (cases rule: handle_cases)
  case (StartDownload d w e)
  have "pipe_inv F (note_start st c) (log @ e) s'"
    using start_download_pipe [OF inv rv fresh len] StartDownload
    by (simp add: note_start_def)
  then show ?thesis
    using StartDownload
    by (simp add: pipe_inv_def flip: append_assoc)
next
  case (UploadData t ch w)
  with upload_data_pipe [OF inv rv _ len] hon show ?thesis by (simp add: note_start_def)
next
  case (FinishDownload w)
  then show ?thesis
    using pipe_inv_silent [OF inv] finish_download_silent [OF FinishDownload(2)]
    by (simp add: note_start_def)
next
  case (StartUpload t p w)
  then show ?thesis
    using pipe_inv_silent [OF inv] start_upload_silent [OF StartUpload(3)]
    by (simp add: note_start_def)
next
  case (FlushUpload t w)
  then show ?thesis
    using pipe_inv_silent [OF inv] flush_upload_silent [OF FlushUpload(3)]
    by (simp add: note_start_def)
next
  case (StartWebsocket d p w e)
  then show ?thesis
    using pipe_inv_silent [OF inv] websocket_ops_silent(1) [OF StartWebsocket(3)]
    by (simp add: note_start_def)
next
  case (WebsocketData d fr)
  then show ?thesis
    using pipe_inv_silent [OF inv] websocket_ops_silent(2) [OF WebsocketData(3)]
    by (simp add: note_start_def)
next
  case (Disconnected t p)
  then show ?thesis
    using pipe_inv_silent [OF inv silent_simps(1), of s'] disconnected_silent [OF Disconnected(2)]
    by (auto simp: note_start_def)
qed (use pipe_inv_silent [OF inv] in \<open>simp_all add: note_start_def\<close>)

subsection \<open>Whole runs\<close>

definition started :: "command list \<Rightarrow> chan list" where
  "started cs =
     concat (map (\<lambda>c. case c of StartDownload d w \<Rightarrow> [d_events d] | _ \<Rightarrow> []) cs)"

lemma started_simps [simp]:
  "started [] = []"
  "started (c # cs) = (case c of StartDownload d w \<Rightarrow> [d_events d] | _ \<Rightarrow> []) @ started cs"
  by (simp_all add: started_def)

lemma started_mem: "StartDownload d w \<in> set cs \<Longrightarrow> d_events d \<in> set (started cs)"
  by (induction cs) auto

definition starts_from :: "(chan \<rightharpoonup> nat) \<Rightarrow> command list \<Rightarrow> (chan \<rightharpoonup> nat) \<Rightarrow> bool" where
  "starts_from st cs st' =
     ((\<forall>d w. StartDownload d w \<in> set cs \<longrightarrow>
         st' (d_events d) = None \<or> st' (d_events d) = Some (unat (d_position d))) \<and>
      (\<forall>ch. ch \<notin> set (started cs) \<longrightarrow> st' ch = st ch))"

lemma starts_from_note:
  assumes "distinct (started (c # cs))" and "\<forall>ch\<in>set (started (c # cs)). st ch = None"
  shows "starts_from (note_start st c) cs st' \<Longrightarrow> starts_from st (c # cs) st'"
    and "starts_from st (c # cs) (note_start st c)"
  using assms started_mem
  by (fastforce simp: starts_from_def note_start_def split: command.splits if_splits)+

lemma run_pipe:
  assumes "run_session pb s cs = (f, s', es)"
    and "pipe_inv F st log s" and "rendezvous_inv s"
    and "run_allowed (handle pb) (honest_command F) s cs"
    and "length F < 2 ^ 64"
    and "distinct (started cs)" and "\<forall>ch\<in>set (started cs). st ch = None"
  shows "\<exists>st'. pipe_inv F st' (log @ es) s' \<and> starts_from st cs st'"
  using assms
proof (induction cs arbitrary: s st log es)
  case Nil
  then show ?case by (auto simp: run_session_def starts_from_def)
next
  case (Cons c cs)
  obtain f1 s1 es1 where st: "handle pb s c = (f1, s1, es1)" by (cases "handle pb s c")
  have "pipe_inv F (note_start st c) (log @ es1) s1"
    using Cons.prems by (intro handle_pipe [OF st]) auto
  note p1 = this
  show ?case
  proof (cases f1)
    case (Break u)
    with Cons.prems(1) st have "s' = s1" "es = es1" by (auto simp: run_session_def)
    with p1 starts_from_note(2) [OF Cons.prems(6,7)] show ?thesis by blast
  next
    case (Continue u)
    with Cons.prems(1) st obtain es2 where r: "run_session pb s1 cs = (f, s', es2)"
      and es: "es = es1 @ es2"
      by (auto simp: run_session_def split: prod.splits)
    have "\<exists>st'. pipe_inv F st' ((log @ es1) @ es2) s' \<and> starts_from (note_start st c) cs st'"
    proof (rule Cons.IH [OF r p1 _ _ Cons.prems(5)])
      show "rendezvous_inv s1" using st Cons.prems(3) by (rule handle_rendezvous)
      show "run_allowed (handle pb) (honest_command F) s1 cs"
        using Cons.prems(4) st Continue by simp
      show "distinct (started cs)" using Cons.prems(6) by simp
      show "\<forall>ch\<in>set (started cs). note_start st c ch = None"
        using Cons.prems(6,7) by (auto simp: note_start_def split: command.splits)
    qed
    then show ?thesis
      using starts_from_note(1) [OF Cons.prems(6,7)] es by auto
  qed
qed

lemma pipe_inv_initial: "pipe_inv F Map.empty [] (initial_state i m)"
  by (simp add: pipe_inv_def initial_state_def channels_ok_def channel_ok_def)

text \<open>C13: The relay is a faithful pipe. Take any interleaving of requests, connections and
  disconnections on one session in which the accepted uploaders send the bytes of one
  content \<open>F\<close> (shorter than \<open>2 ^ 64\<close>) from the positions they were given, and every
  downloader has a channel of its own. Then what a downloader received is a prefix of \<open>F\<close>
  from the position it asked for, and if it was sent a final chunk it received all of it.\<close>

theorem relay_delivers_content:
  assumes run: "run_session pb (initial_state i m) cs = (f, s', es)"
    and honest: "run_allowed (handle pb) (honest_command F) (initial_state i m) cs"
    and size: "length F < 2 ^ 64"
    and chans: "distinct (started cs)"
    and start: "StartDownload d w \<in> set cs"
  shows "prefix (delivered (d_events d) es) (drop (unat (d_position d)) F) \<and>
    (final_sent (d_events d) es \<longrightarrow>
       delivered (d_events d) es = drop (unat (d_position d)) F)"
proof -
  obtain st' where "pipe_inv F st' es s'" and sf: "starts_from Map.empty cs st'"
    using run_pipe [OF run pipe_inv_initial _ honest size chans] by auto
  then have "channel_ok F (st' (d_events d)) (delivered (d_events d) es)
      (final_sent (d_events d) es)"
    by (simp add: pipe_inv_def channels_ok_def)
  moreover have "st' (d_events d) = None \<or> st' (d_events d) = Some (unat (d_position d))"
    using sf start unfolding starts_from_def by blast
  ultimately show ?thesis by (auto simp: channel_ok_def)
qed

definition example_run :: "command list" where
  "example_run =
     [StartUpload 1 0 0, UploadData 1 (MoreChunk [10, 11]) 1,
      StartDownload \<lparr>d_token = 2, d_position = 0, d_events = 7\<rparr> 2,
      UploadData 1 (FinalChunk [12]) 3]"

theorem relay_delivers_content_witness:
  "prefix (delivered 7 (snd (snd (run_session (\<lambda>_. []) (initial_state [1] ''m'') example_run))))
     [10, 11, 12] \<and>
   delivered 7 (snd (snd (run_session (\<lambda>_. []) (initial_state [1] ''m'') example_run)))
     = [10, 11, 12]"
proof -
  let ?run = "run_session (\<lambda>_. []) (initial_state [1] ''m'') example_run"
  let ?d = "\<lparr>d_token = 2, d_position = 0, d_events = 7\<rparr> :: downloader"
  note eval = example_run_def initial_state_def continue_def start_upload_def
    check_start_position_def upload_data_def start_download_def replace_downloader_def
    take_pending_def chunk_data_def chunk_len_def into_event_def send_upload_progress_def
    reply_to_def len64_def terminate_uploader_def
  have run: "?run = (fst ?run, fst (snd ?run), snd (snd ?run))" by simp
  have honest: "run_allowed (handle (\<lambda>_. [])) (honest_command [10, 11, 12])
      (initial_state [1] ''m'') example_run"
    by (simp add: eval honest_command_def honest_chunk_def)
  have "final_sent 7 (snd (snd ?run))"
    by (simp add: run_session_def eval)
  then show ?thesis
    using relay_delivers_content [OF run honest, where d = ?d and w = 2]
    by (simp add: example_run_def)
qed

end
