(* ===== verification/Relay_Session_Frames.thy ===== *)
theory Relay_Session_Frames
  imports Relay_Session_Inv
begin

text \<open>
  What a session (\<^verbatim>\<open>session.rs\<close>) makes of the websocket frames of its two peers: \<open>relay_frame\<close> hands
  one over or holds it, \<open>start_websocket\<close> hands over what was held, and the upload's progress
  goes to the uploader in between.
\<close>

text \<open>
  Which peer a channel leads to is \<open>port\<close>. \<open>frames_in d\<close> are the frames that the other peer has
  sent for direction \<open>d\<close>, \<open>frames_out\<close> those sent to the websockets of \<open>d\<close>.
\<close>

definition frames_in :: "direction \<Rightarrow> command list \<Rightarrow> frame list" where
  "frames_in d cs =
     concat (map (\<lambda>c. case c of WebsocketData d' f \<Rightarrow> (if d = other_direction d' then [f] else []) | _ \<Rightarrow> []) cs)"

definition frames_out :: "(chan \<Rightarrow> direction) \<Rightarrow> direction \<Rightarrow> effect list \<Rightarrow> frame list" where
  "frames_out port d es =
     concat (map (\<lambda>e. case e of WsCommand ch (WsSend f) \<Rightarrow> (if port ch = d then [f] else []) | _ \<Rightarrow> []) es)"

definition progress_frame :: "encoder \<Rightarrow> frame \<Rightarrow> bool" where
  "progress_frame pb f = (\<exists>p. f = BinaryFrame (pb \<lparr>wsm_inner = Some (UploadDataAck \<lparr>ack_offset = p\<rparr>)\<rparr>))"

definition of_peer :: "encoder \<Rightarrow> direction \<Rightarrow> frame \<Rightarrow> bool" where
  "of_peer pb d f = (d = Download \<or> \<not> progress_frame pb f)"

lemma frames_simps [simp]:
  "frames_in d [] = []"
  "frames_in d (c # cs) = (case c of WebsocketData d' f \<Rightarrow> (if d = other_direction d' then [f] else []) | _ \<Rightarrow> [])
    @ frames_in d cs"
  "frames_out port d [] = []" "frames_out port d (es @ es') = frames_out port d es @ frames_out port d es'"
  "frames_out port d (Reply w r # es) = frames_out port d es"
  "frames_out port d (Event ch ev # es) = frames_out port d es"
  "frames_out port d (WsCommand ch (WsSend f) # es) = (if port ch = d then [f] else []) @ frames_out port d es"
  "frames_out port d (WsCommand ch WsSessionError # es) = frames_out port d es"
  "frames_out port d (reply_to waiting result) = []"
  by (auto simp: frames_in_def frames_out_def reply_to_def split: option.splits)

lemma frames_out_held:
  "frames_out port d (map (\<lambda>f. WsCommand ch (WsSend f)) fs) = (if port ch = d then fs else [])"
  by (induction fs) simp_all

subsection \<open>A step\<close>

definition ports_ok :: "(chan \<Rightarrow> direction) \<Rightarrow> state \<Rightarrow> bool" where
  "ports_ok port s = (\<forall>d p. websocket d s = Some p \<longrightarrow> port (wp_commands p) = d)"

text \<open>
  One direction: what has come in, against what has gone out and is held; complete as long as
  it is at most 64 frames.
\<close>

definition line_ok :: "(frame \<Rightarrow> bool) \<Rightarrow> frame list \<Rightarrow> frame list \<Rightarrow> frame list \<Rightarrow> bool" where
  "line_ok P held come gone =
     (length held \<le> length come \<and> subseq (filter P (gone @ held)) (filter P come) \<and>
      (length come \<le> MAX_HELD_FRAMES \<longrightarrow> filter P (gone @ held) = filter P come))"

lemma line_ok_steps:
  "line_ok P [] come gone \<Longrightarrow> line_ok P [] (come @ [f]) (gone @ [f])"
  "line_ok P held come gone \<Longrightarrow> line_ok P (held @ [f]) (come @ [f]) gone"
  "line_ok P held come gone \<Longrightarrow> length held = MAX_HELD_FRAMES \<Longrightarrow> line_ok P held (come @ [f]) gone"
  "line_ok P held come gone \<Longrightarrow> line_ok P [] come (gone @ held)"
  "line_ok P held come gone \<Longrightarrow> filter P new = [] \<Longrightarrow> line_ok P held come (gone @ new)"
  by (auto simp: line_ok_def subseq_rev_drop_many simp flip: append_assoc)

definition frames_ok ::
  "(chan \<Rightarrow> direction) \<Rightarrow> encoder \<Rightarrow> state \<Rightarrow> (direction \<Rightarrow> frame list) \<Rightarrow> (direction \<Rightarrow> frame list) \<Rightarrow> bool" where
  "frames_ok port pb s come gone =
     (ports_ok port s \<and> frames_inv s \<and> (\<forall>d. line_ok (of_peer pb d) (held_frames d s) (come d) (gone d)))"

lemma progress_not_of_peer:
  assumes "ports_ok port s"
  shows "filter (of_peer pb d) (frames_out port d (send_upload_progress pb (uploader_ws s) p)) = []"
proof (cases "uploader_ws s")
  case (Some w)
  then have "port (wp_commands w) = Upload" using assms by (auto simp: ports_ok_def websocket_def split: direction.splits)
  then show ?thesis using Some by (auto simp: send_upload_progress_def of_peer_def progress_frame_def)
qed (simp add: send_upload_progress_def)

text \<open>The content operations send progress at most.\<close>

lemma content_ops_no_frames:
  assumes "ports_ok port s"
  shows "start_download pb s dl = (s', es) \<Longrightarrow> filter (of_peer pb d) (frames_out port d es) = []"
    and "finish_download s w = (f, s', es) \<Longrightarrow> frames_out port d es = []"
    and "start_upload pb s t p w = (s', es) \<Longrightarrow> filter (of_peer pb d) (frames_out port d es) = []"
    and "upload_data pb s t c w = (s', es) \<Longrightarrow> filter (of_peer pb d) (frames_out port d es) = []"
    and "flush_upload s t w = (s', es) \<Longrightarrow> frames_out port d es = []"
  using progress_not_of_peer [OF assms, of pb d]
  by (auto simp: start_download_def finish_download_def start_upload_def upload_data_def flush_upload_def
      terminate_uploader_def replace_downloader_def take_pending_def Let_def
      split: option.splits prod.splits if_splits pending.splits downloader_slot.splits sum.splits)

lemma frames_ok_quiet:
  assumes "frames_ok port pb s come gone" and "same_websockets s s'"
    and "\<And>d. filter (of_peer pb d) (new d) = []"
  shows "frames_ok port pb s' come (\<lambda>d. gone d @ new d)"
  using assms same_websockets_frames
  by (auto simp: frames_ok_def ports_ok_def same_websockets_def intro: line_ok_steps(5))

lemma relay_frame_ok:
  assumes ok: "frames_ok port pb s come gone" and step: "relay_frame s dir fr = (s', es)"
  shows "frames_ok port pb s' (\<lambda>d. come d @ frames_in d [WebsocketData dir fr]) (\<lambda>d. gone d @ frames_out port d es)"
proof -
  let ?d = "other_direction dir"
  have f: "frames_inv s" "frames_inv s'"
    using ok relay_frame_frames [OF _ step] by (auto simp: frames_ok_def)
  have p: "ports_ok port s" using ok by (simp add: frames_ok_def)
  then have p': "ports_ok port s'"
    using step by (auto simp: relay_frame_def hold_frame_def ports_ok_def Let_def split: option.splits if_splits)
  have "line_ok (of_peer pb d) (held_frames d s') (come d @ frames_in d [WebsocketData dir fr])
      (gone d @ frames_out port d es)" for d
  proof -
    have line: "line_ok (of_peer pb d) (held_frames d s) (come d) (gone d)" using ok by (simp add: frames_ok_def)
    show ?thesis
    proof (cases "websocket ?d s")
      case (Some peer)
      then have "s' = s" "es = [WsCommand (wp_commands peer) (WsSend fr)]" "held_frames ?d s = []"
        "port (wp_commands peer) = ?d"
        using step frames_invD(2) [OF f(1) Some] p by (auto simp: relay_frame_def Let_def ports_ok_def)
      then show ?thesis using line line_ok_steps(1) by auto
    next
      case None
      then have "s' = hold_frame s ?d fr" "es = []" using step by (auto simp: relay_frame_def Let_def)
      then show ?thesis using line line_ok_steps(2,3) by (auto simp: hold_frame_def)
    qed
  qed
  then show ?thesis using f(2) p' by (simp add: frames_ok_def)
qed

lemma start_websocket_ok:
  assumes ok: "frames_ok port pb s come gone" and step: "start_websocket s dir p = (s', es)"
    and port: "port (wp_commands p) = dir"
  shows "frames_ok port pb s' come (\<lambda>d. gone d @ frames_out port d es)"
proof -
  have "frames_inv s'" using ok start_websocket_frames [OF _ step] by (simp add: frames_ok_def)
  moreover have "ports_ok port s'"
    using ok port step by (auto simp: frames_ok_def ports_ok_def start_websocket_def Let_def split: if_splits)
  moreover have "frames_out port d es = (if d = dir then held_frames dir s else [])"
    "held_frames d s' = (if d = dir then [] else held_frames d s)" for d
    using step port by (auto simp: start_websocket_def Let_def frames_out_held split: option.splits)
  ultimately show ?thesis using ok line_ok_steps(4) by (auto simp: frames_ok_def)
qed

lemma handle_frames_ok:
  assumes "handle pb s c = (f, s', es)" and ok: "frames_ok port pb s come gone"
    and port: "\<And>d p w. c = StartWebsocket d p w \<Longrightarrow> port (wp_commands p) = d"
  shows "frames_ok port pb s' (\<lambda>d. come d @ frames_in d [c]) (\<lambda>d. gone d @ frames_out port d es)"
proof -
  have p: "ports_ok port s" using ok by (simp add: frames_ok_def)
  note quiet = frames_ok_quiet [OF ok] and none = content_ops_no_frames [OF p]
    and same = content_ops_same_websockets
  have s: "same_websockets s s" by (simp add: same_websockets_def)
  from assms(1) show ?thesis
  proof (cases rule: handle_cases)
    case (Metadata w)
    then show ?thesis using quiet [OF s, of "\<lambda>_. []"] by simp
  next
    case (StartDownload d w e)
    then show ?thesis using quiet [OF same(1) [OF StartDownload(3)]] none(1) [OF StartDownload(3)] by simp
  next
    case (FinishDownload w)
    then show ?thesis using quiet [OF same(2) [OF FinishDownload(2)], of "\<lambda>_. []"] none(2) [OF FinishDownload(2)] by simp
  next
    case (CheckStartUpload q w)
    then show ?thesis using quiet [OF s, of "\<lambda>_. []"] by simp
  next
    case (StartUpload t q w)
    then show ?thesis using quiet [OF same(3) [OF StartUpload(3)]] none(3) [OF StartUpload(3)] by simp
  next
    case (UploadData t ch w)
    then show ?thesis using quiet [OF same(4) [OF UploadData(3)]] none(4) [OF UploadData(3)] by simp
  next
    case (FlushUpload t w)
    then show ?thesis using quiet [OF same(5) [OF FlushUpload(3)], of "\<lambda>_. []"] none(5) [OF FlushUpload(3)] by simp
  next
    case (StartWebsocket d p w e)
    then show ?thesis using start_websocket_ok [OF ok StartWebsocket(3)] port by simp
  next
    case (WebsocketData d fr)
    then show ?thesis using relay_frame_ok [OF ok WebsocketData(3)] by simp
  next
    case (Disconnected t q)
    have "frames_inv s'" using ok disconnected_frames [OF _ Disconnected(2)] by (simp add: frames_ok_def)
    moreover have "held_frames d s' = held_frames d s" "websocket d s' = Some x \<Longrightarrow> websocket d s = Some x" for d x
      using Disconnected(2)
      by (auto simp: disconnected_def Let_def split: peer.splits downloader_slot.splits pending.splits if_splits)
    ultimately show ?thesis using ok Disconnected by (auto simp: frames_ok_def ports_ok_def)
  qed
qed

subsection \<open>A run\<close>

lemma run_frames_ok:
  assumes "run_session pb s cs = (f, s', es)" and "frames_ok port pb s come gone"
    and "\<And>d p w. StartWebsocket d p w \<in> set cs \<Longrightarrow> port (wp_commands p) = d"
  shows "\<exists>n. frames_ok port pb s' (\<lambda>d. come d @ frames_in d (take n cs)) (\<lambda>d. gone d @ frames_out port d es) \<and>
    (f = Continue () \<longrightarrow> n = length cs)"
  using assms
proof (induction cs arbitrary: s come gone es)
  case Nil
  then show ?case by (auto simp: run_session_def)
next
  case (Cons c cs)
  obtain f1 s1 es1 where st: "handle pb s c = (f1, s1, es1)" by (cases "handle pb s c")
  have ok: "frames_ok port pb s1 (\<lambda>d. come d @ frames_in d [c]) (\<lambda>d. gone d @ frames_out port d es1)"
    using handle_frames_ok [OF st Cons.prems(2)] Cons.prems(3) by auto
  show ?case
  proof (cases f1)
    case (Break u)
    then have "f = Break ()" "s' = s1" "es = es1" using Cons.prems(1) st by (auto simp: run_session_def)
    then show ?thesis using ok by (intro exI [of _ 1]) simp
  next
    case (Continue u)
    then obtain es2 where r: "run_session pb s1 cs = (f, s', es2)" and es: "es = es1 @ es2"
      using Cons.prems(1) st by (auto simp: run_session_def split: prod.splits)
    from Cons.IH [OF r ok] Cons.prems(3) obtain n where
      "frames_ok port pb s' (\<lambda>d. (come d @ frames_in d [c]) @ frames_in d (take n cs))
        (\<lambda>d. (gone d @ frames_out port d es1) @ frames_out port d es2)" "f = Continue () \<longrightarrow> n = length cs"
      by auto
    then show ?thesis using es by (intro exI [of _ "Suc n"]) simp
  qed
qed

lemma frames_in_take: "\<exists>rest. frames_in d cs = frames_in d (take n cs) @ rest"
  by (intro exI [of _ "frames_in d (drop n cs)"])
    (simp add: frames_in_def flip: concat_append map_append)

text \<open>C17: 
  A session keeps the order of the frames between the peers' websockets. Whatever is
  handled, on whatever websockets, what was handed to one peer's websockets and what is held
  for it are frames the other peer sent, in that order, between which the uploader's gets
  the progress of the upload. Nothing is missing as long as the other peer has sent at most 64
  frames in all, however often either reconnects, and the session goes on.
\<close>

theorem relay_keeps_frame_order:
  assumes run: "run_session pb (initial_state i m) cs = (f, s, es)"
    and port: "\<forall>d p w. StartWebsocket d p w \<in> set cs \<longrightarrow> port (wp_commands p) = d"
  shows "subseq (filter (of_peer pb d) (frames_out port d es @ held_frames d s))
      (filter (of_peer pb d) (frames_in d cs)) \<and>
    (f = Continue () \<and> length (frames_in d cs) \<le> 64 \<longrightarrow>
      filter (of_peer pb d) (frames_out port d es @ held_frames d s) = filter (of_peer pb d) (frames_in d cs))"
proof -
  have "frames_ok port pb (initial_state i m) (\<lambda>_. []) (\<lambda>_. [])"
    by (auto simp: frames_ok_def line_ok_def ports_ok_def frames_inv_def initial_state_def websocket_def held_frames_def
        split: direction.splits)
  from run_frames_ok [OF run this] port obtain n where
    n: "frames_ok port pb s (\<lambda>d. frames_in d (take n cs)) (\<lambda>d. frames_out port d es)" "f = Continue () \<longrightarrow> n = length cs"
    by auto
  have line: "line_ok (of_peer pb d) (held_frames d s) (frames_in d (take n cs)) (frames_out port d es)"
    using n(1) by (simp add: frames_ok_def)
  obtain rest where rest: "frames_in d cs = frames_in d (take n cs) @ rest" using frames_in_take by blast
  show ?thesis
  proof
    show "subseq (filter (of_peer pb d) (frames_out port d es @ held_frames d s))
        (filter (of_peer pb d) (frames_in d cs))"
      using line unfolding rest filter_append by (simp add: line_ok_def subseq_rev_drop_many)
    show "f = Continue () \<and> length (frames_in d cs) \<le> 64 \<longrightarrow>
        filter (of_peer pb d) (frames_out port d es @ held_frames d s) = filter (of_peer pb d) (frames_in d cs)"
      using line n(2) by (auto simp: line_ok_def MAX_HELD_FRAMES_def)
  qed
qed

theorem relay_keeps_frame_order_witness:
  "frames_out (\<lambda>ch. if ch = 5 then Download else Upload) Download
     (snd (snd (run_session (\<lambda>_. []) (initial_state [7] ''meta'')
        [WebsocketData Upload (TextFrame ''a''), StartWebsocket Download \<lparr>wp_token = 1, wp_commands = 5\<rparr> 6,
         WebsocketData Upload (TextFrame ''b'')])))
   = [TextFrame ''a'', TextFrame ''b'']"
proof -
  let ?cs = "[WebsocketData Upload (TextFrame ''a''), StartWebsocket Download \<lparr>wp_token = 1, wp_commands = 5\<rparr> 6,
    WebsocketData Upload (TextFrame ''b'')]"
  obtain f s es where r: "run_session (\<lambda>_. []) (initial_state [7] ''meta'') ?cs = (f, s, es)"
    by (cases "run_session (\<lambda>_. []) (initial_state [7] ''meta'') ?cs")
  have "f = Continue ()" "held_frames Download s = []"
    using r by (auto simp: run_session_def initial_state_def relay_frame_def hold_frame_def
        continue_def other_direction_def websocket_def held_frames_def set_held_frames_def
        set_websocket_def start_websocket_def MAX_HELD_FRAMES_def Let_def)
  then show ?thesis
    using relay_keeps_frame_order [OF r, where port = "\<lambda>ch. if ch = 5 then Download else Upload" and d = Download] r
    by (simp add: of_peer_def other_direction_def)
qed

end
