(* ===== verification/Url_Base64.thy ===== *)
theory Url_Base64
  imports Glop_Prelude "HOL-Library.Char_ord"
begin

text \<open>
  The URL-safe form of base64 that the relay's \<^verbatim>\<open>id.rs\<close> and the client's
  \<^verbatim>\<open>url_safe_base64.rs\<close> use: three characters of the standard alphabet are exchanged, and
  the rest is the standard engine of the \<open>base64\<close> crate. The engine is a parameter of every
  definition; \<open>base64_law\<close> is what the sources rely on. RFC 4648 in executable form stands at
  the end, as the function that satisfies the law in the examples.
\<close>

subsection \<open>The engine\<close>

definition base64_chars :: string where
  "base64_chars = ''ABCDEFGHIJKLMNOPQRSTUVWXYZabcdefghijklmnopqrstuvwxyz0123456789+/''"

text \<open>
  The documented behaviour of the engine \<open>STANDARD\<close>: padded canonical output over the
  standard alphabet, and a decoder that accepts exactly the encoder's output (padding is
  required and trailing bits must be zero).
\<close>

definition base64_law :: "(bytes \<Rightarrow> string) \<Rightarrow> (string \<Rightarrow> bytes option) \<Rightarrow> bool" where
  "base64_law enc dec =
     (enc [] = [] \<and> (\<forall>bs s. dec s = Some bs \<longleftrightarrow> s = enc bs) \<and>
      (\<forall>bs. set (enc bs) \<subseteq> insert CHR ''='' (set base64_chars)))"

lemma base64_dec: "base64_law enc dec \<Longrightarrow> dec s = Some bs \<longleftrightarrow> s = enc bs"
  by (simp add: base64_law_def)

lemma base64_chars_of: "base64_law enc dec \<Longrightarrow> c \<in> set (enc bs) \<Longrightarrow> c = CHR ''='' \<or> c \<in> set base64_chars"
  by (auto simp: base64_law_def)

lemma base64_inj: "base64_law enc dec \<Longrightarrow> enc a = enc b \<Longrightarrow> a = b"
  by (metis base64_dec option.inject)

lemma base64_enc_Nil: "base64_law enc dec \<Longrightarrow> enc bs = [] \<longleftrightarrow> bs = []"
  by (metis base64_inj base64_law_def)

subsection \<open>The exchanged characters\<close>

definition to_url_char :: "char \<Rightarrow> char" where
  "to_url_char ch =
     (if ch = CHR ''+'' then CHR ''-'' else if ch = CHR ''/'' then CHR ''_''
      else if ch = CHR ''='' then CHR 0x7E else ch)"

definition from_url_char :: "char \<Rightarrow> char" where
  "from_url_char ch =
     (if ch = CHR ''-'' then CHR ''+'' else if ch = CHR ''_'' then CHR ''/''
      else if ch = CHR 0x7E then CHR ''='' else ch)"

lemma to_from_url_char [simp]: "to_url_char (from_url_char c) = to_url_char c"
  by (simp add: to_url_char_def from_url_char_def)

lemma from_to_url_char [simp]: "from_url_char (to_url_char c) = from_url_char c"
  by (simp add: to_url_char_def from_url_char_def)

lemma to_url_char_safe:
  "to_url_char c \<notin> {CHR ''+'', CHR ''/'', CHR ''=''}"
  by (simp add: to_url_char_def)

lemma from_url_char_standard:
  "c = CHR ''='' \<or> c \<in> set base64_chars \<Longrightarrow> from_url_char c = c"
  by (auto simp: from_url_char_def base64_chars_def)

lemma map_from_url_enc:
  "base64_law enc dec \<Longrightarrow> map from_url_char (enc bs) = enc bs"
  by (rule map_idI) (auto dest: base64_chars_of intro: from_url_char_standard)

text \<open>A string decodes to given bytes exactly if it has their encoding up to the exchange.\<close>

lemma map_from_url_eq_enc:
  assumes "base64_law enc dec"
  shows "map from_url_char s = enc bs \<longleftrightarrow> map to_url_char s = map to_url_char (enc bs)"
proof
  assume "map from_url_char s = enc bs"
  then have "map to_url_char (map from_url_char s) = map to_url_char (enc bs)" by simp
  then show "map to_url_char s = map to_url_char (enc bs)" by (simp add: comp_def)
next
  assume "map to_url_char s = map to_url_char (enc bs)"
  then have "map from_url_char (map to_url_char s) = map from_url_char (map to_url_char (enc bs))"
    by simp
  then show "map from_url_char s = enc bs"
    using map_from_url_enc [OF assms, of bs] by (simp add: comp_def)
qed

subsection \<open>The client's \<open>url_safe_base64\<close>\<close>

definition url_encode :: "(bytes \<Rightarrow> string) \<Rightarrow> bytes \<Rightarrow> string" where
  "url_encode enc bs = map to_url_char (enc bs)"

definition url_decode :: "(string \<Rightarrow> bytes option) \<Rightarrow> string \<Rightarrow> bytes option" where
  "url_decode dec s = dec (map from_url_char s)"

lemma url_decode_iff:
  "base64_law enc dec \<Longrightarrow>
   url_decode dec s = Some bs \<longleftrightarrow> map to_url_char s = url_encode enc bs"
  by (simp add: url_decode_def url_encode_def base64_dec map_from_url_eq_enc)

lemma url_decode_encode: "base64_law enc dec \<Longrightarrow> url_decode dec (url_encode enc bs) = Some bs"
  by (simp add: url_decode_def url_encode_def base64_dec comp_def map_from_url_enc)

lemma url_encode_safe: "CHR ''/'' \<notin> set (url_encode enc bs)" "CHR ''+'' \<notin> set (url_encode enc bs)"
  "CHR ''='' \<notin> set (url_encode enc bs)"
  using to_url_char_safe by (fastforce simp: url_encode_def)+

subsection \<open>RFC 4648\<close>

definition char64 :: "nat \<Rightarrow> char" where
  "char64 i = base64_chars ! i"

definition value64 :: "char \<Rightarrow> nat" where
  "value64 c = length (takeWhile (\<lambda>d. d \<noteq> c) base64_chars)"

fun b64_encode :: "bytes \<Rightarrow> string" where
  "b64_encode [] = []"
| "b64_encode [a] =
     (let n = unat a * 16
      in [char64 (n div 64), char64 (n mod 64), CHR ''='', CHR ''=''])"
| "b64_encode [a, b] =
     (let n = (unat a * 256 + unat b) * 4
      in [char64 (n div 4096), char64 (n div 64 mod 64), char64 (n mod 64), CHR ''=''])"
| "b64_encode (a # b # c # r) =
     (let n = (unat a * 256 + unat b) * 256 + unat c
      in [char64 (n div 262144), char64 (n div 4096 mod 64), char64 (n div 64 mod 64),
          char64 (n mod 64)] @ b64_encode r)"

fun b64_values :: "string \<Rightarrow> bytes" where
  "b64_values (w # x # y # z # r) =
     (let n = ((value64 w * 64 + value64 x) * 64 + value64 y) * 64 + value64 z;
          m = (value64 w * 64 + value64 x) * 64 + value64 y
      in if y = CHR ''='' then [of_nat ((value64 w * 64 + value64 x) div 16)]
         else if z = CHR ''='' then [of_nat (m div 1024), of_nat (m div 4 mod 256)]
         else [of_nat (n div 65536), of_nat (n div 256 mod 256), of_nat (n mod 256)]
              @ b64_values r)"
| "b64_values _ = []"

definition b64_decode :: "string \<Rightarrow> bytes option" where
  "b64_decode s = (let bs = b64_values s in if b64_encode bs = s then Some bs else None)"

lemma value_char64:
  assumes "i < 64"
  shows "value64 (char64 i) = i"
proof -
  have "\<forall>i \<in> set [0..<64]. value64 (char64 i) = i" by code_simp
  then show ?thesis using assms by simp
qed

lemma char64_in: "i < 64 \<Longrightarrow> char64 i \<in> set base64_chars"
  unfolding char64_def by (rule nth_mem) (simp add: base64_chars_def)

lemma char64_not_pad [simp]: "i < 64 \<Longrightarrow> char64 i \<noteq> CHR ''=''"
  using char64_in [of i] by (auto simp: base64_chars_def)

lemma unat_u8: "unat (a :: u8) < 256"
  using unsigned_less [of a] by simp

lemma u8_of_nat: "n = unat (a :: u8) \<Longrightarrow> of_nat n = a"
  by simp

lemma sextets: "(n :: nat) div (k * 64) * 64 + n div k mod 64 = n div k"
  by (simp add: div_mult2_eq)

lemma one_byte_digits:
  fixes x :: nat
  assumes "x < 256" and n: "n = x * 16"
  shows "n div 64 < 64" "(n div 64 * 64 + n mod 64) div 16 = x"
  using assms sextets [of n 1] by simp_all

lemma two_byte_digits:
  fixes x y :: nat
  assumes l: "x < 256" "y < 256" and n: "n = (x * 256 + y) * 4"
  shows "n div 4096 < 64"
    "(n div 4096 * 64 + n div 64 mod 64) * 64 + n mod 64 = n"
    "n div 1024 = x" "n div 4 mod 256 = y"
proof -
  have q: "n div 4 = x * 256 + y" by (simp add: n)
  have "n div 1024 = n div 4 div 256" by (simp flip: div_mult2_eq)
  then show "n div 1024 = x" "n div 4 mod 256 = y" using l by (simp_all add: q)
  show "n div 4096 < 64" using l n by (simp add: less_mult_imp_div_less)
  show "(n div 4096 * 64 + n div 64 mod 64) * 64 + n mod 64 = n"
    using sextets [of n 64] sextets [of n 1] by simp
qed

lemma three_byte_digits:
  fixes x y z :: nat
  assumes l: "x < 256" "y < 256" "z < 256" and n: "n = (x * 256 + y) * 256 + z"
  shows "n div 262144 < 64"
    "((n div 262144 * 64 + n div 4096 mod 64) * 64 + n div 64 mod 64) * 64 + n mod 64 = n"
    "n div 65536 = x" "n div 256 mod 256 = y" "n mod 256 = z"
proof -
  have q: "n div 256 = x * 256 + y" using l by (simp add: n)
  have "n mod 256 = (z + (x * 256 + y) * 256) mod 256" by (simp only: n add.commute)
  also have "\<dots> = z" using l by (simp only: mod_mult_self1 mod_less)
  finally have r: "n mod 256 = z" .
  have "n div 65536 = n div 256 div 256" by (simp flip: div_mult2_eq)
  then show "n div 65536 = x" "n div 256 mod 256 = y" "n mod 256 = z"
    using l by (simp_all add: q r)
  show "n div 262144 < 64" using l n by (simp add: less_mult_imp_div_less)
  show "((n div 262144 * 64 + n div 4096 mod 64) * 64 + n div 64 mod 64) * 64 + n mod 64 = n"
    using sextets [of n 4096] sextets [of n 64] sextets [of n 1] by simp
qed

lemma b64_values_encode: "b64_values (b64_encode bs) = bs"
proof (induction bs rule: b64_encode.induct)
  case (2 a)
  define n where n: "n = unat a * 16"
  have "b64_encode [a] = [char64 (n div 64), char64 (n mod 64), CHR ''='', CHR ''='']"
    by (simp only: b64_encode.simps Let_def n)
  then show ?case
    using one_byte_digits [OF unat_u8 n] by (simp add: Let_def value_char64)
next
  case (3 a b)
  define n where n: "n = (unat a * 256 + unat b) * 4"
  have "b64_encode [a, b] =
      [char64 (n div 4096), char64 (n div 64 mod 64), char64 (n mod 64), CHR ''='']"
    by (simp only: b64_encode.simps Let_def n)
  then show ?case
    using two_byte_digits [OF unat_u8 unat_u8 n] by (simp add: Let_def value_char64)
next
  case (4 a b c r)
  define n where n: "n = (unat a * 256 + unat b) * 256 + unat c"
  have "b64_encode (a # b # c # r) =
      [char64 (n div 262144), char64 (n div 4096 mod 64), char64 (n div 64 mod 64),
       char64 (n mod 64)] @ b64_encode r"
    by (simp only: b64_encode.simps Let_def n)
  then show ?case
    using three_byte_digits [OF unat_u8 unat_u8 unat_u8 n] 4
    by (simp add: Let_def value_char64)
qed simp

lemma b64_encode_chars: "set (b64_encode bs) \<subseteq> insert CHR ''='' (set base64_chars)"
proof (induction bs rule: b64_encode.induct)
  case (2 a)
  then show ?case using unat_u8 [of a] by (auto simp: Let_def intro!: char64_in)
next
  case (3 a b)
  then show ?case using unat_u8 [of a] unat_u8 [of b] by (auto simp: Let_def intro!: char64_in)
next
  case (4 a b c r)
  then show ?case
    using unat_u8 [of a] unat_u8 [of b] unat_u8 [of c]
    by (auto simp: Let_def intro!: char64_in)
qed simp

lemma b64_law: "base64_law b64_encode b64_decode"
  using b64_encode_chars b64_values_encode
  by (auto simp: base64_law_def b64_decode_def Let_def split: if_splits)

end
