(* ===== verification/Relay_Registry.thy ===== *)
theory Relay_Registry
  imports Relay_Session Url_Base64
begin

text \<open>
  The names of sessions and the table that finds them: \<^verbatim>\<open>id.rs\<close> (\<open>generate\<close>, \<open>decode\<close>,
  \<open>encode\<close>, over the base64 engine \<open>enc\<close>, \<open>dec\<close>), \<^verbatim>\<open>token.rs\<close>, and the hash map of
  \<^verbatim>\<open>registry.rs\<close> with the session handles it stores. A session id is the bytes of the
  tuple struct \<open>SessionId\<close>.
\<close>

subsection \<open>Session ids\<close>

definition ID_LENGTH :: nat where
  "ID_LENGTH = 8"

text \<open>\<open>fill n\<close> stands for the \<open>n\<close> bytes the random number generator fills a buffer with.\<close>

definition generate_id :: "(nat \<Rightarrow> bytes) \<Rightarrow> session_id" where
  "generate_id fill = fill ID_LENGTH"

definition decode_id :: "(string \<Rightarrow> bytes option) \<Rightarrow> string \<Rightarrow> session_id option" where
  "decode_id dec encoded =
     (let standard = map from_url_char encoded
      in case dec standard of
           None \<Rightarrow> None
         | Some bs \<Rightarrow> if bs = [] then None else Some bs)"

definition encode_id :: "(bytes \<Rightarrow> string) \<Rightarrow> session_id \<Rightarrow> string" where
  "encode_id enc i = map to_url_char (enc i)"

lemma id_url_coded: "encode_id enc = url_encode enc"
    "decode_id dec s = (case url_decode dec s of None \<Rightarrow> None | Some bs \<Rightarrow> if bs = [] then None else Some bs)"
  by (simp_all add: encode_id_def url_encode_def decode_id_def url_decode_def fun_eq_iff)

lemma decode_encode_id:
  "base64_law enc dec \<Longrightarrow> decode_id dec (encode_id enc i) = (if i = [] then None else Some i)"
  by (simp add: id_url_coded url_decode_encode)

lemma example_id:
  "encode_id b64_encode [0xFB, 0xFF, 0xBF, 0x00] = ''-_-_AA~~''"
  "decode_id b64_decode ''-_-_AA~~'' = Some [0xFB, 0xFF, 0xBF, 0x00]"
proof -
  show e: "encode_id b64_encode [0xFB, 0xFF, 0xBF, 0x00] = ''-_-_AA~~''"
    by (simp add: encode_id_def Let_def char64_def base64_chars_def to_url_char_def)
  show "decode_id b64_decode ''-_-_AA~~'' = Some [0xFB, 0xFF, 0xBF, 0x00]"
    using decode_encode_id [OF b64_law, of "[0xFB, 0xFF, 0xBF, 0x00]"] by (simp only: e) simp
qed

text \<open>C28: The encoded id is a faithful name for its session in a URL path: it decodes to the
  id, decoding accepts exactly the strings that spell a non-empty id (up to the three
  exchanged characters), and it has no slash, plus or equals sign.\<close>

theorem session_id_codec:
  assumes "base64_law enc dec"
  shows "(decode_id dec s = Some i \<longleftrightarrow> i \<noteq> [] \<and> map to_url_char s = encode_id enc i) \<and>
    decode_id dec (encode_id enc i) = (if i = [] then None else Some i) \<and>
    set (encode_id enc i) \<inter> {CHR ''/'', CHR ''+'', CHR ''=''} = {}"
proof (intro conjI decode_encode_id [OF assms])
  show "decode_id dec s = Some i \<longleftrightarrow> i \<noteq> [] \<and> map to_url_char s = encode_id enc i"
    using url_decode_iff [OF assms, of s i] by (auto simp: id_url_coded split: option.splits)
  show "set (encode_id enc i) \<inter> {CHR ''/'', CHR ''+'', CHR ''=''} = {}"
    using url_encode_safe [of enc i] by (auto simp: id_url_coded)
qed

theorem session_id_codec_witness:
  "decode_id b64_decode ''-_-_AA~~'' = Some [0xFB, 0xFF, 0xBF, 0x00] \<and>
   encode_id b64_encode [0xFB, 0xFF, 0xBF, 0x00] = ''-_-_AA~~'' \<and>
   CHR ''/'' \<notin> set (encode_id b64_encode [0xFB, 0xFF, 0xBF, 0x00])"
  using session_id_codec [OF b64_law, of "''-_-_AA~~''" "[0xFB, 0xFF, 0xBF, 0x00]"] example_id by auto

subsection \<open>Tokens\<close>

text \<open>\<open>Token::new\<close> takes the next value of a global \<open>AtomicU64\<close>; the counter wraps.\<close>

definition new_token :: "u64 \<Rightarrow> token \<times> u64" where
  "new_token next = (next, next + 1)"

fun new_tokens :: "nat \<Rightarrow> u64 \<Rightarrow> token list" where
  "new_tokens 0 next = []"
| "new_tokens (Suc k) next =
     (let (t, next') = new_token next in t # new_tokens k next')"

lemma new_tokens_map: "new_tokens k next = map (\<lambda>j. next + of_nat j) [0..<k]"
proof (induction k arbitrary: "next")
  case (Suc k)
  have "map (\<lambda>j. next + of_nat j) [0..<Suc k]
      = next # map (\<lambda>j. next + of_nat (Suc j)) [0..<k]"
    by (simp only: upt_rec [of 0 "Suc k"] map_Suc_upt [symmetric]) (simp add: comp_def)
  then show ?case using Suc by (simp add: new_token_def add.assoc)
qed simp

text \<open>Tokens identify connections: the counter hands out no value twice before it has
  handed out all \<open>2 ^ 64\<close> of them.\<close>

theorem tokens_distinct:
  assumes "k \<le> 2 ^ 64"
  shows "distinct (new_tokens k next)"
proof -
  have "inj_on (\<lambda>j. next + (of_nat j :: u64)) {0..<k}"
  proof (rule inj_onI)
    fix a b assume "a \<in> {0..<k}" "b \<in> {0..<k}" "next + (of_nat a :: u64) = next + of_nat b"
    then have "of_nat a = (of_nat b :: u64)" "a < 2 ^ 64" "b < 2 ^ 64" using assms by auto
    then have "unat (of_nat a :: u64) = unat (of_nat b :: u64)" by (simp only:)
    then show "a = b"
      using \<open>a < 2 ^ 64\<close> \<open>b < 2 ^ 64\<close> by (simp add: unat_of_nat del: of_nat_eq_iff word_of_nat_eq_iff)
  qed
  then show ?thesis by (simp add: new_tokens_map distinct_map)
qed

theorem tokens_distinct_witness:
  "distinct (new_tokens 3 18446744073709551614) \<and>
   new_tokens 3 18446744073709551614 = [18446744073709551614, 18446744073709551615, 0]"
  using tokens_distinct [of 3 18446744073709551614] by (simp add: numeral_3_eq_3 new_token_def)

subsection \<open>The table of sessions\<close>

text \<open>A handle to a running session task: its id and the sending end of its queue.\<close>

record session_handle =
  sh_id :: session_id
  sh_commands :: chan

type_synonym registry = "session_id \<rightharpoonup> session_handle"

definition registry_new :: registry where
  "registry_new = Map.empty"

definition registry_insert :: "registry \<Rightarrow> session_id \<Rightarrow> session_handle \<Rightarrow> registry" where
  "registry_insert r i h = r(i \<mapsto> h)"

definition registry_get :: "registry \<Rightarrow> session_id \<Rightarrow> session_handle option" where
  "registry_get r i = r i"

definition registry_remove :: "registry \<Rightarrow> session_id \<Rightarrow> registry" where
  "registry_remove r i = r(i := None)"

text \<open>
  What the relay asks of the table: what it finds under an id is what was last inserted
  there and not removed since. \<open>filed\<close> is the invariant that its users keep: every entry
  is filed under the id it carries and satisfies a property of handles.
\<close>

locale session_table =
  fixes empty :: 't
    and get :: "'t \<Rightarrow> 'i \<Rightarrow> 'h option"
    and ins :: "'t \<Rightarrow> 'i \<Rightarrow> 'h \<Rightarrow> 't"
    and del :: "'t \<Rightarrow> 'i \<Rightarrow> 't"
    and name :: "'h \<Rightarrow> 'i"
  assumes get_empty: "get empty i = None"
    and get_ins: "get (ins t i h) j = (if j = i then Some h else get t j)"
    and get_del: "get (del t i) j = (if j = i then None else get t j)"
begin

definition filed :: "('h \<Rightarrow> bool) \<Rightarrow> 't \<Rightarrow> bool" where
  "filed P t = (\<forall>i h. get t i = Some h \<longrightarrow> name h = i \<and> P h)"

lemma filed_empty: "filed P empty"
  by (simp add: filed_def get_empty)

lemma filed_ins: "filed P t \<Longrightarrow> P h \<Longrightarrow> filed P (ins t (name h) h)"
  by (auto simp: filed_def get_ins)

lemma filed_del:
  "filed P t \<Longrightarrow> (\<And>h. P h \<Longrightarrow> name h \<noteq> i \<Longrightarrow> Q h) \<Longrightarrow> filed Q (del t i)"
  by (auto simp: filed_def get_del)

lemma filed_mono: "filed P t \<Longrightarrow> (\<And>h. P h \<Longrightarrow> Q h) \<Longrightarrow> filed Q t"
  by (auto simp: filed_def)

lemma filedD: "filed P t \<Longrightarrow> get t i = Some h \<Longrightarrow> name h = i \<and> P h"
  by (simp add: filed_def)

end

interpretation reg: session_table registry_new registry_get registry_insert registry_remove sh_id
  by unfold_locales
    (simp_all add: registry_new_def registry_get_def registry_insert_def registry_remove_def)

end
