(* ===== verification/Relay_Node.thy ===== *)
theory Relay_Node
  imports Relay_Registry Relay_Session_Inv
begin

text \<open>
  One relay node: the registry and the session tasks it has spawned (\<open>registry.rs\<close>, and
  \<open>Session::spawn\<close>, \<open>State::run\<close> and the handle's sends of \<open>session.rs\<close>). Tasks run
  concurrently, so the node is a step relation whose events interleave freely: a session is
  created, somebody that holds a handle sends a command, a task handles the command at the
  head of its queue, a task whose queue is empty and can get nothing any more stops, and a task
  whose loop has ended removes its id from the registry and ends. A task keeps its effects, so that what its peers saw can be read off the node.
\<close>

subsection \<open>State and steps\<close>

datatype task_phase = Running | Stopping | Ended

record task =
  t_phase :: task_phase
  t_state :: state
  t_queue :: "command list"
  t_log :: "effect list"

record node =
  n_sessions :: registry
  n_tasks :: "chan \<rightharpoonup> task"
  n_next :: chan

definition node_new :: node where
  "node_new = \<lparr>n_sessions = registry_new, n_tasks = Map.empty, n_next = 0\<rparr>"

text \<open>\<open>Session::spawn\<close>: a channel, a task over it, and the handle that sends to it.\<close>

definition spawn_session :: "session_id \<Rightarrow> string \<Rightarrow> node \<Rightarrow> session_handle \<times> node" where
  "spawn_session i m n =
     (\<lparr>sh_id = i, sh_commands = n_next n\<rparr>,
      n\<lparr>n_tasks := (n_tasks n)(n_next n \<mapsto>
           \<lparr>t_phase = Running, t_state = initial_state i m, t_queue = [], t_log = []\<rparr>),
        n_next := n_next n + 1\<rparr>)"

text \<open>\<open>Registry::create\<close>.\<close>

definition create_session :: "session_id \<Rightarrow> string \<Rightarrow> node \<Rightarrow> session_handle \<times> node" where
  "create_session i m n =
     (let (h, n1) = spawn_session i m n
      in (h, n1\<lparr>n_sessions := registry_insert (n_sessions n1) i h\<rparr>))"

text \<open>
  \<open>commands.send\<close>: the queue takes the command as long as its receiver exists, that is until
  the task has ended; after that the send fails, which callers see as \<open>None\<close>.
\<close>

definition send_command :: "session_handle \<Rightarrow> command \<Rightarrow> node \<Rightarrow> node option" where
  "send_command h c n =
     (case n_tasks n (sh_commands h) of
        None \<Rightarrow> None
      | Some t \<Rightarrow>
          if t_phase t = Ended then None
          else Some (n\<lparr>n_tasks := (n_tasks n)
                 (sh_commands h \<mapsto> t\<lparr>t_queue := t_queue t @ [c]\<rparr>)\<rparr>))"

text \<open>
  One turn of the loop of \<open>State::run\<close>: \<open>recv\<close> gives a command, or nothing once the queue is
  empty and the last handle is gone; and what follows the loop.
\<close>

definition run_turn :: "encoder \<Rightarrow> task \<Rightarrow> task option" where
  "run_turn pb t =
     (case (t_phase t, t_queue t) of
        (Running, c # cs) \<Rightarrow>
          (let (f, s', es) = handle pb (t_state t) c
           in Some (t\<lparr>t_phase := (if is_break f then Stopping else Running),
                      t_state := s', t_queue := cs, t_log := t_log t @ es\<rparr>))
      | _ \<Rightarrow> None)"

definition run_closed :: "task \<Rightarrow> task option" where
  "run_closed t =
     (if t_phase t = Running \<and> t_queue t = [] then Some (t\<lparr>t_phase := Stopping\<rparr>) else None)"

definition end_task :: "task \<Rightarrow> registry \<Rightarrow> task \<times> registry" where
  "end_task t r =
     (t\<lparr>t_phase := Ended, t_queue := []\<rparr>, registry_remove r (sid (t_state t)))"

text \<open>
  The registry's handle to a task is filed under the task's id. Another session under the same
  id replaces it, or removes it when it ends. Who else holds a handle is not for the node to say.
\<close>

definition registered :: "node \<Rightarrow> chan \<Rightarrow> task \<Rightarrow> bool" where
  "registered n k t =
     (case registry_get (n_sessions n) (sid (t_state t)) of
        Some h \<Rightarrow> sh_commands h = k
      | None \<Rightarrow> False)"

datatype node_event =
    CreateEv session_id string
  | SendEv session_handle command
  | TurnEv chan
  | CloseEv chan
  | EndEv chan

inductive node_step :: "encoder \<Rightarrow> node \<Rightarrow> node_event \<Rightarrow> node \<Rightarrow> bool" for pb where
  step_create:
    "create_session i m n = (h, n') \<Longrightarrow> node_step pb n (CreateEv i m) n'"
| step_send:
    "send_command h c n = Some n' \<Longrightarrow> node_step pb n (SendEv h c) n'"
| step_turn:
    "n_tasks n k = Some t \<Longrightarrow> run_turn pb t = Some t' \<Longrightarrow>
     node_step pb n (TurnEv k) (n\<lparr>n_tasks := (n_tasks n)(k \<mapsto> t')\<rparr>)"
| step_close:
    "n_tasks n k = Some t \<Longrightarrow> \<not> registered n k t \<Longrightarrow> run_closed t = Some t' \<Longrightarrow>
     node_step pb n (CloseEv k) (n\<lparr>n_tasks := (n_tasks n)(k \<mapsto> t')\<rparr>)"
| step_end:
    "n_tasks n k = Some t \<Longrightarrow> t_phase t = Stopping \<Longrightarrow> end_task t (n_sessions n) = (t', r') \<Longrightarrow>
     node_step pb n (EndEv k) (n\<lparr>n_tasks := (n_tasks n)(k \<mapsto> t'), n_sessions := r'\<rparr>)"

inductive_cases node_stepE: "node_step pb n ev n'"

inductive node_reachable :: "encoder \<Rightarrow> node \<Rightarrow> bool" for pb where
  reach_new: "node_reachable pb node_new"
| reach_step: "node_reachable pb n \<Longrightarrow> node_step pb n ev n' \<Longrightarrow> node_reachable pb n'"

subsection \<open>A session keeps its name\<close>

definition named :: "session_id \<Rightarrow> string \<Rightarrow> state \<Rightarrow> bool" where
  "named i m s = (sid s = i \<and> metadata s = m)"

lemma sid_ops [simp]:
  "sid (set_websocket d w s) = sid s" "metadata (set_websocket d w s) = metadata s"
  "sid (set_held_frames d h s) = sid s" "metadata (set_held_frames d h s) = metadata s"
  by (simp_all add: set_websocket_def set_held_frames_def split: direction.split)

lemma named_ops:
  "named i m s \<Longrightarrow> start_download pb s d = (s', es) \<Longrightarrow> named i m s'"
  "named i m s \<Longrightarrow> finish_download s w = (f, s', es) \<Longrightarrow> named i m s'"
  "named i m s \<Longrightarrow> start_upload pb s t p w = (s', es) \<Longrightarrow> named i m s'"
  "named i m s \<Longrightarrow> upload_data pb s t c w = (s', es) \<Longrightarrow> named i m s'"
  "named i m s \<Longrightarrow> flush_upload s t w = (s', es) \<Longrightarrow> named i m s'"
  "named i m s \<Longrightarrow> disconnected s t pr = (f, s') \<Longrightarrow> named i m s'"
  by (cases "pending s"; cases "downloader_slot s"; cases "uploader_slot s";
      auto simp: named_def start_download_def finish_download_def start_upload_def
        upload_data_def flush_upload_def disconnected_def replace_downloader_def
        take_pending_def terminate_uploader_def Let_def
        split: if_splits sum.splits peer.splits)+

lemma named_ws:
  "named i m s \<Longrightarrow> start_websocket s dir wp = (s', es) \<Longrightarrow> named i m s'"
  "named i m s \<Longrightarrow> relay_frame s dir fr = (s', es) \<Longrightarrow> named i m s'"
  by (auto simp: named_def start_websocket_def relay_frame_def hold_frame_def Let_def
      split: if_splits option.splits)

lemma handle_named: "handle pb s c = (f, s', es) \<Longrightarrow> named i m s \<Longrightarrow> named i m s'"
  by (erule handle_cases) (auto intro: named_ops named_ws)

interpretation naming: machine_invariant "handle pb" "named i m"
  by unfold_locales (rule handle_named)

lemma run_sid:
  assumes "run_session pb (initial_state i m) cs = (f, s, es)"
  shows "sid s = i \<and> metadata s = m"
proof -
  have "named i m (initial_state i m)" by (simp add: named_def initial_state_def)
  then have "named i m s" using assms naming.run_keeps unfolding run_session_def by blast
  then show ?thesis by (simp add: named_def)
qed

subsection \<open>Tasks are runs of the session\<close>

text \<open>A task has handled some commands from its initial state, and while it runs none has broken it.\<close>

definition task_ran :: "encoder \<Rightarrow> task \<Rightarrow> bool" where
  "task_ran pb t =
     (\<exists>m cs f. run_session pb (initial_state (sid (t_state t)) m) cs = (f, t_state t, t_log t) \<and>
        (is_break f \<longrightarrow> t_phase t \<noteq> Running))"

definition live_task :: "node \<Rightarrow> session_handle \<Rightarrow> bool" where
  "live_task n h =
     (case n_tasks n (sh_commands h) of
        None \<Rightarrow> False
      | Some t \<Rightarrow> t_phase t \<noteq> Ended \<and> sid (t_state t) = sh_id h)"

definition node_inv :: "encoder \<Rightarrow> node \<Rightarrow> bool" where
  "node_inv pb n =
     ((\<forall>k t. n_tasks n k = Some t \<longrightarrow> k < n_next n \<and> task_ran pb t) \<and>
      reg.filed (live_task n) (n_sessions n))"

lemma task_ran_new: "task_ran pb \<lparr>t_phase = Running, t_state = initial_state i m, t_queue = [], t_log = []\<rparr>"
proof -
  have "run_session pb (initial_state i m) [] = (Continue (), initial_state i m, [])"
    by (simp add: run_session_def)
  then show ?thesis unfolding task_ran_def by (fastforce simp: initial_state_def)
qed

lemma task_ranI:
  "run_session pb (initial_state (sid (t_state t)) m) cs = (f, t_state t, t_log t) \<Longrightarrow>
   (is_break f \<longrightarrow> t_phase t \<noteq> Running) \<Longrightarrow> task_ran pb t"
  by (auto simp: task_ran_def)

lemma task_ran_end:
  "task_ran pb t \<Longrightarrow> p \<noteq> Running \<Longrightarrow>
   task_ran pb (t\<lparr>t_phase := p, t_queue := q\<rparr>)"
  by (auto simp: task_ran_def)

lemma run_closed_ran:
  "task_ran pb t \<Longrightarrow> run_closed t = Some t' \<Longrightarrow>
   task_ran pb t' \<and> sid (t_state t') = sid (t_state t) \<and> t_phase t' \<noteq> Ended"
  by (fastforce simp: run_closed_def task_ran_def split: if_splits)

lemma run_turn_ran:
  assumes "task_ran pb t" and "run_turn pb t = Some t'"
  shows "task_ran pb t' \<and> sid (t_state t') = sid (t_state t) \<and> t_phase t' \<noteq> Ended"
proof -
  obtain c q where r: "t_phase t = Running" "t_queue t = c # q"
    using assms(2) by (auto simp: run_turn_def split: task_phase.splits list.splits)
  obtain g s' es where h: "handle pb (t_state t) c = (g, s', es)"
    by (cases "handle pb (t_state t) c")
  have t': "t' = t\<lparr>t_phase := (if is_break g then Stopping else Running),
      t_state := s', t_queue := q, t_log := t_log t @ es\<rparr>"
    using assms(2) r h by (simp add: run_turn_def)
  obtain m cs f where run: "run_session pb (initial_state (sid (t_state t)) m) cs
      = (f, t_state t, t_log t)" and f: "\<not> is_break f"
    using assms(1) r(1) unfolding task_ran_def by auto
  have f': "f = Continue ()" using f by (cases f) simp_all
  have "run_session pb (initial_state (sid (t_state t)) m) (cs @ [c]) = (g, s', t_log t @ es)"
    using run h unfolding run_session_def run_machine_append f'
    by (cases g) simp_all
  moreover from run_sid [OF this] have sid: "sid s' = sid (t_state t)" by simp
  ultimately have "task_ran pb t'" by (intro task_ranI [of _ _ m "cs @ [c]" g]) (simp_all add: t')
  then show ?thesis using sid by (simp add: t')
qed

lemma node_step_inv:
  assumes "node_step pb n ev n'" and "node_inv pb n"
  shows "node_inv pb n'"
  using assms
proof (cases rule: node_step.cases)
  case (step_create i m h)
  note d = step_create(2) [unfolded create_session_def spawn_session_def Let_def, simplified]
  have "reg.filed (live_task n') (n_sessions n)"
    using assms(2) d unfolding node_inv_def
    by (auto elim!: reg.filed_mono simp: live_task_def split: option.splits)
      (blast dest: less_irrefl_nat)
  moreover have "live_task n' h" using d by (auto simp: live_task_def initial_state_def)
  ultimately have "reg.filed (live_task n') (registry_insert (n_sessions n) (sh_id h) h)"
    by (rule reg.filed_ins)
  then show ?thesis
    using assms(2) d task_ran_new unfolding node_inv_def
    by (auto simp: less_Suc_eq split: if_splits)
next
  case (step_send h c)
  then obtain t where t: "n_tasks n (sh_commands h) = Some t" "t_phase t \<noteq> Ended"
    "n' = n\<lparr>n_tasks := (n_tasks n)(sh_commands h \<mapsto> t\<lparr>t_queue := t_queue t @ [c]\<rparr>)\<rparr>"
    by (auto simp: send_command_def split: option.splits if_splits)
  have "live_task n x \<Longrightarrow> live_task n' x" for x using t by (auto simp: live_task_def)
  then show ?thesis
    using assms(2) t unfolding node_inv_def
    by (auto simp: task_ran_def split: if_splits elim!: reg.filed_mono)
next
  case (step_turn k t t')
  have r: "task_ran pb t" using assms(2) step_turn by (auto simp: node_inv_def)
  note r' = run_turn_ran [OF r step_turn(4)]
  have "live_task n x \<Longrightarrow> live_task n' x" for x
    using step_turn r' by (auto simp: live_task_def)
  then show ?thesis
    using assms(2) step_turn r' unfolding node_inv_def
    by (auto split: if_splits elim!: reg.filed_mono)
next
  case (step_close k t t')
  have r: "task_ran pb t" using assms(2) step_close by (auto simp: node_inv_def)
  note r' = run_closed_ran [OF r step_close(5)]
  have "live_task n x \<Longrightarrow> live_task n' x" for x
    using step_close r' by (auto simp: live_task_def)
  then show ?thesis
    using assms(2) step_close r' unfolding node_inv_def
    by (auto split: if_splits elim!: reg.filed_mono)
next
  case (step_end k t t' r')
  note e = step_end(5) [unfolded end_task_def, simplified]
  have "task_ran pb t'"
    using assms(2) step_end(3,4) e unfolding node_inv_def by (auto intro!: task_ran_end)
  moreover have "reg.filed (live_task n') (registry_remove (n_sessions n) (sid (t_state t)))"
  proof (rule reg.filed_del)
    show "reg.filed (live_task n) (n_sessions n)" using assms(2) by (simp add: node_inv_def)
    show "live_task n' h" if "live_task n h" "sh_id h \<noteq> sid (t_state t)" for h
      using that step_end e by (auto simp: live_task_def split: option.splits)
  qed
  ultimately show ?thesis
    using assms(2) step_end e unfolding node_inv_def by (auto split: if_splits)
qed

lemma node_reachable_inv: "node_reachable pb n \<Longrightarrow> node_inv pb n"
proof (induction rule: node_reachable.induct)
  case reach_new
  show ?case by (simp add: node_inv_def node_new_def reg.filed_empty)
next
  case (reach_step n ev n')
  then show ?case by (blast intro: node_step_inv)
qed

subsection \<open>Runs\<close>

text \<open>The steps as a function; \<open>None\<close> for an event that is not possible.\<close>

fun node_apply :: "encoder \<Rightarrow> node_event \<Rightarrow> node \<Rightarrow> node option" where
  "node_apply pb (CreateEv i m) n = Some (snd (create_session i m n))"
| "node_apply pb (SendEv h c) n = send_command h c n"
| "node_apply pb (TurnEv k) n =
     (case n_tasks n k of None \<Rightarrow> None
      | Some t \<Rightarrow>
          map_option (\<lambda>t'. n\<lparr>n_tasks := (n_tasks n)(k \<mapsto> t')\<rparr>) (run_turn pb t))"
| "node_apply pb (CloseEv k) n =
     (case n_tasks n k of None \<Rightarrow> None
      | Some t \<Rightarrow>
          if registered n k t then None
          else map_option (\<lambda>t'. n\<lparr>n_tasks := (n_tasks n)(k \<mapsto> t')\<rparr>) (run_closed t))"
| "node_apply pb (EndEv k) n =
     (case n_tasks n k of None \<Rightarrow> None
      | Some t \<Rightarrow>
          if t_phase t = Stopping then
            (let (t', r') = end_task t (n_sessions n)
             in Some (n\<lparr>n_tasks := (n_tasks n)(k \<mapsto> t'), n_sessions := r'\<rparr>))
          else None)"

lemma node_apply_step: "node_apply pb ev n = Some n' \<Longrightarrow> node_step pb n ev n'"
proof (cases ev)
  case (CreateEv i m)
  assume "node_apply pb ev n = Some n'"
  then have "create_session i m n = (fst (create_session i m n), n')" using CreateEv by (simp add: prod_eq_iff)
  then show ?thesis unfolding CreateEv by (rule step_create)
qed (auto simp: Let_def intro: node_step.intros split: option.splits if_splits prod.splits)

lemma node_step_apply: "node_step pb n ev n' \<Longrightarrow> node_apply pb ev n = Some n'"
  by (induction rule: node_step.induct) auto

fun node_run :: "encoder \<Rightarrow> node \<Rightarrow> node_event list \<Rightarrow> node option" where
  "node_run pb n [] = Some n"
| "node_run pb n (ev # evs) = Option.bind (node_apply pb ev n) (\<lambda>n. node_run pb n evs)"

lemma node_run_append:
  "node_run pb n (evs @ evs') = Option.bind (node_run pb n evs) (\<lambda>n. node_run pb n evs')"
  by (induction evs arbitrary: n) (auto split: Option.bind_splits)

lemma node_reachable_run: "node_reachable pb n \<Longrightarrow> \<exists>evs. node_run pb node_new evs = Some n"
proof (induction rule: node_reachable.induct)
  case reach_new
  show ?case by (intro exI [of _ "[]"]) simp
next
  case (reach_step n ev n')
  then obtain evs where "node_run pb node_new evs = Some n" by blast
  then show ?case
    using node_step_apply [OF reach_step(2)] by (intro exI [of _ "evs @ [ev]"]) (simp add: node_run_append)
qed

subsection \<open>Tasks handle what they are sent\<close>

text \<open>Read off a run: which sessions were created, and what each was sent, both in order.\<close>

definition creations :: "node_event list \<Rightarrow> (session_id \<times> string) list" where
  "creations evs = concat (map (\<lambda>ev. case ev of CreateEv i m \<Rightarrow> [(i, m)] | _ \<Rightarrow> []) evs)"

definition sent_to :: "chan \<Rightarrow> node_event list \<Rightarrow> command list" where
  "sent_to k evs =
     concat (map (\<lambda>ev. case ev of SendEv h c \<Rightarrow> if sh_commands h = k then [c] else [] | _ \<Rightarrow> []) evs)"

lemma history_simps [simp]:
  "creations [] = []" "sent_to k [] = []"
  "creations (evs @ [ev]) = creations evs @ (case ev of CreateEv i m \<Rightarrow> [(i, m)] | _ \<Rightarrow> [])"
  "sent_to k (evs @ [ev]) =
     sent_to k evs @ (case ev of SendEv h c \<Rightarrow> if sh_commands h = k then [c] else [] | _ \<Rightarrow> [])"
  by (simp_all add: creations_def sent_to_def)

text \<open>A task whose session was created with this name and sent these commands; \<open>closed\<close> if its
  queue was ever found closed.\<close>

definition task_history :: "encoder \<Rightarrow> session_id \<times> string \<Rightarrow> command list \<Rightarrow> bool \<Rightarrow> task \<Rightarrow> bool" where
  "task_history pb named_as sent closed t =
     (\<exists>handled f. run_session pb (initial_state (fst named_as) (snd named_as)) handled = (f, t_state t, t_log t) \<and>
        prefix handled sent \<and> (t_phase t \<noteq> Ended \<longrightarrow> sent = handled @ t_queue t) \<and>
        (is_break f \<longrightarrow> t_phase t \<noteq> Running) \<and> (t_phase t \<noteq> Running \<longrightarrow> is_break f \<or> closed))"

definition history_inv :: "encoder \<Rightarrow> node_event list \<Rightarrow> node \<Rightarrow> bool" where
  "history_inv pb evs n =
     (n_next n = length (creations evs) \<and>
      (\<forall>k. (n_tasks n k \<noteq> None) = (k < n_next n) \<and> (\<not> k < n_next n \<longrightarrow> sent_to k evs = [])) \<and>
      (\<forall>k t. n_tasks n k = Some t \<longrightarrow>
         task_history pb (creations evs ! k) (sent_to k evs) (CloseEv k \<in> set evs) t))"

lemma task_history_turn:
  assumes "task_history pb nm sent closed t" and "run_turn pb t = Some t'"
  shows "task_history pb nm sent closed t'"
proof -
  obtain c q where r: "t_phase t = Running" "t_queue t = c # q"
    using assms(2) by (auto simp: run_turn_def split: task_phase.splits list.splits)
  obtain g s' es where h: "handle pb (t_state t) c = (g, s', es)" by (cases "handle pb (t_state t) c")
  have t': "t' = t\<lparr>t_phase := (if is_break g then Stopping else Running),
      t_state := s', t_queue := q, t_log := t_log t @ es\<rparr>"
    using assms(2) r h by (simp add: run_turn_def)
  obtain handled f where run: "run_session pb (initial_state (fst nm) (snd nm)) handled = (f, t_state t, t_log t)"
    and f: "\<not> is_break f" and sent: "sent = handled @ c # q"
    using assms(1) r unfolding task_history_def by auto
  have f': "f = Continue ()" using f by (cases f) simp_all
  have "run_session pb (initial_state (fst nm) (snd nm)) (handled @ [c]) = (g, s', t_log t @ es)"
    using run h unfolding run_session_def run_machine_append f' by (cases g) simp_all
  then show ?thesis
    unfolding task_history_def using sent
    by (intro exI [of _ "handled @ [c]"] exI [of _ g]) (auto simp: t' prefix_def)
qed

lemma node_apply_history:
  assumes "node_apply pb ev n = Some n'" and inv: "history_inv pb evs n"
  shows "history_inv pb (evs @ [ev]) n'"
proof (cases ev)
  case (CreateEv i m)
  let ?t = "\<lparr>t_phase = Running, t_state = initial_state i m, t_queue = [], t_log = []\<rparr>"
  have new: "sent_to (n_next n) evs = []" using inv unfolding history_inv_def by blast
  have "task_history pb (i, m) [] closed ?t" for closed
    by (auto simp: task_history_def run_session_def)
  moreover have "n_tasks n' = (n_tasks n)(n_next n \<mapsto> ?t)" "n_next n' = Suc (n_next n)"
    using assms(1) CreateEv by (auto simp: create_session_def spawn_session_def)
  ultimately show ?thesis
    using inv CreateEv new by (auto simp: history_inv_def nth_append less_Suc_eq split: if_splits)
next
  case (SendEv h c)
  then obtain t where t: "n_tasks n (sh_commands h) = Some t" "t_phase t \<noteq> Ended"
    "n' = n\<lparr>n_tasks := (n_tasks n)(sh_commands h \<mapsto> t\<lparr>t_queue := t_queue t @ [c]\<rparr>)\<rparr>"
    using assms(1) by (auto simp: send_command_def split: option.splits if_splits)
  have "task_history pb nm sent closed t \<Longrightarrow>
      task_history pb nm (sent @ [c]) closed (t\<lparr>t_queue := t_queue t @ [c]\<rparr>)" for nm sent closed
    using t(2) by (fastforce simp: task_history_def prefix_def)
  then show ?thesis using inv t SendEv by (auto simp: history_inv_def)
next
  case (TurnEv k)
  then obtain t t' where t: "n_tasks n k = Some t" "run_turn pb t = Some t'" "n' = n\<lparr>n_tasks := (n_tasks n)(k \<mapsto> t')\<rparr>"
    using assms(1) by (auto split: option.splits)
  then show ?thesis using inv TurnEv task_history_turn [OF _ t(2)] by (auto simp: history_inv_def)
next
  case (CloseEv k)
  then obtain t where t: "n_tasks n k = Some t" "t_phase t = Running" "n' = n\<lparr>n_tasks := (n_tasks n)(k \<mapsto> t\<lparr>t_phase := Stopping\<rparr>)\<rparr>"
    using assms(1) by (auto simp: run_closed_def split: option.splits if_splits)
  have "task_history pb (creations evs ! k) (sent_to k evs) (CloseEv k \<in> set evs) t"
    using inv t(1) by (simp add: history_inv_def)
  then have "task_history pb (creations evs ! k) (sent_to k evs) True (t\<lparr>t_phase := Stopping\<rparr>)"
    using t(2) by (auto simp: task_history_def)
  then show ?thesis using inv t CloseEv by (auto simp: history_inv_def)
next
  case (EndEv k)
  then obtain t where t: "n_tasks n k = Some t" "t_phase t = Stopping"
    "n' = n\<lparr>n_tasks := (n_tasks n)(k \<mapsto> t\<lparr>t_phase := Ended, t_queue := []\<rparr>),
       n_sessions := registry_remove (n_sessions n) (sid (t_state t))\<rparr>"
    using assms(1) by (auto simp: end_task_def split: option.splits if_splits)
  have "task_history pb nm sent closed t \<Longrightarrow> task_history pb nm sent closed (t\<lparr>t_phase := Ended, t_queue := []\<rparr>)"
    for nm sent closed
    using t(2) by (auto simp: task_history_def)
  then show ?thesis using inv t EndEv by (auto simp: history_inv_def)
qed

lemma node_run_history: "node_run pb node_new evs = Some n \<Longrightarrow> history_inv pb evs n"
proof (induction evs arbitrary: n rule: rev_induct)
  case Nil
  then have "n = node_new" by simp
  then show ?case by (simp add: history_inv_def node_new_def)
next
  case (snoc ev evs)
  then show ?case using node_apply_history by (auto simp: node_run_append split: Option.bind_splits)
qed

text \<open>C27: The session tasks of a node do what they are sent, whatever else happens on the node:
  each has, from the initial state with the id and metadata its session was created with,
  handled a beginning of the commands that were sent to it, in the order in which they were sent
  and with the effects and the state of the session's step function. Until it ends, the others
  wait in its queue, none lost; it runs as long as no command has broken its loop, and stops
  only then, or when its queue was closed.\<close>

theorem node_sessions_are_runs:
  assumes "node_run pb node_new evs = Some n"
  shows "(n_tasks n k \<noteq> None \<longleftrightarrow> k < length (creations evs)) \<and>
    (\<forall>t. n_tasks n k = Some t \<longrightarrow>
      (\<exists>i m handled f. creations evs ! k = (i, m) \<and>
         run_session pb (initial_state i m) handled = (f, t_state t, t_log t) \<and>
         prefix handled (sent_to k evs) \<and>
         (t_phase t \<noteq> Ended \<longrightarrow> sent_to k evs = handled @ t_queue t) \<and>
         (is_break f \<longrightarrow> t_phase t \<noteq> Running) \<and>
         (t_phase t \<noteq> Running \<longrightarrow> is_break f \<or> CloseEv k \<in> set evs)))"
proof -
  note inv = node_run_history [OF assms, unfolded history_inv_def]
  have "\<exists>i m handled f. creations evs ! k = (i, m) \<and>
      run_session pb (initial_state i m) handled = (f, t_state t, t_log t) \<and> prefix handled (sent_to k evs) \<and>
      (t_phase t \<noteq> Ended \<longrightarrow> sent_to k evs = handled @ t_queue t) \<and> (is_break f \<longrightarrow> t_phase t \<noteq> Running) \<and>
      (t_phase t \<noteq> Running \<longrightarrow> is_break f \<or> CloseEv k \<in> set evs)"
    if "n_tasks n k = Some t" for t
    using inv that by (cases "creations evs ! k") (fastforce simp: task_history_def)
  then show ?thesis using inv by auto
qed

subsection \<open>The node's promises\<close>

fun example_node :: "node_event list \<Rightarrow> node \<Rightarrow> node" where
  "example_node [] n = n"
| "example_node (ev # evs) n =
     example_node evs (case node_apply (\<lambda>_. []) ev n of None \<Rightarrow> n | Some n' \<Rightarrow> n')"

lemma example_node_reach:
  "node_reachable (\<lambda>_. []) n \<Longrightarrow> node_reachable (\<lambda>_. []) (example_node evs n)"
proof (induction evs arbitrary: n)
  case (Cons ev evs)
  then show ?case
    by (cases "node_apply (\<lambda>_. []) ev n") (auto dest!: node_apply_step intro: reach_step)
qed simp

lemmas example_node_reachable = example_node_reach [OF reach_new]

definition example_finished :: node where
  "example_finished =
     example_node [CreateEv [1] ''m'', SendEv \<lparr>sh_id = [1], sh_commands = 0\<rparr> (FinishDownload 5),
       TurnEv 0] node_new"

lemmas example_node_simps =
  example_finished_def create_session_def spawn_session_def send_command_def
  run_turn_def run_closed_def end_task_def node_new_def finish_download_def replace_downloader_def
  terminate_uploader_def initial_state_def

theorem node_sessions_are_runs_witness:
  "\<exists>n t handled f. node_run (\<lambda>_. []) node_new
       [CreateEv [1] ''m'', SendEv \<lparr>sh_id = [1], sh_commands = 0\<rparr> (Metadata 4),
        SendEv \<lparr>sh_id = [1], sh_commands = 0\<rparr> (Metadata 5), TurnEv 0] = Some n \<and>
     n_tasks n 0 = Some t \<and> t_queue t = [Metadata 5] \<and> [Metadata 4, Metadata 5] = handled @ t_queue t \<and>
     run_session (\<lambda>_. []) (initial_state [1] ''m'') handled = (f, t_state t, t_log t)"
proof -
  let ?evs = "[CreateEv [1] ''m'', SendEv \<lparr>sh_id = [1], sh_commands = 0\<rparr> (Metadata 4),
    SendEv \<lparr>sh_id = [1], sh_commands = 0\<rparr> (Metadata 5), TurnEv 0]"
  obtain n t where n: "node_run (\<lambda>_. []) node_new ?evs = Some n" "n_tasks n 0 = Some t" "t_queue t = [Metadata 5]"
    "t_phase t = Running"
    by (simp add: example_node_simps)
  then show ?thesis
    using node_sessions_are_runs [OF n(1), of 0] by (auto simp: creations_def sent_to_def)
qed

text \<open>The registry never points to a dead end: what it finds under an id is a handle of
  that id whose task has not ended, so that a command sent to it is queued.\<close>

theorem registered_session_is_live:
  assumes "node_reachable pb n" and "registry_get (n_sessions n) i = Some h"
  shows "sh_id h = i \<and> (\<exists>t. n_tasks n (sh_commands h) = Some t \<and> sid (t_state t) = i \<and>
    t_phase t \<noteq> Ended) \<and> send_command h c n \<noteq> None"
  using node_reachable_inv [OF assms(1)] assms(2)
  by (auto simp: node_inv_def live_task_def send_command_def dest!: reg.filedD
      split: option.splits)

theorem registered_session_is_live_witness:
  "registry_get (n_sessions example_finished) [1] = Some \<lparr>sh_id = [1], sh_commands = 0\<rparr> \<and>
   send_command \<lparr>sh_id = [1], sh_commands = 0\<rparr> (Metadata 6) example_finished \<noteq> None"
proof -
  have g: "registry_get (n_sessions example_finished) [1] = Some \<lparr>sh_id = [1], sh_commands = 0\<rparr>"
    by (simp add: example_node_simps registry_get_def registry_insert_def)
  show ?thesis
    using registered_session_is_live
      [OF example_node_reachable g [unfolded example_finished_def], of "Metadata 6"] g
    by (simp add: example_finished_def)
qed

text \<open>A session that has ended is gone for good: no id finds it, its handles can send
  nothing any more, and every further step of the node leaves its task as it is.\<close>

theorem ended_session_stays_gone:
  assumes "node_reachable pb n" and "n_tasks n k = Some t" and "t_phase t = Ended"
    and "node_step pb n ev n'"
  shows "(\<forall>i h. registry_get (n_sessions n) i = Some h \<longrightarrow> sh_commands h \<noteq> k) \<and>
    send_command \<lparr>sh_id = i, sh_commands = k\<rparr> c n = None \<and> n_tasks n' k = Some t"
proof (intro conjI)
  note inv = node_reachable_inv [OF assms(1)]
  show "\<forall>i h. registry_get (n_sessions n) i = Some h \<longrightarrow> sh_commands h \<noteq> k"
    using inv assms(2,3) by (auto simp: node_inv_def live_task_def dest!: reg.filedD)
  show "send_command \<lparr>sh_id = i, sh_commands = k\<rparr> c n = None"
    using assms(2,3) by (simp add: send_command_def)
  have k: "k < n_next n" using inv assms(2) by (auto simp: node_inv_def)
  from assms(4) show "n_tasks n' k = Some t"
  proof (cases rule: node_step.cases)
    case (step_create i m h)
    then show ?thesis
      using k assms(2) by (auto simp: create_session_def spawn_session_def Let_def)
  next
    case (step_send h c)
    then show ?thesis
      using assms(2,3) by (auto simp: send_command_def split: option.splits if_splits)
  next
    case (step_turn j u u')
    then show ?thesis using assms(2,3) by (auto simp: run_turn_def)
  next
    case (step_close j u u')
    then show ?thesis using assms(2,3) by (auto simp: run_closed_def)
  next
    case (step_end j u u' r')
    then show ?thesis using assms(2,3) by auto
  qed
qed

theorem ended_session_stays_gone_witness:
  "let n = example_node [CreateEv [1] ''m'',
         SendEv \<lparr>sh_id = [1], sh_commands = 0\<rparr> (FinishDownload 5), TurnEv 0, EndEv 0] node_new
   in registry_get (n_sessions n) [1] = None \<and>
      send_command \<lparr>sh_id = [1], sh_commands = 0\<rparr> (Metadata 6) n = None"
proof -
  define n where "n = example_node [CreateEv [1] ''m'',
         SendEv \<lparr>sh_id = [1], sh_commands = 0\<rparr> (FinishDownload 5), TurnEv 0, EndEv 0] node_new"
  have t: "\<exists>t. n_tasks n 0 = Some t \<and> t_phase t = Ended"
    by (simp add: n_def example_node_simps)
  have g: "registry_get (n_sessions n) [1] = None"
    by (simp add: n_def example_node_simps registry_get_def registry_insert_def
        registry_remove_def)
  obtain h n' where "create_session [2] ''m'' n = (h, n')" by (cases "create_session [2] ''m'' n")
  then have s: "node_step (\<lambda>_. []) n (CreateEv [2] ''m'') n'" by (rule step_create)
  from t ended_session_stays_gone [OF example_node_reachable _ _ s [unfolded n_def]]
  show ?thesis using g by (fold n_def) auto
qed

end
