(* ===== verification/Rust_Str.thy ===== *)
theory Rust_Str
  imports Glop_Prelude "HOL-Library.Char_ord"
begin

text \<open>
  The parts of Rust's \<open>str\<close> and of its integer parsing and printing that the sources use:
  \<open>strip_prefix\<close>, \<open>split_once\<close>, \<open>rsplit_once\<close>, \<open>trim\<close>, \<open>contains\<close>, \<open>u64::from_str\<close> and
  \<open>Display\<close> of an unsigned integer. A string is a list of 8-bit characters; every string
  these functions see in the program is the ASCII text of a header or of a URL.
\<close>

subsection \<open>Splitting and trimming\<close>

fun strip_prefix :: "string \<Rightarrow> string \<Rightarrow> string option" where
  "strip_prefix [] s = Some s"
| "strip_prefix (p # ps) [] = None"
| "strip_prefix (p # ps) (c # cs) = (if p = c then strip_prefix ps cs else None)"

lemma strip_prefix_append [simp]: "strip_prefix p (p @ s) = Some s"
  by (induction p) simp_all

lemma strip_prefix_Some: "strip_prefix p s = Some r \<longleftrightarrow> s = p @ r"
  by (induction p s rule: strip_prefix.induct) auto

text \<open>Split at the first, or at the last, occurrence of a character.\<close>

fun split_once :: "char \<Rightarrow> string \<Rightarrow> (string \<times> string) option" where
  "split_once d [] = None"
| "split_once d (c # cs) =
     (if c = d then Some ([], cs) else map_option (apfst (Cons c)) (split_once d cs))"

definition rsplit_once :: "char \<Rightarrow> string \<Rightarrow> (string \<times> string) option" where
  "rsplit_once d s = map_option (\<lambda>(a, b). (rev b, rev a)) (split_once d (rev s))"

lemma split_once_append [simp]: "d \<notin> set a \<Longrightarrow> split_once d (a @ d # b) = Some (a, b)"
  by (induction a) auto

lemma split_once_Some:
  "split_once d s = Some (a, b) \<longleftrightarrow> s = a @ d # b \<and> d \<notin> set a"
proof (induction s arbitrary: a b)
  case Nil
  then show ?case by simp
next
  case (Cons c cs)
  show ?case
  proof (cases "c = d")
    case True
    then show ?thesis by (cases a) auto
  next
    case False
    then show ?thesis using Cons by (cases a) (auto simp: apfst_def map_prod_def)
  qed
qed

lemma split_once_None: "split_once d s = None \<longleftrightarrow> d \<notin> set s"
  by (induction s) auto

lemma rsplit_once_append [simp]: "d \<notin> set b \<Longrightarrow> rsplit_once d (a @ d # b) = Some (a, b)"
  by (simp add: rsplit_once_def)

lemma rsplit_once_Some:
  "rsplit_once d s = Some (a, b) \<longleftrightarrow> s = a @ d # b \<and> d \<notin> set b"
proof -
  have "rsplit_once d s = Some (a, b) \<longleftrightarrow> split_once d (rev s) = Some (rev b, rev a)"
    by (auto simp: rsplit_once_def)
  also have "\<dots> \<longleftrightarrow> rev s = rev (a @ d # b) \<and> d \<notin> set b"
    by (simp add: split_once_Some)
  finally show ?thesis by (simp only: rev_is_rev_conv)
qed

text \<open>The characters below \<open>U+0100\<close> with the Unicode property \<open>White_Space\<close>.\<close>

definition is_whitespace :: "char \<Rightarrow> bool" where
  "is_whitespace c = ((of_char c :: nat) \<in> {9, 10, 11, 12, 13, 32, 133, 160})"

definition trim_start :: "string \<Rightarrow> string" where
  "trim_start = dropWhile is_whitespace"

definition trim_end :: "string \<Rightarrow> string" where
  "trim_end s = rev (dropWhile is_whitespace (rev s))"

definition trim :: "string \<Rightarrow> string" where
  "trim s = trim_end (trim_start s)"

lemma trim_id:
  "s = [] \<or> (\<not> is_whitespace (hd s) \<and> \<not> is_whitespace (last s)) \<Longrightarrow> trim s = s"
proof (cases "s = []")
  case True
  then show ?thesis by (simp add: trim_def trim_start_def trim_end_def)
next
  case False
  assume "s = [] \<or> (\<not> is_whitespace (hd s) \<and> \<not> is_whitespace (last s))"
  then have h: "\<not> is_whitespace (hd s)" "\<not> is_whitespace (last s)" using False by auto
  have "dropWhile is_whitespace s = s" using h by (subst dropWhile_eq_self_iff) simp
  moreover have "dropWhile is_whitespace (rev s) = rev s"
    using h by (subst dropWhile_eq_self_iff) (simp add: hd_rev)
  ultimately show ?thesis by (simp add: trim_def trim_start_def trim_end_def)
qed

subsection \<open>Unsigned integers in decimal\<close>

definition digit_char :: "nat \<Rightarrow> char" where
  "digit_char d = char_of (48 + d)"

definition to_digit :: "char \<Rightarrow> nat option" where
  "to_digit c = (let k = of_char c in if 48 \<le> k \<and> k \<le> 57 then Some (k - 48) else None)"

lemma to_digit_char: "d < 10 \<Longrightarrow> to_digit (digit_char d) = Some d"
  by (simp add: to_digit_def digit_char_def Let_def)

lemma digit_char_simps [simp]:
  "digit_char 0 = CHR ''0''" "digit_char 1 = CHR ''1''" "digit_char (Suc 0) = CHR ''1''"
  "digit_char 2 = CHR ''2''" "digit_char 3 = CHR ''3''" "digit_char 4 = CHR ''4''"
  "digit_char 5 = CHR ''5''" "digit_char 6 = CHR ''6''" "digit_char 7 = CHR ''7''"
  "digit_char 8 = CHR ''8''" "digit_char 9 = CHR ''9''"
  by code_simp+

text \<open>\<open>Display\<close>: the decimal digits, without leading zeros.\<close>

fun decimal :: "nat \<Rightarrow> string" where
  "decimal n = (if n < 10 then [digit_char n] else decimal (n div 10) @ [digit_char (n mod 10)])"

declare decimal.simps [simp del]

definition show_u64 :: "u64 \<Rightarrow> string" where
  "show_u64 w = decimal (unat w)"

text \<open>
  \<open>u64::from_str\<close>: an optional plus sign, then at least one digit; a character that is no
  digit, or a value that does not fit, is an error.
\<close>

fun digits_value :: "nat \<Rightarrow> string \<Rightarrow> nat option" where
  "digits_value acc [] = Some acc"
| "digits_value acc (c # cs) =
     (case to_digit c of
        None \<Rightarrow> None
      | Some d \<Rightarrow>
          (let v = acc * 10 + d in if v < 2 ^ 64 then digits_value v cs else None))"

definition parse_u64 :: "string \<Rightarrow> u64 option" where
  "parse_u64 s =
     (case s of
        [] \<Rightarrow> None
      | c # cs \<Rightarrow>
          map_option of_nat
            (digits_value 0 (if c = CHR ''+'' \<and> cs \<noteq> [] then cs else s)))"

lemma digits_value_append:
  "digits_value acc (a @ b) = Option.bind (digits_value acc a) (\<lambda>v. digits_value v b)"
  by (induction a arbitrary: acc) (auto split: option.splits simp: Let_def)

lemma digits_value_decimal: "n < 2 ^ 64 \<Longrightarrow> digits_value 0 (decimal n) = Some n"
proof (induction n rule: decimal.induct)
  case (1 n)
  show ?case
  proof (cases "n < 10")
    case True
    then show ?thesis using 1 by (subst decimal.simps) (simp add: to_digit_char)
  next
    case False
    then have "digits_value 0 (decimal (n div 10)) = Some (n div 10)"
      using 1 by simp
    then show ?thesis
      using 1(2) False by (subst decimal.simps) (simp add: digits_value_append to_digit_char)
  qed
qed

lemma digit_char_props:
  assumes "d < 10"
  shows "\<not> is_whitespace (digit_char d)" "digit_char d \<noteq> CHR ''+''" "digit_char d \<noteq> CHR ''-''"
    "digit_char d \<noteq> CHR ''/''" "digit_char d \<noteq> CHR ''*''" "digit_char d \<noteq> CHR '',''"
proof -
  have k: "(of_char (digit_char d) :: nat) = 48 + d" using assms by (simp add: digit_char_def)
  show "\<not> is_whitespace (digit_char d)" using k assms by (simp add: is_whitespace_def)
  show "digit_char d \<noteq> CHR ''+''" "digit_char d \<noteq> CHR ''-''" "digit_char d \<noteq> CHR ''/''"
    "digit_char d \<noteq> CHR ''*''" "digit_char d \<noteq> CHR '',''"
    using k assms by (auto dest: arg_cong [where f = "of_char :: char \<Rightarrow> nat"])
qed

lemma decimal_digits: "c \<in> set (decimal n) \<Longrightarrow> \<exists>d < 10. c = digit_char d"
proof (induction n rule: decimal.induct)
  case (1 n)
  show ?case
  proof (cases "n < 10")
    case True
    then show ?thesis using 1(2) by (subst (asm) decimal.simps) auto
  next
    case False
    then have "c \<in> set (decimal (n div 10)) \<or> c = digit_char (n mod 10)"
      using 1(2) by (subst (asm) decimal.simps) auto
    then show ?thesis using 1(1) False by (metis mod_less_divisor zero_less_numeral)
  qed
qed

lemma decimal_not_Nil [simp]: "decimal n \<noteq> []"
  by (subst decimal.simps) simp

lemma decimal_chars:
  "c \<in> set (decimal n) \<Longrightarrow>
   \<not> is_whitespace c \<and> c \<noteq> CHR ''+'' \<and> c \<noteq> CHR ''-'' \<and> c \<noteq> CHR ''/'' \<and> c \<noteq> CHR ''*''
   \<and> c \<noteq> CHR '',''"
  by (drule decimal_digits) (auto simp: digit_char_props)

lemma decimal_trim [simp]: "trim (decimal n) = decimal n"
  using decimal_chars [OF hd_in_set [OF decimal_not_Nil]]
    decimal_chars [OF last_in_set [OF decimal_not_Nil]]
  by (intro trim_id) blast

lemma decimal_no_sep [simp]:
  "CHR ''-'' \<notin> set (decimal n)" "CHR ''/'' \<notin> set (decimal n)"
  "CHR ''*'' \<notin> set (decimal n)" "CHR '','' \<notin> set (decimal n)"
  by (auto dest: decimal_chars)

lemma parse_decimal: "n < 2 ^ 64 \<Longrightarrow> parse_u64 (decimal n) = Some (of_nat n)"
proof -
  assume n: "n < 2 ^ 64"
  obtain c cs where d: "decimal n = c # cs" by (cases "decimal n") auto
  then have "c \<noteq> CHR ''+''" using decimal_chars [of c n] by simp
  then show ?thesis using digits_value_decimal [OF n] by (simp add: parse_u64_def d)
qed

lemma parse_show_u64 [simp]: "parse_u64 (show_u64 w) = Some w"
  using unat_u64 [of w] by (simp add: show_u64_def parse_decimal del: of_nat_unat) simp

lemma show_u64_simps [simp]:
  "show_u64 w \<noteq> []" "trim (show_u64 w) = show_u64 w"
  "CHR ''-'' \<notin> set (show_u64 w)" "CHR ''/'' \<notin> set (show_u64 w)"
  "CHR ''*'' \<notin> set (show_u64 w)" "CHR '','' \<notin> set (show_u64 w)"
  by (simp_all add: show_u64_def)

lemma parse_u64_Nil [simp]: "parse_u64 [] = None"
  by (simp add: parse_u64_def)

end
