(* ===== verification/Relay_Range.thy ===== *)
theory Relay_Range
  imports Rust_Str
begin

text \<open>
  \<^verbatim>\<open>glopfile-relay/src/range.rs\<close>: parsing of the \<open>Range\<close> and \<open>Content-Range\<close> headers. A
  header is the option the header map's \<open>get\<close> returns, and the first argument \<open>to_str\<close> is
  \<open>HeaderValue::to_str\<close>, which the code calls on it. Beside the parsers stand the header
  values that the client formats (\<^verbatim>\<open>api_client.rs\<close>), so that the two sides of the protocol
  are compared here.
\<close>

subsection \<open>The parsers\<close>

datatype download_position = At u64 | Eof

fun at_parsed :: "u64 option \<Rightarrow> string + download_position" where
  "at_parsed None = Inl ''malformed range''"
| "at_parsed (Some p) = Inr (At p)"

definition download_position ::
  "('h \<Rightarrow> string option) \<Rightarrow> 'h option \<Rightarrow> string + download_position" where
  "download_position to_str header =
     (case header of
        None \<Rightarrow> Inr (At 0)
      | Some h \<Rightarrow>
     case to_str h of
        None \<Rightarrow> Inl ''malformed range''
      | Some s \<Rightarrow>
     case strip_prefix ''bytes='' s of
        None \<Rightarrow> Inl ''unsupported range unit''
      | Some specs \<Rightarrow>
     case split_once CHR ''-'' specs of
        None \<Rightarrow> Inl ''malformed range''
      | Some (start, end) \<Rightarrow>
     if CHR '','' \<in> set end then Inl ''multiple ranges unimplemented''
     else if trim start = [] \<and> trim end = ''0'' then Inr Eof
     else if trim start = [] then Inl ''suffix ranges unimplemented''
     else if trim end = [] then at_parsed (parse_u64 (trim start))
     else Inl ''partial ranges unimplemented'')"

definition upload_position ::
  "('h \<Rightarrow> string option) \<Rightarrow> 'h option \<Rightarrow> string + u64" where
  "upload_position to_str header =
     (case header of
        None \<Rightarrow> Inr 0
      | Some h \<Rightarrow>
     case to_str h of
        None \<Rightarrow> Inl ''malformed content range''
      | Some s \<Rightarrow>
     case strip_prefix ''bytes '' s of
        None \<Rightarrow> Inl ''unsupported range unit''
      | Some spec \<Rightarrow>
     case rsplit_once CHR ''/'' (trim spec) of
        None \<Rightarrow> Inl ''malformed content range''
      | Some (rng, sz) \<Rightarrow>
     if rng = ''*'' then
       (case parse_u64 sz of None \<Rightarrow> Inl ''malformed content range'' | Some n \<Rightarrow> Inr n)
     else
     case split_once CHR ''-'' rng of
        None \<Rightarrow> Inl ''malformed content range''
      | Some (start, end) \<Rightarrow>
     case (parse_u64 start, parse_u64 end, parse_u64 sz) of
        (Some start, Some end, Some sz) \<Rightarrow>
          if sz \<noteq> end + 1 then Inl ''partial ranges unimplemented'' else Inr start
      | _ \<Rightarrow> Inl ''malformed content range'')"

subsection \<open>The headers the client sends\<close>

text \<open>
  \<open>download_content\<close> formats \<open>bytes={content_offset}-\<close>, \<open>finish_download\<close> sends the
  constant, and \<open>upload_file\<close> formats the position it starts from; there \<open>file_size - 1\<close> is
  \<open>usize\<close> arithmetic on a file that is never empty.
\<close>

definition download_range :: "u64 \<Rightarrow> string" where
  "download_range offset = ''bytes='' @ show_u64 offset @ ''-''"

definition finish_range :: string where
  "finish_range = ''bytes=-0''"

definition upload_content_range :: "u64 \<Rightarrow> u64 \<Rightarrow> string" where
  "upload_content_range position file_size =
     (let last_position = file_size - 1
      in if position < file_size
         then ''bytes '' @ show_u64 position @ ''-'' @ show_u64 last_position @ ''/''
                @ show_u64 file_size
         else ''bytes */'' @ show_u64 file_size)"

subsection \<open>The two sides agree\<close>

lemma trim_snoc_digit:
  "\<not> is_whitespace c \<Longrightarrow> d \<noteq> [] \<Longrightarrow> \<not> is_whitespace (last d) \<Longrightarrow> trim (c # a @ d) = c # a @ d"
  by (rule trim_id) simp

lemma show_u64_ends:
  "\<not> is_whitespace (hd (show_u64 w))" "\<not> is_whitespace (last (show_u64 w))"
  using decimal_chars [OF hd_in_set [OF decimal_not_Nil]]
    decimal_chars [OF last_in_set [OF decimal_not_Nil]]
  by (simp_all add: show_u64_def)

lemma trim_range [simp]:
  "trim (show_u64 p @ x # show_u64 q @ y # show_u64 n) = show_u64 p @ x # show_u64 q @ y # show_u64 n"
  "trim (CHR ''*'' # CHR ''/'' # show_u64 n) = CHR ''*'' # CHR ''/'' # show_u64 n"
proof -
  have "\<not> is_whitespace CHR ''*''" by (simp add: is_whitespace_def)
  then show "trim (CHR ''*'' # CHR ''/'' # show_u64 n) = CHR ''*'' # CHR ''/'' # show_u64 n"
    by (intro trim_id) (simp add: show_u64_ends)
qed (rule trim_id, simp add: show_u64_ends)

lemma download_position_range:
  "download_position Some (Some (download_range offset)) = Inr (At offset)"
  by (simp add: download_range_def download_position_def trim_id [of "[]"])

text \<open>Every \<open>Range\<close> header the client formats is read by the relay as the client means
  it: \<open>bytes={offset}-\<close> as a download from that offset, whatever the \<open>u64\<close>, and the
  \<open>bytes=-0\<close> of \<open>finish_download\<close> as the end of the download.\<close>

theorem download_range_understood:
  "download_position Some (Some (download_range offset)) = Inr (At offset) \<and>
   download_position Some (Some finish_range) = Inr Eof \<and>
   download_position Some None = Inr (At 0)"
proof (intro conjI)
  have "trim ''0'' = ''0''" by (rule trim_id) (simp add: is_whitespace_def)
  then show "download_position Some (Some finish_range) = Inr Eof"
    by (simp add: finish_range_def download_position_def trim_def trim_start_def trim_end_def)
qed (rule download_position_range, simp add: download_position_def)

lemma upload_position_full_range:
  "upload_position Some
     (Some (''bytes '' @ show_u64 s @ ''-'' @ show_u64 e @ ''/'' @ show_u64 n)) =
   (if n = e + 1 then Inr s else Inl ''partial ranges unimplemented'')"
proof -
  have "rsplit_once CHR ''/'' (show_u64 s @ CHR ''-'' # show_u64 e @ CHR ''/'' # show_u64 n) =
      Some (show_u64 s @ CHR ''-'' # show_u64 e, show_u64 n)"
    using rsplit_once_append [of "CHR ''/''" "show_u64 n" "show_u64 s @ CHR ''-'' # show_u64 e"]
    by simp
  moreover have "show_u64 s @ CHR ''-'' # show_u64 e \<noteq> ''*''"
    by (cases "show_u64 s") (auto simp: show_u64_def)
  ultimately show ?thesis by (simp add: upload_position_def)
qed

lemma upload_position_star:
  "upload_position Some (Some (''bytes */'' @ show_u64 n)) = Inr n"
proof -
  have "rsplit_once CHR ''/'' (CHR ''*'' # CHR ''/'' # show_u64 n) = Some (''*'', show_u64 n)"
    using rsplit_once_append [of "CHR ''/''" "show_u64 n" "''*''"] by simp
  then show ?thesis by (simp add: upload_position_def)
qed

text \<open>C29: The \<open>Content-Range\<close> header that \<open>upload_file\<close> formats for any position of a
  file, the end included, is read by the relay as that position.\<close>

theorem upload_range_understood:
  assumes "position \<le> file_size"
  shows "upload_position Some (Some (upload_content_range position file_size)) = Inr position"
  using assms upload_position_full_range upload_position_star
  by (auto simp: upload_content_range_def Let_def)

theorem upload_range_understood_witness:
  "upload_position Some (Some (upload_content_range 40 100)) = Inr 40 \<and>
   upload_content_range 40 100 = ''bytes 40-99/100'' \<and>
   upload_position Some (Some (upload_content_range 100 100)) = Inr 100"
  using upload_range_understood [of 40 100] upload_range_understood [of 100 100]
  by (simp add: upload_content_range_def show_u64_def decimal.simps)

text \<open>The relay takes a download position only from a header of the form
  \<open>bytes=<position>-\<close> with nothing but white space around the number, and position 0 only
  otherwise from an absent header: ranges with an end, suffixes, other units and lists are
  refused.\<close>

theorem download_position_only_open_ranges:
  assumes "download_position to_str header = Inr (At p)"
  shows "(header = None \<and> p = 0) \<or>
    (\<exists>h start rest. header = Some h \<and> to_str h = Some (''bytes='' @ start @ ''-'' @ rest) \<and>
       CHR ''-'' \<notin> set start \<and> parse_u64 (trim start) = Some p \<and> trim rest = [])"
proof (cases header)
  case None
  then show ?thesis using assms by (simp add: download_position_def)
next
  case (Some h)
  obtain s where s: "to_str h = Some s"
    using assms Some by (cases "to_str h") (auto simp: download_position_def)
  obtain specs where specs: "s = ''bytes='' @ specs"
    using assms Some s
    by (cases "strip_prefix ''bytes='' s")
      (auto simp: download_position_def strip_prefix_Some simp del: append.simps)
  obtain start rest where "split_once CHR ''-'' specs = Some (start, rest)"
    using assms Some s specs
    by (cases "split_once CHR ''-'' specs") (auto simp: download_position_def)
  moreover from this have "specs = start @ CHR ''-'' # rest" "CHR ''-'' \<notin> set start"
    by (simp_all add: split_once_Some)
  moreover have "parse_u64 (trim start) = Some p" "trim rest = []"
    using assms Some s specs calculation(1)
    by (cases "parse_u64 (trim start)"; auto simp: download_position_def split: if_splits)+
  ultimately show ?thesis using Some s specs by auto
qed

theorem download_position_only_open_ranges_witness:
  "download_position Some (Some ''bytes=42-'') = Inr (At 42) \<and>
   (\<exists>start rest. ''bytes=42-'' = ''bytes='' @ start @ ''-'' @ rest \<and>
      parse_u64 (trim start) = Some 42 \<and> trim rest = []) \<and>
   download_position Some (Some ''bytes=0-10'') = Inl ''partial ranges unimplemented''"
proof -
  have c: "download_position Some (Some ''bytes=42-'') = Inr (At 42)"
    by (simp add: download_position_def trim_def trim_start_def trim_end_def is_whitespace_def
        parse_u64_def to_digit_def)
  have "download_position Some (Some ''bytes=0-10'') = Inl ''partial ranges unimplemented''"
    by (simp add: download_position_def trim_def trim_start_def trim_end_def is_whitespace_def)
  then show ?thesis using download_position_only_open_ranges [OF c] c by auto
qed

text \<open>An upload range is accepted only when it runs to the end of the content, that is
  when its size is one more than its last position in 64-bit arithmetic. The sum wraps: the
  range that ends at the largest \<open>u64\<close> is accepted with the size 0, although
  it describes no content.\<close>

theorem upload_range_runs_to_the_end:
  "upload_position Some
     (Some (''bytes '' @ show_u64 s @ ''-'' @ show_u64 e @ ''/'' @ show_u64 n)) =
   (if n = e + 1 then Inr s else Inl ''partial ranges unimplemented'') \<and>
   upload_position Some (Some ''bytes 5-18446744073709551615/0'') = Inr 5"
proof
  have "show_u64 5 = ''5''" "show_u64 0 = ''0''"
    "show_u64 18446744073709551615 = ''18446744073709551615''"
    by (simp_all add: show_u64_def decimal.simps)
  then show "upload_position Some (Some ''bytes 5-18446744073709551615/0'') = Inr 5"
    using upload_position_full_range [of 5 18446744073709551615 0] by simp
qed (rule upload_position_full_range)

text \<open>For evaluating the parsers on concrete headers.\<close>

lemmas range_simps =
  download_position_def upload_position_def rsplit_once_def parse_u64_def to_digit_def trim_def trim_start_def
  trim_end_def is_whitespace_def Let_def of_char_def

end
