(* ===== verification/Relay_Api.thy ===== *)
theory Relay_Api
  imports Relay_Node Relay_Range Relay_Session_Pipe
begin

text \<open>
  \<^verbatim>\<open>glopfile-relay/src/api.rs\<close>: the HTTP handlers. What a handler answers is a value of
  \<open>api_error + response\<close>, as in the code. A handler that awaits replies of its session is a
  small state machine: \<open>upload_command\<close> is the request it waits for, \<open>upload_reply\<close> what it
  does with the answer, and the items of the request body are a list that may contain a read
  error. JSON bodies are kept as the values that the code serialises. The router is a
  function of the method and the path segments.
\<close>

subsection \<open>Requests and responses\<close>

datatype api_error = ApiNotFound | ApiInvalid string

datatype resp_body =
    EmptyBody
  | UploadOk
  | UploadErr string
  | Conflict u64
  | Created string string
  | DownloadMetaBody string string
  | ContentBody

type_synonym headers = "string \<rightharpoonup> string"

record response =
  status :: nat
  resp_headers :: headers
  body :: resp_body

definition plain :: "nat \<Rightarrow> response" where
  "plain code = \<lparr>status = code, resp_headers = Map.empty, body = EmptyBody\<rparr>"

definition json :: "nat \<Rightarrow> resp_body \<Rightarrow> response" where
  "json code b =
     \<lparr>status = code, resp_headers = [''content-type'' \<mapsto> ''application/json''], body = b\<rparr>"

definition error_response :: "api_error \<Rightarrow> response" where
  "error_response e = (case e of ApiNotFound \<Rightarrow> plain 404 | ApiInvalid r \<Rightarrow> plain 400)"

definition answer :: "api_error + response \<Rightarrow> response" where
  "answer r = (case r of Inl e \<Rightarrow> error_response e | Inr x \<Rightarrow> x)"

definition lookup_session ::
  "(string \<Rightarrow> bytes option) \<Rightarrow> registry \<Rightarrow> string \<Rightarrow> api_error + session_handle" where
  "lookup_session dec r s =
     (case decode_id dec s of
        None \<Rightarrow> Inl (ApiInvalid ''invalid id'')
      | Some i \<Rightarrow>
          (case registry_get r i of None \<Rightarrow> Inl ApiNotFound | Some h \<Rightarrow> Inr h))"

subsection \<open>Creating a file and its metadata\<close>

text \<open>The form's \<open>encrypted_metadata\<close>, or the rejection of a malformed form.\<close>

definition create_file ::
  "(bytes \<Rightarrow> string) \<Rightarrow> (nat \<Rightarrow> bytes) \<Rightarrow> string option \<Rightarrow> node \<Rightarrow> (api_error + response) \<times> node" where
  "create_file enc fill form n =
     (case form of
        None \<Rightarrow> (Inl (ApiInvalid ''metadata missing''), n)
      | Some meta \<Rightarrow>
          (let (session, n') = create_session (generate_id fill) meta n;
               i = encode_id enc (sh_id session)
           in (Inr (json 200 (Created (''/api/v1/upload/'' @ i) i)), n')))"

text \<open>\<open>download_meta\<close>, once the session has answered its \<open>Metadata\<close> request, or has closed.\<close>

definition download_meta ::
  "(bytes \<Rightarrow> string) \<Rightarrow> session_handle \<Rightarrow> string option \<Rightarrow> api_error + response" where
  "download_meta enc session reply =
     (case reply of
        None \<Rightarrow> Inl ApiNotFound
      | Some meta \<Rightarrow>
          Inr (json 200 (DownloadMetaBody
            meta (''/api/v1/download/'' @ encode_id enc (sh_id session) @ ''/content''))))"

subsection \<open>Uploads\<close>

definition api_upload_error :: "upload_error \<Rightarrow> api_error + response" where
  "api_upload_error e =
     (case e of
        NotFound \<Rightarrow> Inl ApiNotFound
      | Position p \<Rightarrow> Inr (json 409 (Conflict p))
      | Finished \<Rightarrow> Inr (json 200 UploadOk)
      | ConnectionReplaced \<Rightarrow> Inr (json 200 (UploadErr ''connection_replaced''))
      | DataPending \<Rightarrow> Inr (json 200 (UploadErr ''data_pending'')))"

text \<open>
  The handle's upload requests answer \<open>NotFound\<close> when the session has closed: \<open>None\<close> is a
  failed send or a dropped reply.
\<close>

definition or_not_found :: "upload_result option \<Rightarrow> upload_result" where
  "or_not_found r = (case r of None \<Rightarrow> Inl NotFound | Some x \<Rightarrow> x)"

definition start_upload_answer :: "upload_result \<Rightarrow> api_error + response" where
  "start_upload_answer r =
     (case r of Inr _ \<Rightarrow> Inr (json 200 UploadOk) | Inl e \<Rightarrow> api_upload_error e)"

text \<open>The handler \<open>start_upload\<close> up to its request, \<open>CheckStartUpload\<close> at the form's position.\<close>

definition start_upload_begin ::
  "(string \<Rightarrow> bytes option) \<Rightarrow> registry \<Rightarrow> string \<Rightarrow> u64 option \<Rightarrow>
   api_error + session_handle \<times> position" where
  "start_upload_begin dec reg s form =
     (case form of
        None \<Rightarrow> Inl (ApiInvalid ''position missing'')
      | Some p \<Rightarrow>
          (case lookup_session dec reg s of Inl e \<Rightarrow> Inl e | Inr session \<Rightarrow> Inr (session, p)))"

type_synonym body_items = "(unit + bytes) list"

datatype upload_state =
    UpStarting position body_items
  | UpFlushing body_items
  | UpSending chunk "bytes option" body_items
  | UpDone "api_error + response"

definition read_failed :: upload_state where
  "read_failed = UpDone (Inl (ApiInvalid ''body read failed''))"

text \<open>The head of the loop: take the item read before, and look one item ahead.\<close>

fun send_next :: "bytes option \<Rightarrow> body_items \<Rightarrow> upload_state" where
  "send_next next [] = UpSending (FinalChunk (case next of None \<Rightarrow> [] | Some d \<Rightarrow> d)) None []"
| "send_next next (Inl _ # items) = read_failed"
| "send_next next (Inr d # items) =
     UpSending (MoreChunk (case next of None \<Rightarrow> [] | Some d \<Rightarrow> d)) (Some d) items"

fun read_first :: "body_items \<Rightarrow> upload_state" where
  "read_first [] = send_next None []"
| "read_first (Inl _ # items) = read_failed"
| "read_first (Inr d # items) = send_next (Some d) items"

definition is_final :: "chunk \<Rightarrow> bool" where
  "is_final c = (case c of FinalChunk d \<Rightarrow> True | MoreChunk d \<Rightarrow> False)"

lemma is_final_simps [simp]: "is_final (FinalChunk d)" "\<not> is_final (MoreChunk d)"
  by (simp_all add: is_final_def)

fun upload_reply :: "upload_state \<Rightarrow> upload_result \<Rightarrow> upload_state" where
  "upload_reply (UpStarting p items) r =
     (case r of Inr _ \<Rightarrow> UpFlushing items | Inl e \<Rightarrow> UpDone (api_upload_error e))"
| "upload_reply (UpFlushing items) r =
     (case r of Inr _ \<Rightarrow> read_first items | Inl e \<Rightarrow> UpDone (api_upload_error e))"
| "upload_reply (UpSending c next items) r =
     (case r of
        Inr _ \<Rightarrow> if is_final c then UpDone (Inr (json 200 UploadOk)) else send_next next items
      | Inl e \<Rightarrow> UpDone (api_upload_error e))"
| "upload_reply (UpDone a) r = UpDone a"

fun upload_command :: "token \<Rightarrow> waiter \<Rightarrow> upload_state \<Rightarrow> command option" where
  "upload_command t w (UpStarting p items) = Some (StartUpload t p w)"
| "upload_command t w (UpFlushing items) = Some (FlushUpload t w)"
| "upload_command t w (UpSending c next items) = Some (UploadData t c w)"
| "upload_command t w (UpDone a) = None"

text \<open>The whole handler up to its first request.\<close>

definition upload_begin ::
  "(string \<Rightarrow> bytes option) \<Rightarrow> ('h \<Rightarrow> string option) \<Rightarrow> registry \<Rightarrow> string \<Rightarrow> 'h option \<Rightarrow>
   body_items \<Rightarrow> upload_state" where
  "upload_begin dec to_str reg s header items =
     (case lookup_session dec reg s of
        Inl e \<Rightarrow> UpDone (Inl e)
      | Inr session \<Rightarrow>
     case upload_position to_str header of
        Inl reason \<Rightarrow> UpDone (Inl (ApiInvalid reason))
      | Inr p \<Rightarrow> UpStarting p items)"

text \<open>The guard \<open>Upload\<close>: what is sent when the request ends, by return or by cancellation.\<close>

definition upload_drop :: "token \<Rightarrow> command" where
  "upload_drop t = DisconnectedCmd t UploaderPeer"

text \<open>The chunks a handler sends while its requests are answered, and where it ends up.\<close>

fun upload_run :: "upload_state \<Rightarrow> upload_result list \<Rightarrow> chunk list \<times> upload_state" where
  "upload_run st [] = ([], st)"
| "upload_run st (r # rs) =
     (case upload_run (upload_reply st r) rs of (cs, st') \<Rightarrow>
        (case st of UpSending c next items \<Rightarrow> c # cs | _ \<Rightarrow> cs, st'))"

subsection \<open>Downloads\<close>

datatype download_start = DownloadRefused api_error | DownloadFinish session_handle
  | DownloadFrom session_handle position

definition download_begin ::
  "(string \<Rightarrow> bytes option) \<Rightarrow> ('h \<Rightarrow> string option) \<Rightarrow> registry \<Rightarrow> string \<Rightarrow> 'h option \<Rightarrow>
   download_start" where
  "download_begin dec to_str reg s header =
     (case lookup_session dec reg s of
        Inl e \<Rightarrow> DownloadRefused e
      | Inr session \<Rightarrow>
     case download_position to_str header of
        Inl reason \<Rightarrow> DownloadRefused (ApiInvalid reason)
      | Inr Eof \<Rightarrow> DownloadFinish session
      | Inr (At p) \<Rightarrow> DownloadFrom session p)"

definition download_command :: "token \<Rightarrow> chan \<Rightarrow> waiter \<Rightarrow> download_start \<Rightarrow> command option" where
  "download_command t ch w d =
     (case d of
        DownloadRefused e \<Rightarrow> None
      | DownloadFinish session \<Rightarrow> Some (FinishDownload w)
      | DownloadFrom session p \<Rightarrow>
          Some (StartDownload \<lparr>d_token = t, d_position = p, d_events = ch\<rparr> w))"

definition download_answer :: "download_start \<Rightarrow> unit option \<Rightarrow> api_error + response" where
  "download_answer d reply =
     (case d of
        DownloadRefused e \<Rightarrow> Inl e
      | DownloadFinish session \<Rightarrow>
          (case reply of None \<Rightarrow> Inl ApiNotFound | Some _ \<Rightarrow> Inr (plain 200))
      | DownloadFrom session p \<Rightarrow>
          (case reply of None \<Rightarrow> Inl ApiNotFound
           | Some _ \<Rightarrow>
               Inr \<lparr>status = 200,
                    resp_headers = [''content-type'' \<mapsto> ''application/octet-stream''],
                    body = ContentBody\<rparr>))"

text \<open>
  The response stream, an \<open>unfold\<close> over the events of the download: the data it yields from
  the events received until the channel closes, and the flag \<open>completed\<close> at its end.
\<close>

fun download_stream :: "bool \<Rightarrow> download_event list \<Rightarrow> bytes list \<times> bool" where
  "download_stream completed [] = ([], completed)"
| "download_stream completed (ev # evs) =
     (if completed then ([], True)
      else case ev of
        MoreEvent d \<Rightarrow> (case download_stream False evs of (ds, c) \<Rightarrow> (d # ds, c))
      | FinalEvent d \<Rightarrow> (case download_stream True evs of (ds, c) \<Rightarrow> (d # ds, c))
      | ReplacedEvent \<Rightarrow> ([], False))"

definition download_drop :: "token \<Rightarrow> bool \<Rightarrow> command" where
  "download_drop t completed = DisconnectedCmd t (DownloaderPeer completed)"

subsection \<open>Websocket upgrades\<close>

text \<open>An upgrade that is no websocket handshake is answered with its rejection, but only after
  the session was found; an accepted one starts the relay of \<open>websocket.rs\<close>.\<close>

datatype upgraded = Rejected response | RelayStarted session_handle direction

definition websocket_upgrade ::
  "(string \<Rightarrow> bytes option) \<Rightarrow> registry \<Rightarrow> string \<Rightarrow> response option \<Rightarrow> direction \<Rightarrow>
   api_error + upgraded" where
  "websocket_upgrade dec reg s rejection dir =
     (case lookup_session dec reg s of
        Inl e \<Rightarrow> Inl e
      | Inr session \<Rightarrow>
          (case rejection of
             Some r \<Rightarrow> Inr (Rejected r)
           | None \<Rightarrow> Inr (RelayStarted session dir)))"

subsection \<open>Headers and routes\<close>

definition fixed_headers :: "(string \<times> string) list" where
  "fixed_headers =
     [(''cache-control'', ''no-cache, no-store''),
      (''expires'', ''Fri, 1 Jan 1999 12:00:00 AM GMT''),
      (''pragma'', ''no-cache''),
      (''access-control-allow-origin'', ''*''),
      (''access-control-allow-methods'', ''GET, HEAD, POST, OPTIONS, PUT, PATCH, DELETE''),
      (''access-control-allow-headers'', ''Content-Range, Range'')]"

definition common_headers :: "string \<Rightarrow> response \<Rightarrow> response" where
  "common_headers method next_run =
     (let response = (if method = ''OPTIONS'' then plain 200 else next_run);
          headers = fold (\<lambda>(name, value) h. h(name \<mapsto> value)) fixed_headers
                      (resp_headers response)
      in response\<lparr>resp_headers :=
           (case headers ''content-type'' of
              None \<Rightarrow> headers(''content-type'' \<mapsto> ''application/json'')
            | Some _ \<Rightarrow> headers)\<rparr>)"

datatype endpoint =
    HealthCheck
  | CreateFile
  | DownloadMeta string
  | DownloadContent string
  | DownloadWebsocket string
  | UploadContent string
  | StartUploadCheck string
  | UploadWebsocket string
  | MethodNotAllowed
  | NoRoute

definition on_get :: "string \<Rightarrow> endpoint \<Rightarrow> endpoint" where
  "on_get method e = (if method \<in> {''GET'', ''HEAD''} then e else MethodNotAllowed)"

definition on_post :: "string \<Rightarrow> endpoint \<Rightarrow> endpoint" where
  "on_post method e = (if method = ''POST'' then e else MethodNotAllowed)"

text \<open>The table of \<open>router\<close>, over the segments of the path.\<close>

definition route :: "string \<Rightarrow> string list \<Rightarrow> endpoint" where
  "route method path =
     (case path of
        [a, v, r] \<Rightarrow>
          (if [a, v, r] = [''api'', ''v1'', ''health_check''] then on_get method HealthCheck
           else if [a, v, r] = [''api'', ''v1'', ''files''] then on_post method CreateFile
           else NoRoute)
      | [a, v, r, i] \<Rightarrow>
          (if i = [] then NoRoute
           else if [a, v, r] = [''api'', ''v1'', ''download''] then on_get method (DownloadMeta i)
           else if [a, v, r] = [''api'', ''v1'', ''upload''] then on_post method (UploadContent i)
           else if [a, v, r] = [''api'', ''v1'', ''content'']
             then on_get method (DownloadContent i)
           else NoRoute)
      | [a, v, r, i, x] \<Rightarrow>
          (if i = [] then NoRoute
           else if [a, v, r, x] = [''api'', ''v1'', ''download'', ''content'']
             then on_get method (DownloadContent i)
           else if [a, v, r, x] = [''api'', ''v1'', ''download'', ''ws''] then DownloadWebsocket i
           else if [a, v, r, x] = [''api'', ''v1'', ''upload'', ''start'']
             then on_post method (StartUploadCheck i)
           else if [a, v, r, x] = [''api'', ''v1'', ''upload'', ''ws''] then UploadWebsocket i
           else NoRoute)
      | _ \<Rightarrow> NoRoute)"

end
