(* ===== verification/Relay_Http.thy ===== *)
theory Relay_Http
  imports Relay_Api
begin

text \<open>
  What the HTTP interface promises: the chunks an upload request sends are the content's
  bytes in order, a broken body is never passed off as complete, a download's response body
  is the content from the requested position, conflicts tell an acceptable position, and
  ids, headers and routes are what a client needs.
\<close>

subsection \<open>Upload requests\<close>

fun honest_chunks :: "bytes \<Rightarrow> position \<Rightarrow> chunk list \<Rightarrow> bool" where
  "honest_chunks F p [] = True"
| "honest_chunks F p (c # cs) = (honest_chunk F p c \<and> honest_chunks F (p + chunk_len c) cs)"

lemma upload_run_done [simp]: "upload_run (UpDone a) rs = ([], UpDone a)"
  by (induction rs) simp_all

lemma honest_More:
  assumes "d @ r = drop (unat p) F"
  shows "honest_chunk F p (MoreChunk d)"
  using assms by (simp add: honest_chunk_def chunk_data_def prefix_def) metis

lemma send_next_honest:
  assumes "d @ concat bs = drop (unat p) F" and "unat p \<le> length F" and "length F < 2 ^ 64"
    and "upload_run (send_next (Some d) (map Inr bs)) rs = (cs, st)"
  shows "honest_chunks F p cs"
  using assms
proof (induction bs arbitrary: d p rs cs)
  case Nil
  then have "honest_chunk F p (FinalChunk d)"
    by (simp add: honest_chunk_def chunk_data_def)
  then show ?case using Nil
    by (cases rs) (auto split: sum.splits)
next
  case (Cons b bs)
  have l: "unat p + length d \<le> length F"
    using arg_cong [OF Cons.prems(1), where f = length] Cons.prems(2) by simp
  have u: "unat (p + len64 d) = unat p + length d"
    using l Cons.prems(3) by (intro unat_add_len64) simp
  have "drop (unat p + length d) F = drop (length d) (drop (unat p) F)"
    by (simp add: add.commute)
  also have "\<dots> = b @ concat bs" unfolding Cons.prems(1) [symmetric] by simp
  finally have next_data: "b @ concat bs = drop (unat (p + len64 d)) F" by (simp add: u)
  have h: "honest_chunk F p (MoreChunk d)" using Cons.prems(1) by (rule honest_More)
  show ?case
  proof (cases rs)
    case Nil
    then show ?thesis using Cons.prems(4) by simp
  next
    case rest: (Cons r rs')
    show ?thesis
    proof (cases r)
      case (Inl e)
      then show ?thesis using Cons.prems(4) rest h by auto
    next
      case (Inr u')
      obtain cs' where cs: "cs = MoreChunk d # cs'"
        and run: "upload_run (send_next (Some b) (map Inr bs)) rs' = (cs', st)"
        using Cons.prems(4) rest Inr by (auto split: prod.splits)
      have "honest_chunks F (p + len64 d) cs'"
        using Cons.IH [OF next_data _ Cons.prems(3) run] l u by simp
      then show ?thesis using h cs by (simp add: chunk_len_def)
    qed
  qed
qed

lemma read_first_honest:
  assumes "concat bs = drop (unat p) F" and "unat p \<le> length F" and "length F < 2 ^ 64"
    and "upload_run (read_first (map Inr bs)) rs = (cs, st)"
  shows "honest_chunks F p cs"
proof (cases bs)
  case Nil
  have "send_next None [] = send_next (Some []) (map Inr [])" by simp
  then show ?thesis
    using assms Nil send_next_honest [of "[]" "[]" p F rs cs st] by (simp del: send_next.simps)
next
  case (Cons b bs')
  then show ?thesis using assms send_next_honest [of b bs' p F rs cs st] by simp
qed

text \<open>C25: An upload request whose body is the rest of the content, however the body is cut
  into items, sends the session exactly that: whatever the session answers on the way,
  each chunk is the content's bytes at the position reached, and only the chunk that
  reaches the end is final. (These are the honest chunks that the pipe property assumes.)\<close>

theorem upload_sends_content:
  assumes "concat bs = drop (unat p) F" and "unat p \<le> length F" and "length F < 2 ^ 64"
    and "upload_run (UpStarting p (map Inr bs)) rs = (cs, st)"
  shows "honest_chunks F p cs"
  using assms read_first_honest [of bs p F]
  by (cases rs; cases "tl rs") (auto split: sum.splits prod.splits)

theorem upload_sends_content_witness:
  "honest_chunks [10, 11, 12] 1 [MoreChunk [11], FinalChunk [12]] \<and>
   upload_run (UpStarting 1 [Inr [11], Inr [12]]) (replicate 4 (Inr ())) =
     ([MoreChunk [11], FinalChunk [12]], UpDone (Inr (json 200 UploadOk)))"
proof -
  have r: "upload_run (UpStarting 1 (map Inr [[11], [12]])) (replicate 4 (Inr ())) =
      ([MoreChunk [11], FinalChunk [12]], UpDone (Inr (json 200 UploadOk)))"
    by (simp add: numeral_eq_Suc)
  show ?thesis using upload_sends_content [of "[[11], [12]]" 1 "[10, 11, 12]", OF _ _ _ r] r by simp
qed

lemma send_next_completes:
  "upload_run (send_next (Some d) (map Inr bs)) (replicate (Suc (length bs + k)) (Inr ())) =
     (butlast (map MoreChunk (d # bs)) @ [FinalChunk (last (d # bs))],
      UpDone (Inr (json 200 UploadOk)))"
  by (induction bs arbitrary: d) auto

text \<open>An upload request ends: when its requests are answered \<open>Ok\<close>, then after two
  answers and one per item of the body (at least one) it has sent every item in order, only
  the last one as final, and answers 200.\<close>

theorem upload_completes:
  "upload_run (UpStarting p (map Inr bs)) (replicate (3 + length bs) (Inr ())) =
     ((if bs = [] then [FinalChunk []]
       else map MoreChunk (butlast bs) @ [FinalChunk (last bs)]),
      UpDone (Inr (json 200 UploadOk)))"
proof (cases bs)
  case Nil
  then show ?thesis by (simp add: numeral_3_eq_3)
next
  case (Cons b bs')
  then show ?thesis
    using send_next_completes [of b bs' 1]
    by (simp add: numeral_3_eq_3 map_butlast)
qed

lemma send_next_broken:
  assumes "Inl u \<in> set items" and "upload_run (send_next next items) rs = (cs, st)"
  shows "\<not> list_ex is_final cs"
  using assms
proof (induction items arbitrary: "next" rs cs)
  case (Cons x items)
  show ?case
  proof (cases x)
    case (Inr d)
    then have "Inl u \<in> set items" using Cons.prems(1) by simp
    note IH = Cons.IH [OF this]
    show ?thesis
      using Cons.prems(2) Inr IH by (cases rs) (auto split: sum.splits prod.splits)
  qed (use Cons.prems in \<open>auto simp: read_failed_def\<close>)
qed simp

text \<open>A body that fails to read is never passed off as complete: whatever the session
  answers, no chunk of such a request is final, so no downloader takes the truncated
  content for the whole; the request is refused as invalid if it gets to the failure.\<close>

theorem broken_body_never_final:
  assumes "Inl u \<in> set items" and "upload_run (UpStarting p items) rs = (cs, st)"
  shows "\<not> list_ex is_final cs"
proof -
  have rf: "\<not> list_ex is_final cs'"
    if "upload_run (read_first items) rs' = (cs', st)" for rs' cs'
  proof (cases items)
    case (Cons x xs)
    then show ?thesis
      using that assms(1) send_next_broken [of u xs]
      by (cases x) (auto simp: read_failed_def)
  qed (use assms(1) in simp)
  show ?thesis
    using assms(2) rf by (cases rs; cases "tl rs") (auto split: sum.splits prod.splits)
qed

theorem broken_body_never_final_witness:
  "upload_run (UpStarting 0 [Inr [10], Inr [11], Inl ()]) (replicate 4 (Inr ())) =
     ([MoreChunk [10]], UpDone (Inl (ApiInvalid ''body read failed''))) \<and>
   \<not> list_ex is_final [MoreChunk [10]]"
proof -
  have r: "upload_run (UpStarting 0 [Inr [10], Inr [11], Inl ()]) (replicate 4 (Inr ())) =
      ([MoreChunk [10]], UpDone (Inl (ApiInvalid ''body read failed'')))"
    by (simp add: numeral_eq_Suc read_failed_def)
  show ?thesis using broken_body_never_final [OF _ r, of "()"] r by simp
qed

subsection \<open>Download responses\<close>

text \<open>The events a session sent on one channel.\<close>

definition event_on :: "chan \<Rightarrow> effect \<Rightarrow> download_event list" where
  "event_on ch e = (case e of Event k ev \<Rightarrow> if k = ch then [ev] else [] | _ \<Rightarrow> [])"

definition events_on :: "chan \<Rightarrow> effect list \<Rightarrow> download_event list" where
  "events_on ch es = concat (map (event_on ch) es)"

lemma events_on_simps [simp]:
  "events_on ch [] = []" "events_on ch (e # es) = event_on ch e @ events_on ch es"
  "events_on ch (es @ es') = events_on ch es @ events_on ch es'"
  by (simp_all add: events_on_def)

lemma event_on_simps [simp]:
  "event_on ch (Reply w r) = []" "event_on ch (WsCommand k x) = []"
  "event_on ch (Event k ev) = (if k = ch then [ev] else [])"
  by (simp_all add: event_on_def)

fun event_data :: "download_event \<Rightarrow> bytes" where
  "event_data (MoreEvent d) = d"
| "event_data (FinalEvent d) = d"
| "event_data ReplacedEvent = []"

lemma delivered_events: "delivered ch es = concat (map event_data (events_on ch es))"
  by (induction es) (auto simp: event_bytes_def event_on_def split: effect.split download_event.split)

lemma final_sent_events: "final_sent ch es \<longleftrightarrow> (\<exists>d. FinalEvent d \<in> set (events_on ch es))"
  by (induction es) (auto simp: event_on_def split: effect.split download_event.split)

definition is_more :: "download_event \<Rightarrow> bool" where
  "is_more ev = (case ev of MoreEvent d \<Rightarrow> True | _ \<Rightarrow> False)"

lemma is_more_simps [simp]: "is_more (MoreEvent d)" "\<not> is_more (FinalEvent d)" "\<not> is_more ReplacedEvent"
  by (simp_all add: is_more_def)

lemma download_stream_completed [simp]: "download_stream True evs = ([], True)"
  by (cases evs) simp_all

lemma download_stream_append:
  "download_stream False (evs @ new) =
     (if list_all is_more evs
      then (map event_data evs @ fst (download_stream False new), snd (download_stream False new))
      else download_stream False evs)"
  by (induction evs) (auto split: download_event.split prod.splits simp: is_more_def)

lemma download_stream_prefix:
  "prefix (concat (fst (download_stream False evs))) (concat (map event_data evs))"
  by (induction evs) (auto split: download_event.split prod.splits)

lemma completed_final: "snd (download_stream False evs) \<Longrightarrow> \<exists>d. FinalEvent d \<in> set evs"
  by (induction evs) (auto split: download_event.splits prod.splits)

text \<open>One step sends a channel at most one event with content.\<close>

definition content_events :: "chan \<Rightarrow> effect list \<Rightarrow> download_event list" where
  "content_events ch es = filter (\<lambda>ev. ev \<noteq> ReplacedEvent) (events_on ch es)"

lemma content_events_simps [simp]:
  "content_events ch [] = []"
  "content_events ch (Reply w r # es) = content_events ch es"
  "content_events ch (WsCommand k x # es) = content_events ch es"
  "content_events ch (Event k ev # es) =
     (if k = ch \<and> ev \<noteq> ReplacedEvent then [ev] else []) @ content_events ch es"
  "content_events ch (es @ es') = content_events ch es @ content_events ch es'"
  by (simp_all add: content_events_def)

lemma content_events_quiet [simp]:
  "content_events ch (send_upload_progress pb ws p) = []"
  "content_events ch (reply_to w r) = []"
  "content_events ch (map (\<lambda>f. WsCommand k (WsSend f)) fs) = []"
  by (simp_all add: send_upload_progress_def reply_to_def split: option.split)
    (induction fs, simp_all)

lemma one_content_event:
  assumes "handle pb s c = (f, s', es)"
  shows "length (content_events ch es) \<le> 1"
  using assms
proof (cases rule: handle_cases)
  case (StartDownload d w e)
  then show ?thesis
    by (cases "pending s"; cases "downloader_slot s"; cases "uploader_slot s")
      (auto simp: start_download_def replace_downloader_def take_pending_def
        terminate_uploader_def Let_def split: if_splits)
next
  case (FinishDownload w)
  then show ?thesis
    by (cases "pending s"; cases "downloader_slot s"; cases "uploader_slot s")
      (auto simp: finish_download_def replace_downloader_def terminate_uploader_def Let_def)
next
  case (StartUpload t p w)
  then show ?thesis
    by (cases "pending s"; cases "uploader_slot s")
      (auto simp: start_upload_def terminate_uploader_def Let_def split: sum.splits if_splits)
next
  case (UploadData t ch w)
  then show ?thesis
    by (cases "pending s"; cases "downloader_slot s"; cases "uploader_slot s")
      (auto simp: upload_data_def Let_def split: if_splits)
next
  case (FlushUpload t w)
  then show ?thesis
    by (auto simp: flush_upload_def split: if_splits pending.splits)
next
  case (StartWebsocket d p w e)
  then show ?thesis by (auto simp: start_websocket_def Let_def split: option.splits)
next
  case (WebsocketData d fr)
  then show ?thesis by (auto simp: relay_frame_def Let_def split: option.splits)
qed simp_all

text \<open>The body that a response has yielded when its stream completed is all there was to
  send.\<close>

definition bodies_complete :: "bytes \<Rightarrow> (chan \<rightharpoonup> nat) \<Rightarrow> effect list \<Rightarrow> bool" where
  "bodies_complete F st log =
     (\<forall>ch. snd (download_stream False (events_on ch log)) \<longrightarrow>
        (\<exists>q. st ch = Some q \<and>
           concat (fst (download_stream False (events_on ch log))) = drop q F))"

lemma stream_of_single:
  assumes "length (filter (\<lambda>ev. ev \<noteq> ReplacedEvent) new) \<le> 1"
    and "snd (download_stream False new)"
  shows "concat (fst (download_stream False new)) = concat (map event_data new)"
proof (cases new)
  case (Cons ev evs)
  have nil: "concat (map event_data evs) = []" if "filter (\<lambda>ev. ev \<noteq> ReplacedEvent) evs = []" for evs
    using that by (induction evs) (auto split: if_splits)
  show ?thesis
  proof (cases ev)
    case (MoreEvent d)
    then have f: "filter (\<lambda>ev. ev \<noteq> ReplacedEvent) evs = []" using assms(1) Cons by simp
    have "snd (download_stream False evs)"
      using assms(2) Cons MoreEvent by (simp split: prod.splits)
    then obtain b where "FinalEvent b \<in> set evs" using completed_final by blast
    then have "FinalEvent b \<in> set (filter (\<lambda>ev. ev \<noteq> ReplacedEvent) evs)" by simp
    then show ?thesis using f by simp
  next
    case (FinalEvent d)
    then have "filter (\<lambda>ev. ev \<noteq> ReplacedEvent) evs = []" using assms(1) Cons by simp
    then show ?thesis using Cons FinalEvent nil by simp
  next
    case ReplacedEvent
    then show ?thesis using assms(2) Cons by simp
  qed
qed simp

lemma bodies_complete_step:
  assumes bc: "bodies_complete F st log" and ok: "channels_ok F st' (log @ es)"
    and one: "\<And>ch. length (content_events ch es) \<le> 1"
    and grow: "\<And>ch q. st ch = Some q \<Longrightarrow> st' ch = Some q"
  shows "bodies_complete F st' (log @ es)"
  unfolding bodies_complete_def
proof (intro allI impI)
  fix ch
  assume fin: "snd (download_stream False (events_on ch (log @ es)))"
  show "\<exists>q. st' ch = Some q \<and>
      concat (fst (download_stream False (events_on ch (log @ es)))) = drop q F"
  proof (cases "list_all is_more (events_on ch log)")
    case True
    then have c: "snd (download_stream False (events_on ch es))"
      using fin by (simp add: download_stream_append)
    then have "final_sent ch (log @ es)"
      using completed_final by (auto simp: final_sent_events)
    moreover have "channel_ok F (st' ch) (delivered ch (log @ es)) (final_sent ch (log @ es))"
      using ok by (simp add: channels_ok_def)
    ultimately obtain q where q: "st' ch = Some q" "delivered ch (log @ es) = drop q F"
      by (auto simp: channel_ok_def split: option.splits)
    have "concat (fst (download_stream False (events_on ch es)))
        = concat (map event_data (events_on ch es))"
      using one [of ch] c by (intro stream_of_single) (simp_all add: content_events_def)
    then show ?thesis using True q by (simp add: download_stream_append delivered_events)
  next
    case False
    then have e: "download_stream False (events_on ch (log @ es))
        = download_stream False (events_on ch log)"
      by (simp add: download_stream_append)
    then obtain q where "st ch = Some q"
      "concat (fst (download_stream False (events_on ch log))) = drop q F"
      using bc fin unfolding bodies_complete_def by (metis (no_types))
    then show ?thesis using grow unfolding e by blast
  qed
qed

lemma run_bodies_complete:
  assumes "run_session pb s cs = (f, s', es)"
    and "pipe_inv F st log s" and "rendezvous_inv s" and "bodies_complete F st log"
    and "run_allowed (handle pb) (honest_command F) s cs"
    and "length F < 2 ^ 64"
    and "distinct (started cs)" and "\<forall>ch\<in>set (started cs). st ch = None"
  shows "\<exists>st'. bodies_complete F st' (log @ es) \<and> pipe_inv F st' (log @ es) s' \<and>
    starts_from st cs st'"
  using assms
proof (induction cs arbitrary: s st log es)
  case Nil
  then show ?case by (auto simp: run_session_def starts_from_def)
next
  case (Cons c cs)
  obtain f1 s1 es1 where st: "handle pb s c = (f1, s1, es1)" by (cases "handle pb s c")
  have p1: "pipe_inv F (note_start st c) (log @ es1) s1"
    using Cons.prems by (intro handle_pipe [OF st]) auto
  have "\<And>ch q. st ch = Some q \<Longrightarrow> note_start st c ch = Some q"
    using Cons.prems(8) by (auto simp: note_start_def split: command.splits)
  then have b1: "bodies_complete F (note_start st c) (log @ es1)"
    using p1 one_content_event [OF st]
    by (intro bodies_complete_step [OF Cons.prems(4)]) (auto simp: pipe_inv_def)
  show ?case
  proof (cases f1)
    case (Break u)
    with Cons.prems(1) st have "s' = s1" "es = es1" by (auto simp: run_session_def)
    with p1 b1 starts_from_note(2) [OF Cons.prems(7,8)] show ?thesis by blast
  next
    case (Continue u)
    with Cons.prems(1) st obtain es2 where r: "run_session pb s1 cs = (f, s', es2)"
      and es: "es = es1 @ es2"
      by (auto simp: run_session_def split: prod.splits)
    have "\<exists>st'. bodies_complete F st' ((log @ es1) @ es2) \<and>
        pipe_inv F st' ((log @ es1) @ es2) s' \<and> starts_from (note_start st c) cs st'"
    proof (rule Cons.IH [OF r p1 _ b1 _ Cons.prems(6)])
      show "rendezvous_inv s1" using st Cons.prems(3) by (rule handle_rendezvous)
      show "run_allowed (handle pb) (honest_command F) s1 cs"
        using Cons.prems(5) st Continue by simp
      show "distinct (started cs)" using Cons.prems(7) by simp
      show "\<forall>ch\<in>set (started cs). note_start st c ch = None"
        using Cons.prems(7,8) by (auto simp: note_start_def split: command.splits)
    qed
    then show ?thesis using starts_from_note(1) [OF Cons.prems(7,8)] es by auto
  qed
qed

text \<open>A download response is the content from the position the request started
  at: over any interleaving of requests in which the accepted uploads send one content, the
  data the response stream has yielded is a prefix of it, and a response that completed has
  yielded all of it (and only then does its end tell the session that the download is
  complete).\<close>

theorem download_body_is_content:
  assumes run: "run_session pb (initial_state i m) cs = (f, s', es)"
    and honest: "run_allowed (handle pb) (honest_command F) (initial_state i m) cs"
    and size: "length F < 2 ^ 64"
    and chans: "distinct (started cs)"
    and start: "download_command t ch w (DownloadFrom session p) = Some c" "c \<in> set cs"
    and stream: "download_stream False (events_on ch es) = (items, completed)"
  shows "prefix (concat items) (drop (unat p) F) \<and>
    (completed \<longrightarrow> concat items = drop (unat p) F)"
proof -
  let ?d = "\<lparr>d_token = t, d_position = p, d_events = ch\<rparr>"
  have sd: "StartDownload ?d w \<in> set cs" using start by (simp add: download_command_def)
  have b0: "bodies_complete F Map.empty []" by (simp add: bodies_complete_def)
  obtain st' where bc: "bodies_complete F st' es" and pi: "pipe_inv F st' es s'"
    and sf: "starts_from Map.empty cs st'"
    using run_bodies_complete [OF run pipe_inv_initial _ b0 honest size chans] by auto
  have st': "st' ch = None \<or> st' ch = Some (unat p)"
    using sf sd unfolding starts_from_def by fastforce
  have "channel_ok F (st' ch) (delivered ch es) (final_sent ch es)"
    using pi by (simp add: pipe_inv_def channels_ok_def)
  then have "prefix (delivered ch es) (drop (unat p) F)"
    using st' by (auto simp: channel_ok_def)
  moreover have "prefix (concat items) (delivered ch es)"
    using download_stream_prefix [of "events_on ch es"] stream by (simp add: delivered_events)
  ultimately show ?thesis
    using bc st' stream unfolding bodies_complete_def
    by (metis fst_conv option.distinct(1) option.inject prefix_order.trans snd_conv)
qed

lemma example_run_eval:
  "run_session (\<lambda>_. []) (initial_state [1] ''m'') example_run
   = (Continue (), (initial_state [1] ''m'')
        \<lparr>downloader_slot := Connected \<lparr>d_token = 2, d_position = 3, d_events = 7\<rparr>,
         uploader_slot := Some \<lparr>u_token = 1, u_position = 3\<rparr>\<rparr>,
      [Reply 0 (UploadReply (Inr ())), Event 7 (MoreEvent [10, 11]), Reply 1 (UploadReply (Inr ())),
       Reply 2 UnitReply, Event 7 (FinalEvent [12]), Reply 3 (UploadReply (Inr ()))])"
  by (simp add: example_run_def run_session_def initial_state_def continue_def start_upload_def
      check_start_position_def upload_data_def start_download_def replace_downloader_def
      take_pending_def chunk_len_def into_event_def send_upload_progress_def reply_to_def
      len64_def terminate_uploader_def)

lemma example_run_honest:
  "run_allowed (handle (\<lambda>_. [])) (honest_command [10, 11, 12]) (initial_state [1] ''m'') example_run"
  by (simp add: example_run_def initial_state_def continue_def start_upload_def
      check_start_position_def upload_data_def start_download_def replace_downloader_def
      take_pending_def chunk_data_def chunk_len_def into_event_def send_upload_progress_def
      reply_to_def len64_def terminate_uploader_def honest_command_def honest_chunk_def)

theorem download_body_is_content_witness:
  "download_stream False [MoreEvent [10, 11], FinalEvent [12]] = ([[10, 11], [12]], True) \<and>
   prefix (concat [[10, 11], [12]]) [10, 11, 12 :: u8] \<and> concat [[10, 11], [12]] = [10, 11, 12 :: u8]"
proof -
  have c: "download_command 2 7 2 (DownloadFrom \<lparr>sh_id = [1], sh_commands = 0\<rparr> 0)
      = Some (StartDownload \<lparr>d_token = 2, d_position = 0, d_events = 7\<rparr> 2)"
    by (simp add: download_command_def)
  show ?thesis
    using download_body_is_content [OF example_run_eval example_run_honest _ _ c,
        of "[[10, 11], [12]]" True]
    by (simp add: example_run_def)
qed

subsection \<open>Conflicts\<close>

text \<open>C35: A conflict tells the uploader where to resume: if a session refuses an upload
  request at its position, the handler answers 409 with another position, the preview of
  \<open>/start\<close> would have said the same, and a new request at that position is accepted.\<close>

theorem upload_conflict_tells_position:
  assumes run: "run_session pb (initial_state i m) cs = (f, s, es)"
    and start: "upload_command t w (UpStarting p items) = Some c"
      "handle pb s c = (g, s', es')"
    and refused: "last es' = Reply w (UploadReply (Inl e))"
  shows "\<exists>q. q \<noteq> p \<and>
    upload_reply (UpStarting p items) (Inl e) = UpDone (Inr (json 409 (Conflict q))) \<and>
    start_upload_answer (check_start_position s p) = Inr (json 409 (Conflict q)) \<and>
    (\<forall>t' w'. last (snd (snd (handle pb s' (StartUpload t' q w')))) = Reply w' (UploadReply (Inr ())))"
proof -
  note rv = reachable_rendezvous [OF run]
  have h: "handle pb s (StartUpload t p w) = (g, s', es')" using start by simp
  then have su: "start_upload pb s t p w = (s', es')" by (auto simp: continue_def prod_eq_iff)
  have e: "admit (expected_position s) p = Inl e"
    using start_upload_reply(1) [OF rv su] refused by simp
  then obtain q where q: "e = Position q" "expected_position s = Some q" "p \<noteq> q"
    using admit_conflict by blast
  have rv': "rendezvous_inv s'" by (rule handle_rendezvous [OF h rv])
  have "last (snd (snd (handle pb s' (StartUpload t' q w')))) = Reply w' (UploadReply (Inr ()))"
    for t' w'
  proof -
    obtain s2 es2 where r: "start_upload pb s' t' q w' = (s2, es2)" by (rule prod.exhaust)
    then show ?thesis
      using start_upload_reply(1) [OF rv' r] start_upload_reply(4) [OF rv su] q(2)
      by (simp add: continue_def)
  qed
  moreover have "start_upload_answer (check_start_position s p) = Inr (json 409 (Conflict q))"
    using e q(1) rv by (simp add: check_start_position_admit start_upload_answer_def
        api_upload_error_def)
  ultimately show ?thesis
    using q by (intro exI [of _ q]) (simp add: api_upload_error_def)
qed

theorem upload_conflict_tells_position_witness:
  "\<exists>q. q \<noteq> 0 \<and>
     upload_reply (UpStarting 0 []) (Inl (Position 3)) = UpDone (Inr (json 409 (Conflict q)))"
proof -
  obtain g s' es' where h: "handle (\<lambda>_. []) ((initial_state [1] ''m'')
        \<lparr>downloader_slot := Connected \<lparr>d_token = 2, d_position = 3, d_events = 7\<rparr>,
         uploader_slot := Some \<lparr>u_token = 1, u_position = 3\<rparr>\<rparr>) (StartUpload 4 0 9) = (g, s', es')"
    by (rule prod_cases3)
  then have l: "last es' = Reply 9 (UploadReply (Inl (Position 3)))"
    by (auto simp: continue_def start_upload_def terminate_uploader_def check_start_position_def
        initial_state_def Let_def)
  have c: "upload_command 4 9 (UpStarting 0 []) = Some (StartUpload 4 0 9)" by simp
  from upload_conflict_tells_position [OF example_run_eval c h l] show ?thesis by blast
qed

subsection \<open>Naming, headers and errors\<close>

text \<open>The id that \<open>create_file\<close> answers names the new session: looking it up finds a
  handle whose task is running in the initial state with the file's metadata, and as a path
  segment it leads the requests of both clients to their handlers.\<close>

theorem created_file_is_found:
  assumes law: "base64_law enc dec" and fill: "length (fill ID_LENGTH) = ID_LENGTH"
    and create: "create_file enc fill (Some meta) n = (r, n')"
  shows "\<exists>i h. r = Inr (json 200 (Created (''/api/v1/upload/'' @ i) i)) \<and>
    lookup_session dec (n_sessions n') i = Inr h \<and>
    n_tasks n' (sh_commands h) =
      Some \<lparr>t_phase = Running, t_state = initial_state (fill ID_LENGTH) meta,
            t_queue = [], t_log = []\<rparr> \<and>
    CHR ''/'' \<notin> set i \<and>
    route ''POST'' [''api'', ''v1'', ''upload'', i] = UploadContent i \<and>
    route ''GET'' [''api'', ''v1'', ''download'', i] = DownloadMeta i"
proof -
  let ?i = "encode_id enc (fill ID_LENGTH)"
  have ne: "fill ID_LENGTH \<noteq> []" using fill by (auto simp: ID_LENGTH_def)
  have "url_decode dec ?i = Some (fill ID_LENGTH)"
    using url_decode_encode [OF law] by (simp add: encode_id_def url_encode_def)
  then have dec: "decode_id dec ?i = Some (fill ID_LENGTH)"
    using ne by (simp add: decode_id_def url_decode_def)
  have "?i \<noteq> []"
    using ne by (simp add: encode_id_def base64_enc_Nil [OF law])
  moreover have "CHR ''/'' \<notin> set ?i"
    using url_encode_safe(1) [of enc "fill ID_LENGTH"] by (simp add: encode_id_def url_encode_def)
  moreover have "route ''POST'' [''api'', ''v1'', ''upload'', ?i] = UploadContent ?i"
    "route ''GET'' [''api'', ''v1'', ''download'', ?i] = DownloadMeta ?i"
    using calculation(1) by (simp_all add: route_def on_get_def on_post_def)
  moreover have "r = Inr (json 200 (Created (''/api/v1/upload/'' @ ?i) ?i))"
    and "n' = snd (create_session (fill ID_LENGTH) meta n)"
    using create
    by (auto simp: create_file_def create_session_def spawn_session_def generate_id_def Let_def)
  moreover from this(2) dec have "lookup_session dec (n_sessions n') ?i
      = Inr \<lparr>sh_id = fill ID_LENGTH, sh_commands = n_next n\<rparr>"
    by (simp add: create_session_def spawn_session_def lookup_session_def registry_get_def
        registry_insert_def)
  moreover have "n_tasks n' (n_next n) = Some \<lparr>t_phase = Running,
      t_state = initial_state (fill ID_LENGTH) meta, t_queue = [], t_log = []\<rparr>"
    by (simp add: calculation(6) create_session_def spawn_session_def)
  ultimately show ?thesis by (metis session_handle.select_convs(2))
qed

theorem created_file_is_found_witness:
  "\<exists>i h. create_file b64_encode (\<lambda>k. replicate k 7) (Some ''meta'') node_new
       = (Inr (json 200 (Created (''/api/v1/upload/'' @ i) i)),
          snd (create_file b64_encode (\<lambda>k. replicate k 7) (Some ''meta'') node_new)) \<and>
     lookup_session b64_decode
       (n_sessions (snd (create_file b64_encode (\<lambda>k. replicate k 7) (Some ''meta'') node_new))) i
       = Inr h"
proof -
  let ?c = "create_file b64_encode (\<lambda>k. replicate k 7) (Some ''meta'') node_new"
  have c: "?c = (fst ?c, snd ?c)" by simp
  from created_file_is_found [OF b64_law _ c] show ?thesis by (metis length_replicate prod.collapse)
qed

text \<open>Requests that name no session are told so before anything happens to a session: a
  string that is no id is a bad request, an unknown id is not found, for every handler that
  takes an id and whatever its headers, form, body or upgrade.\<close>

theorem unknown_sessions_refused:
  assumes "decode_id dec s = None \<and> code = 400 \<or>
    decode_id dec s = Some i \<and> registry_get reg i = None \<and> code = 404"
  shows "\<exists>e. status (error_response e) = code \<and>
    upload_begin dec to_str reg s header items = UpDone (Inl e) \<and>
    download_begin dec to_str reg s header = DownloadRefused e \<and>
    start_upload_begin dec reg s (Some p) = Inl e \<and>
    websocket_upgrade dec reg s rejection dir = Inl e"
proof -
  obtain e where l: "lookup_session dec reg s = Inl e" "status (error_response e) = code"
    using assms by (auto simp: lookup_session_def error_response_def plain_def)
  then show ?thesis
    by (intro exI [of _ e])
      (simp add: upload_begin_def download_begin_def start_upload_begin_def websocket_upgrade_def)
qed

theorem unknown_sessions_refused_witness:
  "\<exists>e. status (error_response e) = 400 \<and>
     upload_begin b64_decode Some registry_new [] None [] = UpDone (Inl e)"
proof -
  have "decode_id b64_decode [] = None"
    by (simp add: decode_id_def b64_decode_def)
  then show ?thesis
    using unknown_sessions_refused [of b64_decode "[]" 400] by blast
qed

text \<open>Every API response carries the six common headers whatever its handler set, and a
  content type, \<open>application/json\<close> unless the handler chose one; a preflight request is
  answered 200 without reaching a handler.\<close>

theorem responses_carry_common_headers:
  "list_all (\<lambda>(name, value). resp_headers (common_headers method r) name = Some value) fixed_headers \<and>
   resp_headers (common_headers ''GET'' r) ''content-type''
     = Some (case resp_headers r ''content-type'' of None \<Rightarrow> ''application/json'' | Some v \<Rightarrow> v) \<and>
   body (common_headers method r) = (if method = ''OPTIONS'' then EmptyBody else body r) \<and>
   status (common_headers method r) = (if method = ''OPTIONS'' then 200 else status r)"
  by (auto simp: common_headers_def fixed_headers_def plain_def Let_def split: option.splits)

end
