(* ===== verification/Relay_Websocket.thy ===== *)
theory Relay_Websocket
  imports Relay_Session_Inv
begin

text \<open>
  \<^verbatim>\<open>glopfile-relay/src/websocket.rs\<close>: the loop that relays frames between one websocket and
  its session. An input is what one turn of \<open>select!\<close> picks, with the outcome of the send to
  the socket where the turn makes one; an effect is what the loop sends to the socket or to
  the session. Time is a parameter of the input, in seconds; a timer is the time at which it
  fires. The loop runs once \<open>start_websocket\<close> has been answered, and dropping \<open>Disconnect\<close>
  when it ends is its last effect.
\<close>

subsection \<open>The loop\<close>

definition MAX_FRAME_SIZE :: nat where
  "MAX_FRAME_SIZE = 102400"

definition PING_INTERVAL :: nat where
  "PING_INTERVAL = 5"

definition IDLE_TIMEOUT :: nat where
  "IDLE_TIMEOUT = 30"

datatype message =
    TextMessage string
  | BinaryMessage bytes
  | CloseMessage
  | PingMessage bytes
  | PongMessage bytes

datatype ws_input =
    Inbox "ws_command option" bool
  | SocketFrame "message option"
  | PingDue bool
  | IdleDue

datatype ws_effect =
    SinkSend message
  | ToSession command

record relay_loop =
  rl_token :: token
  rl_direction :: direction
  rl_ping :: nat
  rl_idle :: nat

definition frame_message :: "frame \<Rightarrow> message" where
  "frame_message f = (case f of TextFrame t \<Rightarrow> TextMessage t | BinaryFrame d \<Rightarrow> BinaryMessage d)"

definition relay_begin :: "token \<Rightarrow> direction \<Rightarrow> nat \<Rightarrow> relay_loop" where
  "relay_begin t d now =
     \<lparr>rl_token = t, rl_direction = d, rl_ping = now + PING_INTERVAL,
      rl_idle = now + IDLE_TIMEOUT\<rparr>"

definition reset_ping :: "nat \<Rightarrow> relay_loop \<Rightarrow> relay_loop" where
  "reset_ping now l = l\<lparr>rl_ping := now + PING_INTERVAL\<rparr>"

definition reset_idle :: "nat \<Rightarrow> relay_loop \<Rightarrow> relay_loop" where
  "reset_idle now l = l\<lparr>rl_idle := now + IDLE_TIMEOUT\<rparr>"

definition session_frame :: "direction \<Rightarrow> message \<Rightarrow> ws_effect list" where
  "session_frame d m =
     (case m of
        TextMessage t \<Rightarrow> [ToSession (WebsocketData d (TextFrame t))]
      | BinaryMessage b \<Rightarrow> [ToSession (WebsocketData d (BinaryFrame b))]
      | _ \<Rightarrow> [])"

text \<open>\<open>Disconnect::drop\<close>, which every way out of the loop runs.\<close>

definition relay_drop :: "relay_loop \<Rightarrow> ws_effect list" where
  "relay_drop l = [ToSession (DisconnectedCmd (rl_token l) (WebsocketPeer (rl_direction l)))]"

definition leave :: "relay_loop \<Rightarrow> ws_effect list \<Rightarrow> flow \<times> relay_loop \<times> ws_effect list" where
  "leave l es = (Break (), l, es @ relay_drop l)"

definition sent :: "bool \<Rightarrow> relay_loop \<Rightarrow> ws_effect list \<Rightarrow> flow \<times> relay_loop \<times> ws_effect list" where
  "sent ok l es = (if ok then (Continue (), l, es) else leave l es)"

fun relay_turn :: "relay_loop \<Rightarrow> nat \<times> ws_input \<Rightarrow> flow \<times> relay_loop \<times> ws_effect list" where
  "relay_turn l (now, Inbox cmd ok) =
     (case cmd of
        Some (WsSend f) \<Rightarrow> sent ok l [SinkSend (frame_message f)]
      | Some WsSessionError \<Rightarrow> leave l []
      | None \<Rightarrow> leave l [])"
| "relay_turn l (now, SocketFrame item) =
     (case item of
        None \<Rightarrow> leave l []
      | Some m \<Rightarrow>
          (let l1 = reset_idle now (reset_ping now l)
           in if m = CloseMessage then leave l1 []
              else (Continue (), l1, session_frame (rl_direction l1) m)))"
| "relay_turn l (now, PingDue ok) = sent ok (reset_ping now l) [SinkSend (PingMessage [])]"
| "relay_turn l (now, IdleDue) = leave l []"

definition run_relay ::
  "relay_loop \<Rightarrow> (nat \<times> ws_input) list \<Rightarrow> flow \<times> relay_loop \<times> ws_effect list" where
  "run_relay = run_machine relay_turn"

text \<open>What \<open>select!\<close> can pick: a timer only when it is due.\<close>

definition turn_enabled :: "relay_loop \<Rightarrow> nat \<times> ws_input \<Rightarrow> bool" where
  "turn_enabled l i =
     (case snd i of
        PingDue ok \<Rightarrow> rl_ping l \<le> fst i
      | IdleDue \<Rightarrow> rl_idle l \<le> fst i
      | _ \<Rightarrow> True)"

subsection \<open>Forwarding\<close>

text \<open>The frames of a list of inputs that carry data, and the ones an effect list forwards.\<close>

definition data_frames :: "ws_input list \<Rightarrow> frame list" where
  "data_frames is = concat (map (\<lambda>i. case i of
       SocketFrame (Some (TextMessage t)) \<Rightarrow> [TextFrame t]
     | SocketFrame (Some (BinaryMessage b)) \<Rightarrow> [BinaryFrame b]
     | _ \<Rightarrow> []) is)"

definition forwarded :: "direction \<Rightarrow> ws_effect list \<Rightarrow> frame list" where
  "forwarded d es = concat (map (\<lambda>e. case e of
       ToSession (WebsocketData d' f) \<Rightarrow> if d' = d then [f] else []
     | _ \<Rightarrow> []) es)"

definition disconnects :: "ws_effect list \<Rightarrow> (token \<times> peer) list" where
  "disconnects es = concat (map (\<lambda>e. case e of
       ToSession (DisconnectedCmd t p) \<Rightarrow> [(t, p)]
     | _ \<Rightarrow> []) es)"

lemma data_frames_simps [simp]:
  "data_frames [] = []"
  "data_frames (i # is) = (case i of
       SocketFrame (Some (TextMessage t)) \<Rightarrow> [TextFrame t]
     | SocketFrame (Some (BinaryMessage b)) \<Rightarrow> [BinaryFrame b]
     | _ \<Rightarrow> []) @ data_frames is"
  by (simp_all add: data_frames_def)

lemma forwarded_simps [simp, effect_simps]:
  "forwarded d [] = []"
  "forwarded d (SinkSend m # es) = forwarded d es"
  "forwarded d (es @ es') = forwarded d es @ forwarded d es'"
  "forwarded d (relay_drop l) = []"
  by (simp_all add: forwarded_def relay_drop_def)

lemma disconnects_simps [simp, effect_simps]:
  "disconnects [] = []"
  "disconnects (SinkSend m # es) = disconnects es"
  "disconnects (es @ es') = disconnects es @ disconnects es'"
  "disconnects (relay_drop l) = [(rl_token l, WebsocketPeer (rl_direction l))]"
  "disconnects (session_frame d m) = []"
  by (simp_all add: disconnects_def relay_drop_def session_frame_def split: message.split)

lemma forwarded_session_frame [simp]:
  "forwarded d (session_frame d m) = data_frames [SocketFrame (Some m)]"
  by (simp add: forwarded_def session_frame_def split: message.split)

definition same_peer :: "token \<Rightarrow> direction \<Rightarrow> relay_loop \<Rightarrow> bool" where
  "same_peer t d l = (rl_token l = t \<and> rl_direction l = d)"

text \<open>One turn: what it forwards, and what it tells the session when it ends.\<close>

lemma relay_turn_effects:
  assumes "relay_turn l i = (f, l', es)" and "same_peer t d l"
  shows "same_peer t d l' \<and> forwarded d es = data_frames [snd i] \<and>
    disconnects es = (if is_break f then [(t, WebsocketPeer d)] else [])"
  using assms
  by (cases "(l, i)" rule: relay_turn.cases)
    (auto simp: sent_def leave_def same_peer_def reset_ping_def reset_idle_def Let_def
      split: option.splits ws_command.splits if_splits message.splits)

interpretation relay_peer: machine_invariant relay_turn "same_peer t d"
  by unfold_locales (blast dest: relay_turn_effects)




subsection \<open>Timers\<close>

text \<open>
  Time since the socket was last heard of: the idle timer is thirty seconds after the last
  frame (or the start), and the ping timer never later than five seconds after the last
  frame or ping.
\<close>

fun last_heard :: "nat \<Rightarrow> (nat \<times> ws_input) list \<Rightarrow> nat" where
  "last_heard t0 [] = t0"
| "last_heard t0 ((now, SocketFrame (Some m)) # is) = last_heard now is"
| "last_heard t0 (i # is) = last_heard t0 is"

lemma relay_turn_idle:
  "relay_turn l (now, i) = (Continue u, l', es) \<Longrightarrow>
   rl_idle l' = (case i of SocketFrame (Some m) \<Rightarrow> now + IDLE_TIMEOUT | _ \<Rightarrow> rl_idle l)"
  by (cases i)
    (auto simp: sent_def leave_def reset_ping_def reset_idle_def Let_def
      split: option.splits ws_command.splits if_splits)

lemma last_heard_Cons:
  "last_heard t0 ((now, i) # is) =
     last_heard (case i of SocketFrame (Some m) \<Rightarrow> now | _ \<Rightarrow> t0) is"
  by (cases "(t0, (now, i) # is)" rule: last_heard.cases) auto

lemma run_relay_idle:
  assumes "run_relay l is = (Continue u, l', es)" and "rl_idle l = t0 + IDLE_TIMEOUT"
  shows "rl_idle l' = last_heard t0 is + IDLE_TIMEOUT"
  using assms
proof (induction "is" arbitrary: l es t0)
  case Nil
  then show ?case by (simp add: run_relay_def)
next
  case (Cons i "is")
  obtain now x where i: "i = (now, x)" by (cases i)
  obtain l1 es1 es2 where st: "relay_turn l (now, x) = (Continue (), l1, es1)"
    and r: "run_relay l1 is = (Continue u, l', es2)"
    using Cons.prems(1) i
    by (auto simp: run_relay_def split: prod.splits control_flow.splits)
  have "rl_idle l1 = (case x of SocketFrame (Some m) \<Rightarrow> now | _ \<Rightarrow> t0) + IDLE_TIMEOUT"
    using relay_turn_idle [OF st] Cons.prems(2) by (auto split: ws_input.splits option.splits)
  from Cons.IH [OF r this] show ?case by (simp only: i last_heard_Cons)
qed

text \<open>A silent socket is cut off: while the loop runs, its idle timer stands thirty seconds
  after the last frame of the socket, whatever was sent or pinged meanwhile. So no turn can
  time out earlier, and from then on the timeout is possible and ends the loop.\<close>

theorem relay_idle_timeout:
  assumes "run_relay (relay_begin t d t0) is = (Continue u, l, es)"
  shows "(turn_enabled l (now, IdleDue) \<longleftrightarrow> last_heard t0 is + 30 \<le> now) \<and>
    fst (relay_turn l (now, IdleDue)) = Break ()"
  using run_relay_idle [OF assms, of t0]
  by (simp add: turn_enabled_def leave_def relay_begin_def IDLE_TIMEOUT_def)

theorem relay_idle_timeout_witness:
  "last_heard 0 [(5, PingDue True), (9, SocketFrame (Some (PongMessage [])))] = 9 \<and>
   turn_enabled \<lparr>rl_token = 4, rl_direction = Upload, rl_ping = 14, rl_idle = 39\<rparr> (39, IdleDue)"
proof -
  have r: "run_relay (relay_begin 4 Upload 0)
      [(5, PingDue True), (9, SocketFrame (Some (PongMessage [])))]
    = (Continue (), \<lparr>rl_token = 4, rl_direction = Upload, rl_ping = 14, rl_idle = 39\<rparr>,
       [SinkSend (PingMessage [])])"
    by (simp add: run_relay_def relay_begin_def sent_def session_frame_def
        reset_ping_def reset_idle_def PING_INTERVAL_def IDLE_TIMEOUT_def)
  show ?thesis using relay_idle_timeout [OF r, of 39] by simp
qed

end
