(* ===== verification/Relay_System.thy ===== *)
theory Relay_System
  imports Relay_Http
begin

text \<open>
  The relay as its clients see it: the session task of \<^verbatim>\<open>session.rs\<close> together with the upload
  handlers of \<^verbatim>\<open>api.rs\<close> that talk to it, any number of them at a time. An upload request
  arrives with a token of its own; its handler then sends one request after the other and
  waits for each reply, which may come at once or later, when a downloader appears; it may be
  cancelled at any point. Everything else that reaches the session (downloads, websockets,
  checks) is an arbitrary command. The events interleave freely.
\<close>

subsection \<open>The composed system\<close>

record upload_task =
  ut_state :: upload_state
  ut_waiting :: "waiter option"

record system =
  sys_flow :: flow
  sys_session :: state
  sys_uploads :: "token \<rightharpoonup> upload_task"
  sys_tokens :: "token set"
  sys_commands :: "command list"
  sys_effects :: "effect list"

definition system_new :: "session_id \<Rightarrow> string \<Rightarrow> system" where
  "system_new i m =
     \<lparr>sys_flow = Continue (), sys_session = initial_state i m, sys_uploads = Map.empty,
      sys_tokens = {}, sys_commands = [], sys_effects = []\<rparr>"

text \<open>A reply wakes the handler that waits for it; when the session ends, those that still wait
  see their channel close.\<close>

definition take_reply :: "upload_task \<Rightarrow> effect \<Rightarrow> upload_task" where
  "take_reply u e =
     (case e of
        Reply w (UploadReply r) \<Rightarrow>
          if ut_waiting u = Some w
          then \<lparr>ut_state = upload_reply (ut_state u) (or_not_found (Some r)), ut_waiting = None\<rparr>
          else u
      | _ \<Rightarrow> u)"

definition reply_lost :: "upload_task \<Rightarrow> upload_task" where
  "reply_lost u =
     (if ut_waiting u = None then u
      else \<lparr>ut_state = upload_reply (ut_state u) (or_not_found None), ut_waiting = None\<rparr>)"

definition wake :: "flow \<Rightarrow> effect list \<Rightarrow> upload_task \<Rightarrow> upload_task" where
  "wake f es u =
     (let u' = foldl take_reply u es in if is_break f then reply_lost u' else u')"

definition submit :: "encoder \<Rightarrow> system \<Rightarrow> command \<Rightarrow> system" where
  "submit pb y c =
     (case sys_flow y of
        Break _ \<Rightarrow> y\<lparr>sys_uploads := map_option reply_lost \<circ> sys_uploads y\<rparr>
      | Continue _ \<Rightarrow>
          (let (f, s, es) = handle pb (sys_session y) c
           in y\<lparr>sys_flow := f, sys_session := s,
                sys_uploads := map_option (wake f es) \<circ> sys_uploads y,
                sys_commands := sys_commands y @ [c], sys_effects := sys_effects y @ es\<rparr>))"

definition sent_by_upload :: "command \<Rightarrow> bool" where
  "sent_by_upload c =
     (case c of StartUpload _ _ _ \<Rightarrow> True | UploadData _ _ _ \<Rightarrow> True | FlushUpload _ _ \<Rightarrow> True
      | _ \<Rightarrow> False)"

datatype sys_event =
    UploadArrives token "string option" body_items
  | UploadTurn token waiter
  | UploadEnds token
  | OtherCommand command

fun sys_step :: "encoder \<Rightarrow> system \<Rightarrow> sys_event \<Rightarrow> system option" where
  "sys_step pb y (UploadArrives t header items) =
     (if t \<in> sys_tokens y then None
      else Some (y\<lparr>sys_tokens := insert t (sys_tokens y),
                   sys_uploads := (sys_uploads y)(t \<mapsto>
                     \<lparr>ut_state = (case upload_position Some header of
                          Inl reason \<Rightarrow> UpDone (Inl (ApiInvalid reason))
                        | Inr p \<Rightarrow> UpStarting p items),
                      ut_waiting = None\<rparr>)\<rparr>))"
| "sys_step pb y (UploadTurn t w) =
     (case sys_uploads y t of
        None \<Rightarrow> None
      | Some u \<Rightarrow>
          if ut_waiting u \<noteq> None then None
          else map_option
            (submit pb (y\<lparr>sys_uploads := (sys_uploads y)(t \<mapsto> u\<lparr>ut_waiting := Some w\<rparr>)\<rparr>))
            (upload_command t w (ut_state u)))"
| "sys_step pb y (UploadEnds t) =
     (if sys_uploads y t = None then None
      else Some (submit pb (y\<lparr>sys_uploads := (sys_uploads y)(t := None)\<rparr>) (upload_drop t)))"
| "sys_step pb y (OtherCommand c) = (if sent_by_upload c then None else Some (submit pb y c))"

fun sys_run :: "encoder \<Rightarrow> system \<Rightarrow> sys_event list \<Rightarrow> system option" where
  "sys_run pb y [] = Some y"
| "sys_run pb y (ev # evs) =
     (case sys_step pb y ev of None \<Rightarrow> None | Some y' \<Rightarrow> sys_run pb y' evs)"

subsection \<open>Requests that carry one content\<close>

text \<open>The items of a body that carry the rest of a content; a body may break off.\<close>

fun body_ok :: "bytes \<Rightarrow> body_items \<Rightarrow> bool" where
  "body_ok rest [] = (rest = [])"
| "body_ok rest (Inl _ # items) = True"
| "body_ok rest (Inr d # items) = (prefix d rest \<and> body_ok (drop (length d) rest) items)"

definition event_honest :: "bytes \<Rightarrow> sys_event \<Rightarrow> bool" where
  "event_honest F ev =
     (case ev of
        UploadArrives t header items \<Rightarrow>
          (case upload_position Some header of
             Inl _ \<Rightarrow> True
           | Inr p \<Rightarrow> unat p \<le> length F \<and> body_ok (drop (unat p) F) items)
      | _ \<Rightarrow> True)"

lemma body_ok_items: "body_ok (concat bs) (map Inr bs)"
  by (induction bs) auto

text \<open>What a handler that is between two requests will still send, and what it sends next.\<close>

definition rest_ok :: "bytes \<Rightarrow> bytes option \<Rightarrow> body_items \<Rightarrow> bool" where
  "rest_ok rest next items = body_ok rest (Inr (case next of None \<Rightarrow> [] | Some d \<Rightarrow> d) # items)"

definition chunk_ok :: "bytes \<Rightarrow> chunk \<Rightarrow> bytes option \<Rightarrow> body_items \<Rightarrow> bool" where
  "chunk_ok rest c next items =
     (prefix (chunk_data c) rest \<and>
      (if is_final c then chunk_data c = rest
       else rest_ok (drop (length (chunk_data c)) rest) next items))"

definition position_ok :: "bytes \<Rightarrow> (bytes \<Rightarrow> bool) \<Rightarrow> position \<Rightarrow> bool" where
  "position_ok F P q = (unat q \<le> length F \<and> P (drop (unat q) F))"

text \<open>\<open>P\<close> holds of the content that is left at the position of the uploader \<open>t\<close>, as long as it
  is the one connected.\<close>

definition at_uploader :: "bytes \<Rightarrow> state \<Rightarrow> token \<Rightarrow> (bytes \<Rightarrow> bool) \<Rightarrow> bool" where
  "at_uploader F s t P =
     (\<forall>v. uploader_slot s = Some v \<longrightarrow> u_token v = t \<longrightarrow> position_ok F P (u_position v))"

fun upload_ok :: "bytes \<Rightarrow> state \<Rightarrow> token \<Rightarrow> upload_state \<Rightarrow> bool \<Rightarrow> bool" where
  "upload_ok F s t (UpStarting p items) waiting =
     (if waiting then at_uploader F s t (\<lambda>rest. body_ok rest items)
      else uploader_token s \<noteq> Some t \<and> position_ok F (\<lambda>rest. body_ok rest items) p)"
| "upload_ok F s t (UpFlushing items) waiting = at_uploader F s t (\<lambda>rest. body_ok rest items)"
| "upload_ok F s t (UpSending c next items) waiting =
     at_uploader F s t
       (\<lambda>rest. if waiting then is_final c \<or> rest_ok rest next items else chunk_ok rest c next items)"
| "upload_ok F s t (UpDone a) waiting = True"

definition task_ok :: "bytes \<Rightarrow> state \<Rightarrow> token \<Rightarrow> upload_task \<Rightarrow> bool" where
  "task_ok F s t u = upload_ok F s t (ut_state u) (ut_waiting u \<noteq> None)"

lemma at_uploader_mono:
  "at_uploader F s t P \<Longrightarrow> (\<And>rest. P rest \<Longrightarrow> Q rest) \<Longrightarrow> at_uploader F s t Q"
  by (auto simp: at_uploader_def position_ok_def)

lemma rest_ok_send_next:
  assumes "at_uploader F s t (\<lambda>rest. rest_ok rest next items)"
  shows "upload_ok F s t (send_next next items) False"
proof (cases items)
  case Nil
  then show ?thesis using assms
    by (auto simp: rest_ok_def chunk_ok_def chunk_data_def prefix_def elim!: at_uploader_mono)
next
  case (Cons i rest)
  then show ?thesis using assms
    by (cases i) (auto simp: rest_ok_def chunk_ok_def chunk_data_def read_failed_def
        elim!: at_uploader_mono)
qed

lemma body_ok_read_first:
  assumes "at_uploader F s t (\<lambda>rest. body_ok rest items)"
  shows "upload_ok F s t (read_first items) False"
proof (cases items)
  case Nil
  then show ?thesis using assms rest_ok_send_next [of F s t None "[]"]
    by (simp add: rest_ok_def at_uploader_def position_ok_def)
next
  case (Cons i rest)
  then show ?thesis using assms rest_ok_send_next [of F s t "Some (projr i)" rest]
    by (cases i) (simp_all add: rest_ok_def read_failed_def)
qed

text \<open>A handler that waits is ready for any reply.\<close>

lemma upload_reply_ok:
  assumes "upload_ok F s t st True"
  shows "upload_ok F s t (upload_reply st r) False"
proof (cases r)
  case (Inl e)
  then show ?thesis by (cases st) simp_all
next
  case (Inr u)
  show ?thesis
  proof (cases st)
    case (UpSending c nx items)
    then show ?thesis using assms Inr
      by (cases "is_final c") (simp_all add: rest_ok_send_next)
  qed (use assms Inr in \<open>simp_all add: body_ok_read_first\<close>)
qed

lemma take_reply_ok: "task_ok F s t u \<Longrightarrow> task_ok F s t (take_reply u e)"
  by (auto simp: task_ok_def take_reply_def upload_reply_ok split: effect.split reply.split)

lemma wake_ok: "task_ok F s t u \<Longrightarrow> task_ok F s t (wake f es u)"
proof -
  assume u: "task_ok F s t u"
  have "task_ok F s t (foldl take_reply u es)"
    using u by (induction es arbitrary: u) (simp_all add: take_reply_ok)
  then show ?thesis by (auto simp: wake_def Let_def reply_lost_def task_ok_def upload_reply_ok)
qed

subsection \<open>What one command does to the uploader\<close>

lemma at_uploader_same:
  "at_uploader F s t P \<Longrightarrow>
   (\<And>v. uploader_slot s' = Some v \<Longrightarrow> u_token v = t \<Longrightarrow> uploader_slot s = Some v) \<Longrightarrow>
   at_uploader F s' t P"
  by (auto simp: at_uploader_def)

lemma slot_ops:
  "start_download pb s d = (s', es) \<Longrightarrow> uploader_slot s' = Some v \<Longrightarrow> uploader_slot s = Some v"
  "finish_download s w = (f, s', es) \<Longrightarrow> uploader_slot s' = Some v \<Longrightarrow> uploader_slot s = Some v"
  "flush_upload s t w = (s', es) \<Longrightarrow> uploader_slot s' = uploader_slot s"
  "disconnected s t pr = (f, s') \<Longrightarrow> uploader_slot s' = Some v \<Longrightarrow> uploader_slot s = Some v"
  "start_websocket s dir peer = (s', es) \<Longrightarrow> uploader_slot s' = uploader_slot s"
  "relay_frame s dir fr = (s', es) \<Longrightarrow> uploader_slot s' = uploader_slot s"
  by (cases "pending s"; cases "downloader_slot s"; cases "uploader_slot s";
      auto simp: start_download_def finish_download_def flush_upload_def disconnected_def
        start_websocket_def relay_frame_def hold_frame_def set_held_frames_def
        set_websocket_def replace_downloader_def take_pending_def terminate_uploader_def Let_def
        split: prod.splits if_splits option.splits peer.splits direction.splits
          downloader_slot.splits)+

lemma start_upload_slot:
  "start_upload pb s t p w = (s', es) \<Longrightarrow> uploader_slot s' = Some v \<Longrightarrow>
   v = \<lparr>u_token = t, u_position = p\<rparr>"
  by (auto simp: start_upload_def Let_def split: prod.splits if_splits sum.splits pending.splits)

lemma upload_data_slot:
  "upload_data pb s t c w = (s', es) \<Longrightarrow>
   (\<exists>u. uploader_slot s = Some u \<and> u_token u = t \<and>
      uploader_slot s' = Some (u\<lparr>u_position := u_position u + chunk_len c\<rparr>)) \<or>
   (uploader_slot s' = uploader_slot s \<and> (\<exists>e. es = [Reply w (UploadReply (Inl e))]))"
  by (auto simp: upload_data_def Let_def split: option.splits if_splits pending.splits
      downloader_slot.splits)

definition command_uploader :: "command \<Rightarrow> token option" where
  "command_uploader c =
     (case c of StartUpload t p w \<Rightarrow> Some t | UploadData t ch w \<Rightarrow> Some t | _ \<Rightarrow> None)"

text \<open>The slot of an uploader changes only by its own commands, or is vacated.\<close>

lemma other_uploader_slot:
  assumes h: "handle pb s c = (f, s', es)" and t: "command_uploader c \<noteq> Some t"
    and v: "uploader_slot s' = Some v" "u_token v = t"
  shows "uploader_slot s = Some v"
proof (cases c)
  case (StartDownload d w)
  then show ?thesis using h v slot_ops(1) by (auto split: prod.splits)
next
  case (FinishDownload w)
  then show ?thesis using h v slot_ops(2) by auto
next
  case (StartUpload t' p w)
  then have "start_upload pb s t' p w = (s', es)" using h by (auto simp: continue_def prod_eq_iff)
  from start_upload_slot [OF this v(1)] show ?thesis using StartUpload t v(2)
    by (simp add: command_uploader_def)
next
  case (UploadData t' ch w)
  then have "upload_data pb s t' ch w = (s', es)" using h by (auto simp: continue_def prod_eq_iff)
  from upload_data_slot [OF this] show ?thesis using UploadData t v
    by (auto simp: command_uploader_def)
next
  case (FlushUpload t' w)
  then have "flush_upload s t' w = (s', es)" using h by (auto simp: continue_def prod_eq_iff)
  from slot_ops(3) [OF this] show ?thesis using v by simp
next
  case (StartWebsocket dir peer w)
  then show ?thesis using h v slot_ops(5) by (auto split: prod.splits)
next
  case (WebsocketData dir fr)
  then have "relay_frame s dir fr = (s', es)" using h by (auto simp: continue_def prod_eq_iff)
  from slot_ops(6) [OF this] show ?thesis using v by simp
next
  case (DisconnectedCmd t' pr)
  then show ?thesis using h v slot_ops(4) by (auto split: prod.splits)
qed (use h v in auto)

lemma other_task_ok:
  assumes "task_ok F s t u" and "handle pb s c = (f, s', es)" and "command_uploader c \<noteq> Some t"
  shows "task_ok F s' t u"
proof -
  note slot = other_uploader_slot [OF assms(2,3)]
  have at: "at_uploader F s t P \<Longrightarrow> at_uploader F s' t P" for P
    using at_uploader_same [of F s t P s'] slot by blast
  have "uploader_token s \<noteq> Some t \<Longrightarrow> uploader_token s' \<noteq> Some t"
    by (cases "uploader_slot s'") (auto simp: uploader_token_def dest: slot)
  then show ?thesis
    using assms(1) at by (cases "ut_state u") (auto simp: task_ok_def)
qed

text \<open>The handler whose request is handled: it is ready for any reply, or its request is
  refused and the reply tells it so.\<close>

lemma own_task_ok:
  assumes "task_ok F s t u" and "ut_waiting u = None" and "length F < 2 ^ 64"
    and c: "upload_command t w (ut_state u) = Some c"
    and h: "handle pb s c = (f, s', es)"
  shows "task_ok F s' t (wake f es (u\<lparr>ut_waiting := Some w\<rparr>))"
proof (cases "ut_state u")
  case (UpStarting p items)
  then have h': "start_upload pb s t p w = (s', es)"
    using c h by (auto simp: continue_def prod_eq_iff)
  have "at_uploader F s' t (\<lambda>rest. body_ok rest items)"
    using assms(1,2) UpStarting
    by (auto simp: at_uploader_def task_ok_def dest!: start_upload_slot [OF h'])
  then show ?thesis using UpStarting by (intro wake_ok) (simp add: task_ok_def)
next
  case (UpFlushing items)
  then have "flush_upload s t w = (s', es)"
    using c h by (auto simp: continue_def prod_eq_iff)
  then have "at_uploader F s' t (\<lambda>rest. body_ok rest items)"
    using assms(1) UpFlushing slot_ops(3) by (simp add: at_uploader_def task_ok_def)
  then show ?thesis using UpFlushing by (intro wake_ok) (simp add: task_ok_def)
next
  case (UpSending ch nx items)
  then have h': "upload_data pb s t ch w = (s', es)" and f: "f = Continue ()"
    using c h by (auto simp: continue_def prod_eq_iff)
  have ok: "at_uploader F s t (\<lambda>rest. chunk_ok rest ch nx items)"
    using assms(1,2) UpSending by (simp add: task_ok_def)
  from upload_data_slot [OF h'] show ?thesis
  proof
    assume "\<exists>v. uploader_slot s = Some v \<and> u_token v = t \<and>
      uploader_slot s' = Some (v\<lparr>u_position := u_position v + chunk_len ch\<rparr>)"
    then obtain v where v: "uploader_slot s = Some v" "u_token v = t"
      "uploader_slot s' = Some (v\<lparr>u_position := u_position v + chunk_len ch\<rparr>)" by blast
    then have co: "chunk_ok (drop (unat (u_position v)) F) ch nx items"
      and le: "unat (u_position v) \<le> length F"
      using ok by (simp_all add: at_uploader_def position_ok_def)
    have "prefix (chunk_data ch) (drop (unat (u_position v)) F)"
      using co by (simp add: chunk_ok_def)
    then have len: "unat (u_position v) + length (chunk_data ch) \<le> length F"
      using le by (auto dest: prefix_drop_length)
    then have "unat (u_position v + chunk_len ch) = unat (u_position v) + length (chunk_data ch)"
      using assms(3) by (simp add: chunk_len_data unat_add_len64)
    then have "at_uploader F s' t (\<lambda>rest. is_final ch \<or> rest_ok rest nx items)"
      using co len v by (auto simp: at_uploader_def position_ok_def chunk_ok_def add.commute
          split: if_splits)
    then show ?thesis using UpSending by (intro wake_ok) (simp add: task_ok_def)
  next
    assume "uploader_slot s' = uploader_slot s \<and> (\<exists>e. es = [Reply w (UploadReply (Inl e))])"
    then show ?thesis using UpSending f
      by (auto simp: wake_def task_ok_def take_reply_def or_not_found_def)
  qed
qed (use c in simp)

subsection \<open>The system's invariant\<close>

definition sys_inv :: "bytes \<Rightarrow> session_id \<Rightarrow> string \<Rightarrow> encoder \<Rightarrow> system \<Rightarrow> bool" where
  "sys_inv F i m pb y =
     (run_session pb (initial_state i m) (sys_commands y)
        = (sys_flow y, sys_session y, sys_effects y) \<and>
      run_allowed (handle pb) (honest_command F) (initial_state i m) (sys_commands y) \<and>
      (\<forall>t u. sys_uploads y t = Some u \<longrightarrow> t \<in> sys_tokens y \<and> task_ok F (sys_session y) t u) \<and>
      (\<forall>t. uploader_token (sys_session y) = Some t \<longrightarrow> t \<in> sys_tokens y))"

lemma run_allowed_snoc:
  "run_allowed step ok s cs \<Longrightarrow> run_machine step s cs = (Continue (), s', es) \<Longrightarrow> ok s' c \<Longrightarrow>
   run_allowed step ok s (cs @ [c])"
  by (induction cs arbitrary: s es) (auto split: prod.splits control_flow.splits)

lemma sys_inv_new: "sys_inv F i m pb (system_new i m)"
  by (simp add: sys_inv_def system_new_def run_session_def uploader_token_def initial_state_def)

lemma submit_inv:
  assumes inv: "sys_inv F i m pb y" and c: "honest_command F (sys_session y) c"
    and ups: "\<And>t u. ups t = Some u \<Longrightarrow> t \<in> sys_tokens y"
    and ok: "\<And>t u f s' es. ups t = Some u \<Longrightarrow> handle pb (sys_session y) c = (f, s', es) \<Longrightarrow>
      sys_flow y = Continue () \<Longrightarrow> task_ok F s' t (wake f es u)"
    and gone: "\<And>t u. ups t = Some u \<Longrightarrow> is_break (sys_flow y) \<Longrightarrow>
      task_ok F (sys_session y) t (reply_lost u)"
    and token: "\<And>t. command_uploader c = Some t \<Longrightarrow> t \<in> sys_tokens y"
  shows "sys_inv F i m pb (submit pb (y\<lparr>sys_uploads := ups\<rparr>) c)"
proof (cases "sys_flow y")
  case (Break u)
  then show ?thesis using inv ups gone by (auto simp: sys_inv_def submit_def)
next
  case (Continue u)
  obtain f s' es where h: "handle pb (sys_session y) c = (f, s', es)"
    by (cases "handle pb (sys_session y) c")
  have run: "run_machine (handle pb) (initial_state i m) (sys_commands y)
      = (Continue (), sys_session y, sys_effects y)"
    using inv Continue by (simp add: sys_inv_def run_session_def)
  have "uploader_token s' = Some t \<Longrightarrow> t \<in> sys_tokens y" for t
    using inv token other_uploader_slot [OF h, of t]
    by (cases "command_uploader c = Some t") (auto simp: sys_inv_def uploader_token_def)
  moreover have "run_session pb (initial_state i m) (sys_commands y @ [c])
      = (f, s', sys_effects y @ es)"
    unfolding run_session_def run_machine_append run using h by (cases f) simp_all
  moreover have "run_allowed (handle pb) (honest_command F) (initial_state i m) (sys_commands y @ [c])"
    using inv run_allowed_snoc [OF _ run, of _ c] c by (simp add: sys_inv_def)
  ultimately show ?thesis
    using ups ok h Continue by (auto simp: sys_inv_def submit_def)
qed

lemma reply_lost_ok: "task_ok F s t u \<Longrightarrow> task_ok F s t (reply_lost u)"
  using wake_ok [of F s t u "Break ()" "[]"] by (simp add: wake_def)

lemma own_command_honest:
  assumes "task_ok F s t u" and "ut_waiting u = None" and "upload_command t w (ut_state u) = Some c"
  shows "honest_command F s c"
proof (cases "ut_state u")
  case (UpSending ch nx items)
  then have ok: "at_uploader F s t (\<lambda>rest. chunk_ok rest ch nx items)"
    using assms by (simp add: task_ok_def)
  have "honest_chunk F (u_position v) ch"
    if "uploader_slot s = Some v" and "u_token v = t" for v
  proof -
    have "unat (u_position v) \<le> length F" "chunk_ok (drop (unat (u_position v)) F) ch nx items"
      using ok that by (simp_all add: at_uploader_def position_ok_def)
    then show ?thesis
      by (cases ch) (simp_all add: honest_chunk_def chunk_ok_def chunk_data_def)
  qed
  then show ?thesis
    using assms(3) UpSending by (auto simp: honest_command_def split: option.split)
qed (use assms(3) in \<open>auto simp: honest_command_def\<close>)

lemma upload_command_uploader:
  "upload_command t w st = Some c \<Longrightarrow> command_uploader c = None \<or> command_uploader c = Some t"
  by (cases st) (auto simp: command_uploader_def)

lemma turn_lost:
  "upload_command t w st = Some c \<Longrightarrow>
   task_ok F s t (reply_lost \<lparr>ut_state = st, ut_waiting = Some w\<rparr>)"
  by (cases st) (simp_all add: reply_lost_def or_not_found_def task_ok_def)

lemma foreign_command:
  "\<not> sent_by_upload c \<Longrightarrow> command_uploader c = None \<and> honest_command F s c"
  by (cases c) (simp_all add: sent_by_upload_def command_uploader_def honest_command_def)

text \<open>A command that is no upload's leaves every handler as it should be.\<close>

lemma submit_foreign:
  assumes inv: "sys_inv F i m pb y" and c: "\<not> sent_by_upload c"
    and ups: "\<And>t u. ups t = Some u \<Longrightarrow> sys_uploads y t = Some u"
  shows "sys_inv F i m pb (submit pb (y\<lparr>sys_uploads := ups\<rparr>) c)"
proof (rule submit_inv [OF inv])
  fix t u assume u: "ups t = Some u"
  then have ok: "task_ok F (sys_session y) t u" and t: "t \<in> sys_tokens y"
    using inv ups by (auto simp: sys_inv_def)
  show "t \<in> sys_tokens y" by (rule t)
  show "task_ok F (sys_session y) t (reply_lost u)" using ok by (rule reply_lost_ok)
  fix f s' es assume h: "handle pb (sys_session y) c = (f, s', es)"
  have "command_uploader c \<noteq> Some t" using foreign_command [OF c] by simp
  from other_task_ok [OF ok h this] show "task_ok F s' t (wake f es u)" by (rule wake_ok)
qed (simp_all add: foreign_command [OF c])

lemma sys_step_inv:
  assumes inv: "sys_inv F i m pb y" and len: "length F < 2 ^ 64"
    and honest: "event_honest F ev" and step: "sys_step pb y ev = Some y'"
  shows "sys_inv F i m pb y'"
proof (cases ev)
  case (UploadArrives t header items)
  have new: "t \<notin> sys_tokens y" using step UploadArrives by (auto split: if_splits)
  then have "uploader_token (sys_session y) \<noteq> Some t" using inv by (auto simp: sys_inv_def)
  then show ?thesis
    using inv honest step UploadArrives new
    by (auto simp: sys_inv_def task_ok_def event_honest_def position_ok_def
        split: sum.splits if_splits)
next
  case (UploadTurn t w)
  then obtain u c where u: "sys_uploads y t = Some u" "ut_waiting u = None"
    and c: "upload_command t w (ut_state u) = Some c"
    and y': "y' = submit pb (y\<lparr>sys_uploads := (sys_uploads y)(t \<mapsto> u\<lparr>ut_waiting := Some w\<rparr>)\<rparr>) c"
    using step by (auto split: option.splits if_splits)
  have ok: "task_ok F (sys_session y) t' u'" and tok: "t' \<in> sys_tokens y"
    if "sys_uploads y t' = Some u'" for t' u'
    using inv that by (auto simp: sys_inv_def)
  show ?thesis unfolding y'
  proof (rule submit_inv [OF inv own_command_honest [OF ok [OF u(1)] u(2) c]])
    fix t' u' assume u': "((sys_uploads y)(t \<mapsto> u\<lparr>ut_waiting := Some w\<rparr>)) t' = Some u'"
    show "t' \<in> sys_tokens y" using u' tok u(1) by (auto split: if_splits)
    show "task_ok F (sys_session y) t' (reply_lost u')"
      using u' turn_lost [OF c, of F "sys_session y"] ok reply_lost_ok
      by (cases u) (auto split: if_splits)
    fix f s' es assume h: "handle pb (sys_session y) c = (f, s', es)"
    show "task_ok F s' t' (wake f es u')"
    proof (cases "t' = t")
      case True
      then show ?thesis using u' own_task_ok [OF ok [OF u(1)] u(2) len c h] by simp
    next
      case False
      then have "sys_uploads y t' = Some u'" using u' by simp
      then show ?thesis
        using other_task_ok [OF ok h] upload_command_uploader [OF c] False
        by (intro wake_ok) auto
    qed
  next
    fix t' assume "command_uploader c = Some t'"
    then show "t' \<in> sys_tokens y"
      using upload_command_uploader [OF c] tok [OF u(1)] by auto
  qed
next
  case (UploadEnds t)
  then have "y' = submit pb (y\<lparr>sys_uploads := (sys_uploads y)(t := None)\<rparr>) (upload_drop t)"
    using step by (auto split: if_splits)
  then show ?thesis
    by (simp only:) (rule submit_foreign [OF inv], auto simp: upload_drop_def sent_by_upload_def split: if_splits)
next
  case (OtherCommand c)
  then show ?thesis
    using step submit_foreign [OF inv, of c "sys_uploads y"] by (auto split: if_splits)
qed

lemma sys_run_inv:
  assumes "sys_inv F i m pb y" and "length F < 2 ^ 64"
    and "list_all (event_honest F) evs" and "sys_run pb y evs = Some y'"
  shows "sys_inv F i m pb y'"
  using assms
proof (induction evs arbitrary: y)
  case (Cons ev evs)
  then obtain y1 where "sys_step pb y ev = Some y1" "sys_run pb y1 evs = Some y'"
    by (auto split: option.splits)
  moreover have "event_honest F ev" "list_all (event_honest F) evs" using Cons.prems(3) by simp_all
  ultimately show ?case
    using Cons.IH [OF sys_step_inv [OF Cons.prems(1,2)]] Cons.prems(2) by blast
qed simp

subsection \<open>Downloads of the system\<close>

text \<open>The downloads that a run has started are among those that its events ask for.\<close>

definition other_commands :: "sys_event list \<Rightarrow> command list" where
  "other_commands evs = concat (map (\<lambda>ev. case ev of OtherCommand c \<Rightarrow> [c] | _ \<Rightarrow> []) evs)"

definition started_events :: "sys_event list \<Rightarrow> chan list" where
  "started_events evs = started (other_commands evs)"

definition downloads_of :: "command list \<Rightarrow> downloader list" where
  "downloads_of cs = concat (map (\<lambda>c. case c of StartDownload d w \<Rightarrow> [d] | _ \<Rightarrow> []) cs)"

lemma downloads_of_simps [simp]:
  "downloads_of [] = []"
  "downloads_of (c # cs) = (case c of StartDownload d w \<Rightarrow> [d] | _ \<Rightarrow> []) @ downloads_of cs"
  "downloads_of (cs @ ds) = downloads_of cs @ downloads_of ds"
  by (simp_all add: downloads_of_def)

lemma other_commands_simps [simp]:
  "other_commands [] = []"
  "other_commands (ev # evs) = (case ev of OtherCommand c \<Rightarrow> [c] | _ \<Rightarrow> []) @ other_commands evs"
  "other_commands (evs @ more_evs) = other_commands evs @ other_commands more_evs"
  by (simp_all add: other_commands_def)

lemma started_append [simp]: "started (cs @ ds) = started cs @ started ds"
  by (simp add: started_def)

lemma started_downloads: "started cs = map d_events (downloads_of cs)"
  by (induction cs) (auto split: command.split)

lemma submit_downloads:
  "\<exists>ds. downloads_of (sys_commands (submit pb (y\<lparr>sys_uploads := ups\<rparr>) c))
     = downloads_of (sys_commands y) @ ds \<and> subseq ds (downloads_of [c])"
  by (auto simp: submit_def split: control_flow.split prod.split)

lemma sys_step_downloads:
  assumes "sys_step pb y ev = Some y'"
  shows "\<exists>ds. downloads_of (sys_commands y') = downloads_of (sys_commands y) @ ds \<and>
    subseq ds (downloads_of (other_commands [ev]))"
proof (cases ev)
  case (UploadTurn t w)
  then obtain u c where c: "upload_command t w (ut_state u) = Some c"
    and y': "y' = submit pb (y\<lparr>sys_uploads := (sys_uploads y)(t \<mapsto> u\<lparr>ut_waiting := Some w\<rparr>)\<rparr>) c"
    using assms by (auto split: option.splits if_splits)
  have "downloads_of [c] = []" using c by (cases "ut_state u") auto
  then show ?thesis
    using submit_downloads [where ups = "(sys_uploads y)(t \<mapsto> u\<lparr>ut_waiting := Some w\<rparr>)" and
        c = c and y = y and pb = pb] y' UploadTurn by auto
next
  case (UploadEnds t)
  then have "y' = submit pb (y\<lparr>sys_uploads := (sys_uploads y)(t := None)\<rparr>) (upload_drop t)"
    using assms by (auto split: if_splits)
  then show ?thesis
    using submit_downloads [where ups = "(sys_uploads y)(t := None)" and c = "upload_drop t" and
        y = y and pb = pb] UploadEnds by (auto simp: upload_drop_def)
next
  case (OtherCommand c)
  then show ?thesis
    using assms submit_downloads [where ups = "sys_uploads y" and c = c and y = y and pb = pb]
    by (auto split: if_splits)
qed (use assms in \<open>auto split: if_splits\<close>)

lemma sys_run_downloads:
  "sys_run pb y evs = Some y' \<Longrightarrow>
   \<exists>ds. downloads_of (sys_commands y') = downloads_of (sys_commands y) @ ds \<and>
     subseq ds (downloads_of (other_commands evs))"
proof (induction evs arbitrary: y)
  case Nil
  then show ?case by simp
next
  case (Cons ev evs)
  then obtain y1 where st: "sys_step pb y ev = Some y1" and r: "sys_run pb y1 evs = Some y'"
    by (auto split: option.splits)
  have "downloads_of (other_commands (ev # evs))
      = downloads_of (other_commands [ev]) @ downloads_of (other_commands evs)"
    by (cases ev) simp_all
  then show ?case
    using sys_step_downloads [OF st] Cons.IH [OF r] by (auto intro: list_emb_append_mono)
qed

lemma system_downloads:
  assumes "sys_run pb (system_new i m) evs = Some y"
  shows "subseq (downloads_of (sys_commands y)) (downloads_of (other_commands evs))"
  using sys_run_downloads [OF assms] by (simp add: system_new_def)

lemma system_channels:
  assumes "sys_run pb (system_new i m) evs = Some y" and "distinct (started_events evs)"
  shows "distinct (started (sys_commands y))"
proof -
  have "subseq (started (sys_commands y)) (started_events evs)"
    using system_downloads [OF assms(1)]
    by (simp add: started_downloads started_events_def subseq_map)
  then show ?thesis using assms(2) subseqs_distinctD by (metis in_set_subseqs)
qed

text \<open>C1: The relay end to end. Take any number of concurrent upload requests, each carrying the
  content from the position its header names (whole or broken off), any interleaving of the
  turns of their handlers, cancellations, downloads and other requests. Then a download
  response yields the content from the position it asked for: a prefix, and all of it if the
  response completes.\<close>

theorem uploads_reach_downloaders:
  assumes run: "sys_run pb (system_new i m) evs = Some y"
    and honest: "list_all (event_honest F) evs" and size: "length F < 2 ^ 64"
    and chans: "distinct (started_events evs)"
    and start: "download_command t ch w (DownloadFrom session p) = Some c" "c \<in> set (sys_commands y)"
    and stream: "download_stream False (events_on ch (sys_effects y)) = (items, completed)"
  shows "prefix (concat items) (drop (unat p) F) \<and>
    (completed \<longrightarrow> concat items = drop (unat p) F)"
proof -
  have inv: "sys_inv F i m pb y" using sys_run_inv [OF sys_inv_new size honest run] .
  have "distinct (started (sys_commands y))" using system_channels [OF run chans] .
  then show ?thesis
    using inv download_body_is_content [OF _ _ size _ start stream] unfolding sys_inv_def by blast
qed

text \<open>An upload that breaks off after one chunk, a download, and the upload that resumes.\<close>

definition example_events :: "sys_event list" where
  "example_events =
     [UploadArrives 1 None [Inr [10], Inr [11], Inl ()], UploadTurn 1 1, UploadTurn 1 2, UploadTurn 1 3,
      OtherCommand (StartDownload \<lparr>d_token = 9, d_position = 0, d_events = 7\<rparr> 4), UploadEnds 1,
      UploadArrives 2 (Some (upload_content_range 1 3)) [Inr [11, 12]],
      UploadTurn 2 5, UploadTurn 2 6, UploadTurn 2 7]"

lemma example_range: "upload_position Some (Some (upload_content_range 1 3)) = Inr 1"
  using upload_position_full_range [of 1 2 3] by (simp add: upload_content_range_def)

lemma example_events_run:
  "\<exists>y. sys_run (\<lambda>_. []) (system_new [1] ''m'') example_events = Some y \<and>
     events_on 7 (sys_effects y) = [MoreEvent [10], FinalEvent [11, 12]] \<and>
     StartDownload \<lparr>d_token = 9, d_position = 0, d_events = 7\<rparr> 4 \<in> set (sys_commands y) \<and>
     sys_uploads y 2 = Some \<lparr>ut_state = UpDone (Inr (json 200 UploadOk)), ut_waiting = None\<rparr>"
  by (simp add: example_events_def system_new_def initial_state_def upload_position_def [of _ None]
      submit_def continue_def start_upload_def check_start_position_def upload_data_def
      flush_upload_def start_download_def replace_downloader_def take_pending_def chunk_len_def
      into_event_def send_upload_progress_def reply_to_def len64_def terminate_uploader_def
      uploader_token_def upload_drop_def disconnected_def sent_by_upload_def wake_def take_reply_def
      or_not_found_def read_failed_def example_range)

lemma example_events_honest:
  "list_all (event_honest [10, 11, 12]) example_events" "distinct (started_events example_events)"
  by (simp_all add: example_events_def event_honest_def started_events_def example_range
      upload_position_def [of _ None])

theorem uploads_reach_downloaders_witness:
  "\<exists>y. sys_run (\<lambda>_. []) (system_new [1] ''m'') example_events = Some y \<and>
     events_on 7 (sys_effects y) = [MoreEvent [10], FinalEvent [11, 12]] \<and>
     concat [[10], [11, 12]] = drop (unat (0 :: position)) [10, 11, 12 :: u8]"
proof -
  obtain y where y: "sys_run (\<lambda>_. []) (system_new [1] ''m'') example_events = Some y"
    "events_on 7 (sys_effects y) = [MoreEvent [10], FinalEvent [11, 12]]"
    "StartDownload \<lparr>d_token = 9, d_position = 0, d_events = 7\<rparr> 4 \<in> set (sys_commands y)"
    using example_events_run by blast
  have c: "download_command 9 7 4 (DownloadFrom \<lparr>sh_id = [1], sh_commands = 0\<rparr> 0)
      = Some (StartDownload \<lparr>d_token = 9, d_position = 0, d_events = 7\<rparr> 4)"
    by (simp add: download_command_def)
  have "concat [[10], [11, 12]] = drop (unat (0 :: position)) [10, 11, 12 :: u8]"
    using uploads_reach_downloaders [OF y(1) example_events_honest(1) _ example_events_honest(2) c y(3),
        of "[[10], [11, 12]]" True] y(2) by simp
  then show ?thesis using y by blast
qed

subsection \<open>The relay as a server of downloads\<close>

text \<open>
  What a client sees that requests a download from such a system: the events before and after
  its request, how many items of the response reach it, and how the response ends for it. (The
  handler ends it normally when it is complete, but also when another download has replaced it
  or the session is gone.)
\<close>

datatype response_end = Ended | ConnectionLost | ReadTimeout

record relay_attempt =
  ra_before :: "position \<Rightarrow> sys_event list"
  ra_after :: "position \<Rightarrow> sys_event list"
  ra_token :: token
  ra_events :: chan
  ra_waiter :: waiter
  ra_received :: nat
  ra_end :: response_end

definition relay_run :: "encoder \<Rightarrow> session_id \<Rightarrow> string \<Rightarrow> relay_attempt \<Rightarrow> position \<Rightarrow> sys_event list" where
  "relay_run pb i m a p =
     ra_before a p
     @ OtherCommand (StartDownload
         \<lparr>d_token = ra_token a, d_position = p, d_events = ra_events a\<rparr> (ra_waiter a))
     # ra_after a p"

definition relay_items :: "encoder \<Rightarrow> session_id \<Rightarrow> string \<Rightarrow> relay_attempt \<Rightarrow> position \<Rightarrow> bytes list" where
  "relay_items pb i m a p =
     (case sys_run pb (system_new i m) (relay_run pb i m a p) of
        None \<Rightarrow> []
      | Some y \<Rightarrow>
          take (ra_received a) (fst (download_stream False (events_on (ra_events a) (sys_effects y)))))"

definition attempt_honest :: "bytes \<Rightarrow> relay_attempt \<Rightarrow> bool" where
  "attempt_honest F a =
     (\<forall>p. list_all (event_honest F) (ra_before a p @ ra_after a p) \<and>
        distinct (ra_events a # started_events (ra_before a p @ ra_after a p)))"

lemma unstarted_channel:
  assumes "sys_inv F i m pb y" and "length F < 2 ^ 64" and "distinct (started (sys_commands y))"
    and "ch \<notin> set (started (sys_commands y))"
  shows "delivered ch (sys_effects y) = []"
proof -
  have r: "run_session pb (initial_state i m) (sys_commands y)
      = (sys_flow y, sys_session y, sys_effects y)"
    and h: "run_allowed (handle pb) (honest_command F) (initial_state i m) (sys_commands y)"
    using assms(1) by (simp_all add: sys_inv_def)
  obtain st' where "pipe_inv F st' (sys_effects y) (sys_session y)"
    "starts_from Map.empty (sys_commands y) st'"
    using run_pipe [OF r pipe_inv_initial _ h assms(2,3)] by auto
  then have "channel_ok F None (delivered ch (sys_effects y)) (final_sent ch (sys_effects y))"
    using assms(4) unfolding pipe_inv_def channels_ok_def starts_from_def by metis
  then show ?thesis by (simp add: channel_ok_def)
qed

lemma relay_items_prefix:
  assumes honest: "attempt_honest F a" and len: "length F < 2 ^ 64"
  shows "prefix (concat (relay_items pb i m a p)) (drop (unat p) F)"
proof (cases "sys_run pb (system_new i m) (relay_run pb i m a p)")
  case None
  then show ?thesis by (simp add: relay_items_def)
next
  case (Some y)
  let ?ch = "ra_events a" and ?evs = "relay_run pb i m a p"
  let ?d = "\<lparr>d_token = ra_token a, d_position = p, d_events = ?ch\<rparr>"
  have ok: "list_all (event_honest F) ?evs"
    using honest by (simp add: attempt_honest_def relay_run_def event_honest_def)
  have dist: "distinct (started_events ?evs)"
    using honest by (auto simp: attempt_honest_def relay_run_def started_events_def)
  obtain items completed where st: "download_stream False (events_on ?ch (sys_effects y)) = (items, completed)"
    by fastforce
  have "prefix (concat items) (drop (unat p) F)"
  proof (cases "?d \<in> set (downloads_of (sys_commands y))")
    case True
    then obtain w where w: "StartDownload ?d w \<in> set (sys_commands y)"
      by (auto simp: downloads_of_def split: command.splits)
    have "download_command (ra_token a) ?ch w (DownloadFrom \<lparr>sh_id = i, sh_commands = 0\<rparr> p)
        = Some (StartDownload ?d w)" by (simp add: download_command_def)
    from download_body_is_content [OF _ _ len system_channels [OF Some dist] this w st]
    show ?thesis using sys_run_inv [OF sys_inv_new len ok Some] unfolding sys_inv_def by blast
  next
    case False
    have all: "set (downloads_of (sys_commands y)) \<subseteq> set (downloads_of (other_commands ?evs))"
      using system_downloads [OF Some] by (auto dest: list_emb_set)
    have inj: "inj_on d_events (set (downloads_of (other_commands ?evs)))"
      using dist by (simp add: started_events_def started_downloads distinct_map)
    have own: "?d \<in> set (downloads_of (other_commands ?evs))" by (simp add: relay_run_def)
    have "d = ?d" if "d \<in> set (downloads_of (sys_commands y))" "d_events d = ?ch" for d
      using inj_onD [OF inj _ _ own, of d] that all by auto
    then have "?ch \<notin> set (started (sys_commands y))"
      using False by (auto simp: started_downloads)
    then have "delivered ?ch (sys_effects y) = []"
      using unstarted_channel [OF sys_run_inv [OF sys_inv_new len ok Some] len
        system_channels [OF Some dist]] by blast
    then show ?thesis
      using download_stream_prefix [of "events_on ?ch (sys_effects y)"] st
      unfolding delivered_events by (metis fst_conv prefix_bot.extremum prefix_bot.extremum_unique)
  qed
  moreover have "prefix (concat (take n items)) (concat items)" for n
    by (metis append_take_drop_id concat_append prefixI)
  ultimately show ?thesis using Some st by (auto simp: relay_items_def intro: prefix_order.trans)
qed

end
