(* ===== verification/Client_Error.thy ===== *)
theory Client_Error
  imports Rust_Str
begin

text \<open>
  The client's errors and its retry policy: \<^verbatim>\<open>error.rs\<close>, \<^verbatim>\<open>util/retry.rs\<close> and the close
  statuses of \<^verbatim>\<open>websocket.rs\<close>. The sources that errors carry (library errors, boxed errors)
  are opaque strings. Durations are natural numbers of seconds, the unit in which servers
  ask for a delay. The backoff schedule is a list of delays, what the iterator of the
  \<open>backon\<close> crate yields until its limits are reached, and is a parameter.
\<close>

subsection \<open>Close statuses of a websocket\<close>

datatype known_close_status =
    Normal | Gone | ProtocolError | UnsupportedFrameType | MissingStatusCode | ConnectionClosed
  | InvalidFrameData | Forbidden | FrameTooLarge | MissingProtocolExtension
  | InternalServerError | TlsError

datatype close_status = Known known_close_status | Unknown u16

fun known_code :: "known_close_status \<Rightarrow> u16" where
  "known_code Normal = 1000"
| "known_code Gone = 1001"
| "known_code ProtocolError = 1002"
| "known_code UnsupportedFrameType = 1003"
| "known_code MissingStatusCode = 1005"
| "known_code ConnectionClosed = 1006"
| "known_code InvalidFrameData = 1007"
| "known_code Forbidden = 1008"
| "known_code FrameTooLarge = 1009"
| "known_code MissingProtocolExtension = 1010"
| "known_code InternalServerError = 1011"
| "known_code TlsError = 1015"

definition known_statuses :: "known_close_status list" where
  "known_statuses =
     [Normal, Gone, ProtocolError, UnsupportedFrameType, MissingStatusCode, ConnectionClosed,
      InvalidFrameData, Forbidden, FrameTooLarge, MissingProtocolExtension,
      InternalServerError, TlsError]"

text \<open>\<open>TryFromPrimitive\<close>: the status with this discriminant.\<close>

definition known_of_code :: "u16 \<Rightarrow> known_close_status option" where
  "known_of_code n = find (\<lambda>s. known_code s = n) known_statuses"

definition close_status_of :: "u16 \<Rightarrow> close_status" where
  "close_status_of n =
     (case known_of_code n of
        Some known \<Rightarrow> Known known
      | None \<Rightarrow> if n \<noteq> 0 then Unknown n else Known MissingStatusCode)"

definition close_code :: "close_status \<Rightarrow> u16" where
  "close_code s = (case s of Known known \<Rightarrow> known_code known | Unknown n \<Rightarrow> n)"

lemma known_of_code_Some: "known_of_code n = Some s \<longleftrightarrow> known_code s = n"
  by (cases s) (auto simp: known_of_code_def known_statuses_def split: if_splits)

lemma known_code_nonzero: "known_code k \<noteq> 0"
  by (cases k) simp_all

text \<open>
  The orders that the source derives: known statuses by their discriminant, and a known
  status before every unknown one.
\<close>

lemma known_code_inj: "known_code a = known_code b \<Longrightarrow> a = b"
  using known_of_code_Some [of "known_code a" a] known_of_code_Some [of "known_code a" b] by simp

instantiation known_close_status :: linorder
begin

definition less_eq_known_close_status :: "known_close_status \<Rightarrow> known_close_status \<Rightarrow> bool" where
  "less_eq_known_close_status a b = (known_code a \<le> known_code b)"

definition less_known_close_status :: "known_close_status \<Rightarrow> known_close_status \<Rightarrow> bool" where
  "less_known_close_status a b = (known_code a < known_code b)"

instance
  by standard
    (auto simp: less_eq_known_close_status_def less_known_close_status_def intro: known_code_inj)

end

instantiation close_status :: linorder
begin

fun less_eq_close_status :: "close_status \<Rightarrow> close_status \<Rightarrow> bool" where
  "less_eq_close_status (Known a) (Known b) = (a \<le> b)"
| "less_eq_close_status (Known a) (Unknown n) = True"
| "less_eq_close_status (Unknown m) (Known b) = False"
| "less_eq_close_status (Unknown m) (Unknown n) = (m \<le> n)"

definition less_close_status :: "close_status \<Rightarrow> close_status \<Rightarrow> bool" where
  "less_close_status a b = (a \<le> b \<and> \<not> b \<le> a)"

instance
proof
  fix a b c :: close_status
  show "(a < b) = (a \<le> b \<and> \<not> b \<le> a)" by (rule less_close_status_def)
  show "a \<le> a" by (cases a) simp_all
  show "a \<le> b \<Longrightarrow> b \<le> c \<Longrightarrow> a \<le> c" by (cases a; cases b; cases c) auto
  show "a \<le> b \<Longrightarrow> b \<le> a \<Longrightarrow> a = b" by (cases a; cases b) auto
  show "a \<le> b \<or> b \<le> a" by (cases a; cases b) auto
qed

end

text \<open>Converting a close code into a status and back gives the code again, except that the
  code 0, which no frame may carry, reads as 1005 (missing status code); and a known status
  survives the trip through its code.\<close>

theorem close_status_roundtrip:
  "close_code (close_status_of n) = (if n = 0 then 1005 else n) \<and>
   close_status_of (known_code k) = Known k"
proof
  show "close_code (close_status_of n) = (if n = 0 then 1005 else n)"
    using known_of_code_Some [of n]
    by (auto simp: close_status_of_def close_code_def split: option.splits)
      (metis known_code_nonzero)
  show "close_status_of (known_code k) = Known k"
    using known_of_code_Some [of "known_code k" k] by (simp add: close_status_of_def)
qed

subsection \<open>Errors\<close>

type_synonym duration = nat

datatype error =
    ClientHttpErrorResponse string u16 "duration option"
  | ClientApiErrorResponse string string
  | WebSocketClosed close_status string
  | IO string
  | HTTPClient string
  | RTCDataChannel string
  | WebSocketClient string
  | InvalidPeerMessage string
  | InvalidInput string
  | InvalidCipherKey
  | Decrypt
  | InvalidServerResponse string
  | TimedOut

datatype websocket_error =
    WsHttpErrorResponse string u16 "duration option"
  | WsClosed close_status string
  | WsIO string
  | WsInvalidMessage string
  | WsClient string

fun error_of_websocket :: "websocket_error \<Rightarrow> error" where
  "error_of_websocket (WsHttpErrorResponse message status retry_after) =
     ClientHttpErrorResponse message status retry_after"
| "error_of_websocket (WsClosed status reason) = WebSocketClosed status reason"
| "error_of_websocket (WsIO source) = IO source"
| "error_of_websocket (WsClient source) = WebSocketClient source"
| "error_of_websocket (WsInvalidMessage source) = InvalidPeerMessage source"

datatype retriability = Permanent | Transient | After duration

text \<open>
  \<open>StatusCode::from_u16\<close> of the \<open>http\<close> crate takes the codes from 100 to 999; server errors
  are those from 500 to 599, successes those from 200 to 299.
\<close>

definition status_code :: "u16 \<Rightarrow> u16 option" where
  "status_code n = (if 100 \<le> n \<and> n < 1000 then Some n else None)"

definition is_server_error :: "u16 \<Rightarrow> bool" where
  "is_server_error n = (500 \<le> n \<and> n < 600)"

definition is_success :: "u16 \<Rightarrow> bool" where
  "is_success n = (200 \<le> n \<and> n < 300)"

definition known_retriability :: "known_close_status \<Rightarrow> retriability" where
  "known_retriability s =
     (case s of
        ConnectionClosed \<Rightarrow> Transient
      | InternalServerError \<Rightarrow> Transient
      | TlsError \<Rightarrow> Transient
      | _ \<Rightarrow> Permanent)"

fun error_retriability :: "error \<Rightarrow> retriability" where
  "error_retriability (ClientHttpErrorResponse message status (Some retry_after)) = After retry_after"
| "error_retriability (ClientHttpErrorResponse message status None) =
     (case status_code status of
        Some s \<Rightarrow> if is_server_error s then Transient else Permanent
      | None \<Rightarrow> Permanent)"
| "error_retriability (WebSocketClosed (Known status) reason) = known_retriability status"
| "error_retriability (HTTPClient source) = Transient"
| "error_retriability (IO source) = Transient"
| "error_retriability TimedOut = Transient"
| "error_retriability _ = Permanent"

text \<open>An error on its way out of an attempt, with the override of some call sites.\<close>

record retry_error =
  re_error :: error
  re_override :: "retriability option"

definition permanent :: "error \<Rightarrow> retry_error" where
  "permanent e = \<lparr>re_error = e, re_override = Some Permanent\<rparr>"

definition transient :: "error \<Rightarrow> retry_error" where
  "transient e = \<lparr>re_error = e, re_override = Some Transient\<rparr>"

definition retry_error_from :: "error \<Rightarrow> retry_error" where
  "retry_error_from e = \<lparr>re_error = e, re_override = None\<rparr>"

definition retry_retriability :: "retry_error \<Rightarrow> retriability" where
  "retry_retriability e =
     (case re_override e of Some r \<Rightarrow> r | None \<Rightarrow> error_retriability (re_error e))"

subsection \<open>Responses of a server\<close>

definition parse_retry_after ::
  "('h \<Rightarrow> string option) \<Rightarrow> 'h \<Rightarrow> error + duration option" where
  "parse_retry_after to_str header =
     (case to_str header of
        None \<Rightarrow> Inl (InvalidServerResponse ''Non-utf8 Retry-After header value'')
      | Some s \<Rightarrow>
          (case parse_u64 s of
             None \<Rightarrow> Inl (InvalidServerResponse ''Invalid Retry-After header value'')
           | Some secs \<Rightarrow> Inr (Some (unat secs))))"

definition response_retry_after ::
  "('h \<Rightarrow> string option) \<Rightarrow> 'h option \<Rightarrow> error + duration option" where
  "response_retry_after to_str header =
     (case header of Some h \<Rightarrow> parse_retry_after to_str h | None \<Rightarrow> Inr None)"

text \<open>\<open>Response::ok_or\<close>: a response with its status and its \<open>Retry-After\<close> header.\<close>

definition response_ok_or ::
  "('h \<Rightarrow> string option) \<Rightarrow> string \<Rightarrow> u16 \<Rightarrow> 'h option \<Rightarrow> error + unit" where
  "response_ok_or to_str message status header =
     (if is_success status then Inr ()
      else case response_retry_after to_str header of
        Inl e \<Rightarrow> Inl e
      | Inr retry_after \<Rightarrow> Inl (ClientHttpErrorResponse message status retry_after))"

text \<open>\<open>UploadResponse\<close> of the client, and its \<open>ok_or\<close>.\<close>

datatype upload_response = UploadResponseOk | UploadResponseError string

definition upload_response_ok_or :: "string \<Rightarrow> upload_response \<Rightarrow> error + unit" where
  "upload_response_ok_or message r =
     (case r of
        UploadResponseOk \<Rightarrow> Inr ()
      | UploadResponseError reason \<Rightarrow> Inl (ClientApiErrorResponse message reason))"

text \<open>What an unsuccessful response means for retrying: with a readable \<open>Retry-After\<close> it is
  retried after that delay whatever its status, without one exactly the server errors are
  retried, and with an unreadable one it is given up.\<close>

theorem response_retry_policy:
  assumes "response_ok_or to_str message status header = Inl e"
  shows "\<not> is_success status \<and>
    retry_retriability (retry_error_from e) =
      (case header of
         None \<Rightarrow> if is_server_error status then Transient else Permanent
       | Some h \<Rightarrow>
           (case Option.bind (to_str h) parse_u64 of
              Some secs \<Rightarrow> After (unat secs)
            | None \<Rightarrow> Permanent))"
proof -
  have "is_server_error status \<Longrightarrow> status_code status = Some status"
    by (auto simp: is_server_error_def status_code_def word_le_nat_alt word_less_nat_alt)
  then show ?thesis
    using assms
    by (auto simp: response_ok_or_def response_retry_after_def parse_retry_after_def
        retry_retriability_def retry_error_from_def status_code_def
        split: if_splits option.splits sum.splits)
qed

theorem response_retry_policy_witness:
  "response_ok_or Some ''failed'' 429 (Some ''7'')
     = Inl (ClientHttpErrorResponse ''failed'' 429 (Some 7)) \<and>
   retry_retriability (retry_error_from (ClientHttpErrorResponse ''failed'' 429 (Some 7))) = After 7"
proof -
  have r: "response_ok_or Some ''failed'' 429 (Some ''7'')
     = Inl (ClientHttpErrorResponse ''failed'' 429 (Some 7))"
    by (simp add: response_ok_or_def is_success_def response_retry_after_def
        parse_retry_after_def parse_u64_def to_digit_def)
  show ?thesis using response_retry_policy [OF r] r
    by (simp add: parse_u64_def to_digit_def)
qed

subsection \<open>The retry loop\<close>

text \<open>
  \<open>backon\<close>: after an error that \<open>when\<close> admits, the schedule yields its next delay, if any,
  and \<open>adjust\<close> turns it into the delay to sleep before the next attempt, or into giving up.
\<close>

definition should_retry :: "retry_error \<Rightarrow> bool" where
  "should_retry e = (retry_retriability e \<noteq> Permanent)"

definition adjust :: "retry_error \<Rightarrow> duration option \<Rightarrow> duration option" where
  "adjust e scheduled =
     (case retry_retriability e of After d \<Rightarrow> Some d | _ \<Rightarrow> scheduled)"

text \<open>
  The loop over the outcomes of the attempts, in order: the delays slept, and the result
  (\<open>None\<close> while another attempt is to be made).
\<close>

fun retry_run ::
  "(retry_error + 'a) list \<Rightarrow> duration list \<Rightarrow> duration list \<times> (error + 'a) option" where
  "retry_run [] schedule = ([], None)"
| "retry_run (Inr a # rs) schedule = ([], Some (Inr a))"
| "retry_run (Inl e # rs) schedule =
     (if \<not> should_retry e then ([], Some (Inl (re_error e)))
      else case adjust e (case schedule of [] \<Rightarrow> None | d # ds \<Rightarrow> Some d) of
        None \<Rightarrow> ([], Some (Inl (re_error e)))
      | Some d \<Rightarrow> (case retry_run rs (tl schedule) of (ds, r) \<Rightarrow> (d # ds, r)))"

definition slept_for :: "duration list \<Rightarrow> nat \<Rightarrow> retry_error \<Rightarrow> duration \<Rightarrow> bool" where
  "slept_for schedule j e d =
     (case retry_retriability e of
        Permanent \<Rightarrow> False
      | After a \<Rightarrow> d = a
      | Transient \<Rightarrow> j < length schedule \<and> d = schedule ! j)"

lemma slept_for_tl: "slept_for (tl schedule) j e d \<Longrightarrow> slept_for schedule (Suc j) e d"
  by (cases schedule) (auto simp: slept_for_def nth_tl split: retriability.splits)

lemma slept_for_0:
  "should_retry e \<Longrightarrow> adjust e (case schedule of [] \<Rightarrow> None | d # ds \<Rightarrow> Some d) = Some d \<Longrightarrow>
   slept_for schedule 0 e d"
  by (cases schedule)
    (auto simp: slept_for_def should_retry_def adjust_def split: retriability.splits)

text \<open>C37: The retry loop returns the outcome of its last attempt, a success, a permanent error
  or, when the schedule is used up, a transient one; every attempt before was a retriable
  error, and after it the loop slept exactly the delay the server asked for, or else the one
  that was scheduled for this attempt.\<close>

theorem retry_outcome:
  assumes "retry_run rs schedule = (slept, Some result)"
  shows "\<exists>k < length rs. length slept = k \<and>
    list_all (\<lambda>j. \<exists>e. rs ! j = Inl e \<and> slept_for schedule j e (slept ! j)) [0..<k] \<and>
    (case rs ! k of
       Inr a \<Rightarrow> result = Inr a
     | Inl e \<Rightarrow> result = Inl (re_error e) \<and>
         (retry_retriability e = Permanent \<or>
          retry_retriability e = Transient \<and> length schedule \<le> k))"
  using assms
proof (induction rs schedule arbitrary: slept rule: retry_run.induct)
  case (1 schedule)
  then show ?case by simp
next
  case (2 a rs schedule)
  then show ?case by (intro exI [of _ 0]) simp
next
  case (3 e rs schedule)
  let ?next = "case schedule of [] \<Rightarrow> None | d # ds \<Rightarrow> Some d"
  show ?case
  proof (cases "should_retry e \<and> adjust e ?next \<noteq> None")
    case True
    then obtain d where d: "adjust e ?next = Some d" by auto
    obtain ds where r: "retry_run rs (tl schedule) = (ds, Some result)" and s: "slept = d # ds"
      using 3(2) True d by (auto split: prod.splits)
    from 3(1) [OF _ d r] True obtain k where k: "k < length rs" "length ds = k"
      "list_all (\<lambda>j. \<exists>e. rs ! j = Inl e \<and> slept_for (tl schedule) j e (ds ! j)) [0..<k]"
      "case rs ! k of
         Inr a \<Rightarrow> result = Inr a
       | Inl e \<Rightarrow> result = Inl (re_error e) \<and>
           (retry_retriability e = Permanent \<or>
            retry_retriability e = Transient \<and> length (tl schedule) \<le> k)"
      by auto
    have "\<exists>e'. (Inl e # rs) ! j = Inl e' \<and> slept_for schedule j e' (slept ! j)"
      if "j < Suc k" for j
      using that k(3) slept_for_0 [OF _ d] True slept_for_tl
      by (cases j) (fastforce simp: s list_all_iff)+
    then show ?thesis
      using k s by (intro exI [of _ "Suc k"]) (auto simp: list_all_iff split: sum.splits)
  next
    case False
    then show ?thesis
      using 3(2)
      by (intro exI [of _ 0])
        (auto simp: should_retry_def adjust_def split: retriability.splits list.splits
          option.splits if_splits)
  qed
qed

theorem retry_outcome_witness:
  "retry_run [Inl (retry_error_from TimedOut), Inl (transient Decrypt), Inr (4 :: nat)] [1, 2, 3]
     = ([1, 2], Some (Inr 4)) \<and>
   (\<exists>k < 3. length [1, 2 :: nat] = k)"
proof -
  have r: "retry_run [Inl (retry_error_from TimedOut), Inl (transient Decrypt), Inr (4 :: nat)]
      [1, 2, 3] = ([1, 2], Some (Inr 4))"
    by (simp add: should_retry_def adjust_def retry_retriability_def retry_error_from_def
        transient_def)
  from retry_outcome [OF r] show ?thesis using r by (auto simp: numeral_3_eq_3)
qed

text \<open>The time limit of the schedule binds only the errors without a server delay: an
  operation that is answered with a \<open>Retry-After\<close> every time is attempted on and on, also
  when the schedule has no delay left.\<close>

theorem retry_after_outlasts_schedule:
  "retry_run (replicate n (Inl (retry_error_from (ClientHttpErrorResponse m s (Some d))))) []
     = (replicate n d, None :: (error + unit) option)"
  by (induction n)
    (simp_all add: should_retry_def adjust_def retry_retriability_def retry_error_from_def)

end
