(* ===== verification/Client_Cipher.thy ===== *)
theory Client_Cipher
  imports Client_Error Url_Base64
begin

text \<open>
  The client's content cipher: \<^verbatim>\<open>cipher.rs\<close> with its two implementations,
  \<^verbatim>\<open>cipher/native.rs\<close> over the \<open>aes_gcm\<close> crate and \<^verbatim>\<open>cipher/web.rs\<close> over the browser's
  SubtleCrypto. A buffer is the nonce, the payload and the tag in one vector. The AEAD
  (\<open>seal\<close>, \<open>unseal\<close>), HKDF (\<open>hkdf\<close>) and the random nonces are parameters; so is the
  length-delimited protobuf codec.
\<close>

subsection \<open>Keys\<close>

definition KEY_SIZE :: nat where "KEY_SIZE = 32"
definition NONCE_SIZE :: nat where "NONCE_SIZE = 12"
definition TAG_SIZE :: nat where "TAG_SIZE = 16"

lemmas sizes = KEY_SIZE_def NONCE_SIZE_def TAG_SIZE_def

type_synonym cipher_key = bytes

definition cipher_key_from_string :: "(string \<Rightarrow> bytes option) \<Rightarrow> string \<Rightarrow> error + cipher_key" where
  "cipher_key_from_string dec s =
     (case url_decode dec s of
        None \<Rightarrow> Inl InvalidCipherKey
      | Some bs \<Rightarrow> if length bs = KEY_SIZE then Inr bs else Inl InvalidCipherKey)"

definition cipher_key_serialized :: "(bytes \<Rightarrow> string) \<Rightarrow> cipher_key \<Rightarrow> string" where
  "cipher_key_serialized enc key = url_encode enc key"

text \<open>A key survives the trip through the download link: its serialised form parses to the
  key, contains no character that a URL fragment would have to escape for base64, and
  parsing accepts only the spellings of 32 bytes.\<close>

theorem cipher_key_roundtrip:
  assumes "base64_law enc dec"
  shows "cipher_key_from_string dec (cipher_key_serialized enc key) =
      (if length key = 32 then Inr key else Inl InvalidCipherKey) \<and>
    (cipher_key_from_string dec s = Inr key \<longleftrightarrow>
      length key = 32 \<and> map to_url_char s = cipher_key_serialized enc key) \<and>
    set (cipher_key_serialized enc key) \<inter> {CHR ''+'', CHR ''/'', CHR ''=''} = {}"
proof (intro conjI)
  show "cipher_key_from_string dec (cipher_key_serialized enc key) =
      (if length key = 32 then Inr key else Inl InvalidCipherKey)"
    using url_decode_encode [OF assms]
    by (simp add: cipher_key_from_string_def cipher_key_serialized_def sizes)
  show "cipher_key_from_string dec s = Inr key \<longleftrightarrow>
      length key = 32 \<and> map to_url_char s = cipher_key_serialized enc key"
    using url_decode_iff [OF assms, of s key]
    by (auto simp: cipher_key_from_string_def cipher_key_serialized_def sizes
        split: option.splits if_splits)
  show "set (cipher_key_serialized enc key) \<inter> {CHR ''+'', CHR ''/'', CHR ''=''} = {}"
    using url_encode_safe [of enc key] by (auto simp: cipher_key_serialized_def)
qed

theorem cipher_key_roundtrip_witness:
  "cipher_key_from_string b64_decode (cipher_key_serialized b64_encode (replicate 32 1))
     = Inr (replicate 32 1) \<and>
   cipher_key_from_string b64_decode (cipher_key_serialized b64_encode [1, 2]) = Inl InvalidCipherKey"
  using cipher_key_roundtrip [OF b64_law, of "replicate 32 1"]
    cipher_key_roundtrip [OF b64_law, of "[1, 2]"] by simp

datatype cipher_usage = Content | MetadataUsage | UploaderRtcSignaling | DownloaderRtcSignaling

definition ascii :: "string \<Rightarrow> bytes" where
  "ascii = map (\<lambda>c. of_nat (of_char c))"

definition usage_info :: "cipher_usage \<Rightarrow> bytes" where
  "usage_info u = ascii (case u of
       Content \<Rightarrow> ''content''
     | MetadataUsage \<Rightarrow> ''metadata''
     | UploaderRtcSignaling \<Rightarrow> ''uploader_rtc_signaling''
     | DownloaderRtcSignaling \<Rightarrow> ''downloader_rtc_signaling'')"

lemma usage_info_inj: "usage_info a = usage_info b \<Longrightarrow> a = b"
  by (cases a; cases b) (simp_all add: usage_info_def ascii_def)

subsection \<open>Buffers\<close>

type_synonym buffer = bytes

definition buffer_ok :: "buffer \<Rightarrow> bool" where
  "buffer_ok b = (NONCE_SIZE + TAG_SIZE \<le> length b)"

definition extra_ciphertext_len :: u64 where
  "extra_ciphertext_len = of_nat (NONCE_SIZE + TAG_SIZE)"

definition from_plaintext :: "bytes \<Rightarrow> bytes \<Rightarrow> buffer" where
  "from_plaintext rnd plaintext = rnd @ plaintext @ replicate TAG_SIZE 0"

text \<open>
  \<open>read_plaintext_to_end\<close>: the outcomes of the reads, each of at most 16384 bytes, up to the
  first of length zero. The buffer's capacity, for which the caller's length of the file is only
  a hint, is left aside: asking for more than \<open>isize::MAX\<close> bytes would panic, but the hint is
  the length of the file that is then read into memory.
\<close>

fun read_all :: "(string + bytes) list \<Rightarrow> string + bytes" where
  "read_all [] = Inr []"
| "read_all (Inl e # reads) = Inl e"
| "read_all (Inr [] # reads) = Inr []"
| "read_all (Inr (b # bs) # reads) =
     (case read_all reads of Inl e \<Rightarrow> Inl e | Inr r \<Rightarrow> Inr ((b # bs) @ r))"

definition read_plaintext_to_end :: "bytes \<Rightarrow> (string + bytes) list \<Rightarrow> string + buffer" where
  "read_plaintext_to_end rnd reads =
     (case read_all reads of Inl e \<Rightarrow> Inl e | Inr p \<Rightarrow> Inr (from_plaintext rnd p))"

definition padded_len :: "nat \<Rightarrow> nat \<Rightarrow> nat" where
  "padded_len block_len unpadded_len =
     (let r = unpadded_len mod block_len
      in if r = 0 then unpadded_len else unpadded_len + (block_len - r))"

definition from_message_padded :: "('m \<Rightarrow> bytes) \<Rightarrow> bytes \<Rightarrow> nat \<Rightarrow> 'm \<Rightarrow> buffer" where
  "from_message_padded encode rnd block_len message =
     (let e = encode message
      in rnd @ e @ replicate (padded_len block_len (length e) - length e) 0
         @ replicate TAG_SIZE 0)"

definition from_nonce_and_ciphertext :: "bytes \<Rightarrow> error + buffer" where
  "from_nonce_and_ciphertext data =
     (if length data < NONCE_SIZE + TAG_SIZE then Inl Decrypt else Inr data)"

definition into_plaintext :: "buffer \<Rightarrow> bytes" where
  "into_plaintext b =
     (let plaintext_and_tag = drop NONCE_SIZE b
      in take (length plaintext_and_tag - TAG_SIZE) plaintext_and_tag)"

text \<open>\<open>parts_mut\<close>: reading and writing the parts of a buffer in place.\<close>

definition buf_nonce :: "buffer \<Rightarrow> bytes" where
  "buf_nonce b = take NONCE_SIZE b"

definition buf_ciphertext :: "buffer \<Rightarrow> bytes" where
  "buf_ciphertext b = drop NONCE_SIZE b"

definition buf_payload :: "buffer \<Rightarrow> bytes" where
  "buf_payload b = take (length (buf_ciphertext b) - TAG_SIZE) (buf_ciphertext b)"

definition buf_tag :: "buffer \<Rightarrow> bytes" where
  "buf_tag b = drop (length (buf_ciphertext b) - TAG_SIZE) (buf_ciphertext b)"

definition write_nonce :: "bytes \<Rightarrow> buffer \<Rightarrow> buffer" where
  "write_nonce n b = n @ buf_ciphertext b"

definition write_payload :: "bytes \<Rightarrow> buffer \<Rightarrow> buffer" where
  "write_payload p b = buf_nonce b @ p @ buf_tag b"

definition write_tag :: "bytes \<Rightarrow> buffer \<Rightarrow> buffer" where
  "write_tag t b = buf_nonce b @ buf_payload b @ t"

definition write_ciphertext :: "bytes \<Rightarrow> buffer \<Rightarrow> buffer" where
  "write_ciphertext c b = buf_nonce b @ c"

lemma buffer_cases:
  assumes "buffer_ok b"
  obtains n p t where "b = n @ p @ t" "length n = NONCE_SIZE" "length t = TAG_SIZE"
proof
  show "b = buf_nonce b @ buf_payload b @ buf_tag b"
    by (simp only: buf_nonce_def buf_payload_def buf_tag_def buf_ciphertext_def
        append_take_drop_id)
  show "length (buf_nonce b) = NONCE_SIZE" "length (buf_tag b) = TAG_SIZE"
    using assms by (simp_all add: buffer_ok_def buf_nonce_def buf_tag_def buf_ciphertext_def)
qed

lemma buffer_parts [simp]:
  assumes "length n = NONCE_SIZE" and "length t = TAG_SIZE"
  shows "buf_nonce (n @ p @ t) = n" "buf_ciphertext (n @ p @ t) = p @ t"
    "buf_payload (n @ p @ t) = p" "buf_tag (n @ p @ t) = t" "into_plaintext (n @ p @ t) = p"
    "buffer_ok (n @ p @ t)" "from_nonce_and_ciphertext (n @ p @ t) = Inr (n @ p @ t)"
  using assms
  by (simp_all add: buf_nonce_def buf_ciphertext_def buf_payload_def buf_tag_def
      into_plaintext_def buffer_ok_def from_nonce_and_ciphertext_def)

lemma buffer_writes [simp]:
  assumes "length n = NONCE_SIZE" and "length t = TAG_SIZE"
  shows "write_nonce n' (n @ p @ t) = n' @ p @ t" "write_payload p' (n @ p @ t) = n @ p' @ t"
    "write_tag t' (n @ p @ t) = n @ p @ t'" "write_ciphertext c (n @ p @ t) = n @ c"
  using assms
  by (simp_all add: write_nonce_def write_payload_def write_tag_def write_ciphertext_def)

subsection \<open>The two implementations\<close>

type_synonym sealer = "bytes \<Rightarrow> bytes \<Rightarrow> bytes \<Rightarrow> bytes \<Rightarrow> bytes \<times> bytes"
type_synonym opener = "bytes \<Rightarrow> bytes \<Rightarrow> bytes \<Rightarrow> bytes \<Rightarrow> bytes \<Rightarrow> bytes option"

text \<open>
  AES-256-GCM, as \<open>seal key nonce aad plaintext\<close> and \<open>unseal key nonce aad ciphertext tag\<close>:
  the ciphertext is as long as the plaintext, the tag has 16 bytes, and what was sealed
  opens again under the same key, nonce and associated data. The algorithm's own bound on the
  plaintext, \<open>2 ^ 36 - 32\<close> bytes, is left out, so that what rests on the law is about files below it.
\<close>

definition aead_law :: "sealer \<Rightarrow> opener \<Rightarrow> bool" where
  "aead_law seal unseal =
     (\<forall>k n a p. case seal k n a p of (c, t) \<Rightarrow>
        length c = length p \<and> length t = TAG_SIZE \<and> unseal k n a c t = Some p)"

lemma aead_lawD:
  assumes "aead_law seal unseal" and "seal k n a p = (c, t)"
  shows "length c = length p \<and> length t = TAG_SIZE \<and> unseal k n a c t = Some p"
proof -
  have "case seal k n a p of (c, t) \<Rightarrow>
      length c = length p \<and> length t = TAG_SIZE \<and> unseal k n a c t = Some p"
    using assms(1) unfolding aead_law_def by simp
  then show ?thesis by (simp add: assms(2))
qed

definition native_encrypt :: "sealer \<Rightarrow> bytes \<Rightarrow> buffer \<Rightarrow> bytes \<Rightarrow> bytes" where
  "native_encrypt seal key b aad =
     (case seal key (buf_nonce b) aad (buf_payload b) of
        (payload, new_tag) \<Rightarrow> write_tag new_tag (write_payload payload b))"

definition native_decrypt :: "opener \<Rightarrow> bytes \<Rightarrow> buffer \<Rightarrow> bytes \<Rightarrow> error + bytes" where
  "native_decrypt unseal key b aad =
     (case unseal key (buf_nonce b) aad (buf_payload b) (buf_tag b) of
        None \<Rightarrow> Inl Decrypt
      | Some payload \<Rightarrow> Inr (into_plaintext (write_payload payload b)))"

text \<open>
  SubtleCrypto has one output and one input for ciphertext and tag together. The copy of
  the output into the buffer needs a slice of the same length.
\<close>

definition web_encrypt ::
  "(bytes \<Rightarrow> bytes \<Rightarrow> bytes \<Rightarrow> bytes \<Rightarrow> bytes) \<Rightarrow> bytes \<Rightarrow> buffer \<Rightarrow> bytes \<Rightarrow> bytes" where
  "web_encrypt subtle_encrypt key b aad =
     write_ciphertext (subtle_encrypt key (buf_nonce b) aad (buf_payload b)) b"

definition web_decrypt ::
  "(bytes \<Rightarrow> bytes \<Rightarrow> bytes \<Rightarrow> bytes \<Rightarrow> bytes option) \<Rightarrow> bytes \<Rightarrow> buffer \<Rightarrow> bytes \<Rightarrow> error + bytes" where
  "web_decrypt subtle_decrypt key b aad =
     (case subtle_decrypt key (buf_nonce b) aad (buf_ciphertext b) of
        None \<Rightarrow> Inl Decrypt
      | Some output \<Rightarrow> Inr (into_plaintext (write_payload output b)))"

text \<open>SubtleCrypto's AES-GCM appends the tag to the ciphertext (Web Cryptography API).\<close>

definition subtle_of :: "sealer \<Rightarrow> bytes \<Rightarrow> bytes \<Rightarrow> bytes \<Rightarrow> bytes \<Rightarrow> bytes" where
  "subtle_of seal k n a p = (case seal k n a p of (c, t) \<Rightarrow> c @ t)"

definition subtle_open_of :: "opener \<Rightarrow> bytes \<Rightarrow> bytes \<Rightarrow> bytes \<Rightarrow> bytes \<Rightarrow> bytes option" where
  "subtle_open_of unseal k n a ct =
     (let l = length ct - TAG_SIZE in unseal k n a (take l ct) (drop l ct))"

subsection \<open>The interface \<open>CipherImpl\<close>\<close>

text \<open>
  What the content cipher needs of an implementation, under the law of its AEAD: encrypting
  keeps the nonce and the length, and decrypting the result gives the buffer's plaintext.
\<close>

locale cipher_impl =
  fixes lawful :: bool
    and encrypt :: "bytes \<Rightarrow> buffer \<Rightarrow> bytes \<Rightarrow> bytes"
    and decrypt :: "bytes \<Rightarrow> buffer \<Rightarrow> bytes \<Rightarrow> error + bytes"
  assumes encrypt_length: "lawful \<Longrightarrow> buffer_ok b \<Longrightarrow> length (encrypt k b a) = length b"
    and decrypt_encrypt: "lawful \<Longrightarrow> buffer_ok b \<Longrightarrow> decrypt k (encrypt k b a) a = Inr (into_plaintext b)"

definition content_encrypt ::
  "(bytes \<Rightarrow> buffer \<Rightarrow> bytes \<Rightarrow> bytes) \<Rightarrow> (bytes \<Rightarrow> bytes \<Rightarrow> bytes) \<Rightarrow> cipher_key \<Rightarrow> bytes \<Rightarrow>
   buffer \<Rightarrow> cipher_usage \<Rightarrow> bytes" where
  "content_encrypt encrypt hkdf key nonce plaintext usage =
     (let cipher = hkdf key (usage_info usage) in encrypt cipher (write_nonce nonce plaintext) [])"

definition content_decrypt ::
  "(bytes \<Rightarrow> buffer \<Rightarrow> bytes \<Rightarrow> error + bytes) \<Rightarrow> (bytes \<Rightarrow> bytes \<Rightarrow> bytes) \<Rightarrow> cipher_key \<Rightarrow>
   bytes \<Rightarrow> cipher_usage \<Rightarrow> error + bytes" where
  "content_decrypt decrypt hkdf key nonce_and_ciphertext usage =
     (case from_nonce_and_ciphertext nonce_and_ciphertext of
        Inl e \<Rightarrow> Inl e
      | Inr b \<Rightarrow> decrypt (hkdf key (usage_info usage)) b [])"

definition decrypt_message ::
  "(bytes \<Rightarrow> 'm option) \<Rightarrow> (bytes \<Rightarrow> buffer \<Rightarrow> bytes \<Rightarrow> error + bytes) \<Rightarrow>
   (bytes \<Rightarrow> bytes \<Rightarrow> bytes) \<Rightarrow> cipher_key \<Rightarrow> bytes \<Rightarrow> cipher_usage \<Rightarrow> error + 'm" where
  "decrypt_message decode decrypt hkdf key data usage =
     (case content_decrypt decrypt hkdf key data usage of
        Inl e \<Rightarrow> Inl e
      | Inr message_data \<Rightarrow>
          (case decode message_data of
             None \<Rightarrow> Inl (InvalidPeerMessage ''decode error'')
           | Some m \<Rightarrow> Inr m))"

text \<open>
  prost's length-delimited codec: a message decodes from its encoding, whatever follows.
\<close>

definition delimited_law :: "('m \<Rightarrow> bytes) \<Rightarrow> (bytes \<Rightarrow> 'm option) \<Rightarrow> bool" where
  "delimited_law encode decode = (\<forall>m rest. decode (encode m @ rest) = Some m)"

context cipher_impl
begin

lemma content_roundtrip:
  assumes "lawful" and "length nonce = NONCE_SIZE" and "length rnd = NONCE_SIZE"
  shows "content_decrypt decrypt hkdf key
      (content_encrypt encrypt hkdf key nonce (rnd @ p @ replicate TAG_SIZE 0) usage) usage = Inr p"
    and "length (content_encrypt encrypt hkdf key nonce (rnd @ p @ replicate TAG_SIZE 0) usage)
      = length p + NONCE_SIZE + TAG_SIZE"
proof -
  let ?b = "nonce @ p @ replicate TAG_SIZE (0 :: u8)"
  have ok: "buffer_ok ?b" using assms by (intro buffer_parts) simp_all
  have e: "content_encrypt encrypt hkdf key nonce (rnd @ p @ replicate TAG_SIZE 0) usage
      = encrypt (hkdf key (usage_info usage)) ?b []"
    using assms by (simp add: content_encrypt_def)
  show l: "length (content_encrypt encrypt hkdf key nonce (rnd @ p @ replicate TAG_SIZE 0) usage)
      = length p + NONCE_SIZE + TAG_SIZE"
    using encrypt_length [OF assms(1) ok] assms(2) by (simp add: e)
  have "into_plaintext ?b = p" using assms by (intro buffer_parts) simp_all
  then show "content_decrypt decrypt hkdf key
      (content_encrypt encrypt hkdf key nonce (rnd @ p @ replicate TAG_SIZE 0) usage) usage = Inr p"
    using decrypt_encrypt [OF assms(1) ok] l
    by (simp add: content_decrypt_def from_nonce_and_ciphertext_def e)
qed

lemma message_roundtrip:
  assumes "lawful" and "delimited_law encode decode"
    and "length nonce = NONCE_SIZE" and "length rnd = NONCE_SIZE"
  shows "decrypt_message decode decrypt hkdf key
      (content_encrypt encrypt hkdf key nonce (from_message_padded encode rnd bl m) usage) usage
      = Inr m"
  using content_roundtrip(1) [OF assms(1,3,4),
      of hkdf key "encode m @ replicate (padded_len bl (length (encode m)) - length (encode m)) 0"]
    assms(2)
  by (simp add: decrypt_message_def from_message_padded_def delimited_law_def Let_def)

end

interpretation native: cipher_impl "aead_law seal unseal" "native_encrypt seal" "native_decrypt unseal"
proof
  fix b k a assume law: "aead_law seal unseal" and ok: "buffer_ok b"
  from ok obtain n p t where b: "b = n @ p @ t" "length n = NONCE_SIZE" "length t = TAG_SIZE"
    by (rule buffer_cases)
  obtain c t' where s: "seal k n a p = (c, t')" by (cases "seal k n a p")
  note l = aead_lawD [OF law s]
  show "length (native_encrypt seal k b a) = length b"
    using b s l by (simp add: native_encrypt_def)
  show "native_decrypt unseal k (native_encrypt seal k b a) a = Inr (into_plaintext b)"
    using b s l by (simp add: native_encrypt_def native_decrypt_def)
qed

lemma web_encrypt_native:
  assumes "buffer_ok b" and "aead_law seal unseal"
  shows "web_encrypt (subtle_of seal) k b a = native_encrypt seal k b a"
proof -
  from assms(1) obtain n p t where b: "b = n @ p @ t" "length n = NONCE_SIZE" "length t = TAG_SIZE"
    by (rule buffer_cases)
  then show ?thesis
    using aead_lawD [OF assms(2)]
    by (auto simp: web_encrypt_def native_encrypt_def subtle_of_def split: prod.splits)
qed

lemma web_decrypt_native:
  assumes "buffer_ok b"
  shows "web_decrypt (subtle_open_of unseal) k b a = native_decrypt unseal k b a"
proof -
  from assms obtain n p t where b: "b = n @ p @ t" "length n = NONCE_SIZE" "length t = TAG_SIZE"
    by (rule buffer_cases)
  then show ?thesis
    by (simp add: web_decrypt_def native_decrypt_def subtle_open_of_def Let_def)
qed

interpretation web: cipher_impl "aead_law seal unseal" "web_encrypt (subtle_of seal)"
    "web_decrypt (subtle_open_of unseal)"
proof
  fix b k a assume law: "aead_law seal unseal" and ok: "buffer_ok b"
  note e = web_encrypt_native [OF ok law]
  show l: "length (web_encrypt (subtle_of seal) k b a) = length b"
    using native.encrypt_length [OF law ok] by (simp add: e)
  then have "buffer_ok (native_encrypt seal k b a)" using ok by (simp add: buffer_ok_def e)
  then show "web_decrypt (subtle_open_of unseal) k (web_encrypt (subtle_of seal) k b a) a
      = Inr (into_plaintext b)"
    using native.decrypt_encrypt [OF law ok] by (simp add: e web_decrypt_native)
qed

subsection \<open>Properties\<close>

text \<open>An AEAD for examples: the tag is a checksum over everything.\<close>

definition example_seal :: sealer where
  "example_seal k n a p = (p, replicate TAG_SIZE (sum_list (k @ n @ a @ p)))"

definition example_open :: opener where
  "example_open k n a c t =
     (if t = replicate TAG_SIZE (sum_list (k @ n @ a @ c)) then Some c else None)"

lemma example_aead: "aead_law example_seal example_open"
  by (simp add: aead_law_def example_seal_def example_open_def)

text \<open>Both implementations of the cipher are inverse pairs on the client's buffers and agree
  with each other: what either encrypts, either decrypts, for every key, usage and fresh
  nonce; and a ciphertext is exactly \<open>extra_ciphertext_len\<close> bytes longer than its
  plaintext, which is what the sizes of the transfer rely on.\<close>

theorem content_cipher_roundtrip:
  assumes law: "aead_law seal unseal"
    and nonces: "length nonce = NONCE_SIZE" "length rnd = NONCE_SIZE"
    and ct: "ct = content_encrypt (native_encrypt seal) hkdf key nonce (from_plaintext rnd p) usage"
  shows "content_decrypt (native_decrypt unseal) hkdf key ct usage = Inr p \<and>
    content_encrypt (web_encrypt (subtle_of seal)) hkdf key nonce (from_plaintext rnd p) usage = ct \<and>
    content_decrypt (web_decrypt (subtle_open_of unseal)) hkdf key ct usage = Inr p \<and>
    length ct = length p + unat extra_ciphertext_len"
proof -
  have len: "length ct = length p + NONCE_SIZE + TAG_SIZE"
    unfolding ct from_plaintext_def by (rule native.content_roundtrip(2) [OF law nonces])
  have ok: "buffer_ok (write_nonce nonce (from_plaintext rnd p))"
    using nonces by (simp add: from_plaintext_def)
  have web: "content_encrypt (web_encrypt (subtle_of seal)) hkdf key nonce (from_plaintext rnd p)
      usage = ct"
    by (simp add: ct content_encrypt_def web_encrypt_native [OF ok law])
  show ?thesis
  proof (intro conjI)
    show "content_decrypt (native_decrypt unseal) hkdf key ct usage = Inr p"
      unfolding ct from_plaintext_def by (rule native.content_roundtrip(1) [OF law nonces])
    show "content_decrypt (web_decrypt (subtle_open_of unseal)) hkdf key ct usage = Inr p"
      unfolding web [symmetric] from_plaintext_def
      by (rule web.content_roundtrip(1) [OF law nonces])
    show "length ct = length p + unat extra_ciphertext_len"
      using len by (simp add: extra_ciphertext_len_def sizes)
  qed (rule web)
qed

theorem content_cipher_roundtrip_witness:
  "content_decrypt (native_decrypt example_open) (@) [1, 2]
     (content_encrypt (native_encrypt example_seal) (@) [1, 2] (replicate 12 5)
        (from_plaintext (replicate 12 6) [10, 11]) Content) Content = Inr [10, 11]"
  using content_cipher_roundtrip [OF example_aead, of "replicate 12 5" "replicate 12 6", OF _ _ refl]
  by (simp add: sizes)

text \<open>A ciphertext too short to hold a nonce and a tag is a decryption error, for content
  and for messages and with either implementation: no buffer is ever cut outside its
  bounds.\<close>

theorem short_ciphertext_refused:
  assumes "length data < 28"
  shows "content_decrypt decrypt hkdf key data usage = Inl Decrypt \<and>
    decrypt_message decode decrypt hkdf key data usage = Inl Decrypt"
  using assms
  by (simp add: content_decrypt_def from_nonce_and_ciphertext_def decrypt_message_def sizes)

theorem short_ciphertext_refused_witness:
  "content_decrypt (native_decrypt example_open) (@) [1] (replicate 27 0) Content = Inl Decrypt"
  by (rule short_ciphertext_refused [THEN conjunct1]) simp

lemma padded_len_bounds:
  assumes "0 < bl"
  shows "n \<le> padded_len bl n" "padded_len bl n < n + bl" "bl dvd padded_len bl n"
proof -
  have r: "n mod bl < bl" using assms by simp
  have "n \<le> n + (bl - n mod bl)" by (rule le_add1)
  then show "n \<le> padded_len bl n" by (simp only: padded_len_def Let_def split: if_split) simp
  show "padded_len bl n < n + bl" using r assms by (simp add: padded_len_def Let_def)
  show "bl dvd padded_len bl n"
  proof (cases "n mod bl = 0")
    case True
    then show ?thesis by (auto simp: padded_len_def)
  next
    case False
    have "n + (bl - n mod bl) = n div bl * bl + bl"
      using r div_mult_mod_eq [of n bl] by linarith
    then show ?thesis using False by (simp add: padded_len_def Let_def)
  qed
qed

text \<open>A signaling message survives encryption with padding, and its ciphertext betrays no
  more of its length than the number of blocks: it is the nonce, the least multiple of the
  block length that holds the delimited message, and the tag.\<close>

theorem padded_message_roundtrip:
  assumes law: "aead_law seal unseal" and codec: "delimited_law encode decode"
    and nonces: "length nonce = NONCE_SIZE" "length rnd = NONCE_SIZE" and block: "0 < bl"
    and ct: "ct = content_encrypt (native_encrypt seal) hkdf key nonce
      (from_message_padded encode rnd bl m) usage"
  shows "decrypt_message decode (native_decrypt unseal) hkdf key ct usage = Inr m \<and>
    (\<exists>blocks. length ct = 28 + blocks * bl \<and> length (encode m) \<le> blocks * bl \<and>
       blocks * bl < length (encode m) + bl)"
proof
  show "decrypt_message decode (native_decrypt unseal) hkdf key ct usage = Inr m"
    unfolding ct by (rule native.message_roundtrip [OF law codec nonces])
  have "length ct = padded_len bl (length (encode m)) + NONCE_SIZE + TAG_SIZE"
    using native.content_roundtrip(2) [OF law nonces, of hkdf key
        "encode m @ replicate (padded_len bl (length (encode m)) - length (encode m)) 0" usage]
      padded_len_bounds(1) [OF block, of "length (encode m)"]
    by (simp add: ct from_message_padded_def Let_def)
  then show "\<exists>blocks. length ct = 28 + blocks * bl \<and> length (encode m) \<le> blocks * bl \<and>
      blocks * bl < length (encode m) + bl"
    using padded_len_bounds [OF block, of "length (encode m)"]
    by (auto simp: sizes dvd_def mult.commute)
qed

definition example_encode :: "u8 \<Rightarrow> bytes" where
  "example_encode m = [1, m]"

definition example_decode :: "bytes \<Rightarrow> u8 option" where
  "example_decode bs = (case bs of [] \<Rightarrow> None | [a] \<Rightarrow> None | a # m # rest \<Rightarrow> Some m)"

theorem padded_message_roundtrip_witness:
  "decrypt_message example_decode (native_decrypt example_open) (@) [1]
     (content_encrypt (native_encrypt example_seal) (@) [1] (replicate 12 5)
        (from_message_padded example_encode (replicate 12 6) 64 9) UploaderRtcSignaling)
     UploaderRtcSignaling = Inr 9"
proof -
  have "delimited_law example_encode example_decode"
    by (simp add: delimited_law_def example_encode_def example_decode_def)
  from padded_message_roundtrip [OF example_aead this, of "replicate 12 5" "replicate 12 6" 64, OF _ _ _ refl]
  show ?thesis by (simp add: sizes)
qed

end
