(* ===== verification/Client_File.thy ===== *)
theory Client_File
  imports Client_Cipher
begin

text \<open>
  The two files of \<^verbatim>\<open>api_client.rs\<close>: the encrypted file that an uploader serves and the file
  a downloader fills, \<open>DecryptedFile\<close>, as the state machine behind its \<open>AsyncWrite\<close>. A
  panic is \<open>None\<close>. \<open>decrypt\<close> is the content cipher under the file's key; how the write to
  the target file goes is an input (\<open>io\<close>) of the polls that drive it.
\<close>

subsection \<open>The encrypted file\<close>

type_synonym encrypted_file = bytes

definition encrypted_len :: "encrypted_file \<Rightarrow> u64" where
  "encrypted_len f = len64 f"

text \<open>\<open>Bytes::slice\<close> panics when the range does not lie in the buffer; the end saturates.\<close>

definition slice :: "bytes \<Rightarrow> nat \<Rightarrow> nat \<Rightarrow> bytes option" where
  "slice bs a b = (if a \<le> b \<and> b \<le> length bs then Some (take (b - a) (drop a bs)) else None)"

definition saturating_add :: "nat \<Rightarrow> nat \<Rightarrow> nat" where
  "saturating_add a b = min (a + b) (2 ^ 64 - 1)"

definition read_at_exact :: "encrypted_file \<Rightarrow> u64 \<Rightarrow> u64 \<Rightarrow> bytes option" where
  "read_at_exact f offset len = slice f (unat offset) (saturating_add (unat offset) (unat len))"

lemma read_at_exact_Some:
  "length f < 2 ^ 64 \<Longrightarrow> unat offset + unat len \<le> length f \<Longrightarrow>
   read_at_exact f offset len = Some (take (unat len) (drop (unat offset) f))"
  by (simp add: read_at_exact_def slice_def saturating_add_def)

subsection \<open>The file a downloader fills\<close>

datatype write_state = Unwritten bytes | PendingWrite bytes | Complete | Poisoned

text \<open>
  \<open>df_taken\<close> is what the target, the writer given to \<open>decrypt_file\<close>, has taken of the plaintext.
\<close>

record decrypted_file =
  df_size :: u64
  df_state :: write_state
  df_taken :: bytes

text \<open>The target once it is written and closed.\<close>

definition df_target :: "decrypted_file \<Rightarrow> bytes option" where
  "df_target f = (if df_state f = Complete then Some (df_taken f) else None)"

lemma df_target_simps [simp]:
  "df_target f = Some p \<longleftrightarrow> df_state f = Complete \<and> df_taken f = p"
  "Some p = df_target f \<longleftrightarrow> df_state f = Complete \<and> df_taken f = p"
  "df_target f = None \<longleftrightarrow> df_state f \<noteq> Complete"
  "None = df_target f \<longleftrightarrow> df_state f \<noteq> Complete"
  by (auto simp: df_target_def)

definition decrypt_file :: "u64 \<Rightarrow> decrypted_file" where
  "decrypt_file plaintext_size =
     \<lparr>df_size = plaintext_size + extra_ciphertext_len, df_state = Unwritten [], df_taken = []\<rparr>"

text \<open>
  \<open>decrypt_file\<close> also reserves memory for the announced size, and \<open>Vec::with_capacity\<close> panics above
  \<open>isize::MAX\<close> bytes.
\<close>

definition opened_file :: "u64 \<Rightarrow> decrypted_file option" where
  "opened_file plaintext_size = (if unat plaintext_size < 2 ^ 63 then Some (decrypt_file plaintext_size) else None)"

definition file_offset :: "decrypted_file \<Rightarrow> u64 option" where
  "file_offset f =
     (case df_state f of
        Unwritten data \<Rightarrow> Some (len64 data)
      | PendingWrite data \<Rightarrow> Some (df_size f)
      | Complete \<Rightarrow> Some (df_size f)
      | Poisoned \<Rightarrow> None)"

definition poll_write :: "decrypted_file \<Rightarrow> bytes \<Rightarrow> ((string + nat) \<times> decrypted_file) option" where
  "poll_write f buf =
     (case df_state f of
        Unwritten data \<Rightarrow> Some (Inr (length buf), f\<lparr>df_state := Unwritten (data @ buf)\<rparr>)
      | PendingWrite data \<Rightarrow> Some (Inl ''received more bytes than expected'', f)
      | Complete \<Rightarrow> Some (Inl ''received more bytes than expected'', f)
      | Poisoned \<Rightarrow> None)"

text \<open>\<open>AsyncWriteExt::write_all\<close>, which does not call an empty write.\<close>

definition write_all :: "decrypted_file \<Rightarrow> bytes \<Rightarrow> ((string + unit) \<times> decrypted_file) option" where
  "write_all f buf =
     (if buf = [] then Some (Inr (), f)
      else map_option (apfst (map_sum id (\<lambda>_. ()))) (poll_write f buf))"

text \<open>
  How a poll of the pending write goes at the target: it takes some more bytes and waits, takes
  the rest and has flushed and closed, or takes some more bytes and fails. At the end of this
  theory the write is polled on an actual target, which answers nothing else.
\<close>

datatype io = IoPending nat | IoDone | IoFailed nat string

datatype 'a poll = Waiting | Ready 'a

definition take_more :: "nat \<Rightarrow> bytes \<Rightarrow> bytes \<Rightarrow> bytes" where
  "take_more n taken plaintext = take (length taken + n) plaintext"

text \<open>
  The pending write: decrypt the data, write the plaintext to the target, flush and close. A
  decryption that fails is reported before the target is written; a target that fails keeps
  what it has taken.
\<close>

definition poll_pending ::
  "(bytes \<Rightarrow> error + bytes) \<Rightarrow> bytes \<Rightarrow> bytes \<Rightarrow> io \<Rightarrow> (string + unit) poll \<times> bytes" where
  "poll_pending decrypt data taken io =
     (case decrypt data of
        Inl e \<Rightarrow>
          (case io of IoPending n \<Rightarrow> (Waiting, taken) | _ \<Rightarrow> (Ready (Inl ''decryption error''), taken))
      | Inr plaintext \<Rightarrow>
          (case io of
             IoPending n \<Rightarrow> (Waiting, take_more n taken plaintext)
           | IoDone \<Rightarrow> (Ready (Inr ()), plaintext)
           | IoFailed n e \<Rightarrow> (Ready (Inl e), take_more n taken plaintext)))"

text \<open>
  \<open>poll_flush\<close>: the state is replaced by \<open>Poisoned\<close> while the write is taken out of it, and
  put back on every path except the one on which the write fails.
\<close>

definition drive_write ::
  "(bytes \<Rightarrow> error + bytes) \<Rightarrow> decrypted_file \<Rightarrow> bytes \<Rightarrow> io \<Rightarrow>
   (string + unit) poll \<times> decrypted_file" where
  "drive_write decrypt f data io =
     (case poll_pending decrypt data (df_taken f) io of
        (Waiting, taken) \<Rightarrow> (Waiting, f\<lparr>df_state := PendingWrite data, df_taken := taken\<rparr>)
      | (Ready (Inr _), taken) \<Rightarrow> (Ready (Inr ()), f\<lparr>df_state := Complete, df_taken := taken\<rparr>)
      | (Ready (Inl e), taken) \<Rightarrow> (Ready (Inl e), f\<lparr>df_state := Poisoned, df_taken := taken\<rparr>))"

definition poll_flush ::
  "(bytes \<Rightarrow> error + bytes) \<Rightarrow> decrypted_file \<Rightarrow> io \<Rightarrow>
   ((string + unit) poll \<times> decrypted_file) option" where
  "poll_flush decrypt f io =
     (case df_state f of
        Unwritten data \<Rightarrow>
          if length data \<noteq> unat (df_size f) then Some (Ready (Inr ()), f)
          else Some (drive_write decrypt f data io)
      | PendingWrite data \<Rightarrow> Some (drive_write decrypt f data io)
      | Complete \<Rightarrow> Some (Ready (Inr ()), f)
      | Poisoned \<Rightarrow> None)"

definition poll_close ::
  "(bytes \<Rightarrow> error + bytes) \<Rightarrow> decrypted_file \<Rightarrow> io \<Rightarrow>
   ((string + unit) poll \<times> decrypted_file) option" where
  "poll_close decrypt f io =
     (case poll_flush decrypt f io of
        None \<Rightarrow> None
      | Some (Waiting, f') \<Rightarrow> Some (Waiting, f')
      | Some (Ready (Inl e), f') \<Rightarrow> Some (Ready (Inl e), f')
      | Some (Ready (Inr _), f') \<Rightarrow>
          (case df_state f' of
             Complete \<Rightarrow> Some (Ready (Inr ()), f')
           | PendingWrite data \<Rightarrow> Some (Ready (Inl ''received less bytes than expected''), f')
           | Unwritten data \<Rightarrow> Some (Ready (Inl ''received less bytes than expected''), f')
           | Poisoned \<Rightarrow> None))"

subsection \<open>Any sequence of operations\<close>

datatype file_op = WriteOp bytes | FlushOp io | CloseOp io

definition file_step ::
  "(bytes \<Rightarrow> error + bytes) \<Rightarrow> decrypted_file \<Rightarrow> file_op \<Rightarrow> decrypted_file option" where
  "file_step decrypt f op =
     (case op of
        WriteOp buf \<Rightarrow> map_option snd (write_all f buf)
      | FlushOp io \<Rightarrow> map_option snd (poll_flush decrypt f io)
      | CloseOp io \<Rightarrow> map_option snd (poll_close decrypt f io))"

text \<open>The bytes written, up to the point where the file has taken all it was to take.\<close>

definition written :: "file_op list \<Rightarrow> bytes" where
  "written ops = concat (map (\<lambda>op. case op of WriteOp buf \<Rightarrow> buf | _ \<Rightarrow> []) ops)"

text \<open>What the target has taken is a beginning of the decryption.\<close>

definition target_begins :: "(bytes \<Rightarrow> error + bytes) \<Rightarrow> bytes \<Rightarrow> decrypted_file \<Rightarrow> bool" where
  "target_begins decrypt data f =
     (df_taken f = [] \<or> (\<exists>p. decrypt data = Inr p \<and> prefix (df_taken f) p))"

text \<open>
  The invariant: what the file holds are the first bytes written; only when exactly the
  expected number of bytes has arrived does the write start; the target takes the decryption
  of just those bytes from its beginning; and in the end it has all of it.
\<close>

definition file_inv :: "(bytes \<Rightarrow> error + bytes) \<Rightarrow> u64 \<Rightarrow> bytes \<Rightarrow> decrypted_file \<Rightarrow> bool" where
  "file_inv decrypt n w f =
     (df_size f = n \<and>
      (case df_state f of
         Unwritten data \<Rightarrow> data = w \<and> df_taken f = []
       | PendingWrite data \<Rightarrow> length data = unat n \<and> prefix data w \<and> target_begins decrypt data f
       | Complete \<Rightarrow> unat n \<le> length w \<and> decrypt (take (unat n) w) = Inr (df_taken f)
       | Poisoned \<Rightarrow> unat n \<le> length w \<and> target_begins decrypt (take (unat n) w) f))"

lemma prefix_take: "prefix data w \<Longrightarrow> length data = n \<Longrightarrow> take n w = data \<and> n \<le> length w"
  by (auto simp: prefix_def)

lemma drive_write_begins:
  assumes "drive_write decrypt f data io = (r, f')" and "target_begins decrypt data f"
  shows "target_begins decrypt data f' \<and> df_size f' = df_size f \<and>
    (case r of
       Waiting \<Rightarrow> df_state f' = PendingWrite data
     | Ready (Inr _) \<Rightarrow> df_state f' = Complete \<and> decrypt data = Inr (df_taken f')
     | Ready (Inl e) \<Rightarrow> df_state f' = Poisoned)"
  using assms
  by (cases io; cases "decrypt data")
    (auto simp: drive_write_def poll_pending_def target_begins_def take_more_def take_is_prefix)

lemma drive_write_inv:
  assumes "drive_write decrypt f data io = (r, f')" and "df_size f = n"
    and "length data = unat n" and "prefix data w" and "target_begins decrypt data f"
  shows "file_inv decrypt n w f'"
  using drive_write_begins [OF assms(1,5)] prefix_take [OF assms(4,3)] assms(2-4)
  by (cases r rule: poll.exhaust) (auto simp: file_inv_def split: sum.splits)

lemma target_begins_empty [simp]: "df_taken f = [] \<Longrightarrow> target_begins decrypt data f"
  by (simp add: target_begins_def)

lemma flush_inv:
  assumes "poll_flush decrypt f io = Some (r, f')" and "file_inv decrypt n w f"
  shows "file_inv decrypt n w f'"
proof (cases "df_state f")
  case (Unwritten data)
  then show ?thesis
    using assms drive_write_inv [of decrypt f data io r f' n w]
    by (auto simp: poll_flush_def file_inv_def split: if_splits)
next
  case (PendingWrite data)
  then show ?thesis
    using assms drive_write_inv [of decrypt f data io r f' n w]
    by (auto simp: poll_flush_def file_inv_def)
qed (use assms in \<open>auto simp: poll_flush_def file_inv_def\<close>)

lemma close_flush:
  "poll_close decrypt f io = Some (r, f') \<Longrightarrow> \<exists>r'. poll_flush decrypt f io = Some (r', f')"
  by (auto simp: poll_close_def split: option.splits poll.splits sum.splits write_state.splits)

lemma write_inv:
  assumes "write_all f buf = Some (r, f')" and "file_inv decrypt n w f"
  shows "file_inv decrypt n (w @ buf) f'"
  using assms
  by (cases "df_state f")
    (auto simp: write_all_def poll_write_def file_inv_def split: if_splits)

lemma file_step_inv:
  assumes "file_step decrypt f op = Some f'" and "file_inv decrypt n w f"
  shows "file_inv decrypt n (w @ written [op]) f'"
  using assms flush_inv write_inv
  by (auto simp: file_step_def written_def split: file_op.splits dest!: close_flush)

fun file_run ::
  "(bytes \<Rightarrow> error + bytes) \<Rightarrow> decrypted_file \<Rightarrow> file_op list \<Rightarrow> decrypted_file option" where
  "file_run decrypt f [] = Some f"
| "file_run decrypt f (op # ops) =
     Option.bind (file_step decrypt f op) (\<lambda>f'. file_run decrypt f' ops)"

lemma file_run_inv:
  "file_run decrypt f ops = Some f' \<Longrightarrow> file_inv decrypt n w f \<Longrightarrow>
   file_inv decrypt n (w @ written ops) f'"
proof (induction ops arbitrary: f w)
  case Nil
  then show ?case by (simp add: written_def)
next
  case (Cons op ops)
  from Cons.prems(1) obtain g where g: "file_step decrypt f op = Some g" "file_run decrypt g ops = Some f'"
    by (auto split: Option.bind_splits)
  have "file_inv decrypt n ((w @ written [op]) @ written ops) f'"
    using Cons.IH [OF g(2) file_step_inv [OF g(1) Cons.prems(2)]] by simp
  then show ?case by (simp add: written_def)
qed

text \<open>C23: The target gets nothing but the decryption: after any sequence of writes, flushes and
  closes, however the write to the target goes, what the target has taken is a beginning of
  the decryption of the first so many bytes that were written as were announced. It has taken
  nothing while fewer have arrived or when they do not decrypt; a write that fails half way
  leaves the beginning there; and a close succeeds only when the target has taken all of it.\<close>

theorem target_takes_decryption:
  assumes "file_run decrypt (decrypt_file sz) ops = Some f"
  shows "df_size f = sz + extra_ciphertext_len \<and>
    (df_taken f \<noteq> [] \<longrightarrow> unat (df_size f) \<le> length (written ops) \<and>
       (\<exists>p. decrypt (take (unat (df_size f)) (written ops)) = Inr p \<and> prefix (df_taken f) p)) \<and>
    (\<forall>p. df_target f = Some p \<longrightarrow> decrypt (take (unat (df_size f)) (written ops)) = Inr p) \<and>
    (\<forall>io f'. poll_close decrypt f io = Some (Ready (Inr ()), f') \<longrightarrow>
       unat (df_size f) \<le> length (written ops) \<and>
       decrypt (take (unat (df_size f)) (written ops)) = Inr (df_taken f'))"
proof -
  have inv: "file_inv decrypt (sz + extra_ciphertext_len) (written ops) f"
    using file_run_inv [OF assms, of "sz + extra_ciphertext_len" "[]"]
    by (simp add: file_inv_def decrypt_file_def)
  have "unat (df_size f) \<le> length (written ops) \<and>
      decrypt (take (unat (df_size f)) (written ops)) = Inr (df_taken f')"
    if c: "poll_close decrypt f io = Some (Ready (Inr ()), f')" for io f'
  proof -
    from close_flush [OF c] have i: "file_inv decrypt (sz + extra_ciphertext_len) (written ops) f'"
      using flush_inv inv by blast
    moreover have "df_state f' = Complete"
      using c by (auto simp: poll_close_def
          split: option.splits poll.splits sum.splits write_state.splits)
    ultimately show ?thesis using inv by (auto simp: file_inv_def)
  qed
  then show ?thesis
    using inv prefix_take [of _ "written ops" "unat (df_size f)"]
    by (auto simp: file_inv_def target_begins_def split: write_state.splits)
qed

lemma example_file_run:
  "file_run Inr (decrypt_file 2)
     [WriteOp (replicate 20 7), FlushOp IoDone, WriteOp (replicate 10 8), FlushOp (IoPending 25),
      CloseOp (IoFailed 2 ''disk full'')]
   = Some \<lparr>df_size = 30, df_state = Poisoned, df_taken = replicate 20 7 @ replicate 7 8\<rparr>"
  by (simp add: decrypt_file_def file_step_def write_all_def poll_write_def poll_flush_def
      poll_close_def drive_write_def poll_pending_def take_more_def extra_ciphertext_len_def sizes)

theorem target_takes_decryption_witness:
  "\<exists>p. (Inr (take 30 (replicate 20 7 @ replicate 10 8)) :: error + bytes) = Inr p \<and>
     prefix (replicate 20 7 @ replicate 7 8) p"
  using target_takes_decryption [OF example_file_run, THEN conjunct2, THEN conjunct1]
  by (simp add: written_def)

text \<open>A failed write poisons the file: when the decryption or the write to the target fails,
  the error is reported once, and from then on asking for the offset, writing, flushing or
  closing panics. Anything that goes on with the file after such an error, as the fallback
  from a peer-to-peer to a relayed download does, takes the client down.\<close>

theorem failed_write_poisons:
  assumes "poll_flush decrypt f io = Some (Ready (Inl e), f')"
  shows "file_offset f' = None \<and> poll_write f' buf = None \<and>
    poll_flush decrypt f' io' = None \<and> poll_close decrypt f' io' = None"
proof -
  have "df_state f' = Poisoned"
    using assms
    by (auto simp: poll_flush_def drive_write_def
        split: write_state.splits if_splits prod.splits poll.splits sum.splits)
  then show ?thesis
    by (simp add: file_offset_def poll_write_def poll_flush_def poll_close_def)
qed

theorem failed_write_poisons_witness:
  "poll_flush (\<lambda>_. Inl Decrypt) ((decrypt_file 0)\<lparr>df_state := Unwritten (replicate 28 0)\<rparr>) IoDone
     = Some (Ready (Inl ''decryption error''), (decrypt_file 0)\<lparr>df_state := Poisoned\<rparr>) \<and>
   file_offset ((decrypt_file 0)\<lparr>df_state := Poisoned\<rparr>) = None"
proof -
  have p: "poll_flush (\<lambda>_. Inl Decrypt) ((decrypt_file 0)\<lparr>df_state := Unwritten (replicate 28 0)\<rparr>)
      IoDone = Some (Ready (Inl ''decryption error''), (decrypt_file 0)\<lparr>df_state := Poisoned\<rparr>)"
    by (simp add: poll_flush_def decrypt_file_def drive_write_def poll_pending_def
        extra_ciphertext_len_def sizes)
  show ?thesis using failed_write_poisons [OF p] p by simp
qed

subsection \<open>The pending write on its target\<close>

text \<open>
  The target is an \<open>AsyncWrite\<close> that the caller supplies (a trait object): its operations are a
  parameter, over whatever state it has. What the pending write relies on is the documented
  behaviour of the trait: a write takes as many of the first bytes of its buffer as it says,
  and none if it waits or fails, and only writes take bytes. \<open>acc\<close> is what it has taken.
\<close>

record 'w target_ops =
  to_write :: "bytes \<Rightarrow> 'w \<Rightarrow> (string + nat) poll \<times> 'w"
  to_flush :: "'w \<Rightarrow> (string + unit) poll \<times> 'w"
  to_close :: "'w \<Rightarrow> (string + unit) poll \<times> 'w"

definition takes_in_order :: "'w target_ops \<Rightarrow> ('w \<Rightarrow> bytes) \<Rightarrow> bool" where
  "takes_in_order t acc =
     ((\<forall>buf s r s'. to_write t buf s = (r, s') \<longrightarrow>
         (case r of
            Ready (Inr n) \<Rightarrow> n \<le> length buf \<and> acc s' = acc s @ take n buf
          | _ \<Rightarrow> acc s' = acc s)) \<and>
      (\<forall>s. acc (snd (to_flush t s)) = acc s) \<and> (\<forall>s. acc (snd (to_close t s)) = acc s))"

text \<open>\<open>AsyncWriteExt::write_all\<close>, polled: it writes while something is left, and a write that takes
  nothing is an error.\<close>

function write_all_poll ::
  "'w target_ops \<Rightarrow> bytes \<Rightarrow> 'w \<Rightarrow> (string + unit) poll \<times> bytes \<times> 'w" where
  "write_all_poll t rest s =
     (if rest = [] then (Ready (Inr ()), [], s)
      else case to_write t rest s of
             (Waiting, s') \<Rightarrow> (Waiting, rest, s')
           | (Ready (Inl e), s') \<Rightarrow> (Ready (Inl e), rest, s')
           | (Ready (Inr n), s') \<Rightarrow>
               if n = 0 then (Ready (Inl ''write zero''), rest, s')
               else write_all_poll t (drop n rest) s')"
  by pat_completeness auto

termination by (relation "measure (\<lambda>(t, rest, s). length rest)") auto

declare write_all_poll.simps [simp del]

text \<open>The future of the pending write once there is plaintext: where it is, and one poll of it.\<close>

datatype write_stage = WritingRest bytes | FlushingTarget | ClosingTarget

definition close_stage :: "'w target_ops \<Rightarrow> 'w \<Rightarrow> (string + unit) poll \<times> write_stage \<times> 'w" where
  "close_stage t s = (case to_close t s of (r, s') \<Rightarrow> (r, ClosingTarget, s'))"

definition flush_stage :: "'w target_ops \<Rightarrow> 'w \<Rightarrow> (string + unit) poll \<times> write_stage \<times> 'w" where
  "flush_stage t s =
     (case to_flush t s of
        (Ready (Inr _), s') \<Rightarrow> close_stage t s'
      | (r, s') \<Rightarrow> (r, FlushingTarget, s'))"

definition poll_stage ::
  "'w target_ops \<Rightarrow> write_stage \<Rightarrow> 'w \<Rightarrow> (string + unit) poll \<times> write_stage \<times> 'w" where
  "poll_stage t stage s =
     (case stage of
        WritingRest rest \<Rightarrow>
          (case write_all_poll t rest s of
             (Ready (Inr _), _, s') \<Rightarrow> flush_stage t s'
           | (r, rest', s') \<Rightarrow> (r, WritingRest rest', s'))
      | FlushingTarget \<Rightarrow> flush_stage t s
      | ClosingTarget \<Rightarrow> close_stage t s)"

text \<open>Polled until it is ready, or as often as it is polled.\<close>

fun poll_stages :: "'w target_ops \<Rightarrow> nat \<Rightarrow> write_stage \<Rightarrow> 'w \<Rightarrow> (string + unit) option \<times> 'w" where
  "poll_stages t 0 stage s = (None, s)"
| "poll_stages t (Suc k) stage s =
     (case poll_stage t stage s of
        (Waiting, stage', s') \<Rightarrow> poll_stages t k stage' s'
      | (Ready r, _, s') \<Rightarrow> (Some r, s'))"

definition stage_ok :: "bytes \<Rightarrow> write_stage \<Rightarrow> bytes \<Rightarrow> bool" where
  "stage_ok plaintext stage taken =
     (case stage of WritingRest rest \<Rightarrow> taken @ rest = plaintext | _ \<Rightarrow> taken = plaintext)"

lemma takes_in_orderD:
  assumes "takes_in_order t acc"
  shows "to_write t buf s = (Ready (Inr n), s') \<Longrightarrow> n \<le> length buf \<and> acc s' = acc s @ take n buf"
    and "to_write t buf s = (Ready (Inl e), s') \<Longrightarrow> acc s' = acc s"
    and "to_write t buf s = (Waiting, s') \<Longrightarrow> acc s' = acc s"
    and "to_flush t s = (r, s') \<Longrightarrow> acc s' = acc s" and "to_close t s = (r, s') \<Longrightarrow> acc s' = acc s"
proof -
  note law = assms [unfolded takes_in_order_def]
  show "to_write t buf s = (Ready (Inr n), s') \<Longrightarrow> n \<le> length buf \<and> acc s' = acc s @ take n buf"
    and "to_write t buf s = (Ready (Inl e), s') \<Longrightarrow> acc s' = acc s"
    and "to_write t buf s = (Waiting, s') \<Longrightarrow> acc s' = acc s"
    using law [THEN conjunct1, rule_format, of buf s] by fastforce+
  show "to_flush t s = (r, s') \<Longrightarrow> acc s' = acc s" and "to_close t s = (r, s') \<Longrightarrow> acc s' = acc s"
    using law by (metis snd_conv)+
qed

lemma write_all_poll_takes:
  assumes "takes_in_order t acc" and "write_all_poll t rest s = (r, rest', s')"
  shows "acc s' @ rest' = acc s @ rest \<and> prefix (acc s) (acc s') \<and> (r = Ready (Inr ()) \<longrightarrow> rest' = [])"
  using assms
proof (induction t rest s rule: write_all_poll.induct)
  case (1 t rest s)
  note law = takes_in_orderD [OF "1.prems"(1)]
  obtain w s1 where w: "to_write t rest s = (w, s1)" by fastforce
  show ?case
  proof (cases "\<exists>n. w = Ready (Inr n) \<and> n \<noteq> 0 \<and> rest \<noteq> []")
    case True
    then obtain n where n: "w = Ready (Inr n)" "n \<noteq> 0" "rest \<noteq> []" by blast
    then have "write_all_poll t (drop n rest) s1 = (r, rest', s')"
      using "1.prems"(2) w by (simp add: write_all_poll.simps [of t rest])
    from "1.IH" [OF n(3) w [symmetric] _ _ n(2) "1.prems"(1) this] n(1) law(1) [of rest s n s1] w
    show ?thesis by (auto simp: prefix_def)
  next
    case False
    then show ?thesis
      using "1.prems"(2) w law(1-3) [of rest s] unfolding write_all_poll.simps [of t rest]
      by (auto split: if_splits poll.splits sum.splits)
  qed
qed

lemma flush_stage_takes:
  assumes "takes_in_order t acc" and "flush_stage t s = (r, stage, s')"
  shows "acc s' = acc s \<and> (\<forall>rest. stage \<noteq> WritingRest rest)"
  using assms(2) takes_in_orderD(4,5) [OF assms(1)]
  by (fastforce simp: flush_stage_def close_stage_def split: prod.splits poll.splits sum.splits)

lemma poll_stage_takes:
  assumes t: "takes_in_order t acc" and p: "poll_stage t stage s = (r, stage', s')"
    and ok: "stage_ok plaintext stage (acc s)"
  shows "stage_ok plaintext stage' (acc s') \<and> prefix (acc s) (acc s') \<and> prefix (acc s') plaintext \<and>
    (r = Ready (Inr ()) \<longrightarrow> acc s' = plaintext)"
proof (cases stage)
  case (WritingRest rest)
  obtain w rest1 s1 where w: "write_all_poll t rest s = (w, rest1, s1)" by (cases "write_all_poll t rest s")
  note a = write_all_poll_takes [OF t w]
  show ?thesis
  proof (cases "w = Ready (Inr ())")
    case True
    then have "flush_stage t s1 = (r, stage', s')" using p w WritingRest by (simp add: poll_stage_def)
    from flush_stage_takes [OF t this] a True ok WritingRest show ?thesis
      by (auto simp: stage_ok_def split: write_stage.split)
  next
    case False
    then have "stage' = WritingRest rest1" "s' = s1" "r = w"
      using p w WritingRest by (auto simp: poll_stage_def split: poll.splits sum.splits)
    then show ?thesis using a ok False WritingRest by (auto simp: stage_ok_def prefix_def)
  qed
next
  case FlushingTarget
  then show ?thesis
    using p ok flush_stage_takes [OF t, of s] by (auto simp: poll_stage_def stage_ok_def split: write_stage.split)
next
  case ClosingTarget
  then show ?thesis
    using p ok takes_in_orderD(5) [OF t, of s] by (auto simp: poll_stage_def close_stage_def stage_ok_def split: prod.splits)
qed

text \<open>A poll on an actual target is one of the polls of \<open>poll_pending\<close>.\<close>

lemma take_more_prefix: "prefix xs ys \<Longrightarrow> prefix ys zs \<Longrightarrow> take_more (length ys - length xs) xs zs = ys"
  by (auto simp: take_more_def prefix_def)

lemma poll_stage_pending:
  assumes "takes_in_order t acc" and "poll_stage t stage s = (r, stage', s')"
    and "stage_ok plaintext stage (acc s)" and "decrypt data = Inr plaintext"
  shows "\<exists>io. poll_pending decrypt data (acc s) io = (r, acc s')"
proof -
  note p = poll_stage_takes [OF assms(1-3)]
  let ?n = "length (acc s') - length (acc s)"
  have more: "take_more ?n (acc s) plaintext = acc s'" using p take_more_prefix by blast
  show ?thesis
  proof (cases r)
    case Waiting
    then show ?thesis using more assms(4) by (intro exI [of _ "IoPending ?n"]) (simp add: poll_pending_def)
  next
    case (Ready q)
    then show ?thesis
      using more assms(4) p
      by (cases q; intro exI [of _ "case q of Inl e \<Rightarrow> IoFailed ?n e | Inr _ \<Rightarrow> IoDone"]) (auto simp: poll_pending_def)
  qed
qed

text \<open>
  So a \<open>DecryptedFile\<close> over an actual target goes through the states of this theory: each poll
  of the pending write is a flush for some \<open>io\<close>, with the target's own bytes as \<open>df_taken\<close>.
\<close>

lemma pending_write_refined:
  assumes t: "takes_in_order t acc" and d: "decrypt data = Inr plaintext"
  shows "poll_stages t k stage s = (res, s') \<Longrightarrow> stage_ok plaintext stage (acc s) \<Longrightarrow>
    df_state f = Unwritten data \<or> df_state f = PendingWrite data \<Longrightarrow> length data = unat (df_size f) \<Longrightarrow>
    df_taken f = acc s \<Longrightarrow> prefix (acc s) plaintext \<Longrightarrow>
    \<exists>ios f'. file_run decrypt f (map FlushOp ios) = Some f' \<and> df_taken f' = acc s' \<and>
      prefix (acc s') plaintext \<and>
      (case res of
         None \<Rightarrow> df_state f' = Unwritten data \<or> df_state f' = PendingWrite data
       | Some (Inr _) \<Rightarrow> df_state f' = Complete \<and> acc s' = plaintext
       | Some (Inl e) \<Rightarrow> df_state f' = Poisoned)"
proof (induction k arbitrary: stage s f)
  case 0
  then show ?case by (intro exI [of _ "[]"] exI [of _ f]) simp
next
  case (Suc k)
  obtain r stage1 s1 where p: "poll_stage t stage s = (r, stage1, s1)" by (cases "poll_stage t stage s")
  note ok = poll_stage_takes [OF t p Suc.prems(2)]
  obtain io where io: "poll_pending decrypt data (df_taken f) io = (r, acc s1)"
    using poll_stage_pending [where decrypt = decrypt, OF t p Suc.prems(2) d] Suc.prems(5) by auto
  have fl: "poll_flush decrypt f io = Some (drive_write decrypt f data io)"
    using Suc.prems(3,4) by (auto simp: poll_flush_def)
  show ?case
  proof (cases r)
    case Waiting
    let ?g = "f\<lparr>df_state := PendingWrite data, df_taken := acc s1\<rparr>"
    have step: "file_step decrypt f (FlushOp io) = Some ?g"
      using fl io Waiting by (simp add: file_step_def drive_write_def)
    have "poll_stages t k stage1 s1 = (res, s')" using Suc.prems(1) p Waiting by simp
    from Suc.IH [OF this, of ?g] ok Suc.prems(4) obtain ios f' where
      "file_run decrypt ?g (map FlushOp ios) = Some f'" "df_taken f' = acc s'" "prefix (acc s') plaintext"
      "case res of None \<Rightarrow> df_state f' = Unwritten data \<or> df_state f' = PendingWrite data
        | Some (Inr _) \<Rightarrow> df_state f' = Complete \<and> acc s' = plaintext | Some (Inl e) \<Rightarrow> df_state f' = Poisoned"
      by auto
    then show ?thesis using step by (intro exI [of _ "io # ios"] exI [of _ f']) simp
  next
    case (Ready q)
    let ?g = "f\<lparr>df_state := (case q of Inl e \<Rightarrow> Poisoned | Inr _ \<Rightarrow> Complete), df_taken := acc s1\<rparr>"
    have step: "file_step decrypt f (FlushOp io) = Some ?g"
      using fl io Ready by (cases q) (simp_all add: file_step_def drive_write_def)
    have "res = Some q" "s' = s1" using Suc.prems(1) p Ready by simp_all
    then show ?thesis
      using step ok Ready by (intro exI [of _ "[io]"] exI [of _ ?g]) (auto split: sum.split)
  qed
qed

end
