(* ===== verification/Client_Link.thy ===== *)
theory Client_Link
  imports Client_Cipher Relay_Http
begin

text \<open>
  The URLs of the client: the download link that carries the id and the key
  (\<^verbatim>\<open>uploader_client.rs\<close>, \<^verbatim>\<open>downloader_client.rs\<close>), and the addresses of requests and
  websockets (\<^verbatim>\<open>api_client.rs\<close>). The \<open>url\<close> crate is a parameter: \<open>join\<close> and \<open>parse\<close>, with
  what is used of them as laws; a parsed URL is its scheme, authority and path segments.
\<close>

subsection \<open>URLs\<close>

record url =
  u_scheme :: string
  u_authority :: string
  u_path :: "string list"

text \<open>Characters that stand for themselves in a path segment or a fragment.\<close>

definition url_safe_chars :: string where
  "url_safe_chars = ''ABCDEFGHIJKLMNOPQRSTUVWXYZabcdefghijklmnopqrstuvwxyz0123456789-_~''"

definition plain_text :: "string \<Rightarrow> bool" where
  "plain_text s = (set s \<subseteq> set url_safe_chars)"

definition path_string :: "string list \<Rightarrow> string" where
  "path_string segs = concat (map (Cons CHR ''/'') segs)"

text \<open>\<open>Url::join\<close> with an absolute path of plain segments keeps the origin and sets the path.\<close>

definition join_law :: "(url \<Rightarrow> string \<Rightarrow> url option) \<Rightarrow> bool" where
  "join_law join =
     (\<forall>u segs. segs \<noteq> [] \<and> (\<forall>s\<in>set segs. plain_text s \<and> s \<noteq> []) \<longrightarrow>
        join u (path_string segs) = Some (u\<lparr>u_path := segs\<rparr>))"

lemma join_lawD:
  "join_law join \<Longrightarrow> segs \<noteq> [] \<Longrightarrow> \<forall>s\<in>set segs. plain_text s \<and> s \<noteq> [] \<Longrightarrow>
   join u (path_string segs) = Some (u\<lparr>u_path := segs\<rparr>)"
  by (simp add: join_law_def)

text \<open>
  Parsing the text of a URL of some origin with a plain path and a fragment made of plain
  characters gives the path and the fragment.
\<close>

definition parse_law :: "(string \<Rightarrow> (string \<times> string option) option) \<Rightarrow> string \<Rightarrow> bool" where
  "parse_law parse origin =
     (\<forall>segs key. segs \<noteq> [] \<and> (\<forall>s\<in>set segs. plain_text s \<and> s \<noteq> []) \<and> plain_text key \<longrightarrow>
        parse (origin @ path_string segs @ ''#cipher_key='' @ key)
          = Some (path_string segs, Some (''cipher_key='' @ key)))"

lemma set_url_encode:
  assumes "base64_law enc dec"
  shows "plain_text (url_encode enc bs)"
proof -
  have "to_url_char c \<in> set url_safe_chars" if "c \<in> set (enc bs)" for c
    using base64_chars_of [OF assms that]
    by (auto simp: base64_chars_def url_safe_chars_def to_url_char_def)
  then show ?thesis by (auto simp: plain_text_def url_encode_def)
qed

subsection \<open>The download link\<close>

text \<open>\<open>DownloadId::new\<close> asserts that the id contains no slash.\<close>

definition download_id_new :: "string \<Rightarrow> string option" where
  "download_id_new i = (if CHR ''/'' \<in> set i then None else Some i)"

definition download_url_path :: "string \<Rightarrow> string" where
  "download_url_path i = ''/download/'' @ i"

text \<open>\<open>formatted_download_url_and_key\<close>, for a download endpoint whose URL prints as \<open>origin\<close>.\<close>

definition formatted_download_url_and_key ::
  "(bytes \<Rightarrow> string) \<Rightarrow> string \<Rightarrow> string \<Rightarrow> cipher_key \<Rightarrow> string" where
  "formatted_download_url_and_key enc origin i key =
     origin @ download_url_path i @ ''#cipher_key='' @ cipher_key_serialized enc key"

definition parse_download_url ::
  "(string \<Rightarrow> (string \<times> string option) option) \<Rightarrow> (string \<Rightarrow> bytes option) \<Rightarrow> string \<Rightarrow>
   error + string \<times> cipher_key" where
  "parse_download_url parse dec s =
     (case parse s of
        None \<Rightarrow> Inl (InvalidInput ''unparseable download url'')
      | Some (path, fragment) \<Rightarrow>
     case fragment of
        None \<Rightarrow> Inl (InvalidInput ''download url was missing fragment'')
      | Some fragment \<Rightarrow>
     case strip_prefix ''cipher_key='' fragment of
        None \<Rightarrow> Inl (InvalidInput ''download url cipher_key was invalid or missing'')
      | Some serialized \<Rightarrow>
     case cipher_key_from_string dec serialized of
        Inl e \<Rightarrow> Inl e
      | Inr key \<Rightarrow>
     case strip_prefix ''/download/'' path of
        None \<Rightarrow> Inl (InvalidInput ''Invalid download url'')
      | Some i \<Rightarrow>
     if CHR ''/'' \<in> set i then Inl (InvalidInput ''Invalid download url'') else Inr (i, key))"

subsection \<open>Addresses of requests\<close>

definition upload_address :: "(url \<Rightarrow> string \<Rightarrow> url option) \<Rightarrow> url \<Rightarrow> string \<Rightarrow> url option" where
  "upload_address join endpoint upload_path = join endpoint upload_path"

definition start_address :: "url \<Rightarrow> url" where
  "start_address u = u\<lparr>u_path := u_path u @ [''start'']\<rparr>"

definition meta_address :: "(url \<Rightarrow> string \<Rightarrow> url option) \<Rightarrow> url \<Rightarrow> string \<Rightarrow> url option" where
  "meta_address join endpoint i = join endpoint (''/api/v1/download/'' @ i)"

definition content_address :: "(url \<Rightarrow> string \<Rightarrow> url option) \<Rightarrow> url \<Rightarrow> string \<Rightarrow> error + url" where
  "content_address join endpoint content_url =
     (case join endpoint content_url of
        None \<Rightarrow> Inl (InvalidInput ''bad content url'') | Some u \<Rightarrow> Inr u)"

definition websocket_scheme :: "url \<Rightarrow> error + url" where
  "websocket_scheme u =
     (if u_scheme u = ''https'' then Inr (u\<lparr>u_scheme := ''wss''\<rparr>)
      else if u_scheme u = ''http'' then Inr (u\<lparr>u_scheme := ''ws''\<rparr>)
      else Inl (InvalidInput ''bad api url scheme''))"

definition download_websocket_address ::
  "(url \<Rightarrow> string \<Rightarrow> url option) \<Rightarrow> url \<Rightarrow> string \<Rightarrow> error + url" where
  "download_websocket_address join endpoint content_url =
     (case join endpoint content_url of
        None \<Rightarrow> Inl (InvalidInput ''bad content url'')
      | Some u \<Rightarrow> websocket_scheme (u\<lparr>u_path := butlast (u_path u) @ [''ws'']\<rparr>))"

definition upload_websocket_address ::
  "(url \<Rightarrow> string \<Rightarrow> url option) \<Rightarrow> url \<Rightarrow> string \<Rightarrow> error + url" where
  "upload_websocket_address join endpoint upload_path =
     (case join endpoint upload_path of
        None \<Rightarrow> Inl (InvalidInput ''bad upload path'')
      | Some u \<Rightarrow> websocket_scheme (u\<lparr>u_path := u_path u @ [''ws'']\<rparr>))"

subsection \<open>Properties\<close>

lemma plain_words:
  "plain_text ''api''" "plain_text ''v1''" "plain_text ''upload''" "plain_text ''download''"
  "plain_text ''content''"
  by (simp_all add: plain_text_def url_safe_chars_def)

lemma path_string_simps:
  "path_string [] = []" "path_string (s # segs) = CHR ''/'' # s @ path_string segs"
  by (simp_all add: path_string_def)

text \<open>The download link works: parsing the link that the uploader shows for a session gives
  back the id that the relay assigned and the key that encrypts the file, for every session
  id and every 32-byte key.\<close>

theorem download_link_roundtrip:
  assumes law: "base64_law enc dec" and parse: "parse_law parse origin"
    and session: "session \<noteq> []" and key: "length key = 32"
    and i: "download_id_new (encode_id enc session) = Some i"
  shows "i = encode_id enc session \<and>
    parse_download_url parse dec (formatted_download_url_and_key enc origin i key) = Inr (i, key)"
proof -
  have i': "i = url_encode enc session"
    using i by (auto simp: download_id_new_def encode_id_def url_encode_def split: if_splits)
  have ne: "i \<noteq> []" using session by (simp add: i' url_encode_def base64_enc_Nil [OF law])
  have pl: "plain_text i" "plain_text (cipher_key_serialized enc key)"
    using set_url_encode [OF law] by (simp_all add: i' cipher_key_serialized_def)
  have "path_string [''download'', i] = download_url_path i"
    by (simp add: path_string_simps download_url_path_def)
  then have p: "parse (formatted_download_url_and_key enc origin i key)
      = Some (download_url_path i, Some (''cipher_key='' @ cipher_key_serialized enc key))"
    using parse pl ne plain_words unfolding parse_law_def formatted_download_url_and_key_def
    by (metis (no_types, lifting) list.distinct(1) list.set_cases set_ConsD empty_iff empty_set)
  have k: "cipher_key_from_string dec (cipher_key_serialized enc key) = Inr key"
    using key url_decode_encode [OF law]
    by (simp add: cipher_key_from_string_def cipher_key_serialized_def sizes)
  have "CHR ''/'' \<notin> set i" using url_encode_safe(1) by (simp add: i')
  moreover have "strip_prefix ''/download/'' (download_url_path i) = Some i"
    unfolding download_url_path_def by (rule strip_prefix_append)
  moreover have "strip_prefix ''cipher_key='' (''cipher_key='' @ cipher_key_serialized enc key)
      = Some (cipher_key_serialized enc key)"
    by (rule strip_prefix_append)
  ultimately have "parse_download_url parse dec (formatted_download_url_and_key enc origin i key)
      = Inr (i, key)"
    unfolding parse_download_url_def p by (simp only: option.case prod.case k sum.case if_False)
  then show ?thesis using i' by (simp add: encode_id_def url_encode_def)
qed

text \<open>A URL library for the examples, on plain paths.\<close>

fun splits :: "string \<Rightarrow> string list" where
  "splits [] = [[]]"
| "splits (c # cs) =
     (if c = CHR ''/'' then [] # splits cs
      else (case splits cs of [] \<Rightarrow> [[c]] | s # ss \<Rightarrow> (c # s) # ss))"

definition example_join :: "url \<Rightarrow> string \<Rightarrow> url option" where
  "example_join u s = Some (u\<lparr>u_path := tl (splits s)\<rparr>)"

definition example_parse :: "string \<Rightarrow> (string \<times> string option) option" where
  "example_parse s =
     Option.bind (strip_prefix ''https://g.invalid'' s)
       (\<lambda>r. map_option (\<lambda>(path, fragment). (path, Some fragment)) (split_once CHR ''#'' r))"

lemma splits_plain:
  "CHR ''/'' \<notin> set s \<Longrightarrow> splits (s @ CHR ''/'' # r) = s # splits r"
  "CHR ''/'' \<notin> set s \<Longrightarrow> splits s = [s]"
  by (induction s) auto

lemma plain_no_slash: "plain_text s \<Longrightarrow> CHR ''/'' \<notin> set s" "plain_text s \<Longrightarrow> CHR ''#'' \<notin> set s"
  by (auto simp: plain_text_def url_safe_chars_def)

lemma splits_path: "segs \<noteq> [] \<Longrightarrow> \<forall>s\<in>set segs. plain_text s \<Longrightarrow> splits (path_string segs) = [] # segs"
proof (induction segs)
  case (Cons s segs)
  then show ?case
    by (cases segs) (simp_all add: path_string_simps splits_plain plain_no_slash)
qed simp

lemma example_join_law: "join_law example_join"
  by (simp add: join_law_def example_join_def splits_path)

lemma example_parse_law: "parse_law example_parse ''https://g.invalid''"
  unfolding parse_law_def
proof (intro allI impI)
  fix segs key
  assume a: "segs \<noteq> [] \<and> (\<forall>s\<in>set segs. plain_text s \<and> s \<noteq> []) \<and> plain_text key"
  then have "CHR ''#'' \<notin> set (path_string segs)"
    using plain_no_slash(2) by (auto simp: path_string_def)
  then have "split_once CHR ''#'' (path_string segs @ ''#cipher_key='' @ key)
      = Some (path_string segs, ''cipher_key='' @ key)"
    using split_once_append [of "CHR ''#''" "path_string segs" "''cipher_key='' @ key"] by simp
  moreover have "strip_prefix ''https://g.invalid''
      (''https://g.invalid'' @ path_string segs @ ''#cipher_key='' @ key)
      = Some (path_string segs @ ''#cipher_key='' @ key)"
    by (rule strip_prefix_append)
  ultimately show "example_parse (''https://g.invalid'' @ path_string segs @ ''#cipher_key='' @ key)
      = Some (path_string segs, Some (''cipher_key='' @ key))"
    unfolding example_parse_def by (simp only: bind.bind_lunit) simp
qed

theorem download_link_roundtrip_witness:
  "parse_download_url example_parse b64_decode
     (formatted_download_url_and_key b64_encode ''https://g.invalid''
        (encode_id b64_encode [1, 2]) (replicate 32 1))
   = Inr (encode_id b64_encode [1, 2], replicate 32 1)"
proof -
  have "download_id_new (encode_id b64_encode [1, 2]) = Some (encode_id b64_encode [1, 2])"
    using url_encode_safe(1) [of b64_encode "[1, 2]"]
    by (simp add: download_id_new_def encode_id_def url_encode_def)
  from download_link_roundtrip [OF b64_law example_parse_law _ _ this, of "replicate 32 1"]
  show ?thesis by simp
qed

text \<open>Every address the client forms leads to the relay's handler for it and to the session
  of the id: from the upload path and the id that \<open>create_file\<close> answers and the content URL
  that \<open>download_meta\<close> answers, over HTTP and over websockets.\<close>

theorem client_addresses_reach_handlers:
  assumes join: "join_law join" and law: "base64_law enc dec" and session: "session \<noteq> []"
    and i: "i = encode_id enc session"
    and http: "u_scheme endpoint = ''https''"
    and up: "upload_address join endpoint (''/api/v1/upload/'' @ i) = up_url"
    and meta: "meta_address join endpoint i = meta_url"
    and cont: "content_address join endpoint (''/api/v1/download/'' @ i @ ''/content'') = content"
    and dws: "download_websocket_address join endpoint (''/api/v1/download/'' @ i @ ''/content'') = dws"
    and uws: "upload_websocket_address join endpoint (''/api/v1/upload/'' @ i) = uws"
  shows "\<exists>u m c d w. up_url = Some u \<and> meta_url = Some m \<and> content = Inr c \<and> dws = Inr d \<and> uws = Inr w \<and>
    route ''POST'' (u_path u) = UploadContent i \<and>
    route ''POST'' (u_path (start_address u)) = StartUploadCheck i \<and>
    route ''GET'' (u_path m) = DownloadMeta i \<and>
    route ''GET'' (u_path c) = DownloadContent i \<and>
    route ''GET'' (u_path d) = DownloadWebsocket i \<and>
    route ''GET'' (u_path w) = UploadWebsocket i \<and>
    u_scheme d = ''wss'' \<and> u_scheme w = ''wss'' \<and> u_authority d = u_authority endpoint"
proof -
  have i': "i = url_encode enc session" by (simp add: i encode_id_def url_encode_def)
  have ne: "i \<noteq> []" using session by (simp add: i' url_encode_def base64_enc_Nil [OF law])
  have pl: "plain_text i" using set_url_encode [OF law] by (simp add: i')
  have "join endpoint (path_string [''api'', ''v1'', ''upload'', i])
      = Some (endpoint\<lparr>u_path := [''api'', ''v1'', ''upload'', i]\<rparr>)"
    using plain_words pl ne by (intro join_lawD [OF join]) simp_all
  then have ju: "join endpoint (''/api/v1/upload/'' @ i)
      = Some (endpoint\<lparr>u_path := [''api'', ''v1'', ''upload'', i]\<rparr>)"
    by (simp add: path_string_simps)
  have "join endpoint (path_string [''api'', ''v1'', ''download'', i])
      = Some (endpoint\<lparr>u_path := [''api'', ''v1'', ''download'', i]\<rparr>)"
    using plain_words pl ne by (intro join_lawD [OF join]) simp_all
  then have jm: "join endpoint (''/api/v1/download/'' @ i)
      = Some (endpoint\<lparr>u_path := [''api'', ''v1'', ''download'', i]\<rparr>)"
    by (simp add: path_string_simps)
  have "join endpoint (path_string [''api'', ''v1'', ''download'', i, ''content''])
      = Some (endpoint\<lparr>u_path := [''api'', ''v1'', ''download'', i, ''content'']\<rparr>)"
    using plain_words pl ne by (intro join_lawD [OF join]) simp_all
  then have jc: "join endpoint (''/api/v1/download/'' @ i @ ''/content'')
      = Some (endpoint\<lparr>u_path := [''api'', ''v1'', ''download'', i, ''content'']\<rparr>)"
    by (simp add: path_string_simps)
  have r: "route ''POST'' [''api'', ''v1'', ''upload'', i] = UploadContent i"
    "route ''POST'' [''api'', ''v1'', ''upload'', i, ''start''] = StartUploadCheck i"
    "route ''GET'' [''api'', ''v1'', ''download'', i] = DownloadMeta i"
    "route ''GET'' [''api'', ''v1'', ''download'', i, ''content''] = DownloadContent i"
    "route ''GET'' [''api'', ''v1'', ''download'', i, ''ws''] = DownloadWebsocket i"
    "route ''GET'' [''api'', ''v1'', ''upload'', i, ''ws''] = UploadWebsocket i"
    using ne by (simp_all add: route_def on_get_def on_post_def)
  note up meta cont dws uws
  note eqs = this [symmetric]
  show ?thesis
    unfolding eqs upload_address_def meta_address_def content_address_def
      download_websocket_address_def upload_websocket_address_def websocket_scheme_def
      start_address_def ju jm jc
    using r http by simp
qed

theorem client_addresses_reach_handlers_witness:
  "\<exists>u. upload_address example_join \<lparr>u_scheme = ''https'', u_authority = ''r.invalid'', u_path = []\<rparr>
         (''/api/v1/upload/'' @ encode_id b64_encode [1, 2]) = Some u \<and>
       route ''POST'' (u_path (start_address u)) = StartUploadCheck (encode_id b64_encode [1, 2])"
  using client_addresses_reach_handlers [OF example_join_law b64_law _ refl _ refl refl refl refl refl,
      of "[1, 2]" "\<lparr>u_scheme = ''https'', u_authority = ''r.invalid'', u_path = []\<rparr>"]
  by auto

end
