(* ===== verification/Client_Api.thy ===== *)
theory Client_Api
  imports Client_File Client_Link
begin

text \<open>
  The operations of the client's \<open>ApiClient\<close> (\<^verbatim>\<open>api_client.rs\<close>): provisioning a file and
  fetching its metadata, and uploading over the relay with the conflict loop. What the server answers is an input
  of an attempt; a reply is its status, its \<open>Retry-After\<close> header and what its body parses to.
  A panic is \<open>None\<close>.
\<close>

subsection \<open>Metadata\<close>

record file_meta =
  file_name :: string
  file_size :: u64

text \<open>\<open>FileMeta::try_from_encoded\<close>, over UTF-8 decoding and serde's JSON parser.\<close>

definition meta_from_encoded ::
  "(bytes \<Rightarrow> string option) \<Rightarrow> (string \<Rightarrow> file_meta option) \<Rightarrow> bytes \<Rightarrow> error + file_meta" where
  "meta_from_encoded utf8 parse_json bs =
     (case utf8 bs of
        None \<Rightarrow> Inl (InvalidInput ''invalid unicode in FileMeta serialization'')
      | Some s \<Rightarrow>
          (case parse_json s of
             None \<Rightarrow> Inl (InvalidInput ''Invalid json in FileMeta serialization'')
           | Some m \<Rightarrow> Inr m))"

text \<open>What \<open>provision_file\<close> posts, and what \<open>fetch_meta\<close> makes of the metadata it gets.\<close>

definition provision_form ::
  "(bytes \<Rightarrow> string) \<Rightarrow> (bytes \<Rightarrow> buffer \<Rightarrow> bytes \<Rightarrow> bytes) \<Rightarrow> (bytes \<Rightarrow> bytes \<Rightarrow> bytes) \<Rightarrow>
   (file_meta \<Rightarrow> string) \<Rightarrow> (string \<Rightarrow> bytes) \<Rightarrow> cipher_key \<Rightarrow> bytes \<Rightarrow> bytes \<Rightarrow> file_meta \<Rightarrow> string" where
  "provision_form enc encrypt hkdf to_json as_bytes key rnd nonce meta =
     (let buffer = from_plaintext rnd (as_bytes (to_json meta));
          encrypted_metadata = content_encrypt encrypt hkdf key nonce buffer MetadataUsage
      in enc encrypted_metadata)"

definition fetched_meta ::
  "(string \<Rightarrow> bytes option) \<Rightarrow> (bytes \<Rightarrow> buffer \<Rightarrow> bytes \<Rightarrow> error + bytes) \<Rightarrow>
   (bytes \<Rightarrow> bytes \<Rightarrow> bytes) \<Rightarrow> (bytes \<Rightarrow> string option) \<Rightarrow> (string \<Rightarrow> file_meta option) \<Rightarrow>
   cipher_key \<Rightarrow> string \<Rightarrow> error + file_meta" where
  "fetched_meta dec decrypt hkdf utf8 parse_json key meta =
     (case dec meta of
        None \<Rightarrow> Inl (InvalidInput ''invalid base64 encoding of metadata'')
      | Some decoded \<Rightarrow>
     case content_decrypt decrypt hkdf key decoded MetadataUsage of
        Inl e \<Rightarrow> Inl e
      | Inr decrypted \<Rightarrow> meta_from_encoded utf8 parse_json decrypted)"

text \<open>The downloader sees the metadata that the uploader announced: what \<open>provision_file\<close>
  posts, decoded, decrypted with the same key and parsed by \<open>fetch_meta\<close>, is the name and
  size it was made of, whatever the random bytes and the nonce.\<close>

theorem metadata_roundtrip:
  assumes "base64_law enc dec" and "aead_law seal unseal"
    and "length rnd = NONCE_SIZE" "length nonce = NONCE_SIZE"
    and "utf8 (as_bytes (to_json meta)) = Some (to_json meta)"
    and "parse_json (to_json meta) = Some meta"
  shows "fetched_meta dec (native_decrypt unseal) hkdf utf8 parse_json key
      (provision_form enc (native_encrypt seal) hkdf to_json as_bytes key rnd nonce meta) = Inr meta"
proof -
  have "dec (enc x) = Some x" for x by (simp add: base64_dec [OF assms(1)])
  then show ?thesis
    using native.content_roundtrip(1)
        [OF assms(2,4,3), of hkdf key "as_bytes (to_json meta)" MetadataUsage] assms(5,6)
    by (simp add: fetched_meta_def provision_form_def from_plaintext_def meta_from_encoded_def
        Let_def)
qed

text \<open>
  The size is taken at its word: metadata that announces \<open>2 ^ 63\<close> bytes or more is accepted, and
  opening the file for it then panics.
\<close>

lemma announced_size_panics:
  assumes "base64_law enc dec" and "aead_law seal unseal"
    and "length rnd = NONCE_SIZE" "length nonce = NONCE_SIZE"
    and "utf8 (as_bytes (to_json meta)) = Some (to_json meta)"
    and "parse_json (to_json meta) = Some meta" and "2 ^ 63 \<le> unat (file_size meta)"
  shows "\<exists>m. fetched_meta dec (native_decrypt unseal) hkdf utf8 parse_json key
      (provision_form enc (native_encrypt seal) hkdf to_json as_bytes key rnd nonce meta) = Inr m \<and>
    opened_file (file_size m) = None"
proof (intro exI conjI)
  show "fetched_meta dec (native_decrypt unseal) hkdf utf8 parse_json key
      (provision_form enc (native_encrypt seal) hkdf to_json as_bytes key rnd nonce meta) = Inr meta"
    by (rule metadata_roundtrip) (rule assms)+
  show "opened_file (file_size meta) = None" using assms(7) by (simp add: opened_file_def)
qed

lemma ascii_text: "map (\<lambda>b. char_of (unat b)) (ascii s) = s"
proof -
  have "char_of (unat (of_nat (of_char c) :: u8)) = c" for c
    using nat_of_char_less_256 [of c] by (simp add: unat_of_nat)
  then show ?thesis by (simp add: ascii_def comp_def)
qed

theorem metadata_roundtrip_witness:
  "fetched_meta b64_decode (native_decrypt example_open) (@) (\<lambda>bs. Some (map (\<lambda>b. char_of (unat b)) bs))
     (\<lambda>s. Some \<lparr>file_name = s, file_size = 5\<rparr>) [1]
     (provision_form b64_encode (native_encrypt example_seal) (@) file_name ascii [1]
        (replicate 12 3) (replicate 12 4) \<lparr>file_name = ''a.txt'', file_size = 5\<rparr>)
   = Inr \<lparr>file_name = ''a.txt'', file_size = 5\<rparr>"
  by (rule metadata_roundtrip [OF b64_law example_aead]) (simp_all add: sizes ascii_text)

subsection \<open>Uploading over the relay\<close>

record 'h http_reply =
  hr_status :: u16
  hr_retry_after :: "'h option"
  hr_upload :: "upload_response option"
  hr_conflict :: "u64 option"

type_synonym 'h sent = "error + 'h http_reply"

definition CONFLICT :: u16 where "CONFLICT = 409"

text \<open>The content request at a position: its \<open>Content-Range\<close> and its body.\<close>

definition upload_request :: "bytes \<Rightarrow> u64 \<Rightarrow> (string \<times> bytes) option" where
  "upload_request file position =
     map_option (\<lambda>send_bytes. (upload_content_range position (len64 file), send_bytes))
       (slice file (unat position) (length file))"

definition parsed_upload :: "string \<Rightarrow> string \<Rightarrow> upload_response option \<Rightarrow> error + unit" where
  "parsed_upload invalid failed r =
     (case r of
        None \<Rightarrow> Inl (InvalidServerResponse invalid)
      | Some r \<Rightarrow> upload_response_ok_or failed r)"

text \<open>
  The response that decides an iteration: that of \<open>/start\<close> if it failed, else the content's.
  \<open>start_verdict\<close> is \<open>None\<close> when the content is to be sent.
\<close>

definition start_verdict :: "'h sent \<Rightarrow> 'h sent option" where
  "start_verdict start =
     (case start of
        Inl e \<Rightarrow> Some (Inl e)
      | Inr r \<Rightarrow>
          if \<not> is_success (hr_status r) then Some (Inr r)
          else case parsed_upload ''Invalid start upload response'' ''failed to start upload''
                 (hr_upload r) of
            Inl e \<Rightarrow> Some (Inl e)
          | Inr _ \<Rightarrow> None)"

definition deciding_reply :: "'h sent \<Rightarrow> 'h sent \<Rightarrow> 'h sent" where
  "deciding_reply start content = (case start_verdict start of Some r \<Rightarrow> r | None \<Rightarrow> content)"

datatype upload_next = TryAgain u64 | Leave "retry_error + unit" u64

definition after_conflict :: "u64 \<Rightarrow> u64 \<Rightarrow> u64 option \<Rightarrow> upload_next" where
  "after_conflict flen old_position conflict =
     (case conflict of
        None \<Rightarrow>
          Leave (Inl (retry_error_from (InvalidServerResponse ''Invalid conflict error response'')))
            old_position
      | Some position \<Rightarrow>
          if flen < position then
            Leave (Inl (retry_error_from (InvalidPeerMessage ''position beyond file size''))) position
          else if position = old_position then
            Leave (Inl (transient (ClientHttpErrorResponse
              ''Spurious 409 Conflict response from server; identical offset.'' CONFLICT None)))
              position
          else TryAgain position)"

definition upload_decided ::
  "('h \<Rightarrow> string option) \<Rightarrow> bytes \<Rightarrow> u64 \<Rightarrow> 'h sent \<Rightarrow> upload_next" where
  "upload_decided to_str file position reply =
     (case reply of
        Inl e \<Rightarrow> Leave (Inl (retry_error_from e)) position
      | Inr r \<Rightarrow>
          if hr_status r = CONFLICT then after_conflict (len64 file) position (hr_conflict r)
          else case response_ok_or to_str ''failed to upload content'' (hr_status r)
                 (hr_retry_after r) of
            Inl e \<Rightarrow> Leave (Inl (retry_error_from e)) position
          | Inr _ \<Rightarrow>
              (case parsed_upload ''Invalid upload response'' ''failed to upload'' (hr_upload r) of
                 Inl e \<Rightarrow> Leave (Inl (retry_error_from e)) position
               | Inr _ \<Rightarrow> Leave (Inr ()) position))"

definition upload_iteration ::
  "('h \<Rightarrow> string option) \<Rightarrow> bytes \<Rightarrow> u64 \<Rightarrow> 'h sent \<times> 'h sent \<Rightarrow> upload_next" where
  "upload_iteration to_str file position replies =
     upload_decided to_str file position (deciding_reply (fst replies) (snd replies))"

text \<open>
  \<open>upload_file\<close>: the loop inside the retried attempt and the retry loop around it, which
  share the position. The result is the content requests prepared so far, the outcome
  (\<open>None\<close> while the client goes on) and the position.
\<close>

fun upload_file ::
  "('h \<Rightarrow> string option) \<Rightarrow> bytes \<Rightarrow> u64 \<Rightarrow> ('h sent \<times> 'h sent) list \<Rightarrow> duration list \<Rightarrow>
   ((string \<times> bytes) list \<times> (error + unit) option \<times> u64) option" where
  "upload_file to_str file position [] schedule = Some ([], None, position)"
| "upload_file to_str file position (r # rs) schedule =
     (case upload_request file position of
        None \<Rightarrow> None
      | Some request \<Rightarrow>
     case upload_iteration to_str file position r of
        TryAgain position' \<Rightarrow>
          map_option (apfst (Cons request)) (upload_file to_str file position' rs schedule)
      | Leave (Inr _) position' \<Rightarrow> Some ([request], Some (Inr ()), position')
      | Leave (Inl e) position' \<Rightarrow>
          if \<not> should_retry e then Some ([request], Some (Inl (re_error e)), position')
          else case adjust e (case schedule of [] \<Rightarrow> None | d # ds \<Rightarrow> Some d) of
            None \<Rightarrow> Some ([request], Some (Inl (re_error e)), position')
          | Some d \<Rightarrow>
              map_option (apfst (Cons request))
                (upload_file to_str file position' rs (tl schedule)))"

text \<open>A request for content from a position of the file, as the relay will read it.\<close>

definition honest_request :: "bytes \<Rightarrow> string \<times> bytes \<Rightarrow> bool" where
  "honest_request file request =
     (case upload_position Some (Some (fst request)) of
        Inl e \<Rightarrow> False
      | Inr p \<Rightarrow> unat p \<le> length file \<and> snd request = drop (unat p) file)"

lemma upload_request_honest:
  assumes "unat position \<le> length file" and "length file < 2 ^ 64"
  shows "\<exists>request. upload_request file position = Some request \<and> honest_request file request"
proof -
  have "position \<le> len64 file"
    using assms by (simp add: word_le_nat_alt unat_len64)
  then have "upload_position Some (Some (upload_content_range position (len64 file))) = Inr position"
    using upload_position_full_range upload_position_star
    by (auto simp: upload_content_range_def Let_def)
  then show ?thesis
    using assms by (simp add: upload_request_def slice_def honest_request_def)
qed

lemma upload_decided_position:
  assumes "length file < 2 ^ 64" and "unat position \<le> length file"
  shows "case upload_decided to_str file position r of
      TryAgain p \<Rightarrow> unat p \<le> length file
    | Leave (Inr u) p \<Rightarrow> p = position
    | Leave (Inl e) p \<Rightarrow> should_retry e \<longrightarrow> unat p \<le> length file"
  using assms
  by (auto simp: upload_decided_def after_conflict_def word_less_nat_alt unat_len64
      should_retry_def retry_retriability_def retry_error_from_def transient_def
      split: sum.splits option.splits)

lemmas upload_iteration_position =
  upload_decided_position [of _ _ _ "deciding_reply (fst r) (snd r)" for r, folded upload_iteration_def]

lemma deciding_reply_success:
  "deciding_reply start content = Inr q \<Longrightarrow> is_success (hr_status q) \<Longrightarrow> content = Inr q"
  by (auto simp: deciding_reply_def start_verdict_def split: sum.splits if_splits)

lemma upload_decided_success:
  assumes "upload_decided to_str file position r = Leave (Inr u) p"
  shows "\<exists>q. r = Inr q \<and> is_success (hr_status q) \<and> hr_upload q = Some UploadResponseOk"
proof (cases r)
  case (Inl e)
  then show ?thesis using assms by (simp add: upload_decided_def)
next
  case (Inr q)
  have nc: "hr_status q \<noteq> CONFLICT"
    using assms Inr by (auto simp: upload_decided_def after_conflict_def split: option.splits if_splits)
  have ok: "is_success (hr_status q)"
    using assms Inr nc
    by (cases "is_success (hr_status q)")
      (auto simp: upload_decided_def response_ok_or_def split: sum.splits)
  then have "hr_upload q = Some UploadResponseOk"
    using assms Inr nc
    by (auto simp: upload_decided_def response_ok_or_def parsed_upload_def
        upload_response_ok_or_def split: option.splits upload_response.splits)
  then show ?thesis using ok Inr by blast
qed

lemma upload_iteration_success:
  assumes "upload_iteration to_str file position r = Leave (Inr u) p"
  shows "\<exists>q. snd r = Inr q \<and> is_success (hr_status q) \<and> hr_upload q = Some UploadResponseOk"
  using upload_decided_success [OF assms [unfolded upload_iteration_def]] deciding_reply_success by metis

definition accepted :: "'h sent \<times> 'h sent \<Rightarrow> bool" where
  "accepted r =
     (\<exists>q. snd r = Inr q \<and> is_success (hr_status q) \<and> hr_upload q = Some UploadResponseOk)"

definition honest_upload ::
  "bytes \<Rightarrow> ('h sent \<times> 'h sent) list \<Rightarrow>
   ((string \<times> bytes) list \<times> (error + unit) option \<times> u64) option \<Rightarrow> bool" where
  "honest_upload F rs outcome =
     (case outcome of
        None \<Rightarrow> False
      | Some (requests, result, p) \<Rightarrow>
          list_all (honest_request F) requests \<and>
          (result = Some (Inr ()) \<longrightarrow> (\<exists>r \<in> set rs. accepted r)))"

lemma honest_upload_Cons:
  "honest_request F request \<Longrightarrow> honest_upload F rs outcome \<Longrightarrow>
   honest_upload F (r # rs) (map_option (apfst (Cons request)) outcome)"
  by (auto simp: honest_upload_def split: option.splits)

lemma upload_file_honest:
  assumes len: "length F < 2 ^ 64"
  shows "unat position \<le> length F \<Longrightarrow> honest_upload F rs (upload_file to_str F position rs schedule)"
proof (induction rs arbitrary: position schedule)
  case Nil
  then show ?case by (simp add: honest_upload_def)
next
  case (Cons r rs)
  obtain request where rq: "upload_request F position = Some request" "honest_request F request"
    using upload_request_honest [OF Cons.prems len] by blast
  note pos = upload_iteration_position [OF len Cons.prems, of to_str r]
  show ?case
  proof (cases "upload_iteration to_str F position r")
    case (TryAgain p)
    then show ?thesis
      using honest_upload_Cons [OF rq(2) Cons.IH] pos rq(1) by simp
  next
    case (Leave x p)
    show ?thesis
    proof (cases x)
      case (Inl e)
      then show ?thesis
        using honest_upload_Cons [OF rq(2) Cons.IH [of p "tl schedule"]] pos Leave rq
        by (auto simp: honest_upload_def [of _ _ "Some _"] split: option.split)
    next
      case (Inr u)
      then have "accepted r"
        using upload_iteration_success Leave unfolding accepted_def by blast
      then show ?thesis using Leave Inr rq by (simp add: honest_upload_def)
    qed
  qed
qed

text \<open>The relayed upload never panics and never lies: whatever the server answers, in
  whatever order and to however many attempts, every content request it makes is read by the
  relay as a position inside the file and carries exactly the file's bytes from there, so
  that the session receives honest chunks; and success is only reported for a successful
  response whose body says \<open>ok\<close>.\<close>

theorem upload_file_requests_honest:
  assumes "length F < 2 ^ 64" and "unat position \<le> length F"
  shows "\<exists>requests result position'.
    upload_file to_str F position rs schedule = Some (requests, result, position') \<and>
    list_all (honest_request F) requests \<and>
    (result = Some (Inr ()) \<longrightarrow>
       (\<exists>r q. r \<in> set rs \<and> snd r = Inr q \<and> is_success (hr_status q) \<and>
          hr_upload q = Some UploadResponseOk))"
  using upload_file_honest [OF assms, of rs to_str schedule]
  by (auto simp: honest_upload_def accepted_def split: option.splits) blast

definition ok_reply :: "string http_reply" where
  "ok_reply = \<lparr>hr_status = 200, hr_retry_after = None, hr_upload = Some UploadResponseOk,
     hr_conflict = None\<rparr>"

definition conflict_reply :: "u64 \<Rightarrow> string http_reply" where
  "conflict_reply p = \<lparr>hr_status = 409, hr_retry_after = None, hr_upload = None,
     hr_conflict = Some p\<rparr>"

lemma example_upload:
  "upload_file Some [10, 11, 12] 0
     [(Inr (conflict_reply 2), Inl TimedOut), (Inr ok_reply, Inr ok_reply)] []
   = Some ([(upload_content_range 0 3, [10, 11, 12]), (upload_content_range 2 3, [12])],
       Some (Inr ()), 2)"
  by (simp add: upload_request_def slice_def upload_iteration_def upload_decided_def deciding_reply_def start_verdict_def
      ok_reply_def conflict_reply_def is_success_def CONFLICT_def after_conflict_def len64_def
      response_ok_or_def parsed_upload_def upload_response_ok_or_def)

theorem upload_file_requests_honest_witness:
  "list_all (honest_request [10, 11, 12])
     [(upload_content_range 0 3, [10, 11, 12]), (upload_content_range 2 3, [12])]"
  using upload_file_requests_honest [of "[10, 11, 12]" 0 Some
      "[(Inr (conflict_reply 2), Inl TimedOut), (Inr ok_reply, Inr ok_reply)]" "[]"]
  by (simp add: example_upload del: upload_file.simps)

subsection \<open>Provisioning a file\<close>

text \<open>
  An attempt of \<open>provision_file\<close> and of \<open>fetch_meta\<close>: a request under the request timeout,
  whose response must be a success.
\<close>

definition request_attempt ::
  "('h \<Rightarrow> string option) \<Rightarrow> string \<Rightarrow> error + u16 \<times> 'h option \<Rightarrow> retry_error + unit" where
  "request_attempt to_str message sent =
     (case sent of
        Inl e \<Rightarrow> Inl (retry_error_from e)
      | Inr (code, header) \<Rightarrow>
          (case response_ok_or to_str message code header of
             Inl e \<Rightarrow> Inl (retry_error_from e)
           | Inr _ \<Rightarrow> Inr ()))"

text \<open>\<open>encrypt_file\<close>: the reads of the file, encrypted as the file's content.\<close>

definition encrypt_file ::
  "(bytes \<Rightarrow> buffer \<Rightarrow> bytes \<Rightarrow> bytes) \<Rightarrow> (bytes \<Rightarrow> bytes \<Rightarrow> bytes) \<Rightarrow> cipher_key \<Rightarrow> bytes \<Rightarrow> bytes \<Rightarrow>
   (string + bytes) list \<Rightarrow> string + encrypted_file" where
  "encrypt_file encrypt hkdf key rnd nonce reads =
     (case read_plaintext_to_end rnd reads of
        Inl e \<Rightarrow> Inl e
      | Inr buffer \<Rightarrow> Inr (content_encrypt encrypt hkdf key nonce buffer Content))"

record provisioned_file =
  pf_size :: u64
  pf_upload_path :: string
  pf_download_id :: string
  pf_key :: cipher_key

text \<open>
  \<open>provision_file_async\<close>: the file's length, and what \<open>provision_file\<close> answers, an upload
  URL and an id. An id with a slash panics.
\<close>

definition provision_file_async ::
  "cipher_key \<Rightarrow> string + u64 \<Rightarrow> error + string \<times> string \<Rightarrow> (error + provisioned_file) option" where
  "provision_file_async key file_len response =
     (case file_len of
        Inl e \<Rightarrow> Some (Inl (IO e))
      | Inr n \<Rightarrow>
          (case response of
             Inl e \<Rightarrow> Some (Inl e)
           | Inr (upload_url, i) \<Rightarrow>
               (case download_id_new i of
                  None \<Rightarrow> None
                | Some d \<Rightarrow> Some (Inr \<lparr>pf_size = n, pf_upload_path = upload_url,
                    pf_download_id = d, pf_key = key\<rparr>))))"

text \<open>
  What is uploaded for a file is what a download of it decrypts to, if the file still has the
  length that was announced.
\<close>

lemma encrypt_file_decrypts:
  assumes "aead_law seal unseal" and "length nonce = NONCE_SIZE" and "length rnd = NONCE_SIZE"
    and "encrypt_file (native_encrypt seal) hkdf key rnd nonce reads = Inr F"
    and "read_all reads = Inr p"
  shows "content_decrypt (native_decrypt unseal) hkdf key F Content = Inr p"
    and "length F = length p + NONCE_SIZE + TAG_SIZE"
proof -
  have F: "F = content_encrypt (native_encrypt seal) hkdf key nonce
      (rnd @ p @ replicate TAG_SIZE 0) Content"
    using assms(4,5) by (simp add: encrypt_file_def read_plaintext_to_end_def from_plaintext_def)
  show "content_decrypt (native_decrypt unseal) hkdf key F Content = Inr p"
    unfolding F by (rule native.content_roundtrip(1) [OF assms(1-3)])
  show "length F = length p + NONCE_SIZE + TAG_SIZE"
    unfolding F by (rule native.content_roundtrip(2) [OF assms(1-3)])
qed

end
