(* ===== verification/Client_Download.thy ===== *)
theory Client_Download
  imports Client_Api
begin

text \<open>
  Downloading over the relay, \<open>download_content\<close> of \<^verbatim>\<open>api_client.rs\<close>: an attempt asks for the
  rest of the file from the offset reached, streams the answer into the file and closes it;
  failed attempts are retried and resume. Also \<open>finish_download\<close>.
\<close>

subsection \<open>Downloading over the relay\<close>

datatype stream_item = StreamData bytes | StreamFailed string | StreamTimeout

type_synonym progress = "(u64 \<times> u64) list"

text \<open>The loop over the body's stream: each item counts as progress and is written.\<close>

fun stream_to_file ::
  "u64 \<Rightarrow> u64 \<Rightarrow> u64 \<Rightarrow> decrypted_file \<times> progress \<Rightarrow> stream_item list \<Rightarrow>
   ((retry_error + unit) \<times> decrypted_file \<times> progress) option" where
  "stream_to_file offset whole downloaded (f, log) [] = Some (Inr (), f, log)"
| "stream_to_file offset whole downloaded (f, log) (StreamFailed e # items) =
     Some (Inl (retry_error_from (HTTPClient e)), f, log)"
| "stream_to_file offset whole downloaded (f, log) (StreamTimeout # items) =
     Some (Inl (retry_error_from TimedOut), f, log)"
| "stream_to_file offset whole downloaded (f, log) (StreamData d # items) =
     (let downloaded' = downloaded + len64 d; log' = log @ [(offset + downloaded', whole)]
      in case write_all f d of
           None \<Rightarrow> None
         | Some (Inl e, f') \<Rightarrow> Some (Inl (permanent (IO e)), f', log')
         | Some (Inr _, f') \<Rightarrow> stream_to_file offset whole downloaded' (f', log') items)"

text \<open>Awaiting a flush or a close: the polls go on until the write to the target has ended.\<close>

definition awaited ::
  "((string + unit) poll \<times> decrypted_file) option \<Rightarrow> progress \<Rightarrow>
   ((retry_error + unit) \<times> decrypted_file \<times> progress) option" where
  "awaited r log =
     (case r of
        Some (Ready (Inr _), f) \<Rightarrow> Some (Inr (), f, log)
      | Some (Ready (Inl e), f) \<Rightarrow> Some (Inl (permanent (IO e)), f, log)
      | _ \<Rightarrow> None)"

text \<open>How the write to the target ends: well, or with an error after some more bytes.\<close>

type_synonym write_end = "(nat \<times> string) option"

record 'h download_reply =
  dr_sent :: "error + u16 \<times> 'h option"
  dr_items :: "stream_item list"
  dr_io :: write_end

definition final_io :: "write_end \<Rightarrow> io" where
  "final_io r = (case r of None \<Rightarrow> IoDone | Some (n, e) \<Rightarrow> IoFailed n e)"

text \<open>One attempt of \<open>download_content\<close>; the server answers the \<open>Range\<close> header it is sent.\<close>

definition download_attempt ::
  "(bytes \<Rightarrow> error + bytes) \<Rightarrow> ('h \<Rightarrow> string option) \<Rightarrow> u64 \<Rightarrow> decrypted_file \<times> progress \<Rightarrow>
   (string \<Rightarrow> 'h download_reply) \<Rightarrow>
   ((retry_error + unit) \<times> decrypted_file \<times> progress) option" where
  "download_attempt decrypt to_str content_size st server =
     (case file_offset (fst st) of
        None \<Rightarrow> None
      | Some content_offset \<Rightarrow>
          (let reply = server (download_range content_offset)
           in case dr_sent reply of
                Inl e \<Rightarrow> Some (Inl (retry_error_from e), st)
              | Inr (code, header) \<Rightarrow>
             case response_ok_or to_str ''failed to download content'' code header of
                Inl e \<Rightarrow> Some (Inl (retry_error_from e), st)
              | Inr _ \<Rightarrow>
             case stream_to_file content_offset content_size 0 st (dr_items reply) of
                None \<Rightarrow> None
              | Some (Inl e, st') \<Rightarrow> Some (Inl e, st')
              | Some (Inr _, f, log) \<Rightarrow>
             case awaited (poll_flush decrypt f (final_io (dr_io reply))) log of
                None \<Rightarrow> None
              | Some (Inl e, st') \<Rightarrow> Some (Inl e, st')
              | Some (Inr _, f', log') \<Rightarrow>
                  awaited (poll_close decrypt f' (final_io (dr_io reply))) log'))"

text \<open>The retry loop around a stateful attempt.\<close>

fun retry_with ::
  "('s \<Rightarrow> 'i \<Rightarrow> ((retry_error + 'a) \<times> 's) option) \<Rightarrow> 's \<Rightarrow> 'i list \<Rightarrow> duration list \<Rightarrow>
   ((error + 'a) option \<times> 's) option" where
  "retry_with attempt s [] schedule = Some (None, s)"
| "retry_with attempt s (i # is) schedule =
     (case attempt s i of
        None \<Rightarrow> None
      | Some (Inr a, s') \<Rightarrow> Some (Some (Inr a), s')
      | Some (Inl e, s') \<Rightarrow>
          if \<not> should_retry e then Some (Some (Inl (re_error e)), s')
          else case adjust e (case schedule of [] \<Rightarrow> None | d # ds \<Rightarrow> Some d) of
            None \<Rightarrow> Some (Some (Inl (re_error e)), s')
          | Some d \<Rightarrow> retry_with attempt s' is (tl schedule))"

definition download_content ::
  "(bytes \<Rightarrow> error + bytes) \<Rightarrow> ('h \<Rightarrow> string option) \<Rightarrow> u64 \<Rightarrow> decrypted_file \<Rightarrow>
   (string \<Rightarrow> 'h download_reply) list \<Rightarrow> duration list \<Rightarrow>
   ((error + unit) option \<times> decrypted_file \<times> progress) option" where
  "download_content decrypt to_str content_size f servers schedule =
     retry_with (download_attempt decrypt to_str content_size) (f, []) servers schedule"

text \<open>\<open>finish_download\<close>: an attempt treats a session that is gone as finished.\<close>

definition finish_attempt ::
  "('h \<Rightarrow> string option) \<Rightarrow> error + u16 \<times> 'h option \<Rightarrow> retry_error + unit" where
  "finish_attempt to_str sent =
     (case sent of
        Inl e \<Rightarrow> Inl (retry_error_from e)
      | Inr (code, header) \<Rightarrow>
          if code = 404 then Inr ()
          else case response_ok_or to_str ''failed to finish download'' code header of
            Inl e \<Rightarrow> Inl (retry_error_from e)
          | Inr _ \<Rightarrow> Inr ())"

text \<open>
  A server that serves one ciphertext: whatever position it is asked for, the data of its
  answer is a prefix of the content from there.
\<close>

definition item_data :: "stream_item \<Rightarrow> bytes" where
  "item_data i = (case i of StreamData d \<Rightarrow> d | _ \<Rightarrow> [])"

lemma item_data_simps [simp]: "item_data (StreamData d) = d"
  by (simp add: item_data_def)

definition serves :: "bytes \<Rightarrow> (string \<Rightarrow> 'h download_reply) \<Rightarrow> bool" where
  "serves F server =
     (\<forall>p. prefix (concat (map item_data (dr_items (server (download_range p))))) (drop (unat p) F))"

text \<open>What a relayed download has in its file between attempts: a prefix of the ciphertext.\<close>

definition partial_file :: "bytes \<Rightarrow> u64 \<Rightarrow> decrypted_file \<Rightarrow> bool" where
  "partial_file F n f =
     (df_size f = n \<and> df_taken f = [] \<and>
      (case df_state f of Unwritten data \<Rightarrow> prefix data F | _ \<Rightarrow> False))"

lemma prefix_step:
  "prefix (d @ r) (drop (length data) F) \<Longrightarrow> prefix data F \<Longrightarrow>
   prefix (data @ d) F \<and> prefix r (drop (length (data @ d)) F)"
  by (auto simp: prefix_def)

lemma stream_to_file_partial:
  assumes "stream_to_file offset whole downloaded (f, log) items = Some (r, f', log')"
    and "df_state f = Unwritten data" and "prefix data F" and "df_taken f = []"
    and "prefix (concat (map item_data items)) (drop (length data) F)"
  shows "\<exists>data'. f' = f\<lparr>df_state := Unwritten data'\<rparr> \<and> prefix data' F"
  using assms
proof (induction items arbitrary: f log downloaded data)
  case Nil
  then show ?case by (intro exI [of _ data]) simp
next
  case (Cons i items)
  show ?case
  proof (cases i)
    case (StreamData d)
    let ?f = "f\<lparr>df_state := Unwritten (data @ d)\<rparr>"
    have w: "write_all f d = Some (Inr (), ?f)"
      using Cons.prems(2) by (simp add: write_all_def poll_write_def)
    have s: "stream_to_file offset whole (downloaded + len64 d)
        (?f, log @ [(offset + (downloaded + len64 d), whole)]) items = Some (r, f', log')"
      using Cons.prems(1) StreamData w by (simp add: Let_def)
    have p: "prefix (data @ d) F" "prefix (concat (map item_data items)) (drop (length (data @ d)) F)"
      using Cons.prems(3,5) prefix_step [of d _ data F] StreamData by auto
    from Cons.IH [OF s _ p(1) _ p(2)] Cons.prems(4) show ?thesis by auto
  qed (use Cons.prems in \<open>auto intro: exI [of _ data]\<close>)
qed

lemma stream_to_file_returns:
  assumes "df_state f = Unwritten data"
  shows "stream_to_file offset whole downloaded (f, log) items \<noteq> None"
  using assms
proof (induction items arbitrary: f log downloaded data)
  case (Cons i items)
  show ?case
  proof (cases i)
    case (StreamData d)
    let ?f = "f\<lparr>df_state := Unwritten (data @ d)\<rparr>"
    have "write_all f d = Some (Inr (), ?f)"
      using Cons.prems by (simp add: write_all_def poll_write_def)
    then show ?thesis using Cons.IH [of ?f "data @ d"] StreamData by (simp add: Let_def)
  qed simp_all
qed simp

text \<open>Flush and close of a file that holds \<open>data\<close>: complete, short, or failed.\<close>

definition finished :: "(bytes \<Rightarrow> error + bytes) \<Rightarrow> bytes \<Rightarrow> u64 \<Rightarrow> retry_error + unit \<Rightarrow> decrypted_file \<Rightarrow> bool" where
  "finished decrypt data n r f =
     (case r of
        Inr _ \<Rightarrow> length data = unat n \<and> (\<exists>p. decrypt data = Inr p \<and> df_target f = Some p)
      | Inl e \<Rightarrow> \<not> should_retry e \<and> df_target f = None \<and>
          (df_taken f \<noteq> [] \<longrightarrow> length data = unat n \<and> target_begins decrypt data f))"

lemma not_retried_permanent [simp]: "\<not> should_retry (permanent e)"
  by (simp add: should_retry_def permanent_def retry_retriability_def)

lemma close_file:
  assumes "df_state f = Unwritten data" and "df_taken f = []"
  shows "\<exists>r f' log'.
    (case awaited (poll_flush decrypt f (final_io io)) log of
       None \<Rightarrow> None
     | Some (Inl e, st) \<Rightarrow> Some (Inl e, st)
     | Some (Inr _, f1, log1) \<Rightarrow> awaited (poll_close decrypt f1 (final_io io)) log1)
    = Some (r, f', log') \<and> finished decrypt data (df_size f) r f'"
proof (cases "length data = unat (df_size f)")
  case False
  then show ?thesis
    using assms by (simp add: poll_flush_def poll_close_def awaited_def finished_def)
next
  case True
  obtain q f1 where w: "drive_write decrypt f data (final_io io) = (q, f1)" by fastforce
  then have fl: "poll_flush decrypt f (final_io io) = Some (q, f1)"
    using assms True by (simp add: poll_flush_def)
  note d = drive_write_begins [OF w target_begins_empty [OF assms(2)]]
  have "q \<noteq> Waiting"
    using w by (cases io; cases "decrypt data") (auto simp: drive_write_def poll_pending_def final_io_def)
  then consider e where "q = Ready (Inl e)" | "q = Ready (Inr ())"
    by (cases q rule: poll.exhaust; cases "case q of Ready r \<Rightarrow> r") auto
  then show ?thesis
  proof cases
    case 1
    then show ?thesis using fl d True by (simp add: awaited_def finished_def)
  next
    case 2
    then have "poll_close decrypt f1 (final_io io) = Some (Ready (Inr ()), f1)"
      using d by (simp add: poll_close_def poll_flush_def)
    then show ?thesis using fl d 2 True by (simp add: awaited_def finished_def)
  qed
qed

text \<open>What an attempt or a transfer that fails leaves: a target that is not complete.\<close>

definition left_begun :: "(bytes \<Rightarrow> error + bytes) \<Rightarrow> bytes \<Rightarrow> u64 \<Rightarrow> decrypted_file \<Rightarrow> bool" where
  "left_begun decrypt F n f =
     (df_target f = None \<and>
      (df_taken f \<noteq> [] \<longrightarrow> unat n \<le> length F \<and> target_begins decrypt (take (unat n) F) f))"

lemma left_begun_partial: "partial_file F n f \<Longrightarrow> left_begun decrypt F n f"
  by (auto simp: partial_file_def left_begun_def split: write_state.splits)

lemma download_attempt_outcome:
  assumes pf: "partial_file F n f" and server: "serves F server" and len: "length F < 2 ^ 64"
  shows "\<exists>r f' log'. download_attempt decrypt to_str whole (f, log) server = Some (r, f', log') \<and>
    (case r of
       Inr _ \<Rightarrow> unat n \<le> length F \<and> (\<exists>p. decrypt (take (unat n) F) = Inr p \<and> df_target f' = Some p)
     | Inl e \<Rightarrow> left_begun decrypt F n f' \<and> (should_retry e \<longrightarrow> partial_file F n f'))"
proof -
  obtain data where d: "df_state f = Unwritten data" "prefix data F" "df_taken f = []"
    "df_size f = n"
    using pf by (auto simp: partial_file_def split: write_state.splits)
  let ?off = "len64 data" and ?reply = "server (download_range (len64 data))"
  have off: "file_offset f = Some ?off" using d by (simp add: file_offset_def)
  have l: "length data < 2 ^ 64" using prefix_length_le [OF d(2)] len by simp
  have items: "prefix (concat (map item_data (dr_items ?reply))) (drop (length data) F)"
    using server [unfolded serves_def, rule_format, of ?off] unat_len64 [OF l] by simp
  show ?thesis
  proof (cases "\<exists>code header. dr_sent ?reply = Inr (code, header) \<and>
      response_ok_or to_str ''failed to download content'' code header = Inr ()")
    case False
    then show ?thesis
      using off pf d left_begun_partial [OF pf, of decrypt]
      by (auto simp: download_attempt_def Let_def split: sum.splits)
  next
    case True
    obtain r1 f1 log1 where s: "stream_to_file ?off whole 0 (f, log) (dr_items ?reply)
        = Some (r1, f1, log1)"
      using stream_to_file_returns [OF d(1)] by (metis option.exhaust prod_cases3)
    obtain data' where f1: "f1 = f\<lparr>df_state := Unwritten data'\<rparr>" "prefix data' F"
      using stream_to_file_partial [OF s d(1,2,3) items] by blast
    have pf1: "partial_file F n f1" using f1 d by (simp add: partial_file_def)
    show ?thesis
    proof (cases r1)
      case (Inl e)
      then show ?thesis
        using True off s pf1 left_begun_partial [OF pf1, of decrypt] by (auto simp: download_attempt_def Let_def)
    next
      case (Inr u)
      obtain r f' log' where c: "(case awaited (poll_flush decrypt f1 (final_io (dr_io ?reply))) log1 of
          None \<Rightarrow> None
        | Some (Inl e, st) \<Rightarrow> Some (Inl e, st)
        | Some (Inr _, f1, log1) \<Rightarrow> awaited (poll_close decrypt f1 (final_io (dr_io ?reply))) log1)
        = Some (r, f', log')" "finished decrypt data' n r f'"
        using close_file [of f1 data' decrypt "dr_io ?reply" log1] f1 d by auto
      have "download_attempt decrypt to_str whole (f, log) server = Some (r, f', log')"
        using True off s Inr c(1) by (auto simp: download_attempt_def Let_def)
      moreover have "length data' = unat n \<Longrightarrow> take (unat n) F = data' \<and> unat n \<le> length F"
        using prefix_take [OF f1(2)] by blast
      ultimately show ?thesis using c(2) by (auto simp: finished_def left_begun_def split: sum.splits if_splits)
    qed
  qed
qed

text \<open>
  The contract of an attempt that is retried: it returns, an error that is retried leaves the
  invariant, and a final outcome is as promised. Under it so is that of the retry loop.
\<close>

locale retried =
  fixes attempt :: "'s \<Rightarrow> 'i \<Rightarrow> ((retry_error + 'a) \<times> 's) option"
    and inv :: "'s \<Rightarrow> bool" and allowed :: "'i \<Rightarrow> bool"
    and success :: "'s \<Rightarrow> bool" and failure :: "'s \<Rightarrow> bool"
  assumes attempt_outcome: "inv s \<Longrightarrow> allowed i \<Longrightarrow>
    \<exists>r s'. attempt s i = Some (r, s') \<and>
      (case r of Inr _ \<Rightarrow> success s' | Inl e \<Rightarrow> failure s' \<and> (should_retry e \<longrightarrow> inv s'))"
begin

lemma retry_with_outcome:
  "inv s \<Longrightarrow> list_all allowed is \<Longrightarrow>
   \<exists>result s'. retry_with attempt s is schedule = Some (result, s') \<and>
     (case result of None \<Rightarrow> inv s' | Some (Inl _) \<Rightarrow> failure s' | Some (Inr _) \<Rightarrow> success s')"
proof (induction "is" arbitrary: s schedule)
  case Nil
  then show ?case by simp
next
  case (Cons i "is")
  obtain r s' where a: "attempt s i = Some (r, s')"
    and o: "case r of Inr _ \<Rightarrow> success s' | Inl e \<Rightarrow> failure s' \<and> (should_retry e \<longrightarrow> inv s')"
    using attempt_outcome [OF Cons.prems(1), of i] Cons.prems(2) by auto
  show ?case
  proof (cases r)
    case (Inl e)
    then show ?thesis
      using a o Cons.IH [of s' "tl schedule"] Cons.prems(2) by (auto split: option.split)
  qed (use a o in auto)
qed

end

definition relayed_inv :: "bytes \<Rightarrow> u64 \<Rightarrow> decrypted_file \<times> progress \<Rightarrow> bool" where
  "relayed_inv F n st = (partial_file F n (fst st) \<and> length F < 2 ^ 64)"

definition relayed_done :: "(bytes \<Rightarrow> error + bytes) \<Rightarrow> bytes \<Rightarrow> u64 \<Rightarrow> decrypted_file \<times> progress \<Rightarrow> bool" where
  "relayed_done decrypt F n st =
     (unat n \<le> length F \<and>
      (\<exists>p. decrypt (take (unat n) F) = Inr p \<and> df_target (fst st) = Some p))"

interpretation relayed: retried "download_attempt decrypt to_str whole" "relayed_inv F n" "serves F"
    "relayed_done decrypt F n" "\<lambda>st. left_begun decrypt F n (fst st)"
proof
  fix st and server :: "string \<Rightarrow> 'a download_reply"
  assume i: "relayed_inv F n st" and s: "serves F server"
  obtain f log where st: "st = (f, log)" by (cases st)
  have "partial_file F n f" "length F < 2 ^ 64" using i st by (simp_all add: relayed_inv_def)
  from download_attempt_outcome [OF this(1) s this(2)] this(2)
  show "\<exists>r st'. download_attempt decrypt to_str whole st server = Some (r, st') \<and>
      (case r of
         Inr _ \<Rightarrow> relayed_done decrypt F n st'
       | Inl e \<Rightarrow> left_begun decrypt F n (fst st') \<and> (should_retry e \<longrightarrow> relayed_inv F n st'))"
    unfolding st relayed_inv_def relayed_done_def by (fastforce split: sum.splits)
qed

text \<open>C18: A relayed download resumes where it stopped and ends with the right file. Start from a
  file that holds a prefix of one ciphertext, and let every attempt be answered, if at all,
  with data of that ciphertext from the offset its \<open>Range\<close> header names (cut off anywhere, as
  the relay property allows). Then, over any attempts and schedule, the client does not
  panic; it reports success only with the target holding the decryption of the first
  \<open>file_size + 28\<close> bytes of the ciphertext; after an error the target has not been completed, and has taken
  at most a beginning of that decryption (when writing to it failed), or nothing; and between
  attempts the file holds a prefix again and the target is untouched.\<close>

theorem relayed_download_resumes:
  assumes "partial_file F n f" and "list_all (serves F) servers" and "length F < 2 ^ 64"
  shows "\<exists>result f' log. download_content decrypt to_str whole f servers schedule = Some (result, f', log) \<and>
    (case result of
       None \<Rightarrow> partial_file F n f'
     | Some (Inl e) \<Rightarrow> df_target f' = None \<and>
         (df_taken f' \<noteq> [] \<longrightarrow> unat n \<le> length F \<and>
            (\<exists>p. decrypt (take (unat n) F) = Inr p \<and> prefix (df_taken f') p))
     | Some (Inr _) \<Rightarrow> unat n \<le> length F \<and>
         (\<exists>p. decrypt (take (unat n) F) = Inr p \<and> df_target f' = Some p))"
proof -
  have "relayed_inv F n (f, [])" using assms by (simp add: relayed_inv_def)
  from relayed.retry_with_outcome [OF this assms(2), of decrypt to_str whole schedule]
  obtain result f' log where
    "download_content decrypt to_str whole f servers schedule = Some (result, f', log)"
    "case result of None \<Rightarrow> relayed_inv F n (f', log) | Some (Inl _) \<Rightarrow> left_begun decrypt F n (fst (f', log))
       | Some (Inr _) \<Rightarrow> relayed_done decrypt F n (f', log)"
    unfolding download_content_def by auto
  then show ?thesis
    by (cases result; cases "the result")
      (auto simp: relayed_inv_def relayed_done_def left_begun_def target_begins_def)
qed

text \<open>A server that answers at most \<open>k\<close> bytes and then fails, over the relay's own parser.\<close>

definition example_server :: "bytes \<Rightarrow> nat \<Rightarrow> string \<Rightarrow> string download_reply" where
  "example_server F k header =
     (case download_position Some (Some header) of
        Inr (At p) \<Rightarrow>
          \<lparr>dr_sent = Inr (200, None),
           dr_items = StreamData (take k (drop (unat p) F))
             # (if length F \<le> unat p + k then [] else [StreamTimeout]),
           dr_io = None\<rparr>
      | _ \<Rightarrow> \<lparr>dr_sent = Inr (400, None), dr_items = [], dr_io = None\<rparr>)"

lemma example_server_serves: "serves F (example_server F k)"
  by (simp add: serves_def example_server_def download_position_range take_is_prefix
      item_data_def)

theorem relayed_download_resumes_witness:
  "\<exists>result f' log. download_content Inr Some 2 (decrypt_file 2)
       [example_server (replicate 30 5) 20, example_server (replicate 30 5) 20] [1]
     = Some (result, f', log) \<and>
     (case result of
        None \<Rightarrow> partial_file (replicate 30 5) 30 f'
      | Some (Inl e) \<Rightarrow> df_target f' = None \<and>
          (df_taken f' \<noteq> [] \<longrightarrow> unat (30 :: u64) \<le> length (replicate 30 (5 :: u8)) \<and>
             (\<exists>p. (Inr (take (unat (30 :: u64)) (replicate 30 5)) :: error + bytes) = Inr p \<and>
                prefix (df_taken f') p))
      | Some (Inr _) \<Rightarrow> unat (30 :: u64) \<le> length (replicate 30 (5 :: u8)) \<and>
          (\<exists>p. (Inr (take (unat (30 :: u64)) (replicate 30 5)) :: error + bytes) = Inr p \<and>
             df_target f' = Some p))"
proof (rule relayed_download_resumes)
  show "partial_file (replicate 30 5) 30 (decrypt_file 2)"
    by (simp add: partial_file_def decrypt_file_def extra_ciphertext_len_def sizes)
qed (simp_all add: example_server_serves)

subsection \<open>Complete responses\<close>

lemma stream_to_file_all:
  "df_state f = Unwritten data \<Longrightarrow>
   \<exists>log'. stream_to_file offset whole downloaded (f, log) (map StreamData bs)
     = Some (Inr (), f\<lparr>df_state := Unwritten (data @ concat bs)\<rparr>, log')"
proof (induction bs arbitrary: f data log downloaded)
  case (Cons b bs)
  then have "write_all f b = Some (Inr (), f\<lparr>df_state := Unwritten (data @ b)\<rparr>)"
    by (simp add: write_all_def poll_write_def)
  then show ?case
    using Cons.IH [of "f\<lparr>df_state := Unwritten (data @ b)\<rparr>" "data @ b"] by (simp add: Let_def)
qed simp

text \<open>A response that is complete ends the download: if an attempt is answered with all of the
  ciphertext that the file still lacks, and the target takes the plaintext, the download
  succeeds with that attempt, whatever else could follow.\<close>

theorem complete_response_finishes:
  assumes f: "partial_file F n f" "unat n = length F" "length F < 2 ^ 64" and d: "decrypt F = Inr p"
    and reply: "\<And>q. unat q \<le> length F \<Longrightarrow> \<exists>bs. concat bs = drop (unat q) F \<and>
      server (download_range q) = \<lparr>dr_sent = Inr (200, None), dr_items = map StreamData bs, dr_io = None\<rparr>"
  shows "\<exists>f' log. download_content decrypt to_str whole f (server # servers) schedule
      = Some (Some (Inr ()), f', log) \<and> df_target f' = Some p"
proof -
  obtain data where st: "df_state f = Unwritten data" "prefix data F" "df_size f = n"
    using f(1) by (auto simp: partial_file_def split: write_state.splits)
  have l: "unat (len64 data) = length data" and le: "length data \<le> length F"
    using prefix_length_le [OF st(2)] f(3) by (simp_all add: unat_len64)
  obtain bs where bs: "concat bs = drop (length data) F" and
    sv: "server (download_range (len64 data)) = \<lparr>dr_sent = Inr (200, None), dr_items = map StreamData bs, dr_io = None\<rparr>"
    using reply [of "len64 data"] l le by auto
  have all: "data @ concat bs = F" using bs st(2) by (auto simp: prefix_def)
  let ?f1 = "f\<lparr>df_state := Unwritten F\<rparr>" and ?f2 = "f\<lparr>df_state := Complete, df_taken := p\<rparr>"
  obtain log1 where s: "stream_to_file (len64 data) whole 0 (f, []) (map StreamData bs)
      = Some (Inr (), ?f1, log1)"
    using stream_to_file_all [OF st(1)] all by metis
  have "poll_flush decrypt ?f1 IoDone = Some (Ready (Inr ()), ?f2)"
    using f(2) st(3) d by (simp add: poll_flush_def drive_write_def poll_pending_def)
  moreover have "poll_close decrypt ?f2 IoDone = Some (Ready (Inr ()), ?f2)"
    by (simp add: poll_close_def poll_flush_def)
  ultimately have "download_attempt decrypt to_str whole (f, []) server = Some (Inr (), ?f2, log1)"
    using s sv st(1)
    by (simp add: download_attempt_def file_offset_def response_ok_or_def is_success_def final_io_def
        awaited_def Let_def)
  then show ?thesis by (simp add: download_content_def)
qed

theorem complete_response_finishes_witness:
  "\<exists>f' log. download_content Inr Some 2 (decrypt_file 2)
       [\<lambda>r. example_server (replicate 30 5) 30 r] [] = Some (Some (Inr ()), f', log) \<and>
     df_target f' = Some (replicate 30 5)"
proof (rule complete_response_finishes [where n = 30])
  show "unat (30 :: u64) = length (replicate 30 (5 :: u8))" by simp
  fix q :: u64 assume "unat q \<le> length (replicate 30 (5 :: u8))"
  then show "\<exists>bs. concat bs = drop (unat q) (replicate 30 5) \<and>
      example_server (replicate 30 5) 30 (download_range q)
        = \<lparr>dr_sent = Inr (200, None), dr_items = map StreamData bs, dr_io = None\<rparr>"
    by (intro exI [of _ "[drop (unat q) (replicate 30 5)]"])
      (simp add: example_server_def download_position_range)
qed (simp_all add: partial_file_def decrypt_file_def extra_ciphertext_len_def sizes)

text \<open>The progress of a relayed download is measured in bytes of the ciphertext but against the
  size of the plaintext: a complete download ends beyond its total.\<close>

theorem relayed_progress_exceeds_total:
  "\<exists>f'. download_content Inr Some 2 (decrypt_file 2) [example_server (replicate 30 5) 30] []
     = Some (Some (Inr ()), f', [(30, 2)])"
proof -
  have e: "download_position Some (Some (download_range 0)) = Inr (At 0)"
    by (rule download_position_range)
  show ?thesis
    by (simp add: download_content_def download_attempt_def file_offset_def decrypt_file_def
        example_server_def e response_ok_or_def is_success_def write_all_def poll_write_def
        awaited_def final_io_def poll_flush_def poll_close_def drive_write_def poll_pending_def
        extra_ciphertext_len_def sizes len64_def Let_def)
qed

end
