(* ===== verification/Relayed_Transfer.thy ===== *)
theory Relayed_Transfer
  imports Relay_System Client_Download
begin

text \<open>
  The two clients around the relay: the content requests of \<open>ApiClient::upload_file\<close> as they
  reach the upload handlers, and the response streams of the download handler as
  \<open>ApiClient::download_content\<close> reads them.
\<close>

subsection \<open>Uploads of the client\<close>

text \<open>How a request body arrives: cut into items anywhere, and possibly broken off.\<close>

definition arrives_as :: "bytes \<Rightarrow> body_items \<Rightarrow> bool" where
  "arrives_as data items =
     (\<exists>bs. (items = map Inr bs \<and> concat bs = data) \<or>
        (items = map Inr bs @ [Inl ()] \<and> prefix (concat bs) data))"

definition client_request :: "bytes \<Rightarrow> string \<times> bytes \<Rightarrow> bool" where
  "client_request F request =
     (\<exists>position rs schedule requests result q.
        unat position \<le> length F \<and>
        upload_file Some F position rs schedule = Some (requests, result, q) \<and>
        request \<in> set requests)"

definition client_event :: "bytes \<Rightarrow> sys_event \<Rightarrow> bool" where
  "client_event F ev =
     (case ev of
        UploadArrives t header items \<Rightarrow>
          (\<exists>request. client_request F request \<and> header = Some (fst request) \<and>
             arrives_as (snd request) items)
      | _ \<Rightarrow> True)"

lemma body_ok_broken: "prefix (concat bs) rest \<Longrightarrow> body_ok rest (map Inr bs @ [Inl ()])"
proof (induction bs arbitrary: rest)
  case (Cons b bs)
  then obtain r where r: "rest = b @ concat bs @ r" by (auto simp: prefix_def)
  then show ?case using Cons.IH [of "concat bs @ r"] by simp
qed simp

lemma arrives_ok: "arrives_as data items \<Longrightarrow> body_ok data items"
  by (auto simp: arrives_as_def body_ok_items body_ok_broken)

lemma client_request_honest:
  assumes "client_request F request" and "length F < 2 ^ 64"
  shows "honest_request F request"
proof -
  obtain position rs schedule requests result q where p: "unat position \<le> length F"
    and u: "upload_file Some F position rs schedule = Some (requests, result, q)"
    and r: "request \<in> set requests"
    using assms(1) by (auto simp: client_request_def)
  have "honest_upload F rs (upload_file Some F position rs schedule)"
    by (rule upload_file_honest [OF assms(2) p])
  then have "list_all (honest_request F) requests" by (simp add: honest_upload_def u)
  then show ?thesis using r by (simp add: list_all_iff)
qed

lemma client_event_honest: "client_event F ev \<Longrightarrow> length F < 2 ^ 64 \<Longrightarrow> event_honest F ev"
  by (auto simp: client_event_def event_honest_def honest_request_def arrives_ok
      dest!: client_request_honest split: sys_event.splits sum.splits)

subsection \<open>Downloads of the client\<close>

text \<open>The answer to a download request: the handler's stream as far as it was received, and how it
  ended.\<close>

definition stream_end :: "response_end \<Rightarrow> stream_item list" where
  "stream_end e =
     (case e of
        Ended \<Rightarrow> []
      | ConnectionLost \<Rightarrow> [StreamFailed ''connection lost'']
      | ReadTimeout \<Rightarrow> [StreamTimeout])"

text \<open>
  One attempt of the download: the relay it meets, or what came instead of its answer (an error
  of the request or another status), and how the write to the target ends if it comes to that.
\<close>

record download_try =
  dy_relay :: relay_attempt
  dy_refused :: "(error + u16 \<times> string option) option"
  dy_write :: write_end

definition relay_server ::
  "encoder \<Rightarrow> session_id \<Rightarrow> string \<Rightarrow> download_try \<Rightarrow> string \<Rightarrow> string download_reply" where
  "relay_server pb i m a range_header =
     (case (dy_refused a, download_position Some (Some range_header)) of
        (Some refusal, _) \<Rightarrow> \<lparr>dr_sent = refusal, dr_items = [], dr_io = dy_write a\<rparr>
      | (None, Inr (At p)) \<Rightarrow>
          \<lparr>dr_sent = Inr (200, None),
           dr_items = map StreamData (relay_items pb i m (dy_relay a) p) @ stream_end (ra_end (dy_relay a)),
           dr_io = dy_write a\<rparr>
      | _ \<Rightarrow> \<lparr>dr_sent = Inr (400, None), dr_items = [], dr_io = dy_write a\<rparr>)"

lemma stream_end_data [simp]: "concat (map item_data (stream_end e)) = []"
  by (cases e) (simp_all add: stream_end_def item_data_def)

lemma relay_server_serves:
  assumes "attempt_honest F (dy_relay a)" and "length F < 2 ^ 64"
  shows "serves F (relay_server pb i m a)"
proof -
  have "concat (map item_data (map StreamData bs)) = concat bs" for bs
    by (induction bs) simp_all
  then show ?thesis
    using relay_items_prefix [OF assms]
    by (cases "dy_refused a") (simp_all add: serves_def relay_server_def download_position_range)
qed

text \<open>A relay to which only the client uploads.\<close>

definition client_attempt :: "bytes \<Rightarrow> relay_attempt \<Rightarrow> bool" where
  "client_attempt F a =
     (\<forall>p. list_all (client_event F) (ra_before a p @ ra_after a p) \<and>
        distinct (ra_events a # started_events (ra_before a p @ ra_after a p)))"

lemma client_attempt_serves:
  assumes "client_attempt F (dy_relay a)" and "length F < 2 ^ 64"
  shows "serves F (relay_server pb i m a)"
proof -
  have "list_all (client_event F) evs \<Longrightarrow> list_all (event_honest F) evs" for evs
    using assms(2) by (auto simp: list_all_iff intro: client_event_honest)
  then have "attempt_honest F (dy_relay a)" using assms(1) unfolding client_attempt_def attempt_honest_def by blast
  then show ?thesis using assms(2) by (rule relay_server_serves)
qed

subsection \<open>An example\<close>

text \<open>An uploader that sends all there is from the position a download asks for.\<close>

definition upload_events :: "bytes \<Rightarrow> position \<Rightarrow> sys_event list" where
  "upload_events F p =
     [UploadArrives 1 (Some (upload_content_range p (len64 F))) [Inr (drop (unat p) F)],
      UploadTurn 1 1, UploadTurn 1 2, UploadTurn 1 3]"

definition example_attempt :: "bytes \<Rightarrow> relay_attempt" where
  "example_attempt F =
     \<lparr>ra_before = (\<lambda>p. upload_events F (if unat p \<le> length F then p else 0)), ra_after = (\<lambda>p. []),
      ra_token = 9, ra_events = 7, ra_waiter = 4, ra_received = 1, ra_end = Ended\<rparr>"

definition example_try :: "bytes \<Rightarrow> download_try" where
  "example_try F = \<lparr>dy_relay = example_attempt F, dy_refused = None, dy_write = None\<rparr>"

lemma range_position:
  assumes "unat p \<le> length F" and "length F < 2 ^ 64"
  shows "upload_position Some (Some (upload_content_range p (len64 F))) = Inr p"
proof -
  have "p \<le> len64 F" using assms by (simp add: word_le_nat_alt unat_len64)
  then show ?thesis
    using upload_position_full_range upload_position_star by (auto simp: upload_content_range_def Let_def)
qed

lemma example_attempt_items:
  assumes "unat p \<le> length F" and "length F < 2 ^ 64"
  shows "relay_items (\<lambda>_. []) i m (example_attempt F) p = [drop (unat p) F]"
  using assms
  by (simp add: relay_items_def relay_run_def example_attempt_def upload_events_def range_position
      system_new_def initial_state_def submit_def continue_def start_upload_def
      check_start_position_def upload_data_def flush_upload_def start_download_def
      replace_downloader_def take_pending_def chunk_len_def into_event_def send_upload_progress_def
      reply_to_def terminate_uploader_def uploader_token_def sent_by_upload_def wake_def
      take_reply_def or_not_found_def Let_def)

lemma example_attempt_client:
  assumes "length F < 2 ^ 64"
  shows "client_attempt F (example_attempt F)"
proof -
  have "client_event F (UploadArrives 1 (Some (upload_content_range q (len64 F))) [Inr (drop (unat q) F)])"
    if q: "unat q \<le> length F" for q
  proof -
    have "upload_file Some F q [(Inr ok_reply, Inr ok_reply)] []
        = Some ([(upload_content_range q (len64 F), drop (unat q) F)], Some (Inr ()), q)"
      using q by (simp add: upload_request_def slice_def upload_iteration_def upload_decided_def deciding_reply_def start_verdict_def
          ok_reply_def CONFLICT_def is_success_def response_ok_or_def parsed_upload_def
          upload_response_ok_or_def)
    then have "client_request F (upload_content_range q (len64 F), drop (unat q) F)"
      unfolding client_request_def using q by fastforce
    moreover have "arrives_as (drop (unat q) F) [Inr (drop (unat q) F)]"
      unfolding arrives_as_def by (intro exI [of _ "[drop (unat q) F]"]) simp
    ultimately show ?thesis by (fastforce simp: client_event_def)
  qed
  then show ?thesis
    by (simp add: client_attempt_def example_attempt_def upload_events_def started_events_def
        client_event_def [of _ "UploadTurn _ _"])
qed

end
