(* ===== verification/Client_Downloader.thy ===== *)
theory Client_Downloader
  imports Client_Download Wire_Messages
begin

text \<open>
  The downloader's side of a peer-to-peer transfer (\<^verbatim>\<open>downloader_client.rs\<close>): the state
  \<open>DownloadState\<close>, the window of requests it keeps in flight, and its message handlers. A
  panic is \<open>None\<close>. What sending on the data channel answers is the parameter \<open>send\<close>, and a
  handler returns the messages it has sent beside its result.
\<close>

subsection \<open>State and requests\<close>

definition CHUNK_SIZE :: u64 where "CHUNK_SIZE = 16384"
definition MAX_P2P_INFLIGHT_DATA_LEN :: u64 where "MAX_P2P_INFLIGHT_DATA_LEN = 10485760"

record download_state =
  ds_file :: decrypted_file
  ds_requested :: u64
  ds_total :: u64
  ds_progress :: progress

definition saturating_sub :: "u64 \<Rightarrow> u64 \<Rightarrow> u64" where
  "saturating_sub a b = (if b \<le> a then a - b else 0)"

definition checked_sub :: "u64 \<Rightarrow> u64 \<Rightarrow> u64 option" where
  "checked_sub a b = (if b \<le> a then Some (a - b) else None)"

text \<open>\<open>next_data_request\<close>: the outer option is the panic of \<open>expect\<close>.\<close>

definition next_data_request :: "u64 \<Rightarrow> u64 \<Rightarrow> u64 \<Rightarrow> data_request option option" where
  "next_data_request requested_offset total_len received_offset =
     (case checked_sub requested_offset received_offset of
        None \<Rightarrow> None
      | Some inflight_len \<Rightarrow>
          (let unrequested_len = total_len - requested_offset;
               request_len = min (min (saturating_sub MAX_P2P_INFLIGHT_DATA_LEN inflight_len)
                 unrequested_len) CHUNK_SIZE
           in Some (if request_len \<noteq> 0
                    then Some \<lparr>req_offset = requested_offset, req_len = request_len\<rparr>
                    else None)))"

lemma unat_min: "unat (min a b) = min (unat a) (unat (b :: u64))"
  by (simp add: min_def word_le_nat_alt)

lemma next_data_request_Some:
  assumes "next_data_request requested whole received = Some (Some request)"
  shows "received \<le> requested" "req_offset request = requested" "0 < unat (req_len request)"
    "unat (req_len request) \<le> 16384"
    "unat (requested - received) + unat (req_len request) \<le> 10485760"
    "unat (req_len request) \<le> unat (whole - requested)"
proof -
  have r: "received \<le> requested" and rq: "req_offset request = requested"
    and l: "req_len request = min (min (saturating_sub MAX_P2P_INFLIGHT_DATA_LEN (requested - received))
        (whole - requested)) CHUNK_SIZE" and nz: "req_len request \<noteq> 0"
    using assms by (auto simp: next_data_request_def checked_sub_def Let_def split: if_splits)
  show "received \<le> requested" "req_offset request = requested" by (rule r, rule rq)
  show "0 < unat (req_len request)" using nz by (simp add: unat_gt_0)
  show "unat (req_len request) \<le> 16384" "unat (req_len request) \<le> unat (whole - requested)"
    unfolding l by (simp_all add: unat_min CHUNK_SIZE_def)
  have "requested - received \<le> MAX_P2P_INFLIGHT_DATA_LEN"
    using nz l by (auto simp: saturating_sub_def split: if_splits)
  then have "unat (saturating_sub MAX_P2P_INFLIGHT_DATA_LEN (requested - received))
      = 10485760 - unat (requested - received)" "unat (requested - received) \<le> 10485760"
    by (simp_all add: saturating_sub_def unat_sub word_le_nat_alt MAX_P2P_INFLIGHT_DATA_LEN_def)
  then show "unat (requested - received) + unat (req_len request) \<le> 10485760"
    unfolding l unat_min by linarith
qed

text \<open>
  The loop of \<open>request_data_or_finish\<close>: requests until the window is full. The result is the
  requests sent, the error of a failed send, and the new \<open>requested_offset\<close>. It ends since
  each request uses up some of the window.
\<close>

function request_loop ::
  "(downloader_inner \<Rightarrow> error option) \<Rightarrow> u64 \<Rightarrow> u64 \<Rightarrow> u64 \<Rightarrow>
   (data_request list \<times> error option \<times> u64) option" where
  "request_loop send requested whole received =
     (case next_data_request requested whole received of
        None \<Rightarrow> None
      | Some None \<Rightarrow> Some ([], None, requested)
      | Some (Some request) \<Rightarrow>
          (case send (DataRequest request) of
             Some e \<Rightarrow> Some ([], Some e, requested)
           | None \<Rightarrow>
               map_option (apfst (Cons request))
                 (request_loop send (requested + req_len request) whole received)))"
  by pat_completeness auto

termination
proof (relation "measure (\<lambda>(send, requested, whole, received). 10485760 - unat (requested - received))")
  fix send requested whole received x2 request
  assume "next_data_request requested whole received = Some x2" "x2 = Some request"
  then have n: "next_data_request requested whole received = Some (Some request)" by simp
  note s = next_data_request_Some [OF this]
  have "unat (requested - received) + unat (req_len request) < 2 ^ 64" using s(5) by simp
  then have "unat (requested - received + req_len request)
      = unat (requested - received) + unat (req_len request)"
    by (simp add: unat_add_lem [THEN iffD1])
  moreover have "requested + req_len request - received = requested - received + req_len request"
    by simp
  ultimately have "unat (requested + req_len request - received)
      = unat (requested - received) + unat (req_len request)"
    by metis
  then show "((send, requested + req_len request, whole, received),
      (send, requested, whole, received)) \<in>
      measure (\<lambda>(send, requested, whole, received). 10485760 - unat (requested - received))"
    using s(3,5) by simp
qed simp

declare request_loop.simps [simp del]

subsection \<open>Handlers\<close>

type_synonym 'a handled = "(downloader_inner list \<times> (error + 'a) \<times> download_state) option"

text \<open>
  \<open>request_data_or_finish\<close>. The flush of a complete file is awaited: \<open>io\<close> is how the write to
  the target ends.
\<close>

definition request_data_or_finish ::
  "(bytes \<Rightarrow> error + bytes) \<Rightarrow> (downloader_inner \<Rightarrow> error option) \<Rightarrow> write_end \<Rightarrow>
   download_state \<Rightarrow> flow handled" where
  "request_data_or_finish decrypt send io st =
     (case file_offset (ds_file st) of
        None \<Rightarrow> None
      | Some received_offset \<Rightarrow>
     if received_offset < ds_total st then
       (case request_loop send (ds_requested st) (ds_total st) received_offset of
          None \<Rightarrow> None
        | Some (requests, err, requested) \<Rightarrow>
            Some (map DataRequest requests,
                  (case err of Some e \<Rightarrow> Inl e | None \<Rightarrow> Inr (Continue ())),
                  st\<lparr>ds_requested := requested\<rparr>))
     else
       (case poll_flush decrypt (ds_file st) (final_io io) of
          Some (Ready (Inr _), f) \<Rightarrow>
            (case send TransferFinished of
               Some e \<Rightarrow> Some ([], Inl e, st\<lparr>ds_file := f\<rparr>)
             | None \<Rightarrow> Some ([TransferFinished], Inr (Break ()), st\<lparr>ds_file := f\<rparr>))
        | Some (Ready (Inl e), f) \<Rightarrow> Some ([], Inl (IO e), st\<lparr>ds_file := f\<rparr>)
        | _ \<Rightarrow> None))"

definition handle_uploader_message ::
  "(bytes \<Rightarrow> error + bytes) \<Rightarrow> (downloader_inner \<Rightarrow> error option) \<Rightarrow> write_end \<Rightarrow>
   download_state \<Rightarrow> uploader_message \<Rightarrow> flow handled" where
  "handle_uploader_message decrypt send io st message =
     (case um_inner message of
        None \<Rightarrow> Some ([], Inr (Continue ()), st)
      | Some UploaderHello \<Rightarrow> Some ([], Inr (Continue ()), st)
      | Some (DataResponse r) \<Rightarrow>
          (case file_offset (ds_file st) of
             None \<Rightarrow> None
           | Some received_offset \<Rightarrow>
          if received_offset = resp_offset r then
            (case write_all (ds_file st) (resp_data r) of
               None \<Rightarrow> None
             | Some (Inl e, f) \<Rightarrow> Some ([], Inl (IO e), st\<lparr>ds_file := f\<rparr>)
             | Some (Inr _, f) \<Rightarrow>
                 request_data_or_finish decrypt send io
                   (st\<lparr>ds_file := f,
                       ds_progress := ds_progress st
                         @ [(received_offset + len64 (resp_data r), ds_total st)]\<rparr>))
          else request_data_or_finish decrypt send io st))"

text \<open>\<open>data_channel_message\<close> and \<open>data_channel_opened\<close> of \<open>DownloadState\<close>.\<close>

definition state_message ::
  "(bytes \<Rightarrow> uploader_message option) \<Rightarrow> (bytes \<Rightarrow> error + bytes) \<Rightarrow>
   (downloader_inner \<Rightarrow> error option) \<Rightarrow> write_end \<Rightarrow> download_state \<Rightarrow> bytes \<Rightarrow> flow handled" where
  "state_message decode decrypt send io st data =
     (case decode data of
        None \<Rightarrow> Some ([], Inl (RTCDataChannel ''decode error''), st)
      | Some message \<Rightarrow> handle_uploader_message decrypt send io st message)"

definition state_opened ::
  "(bytes \<Rightarrow> error + bytes) \<Rightarrow> (downloader_inner \<Rightarrow> error option) \<Rightarrow> write_end \<Rightarrow>
   download_state \<Rightarrow> flow handled" where
  "state_opened decrypt send io st = request_data_or_finish decrypt send io st"

text \<open>
  \<open>PeerToPeerConnectHandler\<close>, which connects: it says hello when the channel opens, and any
  first message of the peer ends it, with the state's own verdict as its output.
\<close>

definition connect_opened ::
  "(downloader_inner \<Rightarrow> error option) \<Rightarrow> download_state \<Rightarrow> (flow, unit) control_flow handled" where
  "connect_opened send st =
     (case send DownloaderHello of
        Some e \<Rightarrow> Some ([], Inl e, st)
      | None \<Rightarrow> Some ([DownloaderHello], Inr (Continue ()), st))"

definition connect_message ::
  "(bytes \<Rightarrow> uploader_message option) \<Rightarrow> (bytes \<Rightarrow> error + bytes) \<Rightarrow>
   (downloader_inner \<Rightarrow> error option) \<Rightarrow> write_end \<Rightarrow> download_state \<Rightarrow> bytes \<Rightarrow>
   (flow, unit) control_flow handled" where
  "connect_message decode decrypt send io st data =
     (case state_message decode decrypt send io st data of
        None \<Rightarrow> None
      | Some (ms, Inl e, st') \<Rightarrow> Some (ms, Inl e, st')
      | Some (ms, Inr (Break _), st') \<Rightarrow> Some (ms, Inr (Break (Break ())), st')
      | Some (ms, Inr (Continue _), st') \<Rightarrow>
          (case request_data_or_finish decrypt send io st' of
             None \<Rightarrow> None
           | Some (ms', Inl e, st'') \<Rightarrow> Some (ms @ ms', Inl e, st'')
           | Some (ms', Inr f, st'') \<Rightarrow> Some (ms @ ms', Inr (Break f), st'')))"

subsection \<open>The window of requests\<close>

text \<open>Requests that cover a range without gap or overlap.\<close>

fun tile :: "u64 \<Rightarrow> data_request list \<Rightarrow> u64 \<Rightarrow> bool" where
  "tile a [] b = (a = b)"
| "tile a (r # rs) b =
     (req_offset r = a \<and> 0 < req_len r \<and> unat a + unat (req_len r) \<le> unat b \<and>
      tile (a + req_len r) rs b)"

lemma tile_le: "tile a rs b \<Longrightarrow> a \<le> b"
proof (induction rs arbitrary: a)
  case (Cons r rs)
  then show ?case by (simp add: word_le_nat_alt)
qed simp

lemma tile_append: "tile a rs b \<Longrightarrow> tile b rs' c \<Longrightarrow> tile a (rs @ rs') c"
proof (induction rs arbitrary: a)
  case (Cons r rs)
  have "unat b \<le> unat c" using tile_le [OF Cons.prems(2)] by (simp add: word_le_nat_alt)
  then show ?case using Cons by simp
qed simp

lemma next_data_request_in_range:
  assumes "received \<le> requested" and "requested \<le> whole"
  shows "\<exists>r. next_data_request requested whole received = Some r \<and>
    (case r of
       None \<Rightarrow> unat requested = min (unat whole) (unat received + 10485760)
         \<or> unat received + 10485760 < unat requested
     | Some request \<Rightarrow> unat requested + unat (req_len request) \<le> unat whole \<and>
         unat requested + unat (req_len request) \<le> unat received + 10485760)"
proof -
  have inf: "unat (requested - received) = unat requested - unat received"
    and unr: "unat (whole - requested) = unat whole - unat requested"
    and le: "unat received \<le> unat requested" "unat requested \<le> unat whole"
    using assms by (simp_all add: unat_sub word_le_nat_alt)
  let ?sat = "saturating_sub MAX_P2P_INFLIGHT_DATA_LEN (requested - received)"
  have sat: "unat ?sat = 10485760 - (unat requested - unat received)"
    by (simp add: saturating_sub_def unat_sub word_le_nat_alt MAX_P2P_INFLIGHT_DATA_LEN_def inf)
  let ?len = "min (min ?sat (whole - requested)) CHUNK_SIZE"
  have len: "unat ?len = min (min (10485760 - (unat requested - unat received))
      (unat whole - unat requested)) 16384"
    by (simp add: unat_min sat unr CHUNK_SIZE_def)
  show ?thesis
  proof (cases "?len = 0")
    case True
    then have "unat ?len = 0" by simp
    then show ?thesis
      using assms(1) True le unfolding len
      by (auto simp: next_data_request_def checked_sub_def Let_def)
  next
    case False
    then have "0 < unat ?len" by (simp only: unat_gt_0) simp
    then have "unat requested + unat ?len \<le> unat whole"
      "unat requested + unat ?len \<le> unat received + 10485760"
      using le unfolding len by linarith+
    then show ?thesis
      using assms(1) False by (simp add: next_data_request_def checked_sub_def Let_def)
  qed
qed

definition window_ok :: "u64 \<Rightarrow> u64 \<Rightarrow> u64 \<Rightarrow> bool" where
  "window_ok received requested whole =
     (received \<le> requested \<and> requested \<le> whole \<and> unat requested \<le> unat received + 10485760)"

lemma request_loop_window:
  assumes "window_ok received requested whole"
  shows "\<exists>rs err requested'. request_loop send requested whole received = Some (rs, err, requested') \<and>
    tile requested rs requested' \<and> window_ok received requested' whole \<and>
    list_all (\<lambda>r. unat (req_len r) \<le> 16384) rs \<and>
    (err = None \<longrightarrow> unat requested' = min (unat whole) (unat received + 10485760))"
  using assms
proof (induction send requested whole received rule: request_loop.induct)
  case (1 send requested whole received)
  have w: "received \<le> requested" "requested \<le> whole" "unat requested \<le> unat received + 10485760"
    using "1.prems" by (simp_all add: window_ok_def)
  obtain r where n: "next_data_request requested whole received = Some r"
    and r: "case r of
       None \<Rightarrow> unat requested = min (unat whole) (unat received + 10485760)
         \<or> unat received + 10485760 < unat requested
     | Some request \<Rightarrow> unat requested + unat (req_len request) \<le> unat whole \<and>
         unat requested + unat (req_len request) \<le> unat received + 10485760"
    using next_data_request_in_range [OF w(1,2)] by blast
  show ?case
  proof (cases r)
    case None
    then show ?thesis using n r w "1.prems" by (subst request_loop.simps) simp
  next
    case (Some request)
    note s = next_data_request_Some [OF n [unfolded Some]]
    show ?thesis
    proof (cases "send (DataRequest request)")
      case (Some e)
      then show ?thesis
        using n \<open>r = Some request\<close> "1.prems" by (subst request_loop.simps) simp
    next
      case None
      have u: "unat (requested + req_len request) = unat requested + unat (req_len request)"
        using r \<open>r = Some request\<close> unat_u64 [of whole] by (simp add: unat_add_lem [THEN iffD1])
      have "window_ok received (requested + req_len request) whole"
        using r \<open>r = Some request\<close> u w by (simp add: window_ok_def word_le_nat_alt)
      from "1.IH" [OF n \<open>r = Some request\<close> None this] obtain rs err requested' where
        ih: "request_loop send (requested + req_len request) whole received = Some (rs, err, requested')"
        "tile (requested + req_len request) rs requested'" "window_ok received requested' whole"
        "list_all (\<lambda>r. unat (req_len r) \<le> 16384) rs"
        "err = None \<longrightarrow> unat requested' = min (unat whole) (unat received + 10485760)"
        by blast
      have "unat requested + unat (req_len request) \<le> unat requested'"
        using tile_le [OF ih(2)] u by (simp add: word_le_nat_alt)
      then have "tile requested (request # rs) requested'"
        using ih(2) s(2,3) by (simp add: word_less_nat_alt)
      moreover have "request_loop send requested whole received
          = Some (request # rs, err, requested')"
        using n \<open>r = Some request\<close> None ih(1) by (subst request_loop.simps) simp
      ultimately show ?thesis using ih(3,4,5) s(4) by auto
    qed
  qed
qed

lemma request_loop_no_error:
  "request_loop (\<lambda>_. None) requested whole received = Some (rs, err, requested') \<Longrightarrow> err = None"
proof (induction "\<lambda>_ :: downloader_inner. None :: error option" requested whole received
    arbitrary: rs rule: request_loop.induct)
  case (1 requested whole received)
  then show ?case
    by (subst (asm) request_loop.simps) (auto split: option.splits)
qed

text \<open>C31: The request window: as long as nothing was received that was not requested, asking for
  more never panics and ends; the requests sent follow each other without gap or overlap
  from where the last one ended, each of at most 16 KiB; at most 10 MiB are in flight and
  nothing beyond the file is requested; and unless a send fails the window is left full.\<close>

theorem request_window:
  assumes "received \<le> requested" and "requested \<le> whole"
    and "unat requested \<le> unat received + 10 * 1024 * 1024"
  shows "\<exists>rs err requested'. request_loop send requested whole received = Some (rs, err, requested') \<and>
    tile requested rs requested' \<and> requested' \<le> whole \<and>
    unat requested' \<le> unat received + 10 * 1024 * 1024 \<and>
    list_all (\<lambda>r. unat (req_len r) \<le> 16 * 1024) rs \<and>
    (err = None \<longrightarrow> unat requested' = min (unat whole) (unat received + 10 * 1024 * 1024))"
  using request_loop_window [of received requested whole send] assms
  by (simp add: window_ok_def) blast

theorem request_window_witness:
  "\<exists>rs err requested'. request_loop (\<lambda>_. None) 0 40000 0 = Some (rs, err, requested') \<and>
     tile 0 rs requested' \<and> list_all (\<lambda>r. unat (req_len r) \<le> 16 * 1024) rs"
  using request_window [of 0 0 40000 "\<lambda>_. None"] by auto



end
