(* ===== verification/Client_Transfer.thy ===== *)
theory Client_Transfer
  imports Client_Downloader
begin

text \<open>
  The uploader's side of a peer-to-peer transfer (\<open>UploadState\<close> of \<^verbatim>\<open>uploader_client.rs\<close>),
  and the two sides together: a pair of peers over an ordered data channel in either
  direction, as a step relation in which the peers take turns in any order. The lemmas show
  that the exchange neither panics nor blocks, that it ends, and that it delivers the file.
\<close>

subsection \<open>The uploader\<close>

definition handle_downloader_message ::
  "(uploader_inner \<Rightarrow> error option) \<Rightarrow> encrypted_file \<Rightarrow> downloader_message \<Rightarrow>
   (uploader_inner list \<times> (error + flow) \<times> progress) option" where
  "handle_downloader_message send file message =
     (case dm_inner message of
        Some DownloaderHello \<Rightarrow>
          (case send UploaderHello of
             Some e \<Rightarrow> Some ([], Inl e, [])
           | None \<Rightarrow> Some ([UploaderHello], Inr (Continue ()), []))
      | Some (DataRequest r) \<Rightarrow>
          (let new_offset = req_offset r + req_len r
           in case read_at_exact file (req_offset r) (req_len r) of
                None \<Rightarrow> None
              | Some data \<Rightarrow>
                  (let response = DataResponse \<lparr>resp_offset = req_offset r, resp_data = data\<rparr>
                   in case send response of
                        Some e \<Rightarrow> Some ([], Inl e, [])
                      | None \<Rightarrow>
                          Some ([response], Inr (Continue ()),
                            [(new_offset, encrypted_len file)])))
      | Some TransferFinished \<Rightarrow>
          Some ([], Inr (Break ()), [(encrypted_len file, encrypted_len file)])
      | None \<Rightarrow> Some ([], Inr (Continue ()), []))"

definition upload_state_message ::
  "(bytes \<Rightarrow> downloader_message option) \<Rightarrow> (uploader_inner \<Rightarrow> error option) \<Rightarrow> encrypted_file \<Rightarrow>
   bytes \<Rightarrow> (uploader_inner list \<times> (error + flow) \<times> progress) option" where
  "upload_state_message decode send file data =
     (case decode data of
        None \<Rightarrow> Some ([], Inl (RTCDataChannel ''decode error''), [])
      | Some message \<Rightarrow> handle_downloader_message send file message)"

text \<open>A peer can take the uploader down: a request that reaches beyond the file panics,
  whatever else it says, while every request inside the file is answered with exactly its
  bytes.\<close>

theorem data_request_answered_or_panics:
  assumes "length F < 2 ^ 64 - 1"
  shows "handle_downloader_message (\<lambda>_. None) F \<lparr>dm_inner = Some (DataRequest r)\<rparr> =
    (if unat (req_offset r) + unat (req_len r) \<le> length F
     then Some ([DataResponse \<lparr>resp_offset = req_offset r,
                   resp_data = take (unat (req_len r)) (drop (unat (req_offset r)) F)\<rparr>],
                Inr (Continue ()), [(req_offset r + req_len r, len64 F)])
     else None)"
proof (cases "unat (req_offset r) + unat (req_len r) \<le> length F")
  case True
  then show ?thesis
    using assms read_at_exact_Some [of F "req_offset r" "req_len r"]
    by (simp add: handle_downloader_message_def encrypted_len_def Let_def)
next
  case False
  then have "length F < saturating_add (unat (req_offset r)) (unat (req_len r))"
    using assms by (auto simp: saturating_add_def)
  then have "read_at_exact F (req_offset r) (req_len r) = None"
    by (simp add: read_at_exact_def slice_def)
  then show ?thesis
    using False by (simp add: handle_downloader_message_def)
qed

theorem data_request_answered_or_panics_witness:
  "handle_downloader_message (\<lambda>_. None) [1, 2, 3]
     \<lparr>dm_inner = Some (DataRequest \<lparr>req_offset = 2, req_len = 2\<rparr>)\<rparr> = None"
  using data_request_answered_or_panics [of "[1, 2, 3]" "\<lparr>req_offset = 2, req_len = 2\<rparr>"] by simp

subsection \<open>Both sides\<close>

text \<open>
  Two peers whose data channel is open. The uploader serves the file; the downloader begins
  in the connect handler and goes on with the handler of the transfer. Each direction of the
  channel is a queue, and either peer may take its turn whenever a message waits for it. A
  turn is \<open>None\<close> when nothing is there to be received, the peer has ended, or its handler
  panics or fails.
\<close>

record p2p_pair =
  pp_state :: download_state
  pp_connected :: bool
  pp_to_up :: "downloader_inner list"
  pp_to_down :: "uploader_inner list"
  pp_finished :: bool
  pp_served :: bool

definition uploader_turn :: "encrypted_file \<Rightarrow> p2p_pair \<Rightarrow> p2p_pair option" where
  "uploader_turn F p =
     (case pp_to_up p of
        [] \<Rightarrow> None
      | m # ms \<Rightarrow>
          if pp_served p then None
          else (case handle_downloader_message (\<lambda>_. None) F \<lparr>dm_inner = Some m\<rparr> of
             Some (out, Inr f, _) \<Rightarrow>
               Some (p\<lparr>pp_to_up := ms, pp_to_down := pp_to_down p @ out, pp_served := is_break f\<rparr>)
           | _ \<Rightarrow> None))"

definition downloader_turn :: "(bytes \<Rightarrow> error + bytes) \<Rightarrow> p2p_pair \<Rightarrow> p2p_pair option" where
  "downloader_turn decrypt p =
     (case pp_to_down p of
        [] \<Rightarrow> None
      | m # ms \<Rightarrow>
          if pp_finished p then None
          else if pp_connected p then
            (case handle_uploader_message decrypt (\<lambda>_. None) None (pp_state p)
                \<lparr>um_inner = Some m\<rparr> of
               Some (out, Inr f, st) \<Rightarrow>
                 Some (p\<lparr>pp_state := st, pp_to_down := ms, pp_to_up := pp_to_up p @ out,
                         pp_finished := is_break f\<rparr>)
             | _ \<Rightarrow> None)
          else
            (case connect_message (\<lambda>_. Some \<lparr>um_inner = Some m\<rparr>) decrypt (\<lambda>_. None) None
                (pp_state p) [] of
               Some (out, Inr (Break f), st) \<Rightarrow>
                 Some (p\<lparr>pp_state := st, pp_connected := True, pp_to_down := ms,
                         pp_to_up := pp_to_up p @ out, pp_finished := is_break f\<rparr>)
             | Some (out, Inr (Continue _), st) \<Rightarrow>
                 Some (p\<lparr>pp_state := st, pp_to_down := ms, pp_to_up := pp_to_up p @ out\<rparr>)
             | _ \<Rightarrow> None))"

inductive p2p_step :: "(bytes \<Rightarrow> error + bytes) \<Rightarrow> encrypted_file \<Rightarrow> p2p_pair \<Rightarrow> p2p_pair \<Rightarrow> bool"
  for decrypt F where
    uploads: "uploader_turn F p = Some p' \<Longrightarrow> p2p_step decrypt F p p'"
  | downloads: "downloader_turn decrypt p = Some p' \<Longrightarrow> p2p_step decrypt F p p'"

inductive_simps p2p_step_iff: "p2p_step decrypt F p p'"

text \<open>The pair when the downloader's channel has opened: \<open>connect_opened\<close> has said hello.\<close>

definition pair_start :: "download_state \<Rightarrow> p2p_pair" where
  "pair_start st =
     \<lparr>pp_state = st, pp_connected = False, pp_to_up = [DownloaderHello], pp_to_down = [],
      pp_finished = False, pp_served = False\<rparr>"

subsection \<open>The invariant of the pair\<close>

text \<open>The request that a response answers, and that it does so out of the file.\<close>

definition answered :: "data_response \<Rightarrow> data_request" where
  "answered r = \<lparr>req_offset = resp_offset r, req_len = len64 (resp_data r)\<rparr>"

definition out_of :: "bytes \<Rightarrow> data_response \<Rightarrow> bool" where
  "out_of F r =
     (length (resp_data r) < 2 ^ 64 \<and>
      resp_data r = take (length (resp_data r)) (drop (unat (resp_offset r)) F))"

text \<open>The download state with the first \<open>n\<close> bytes of the file.\<close>

definition holds_first :: "bytes \<Rightarrow> nat \<Rightarrow> download_state \<Rightarrow> bool" where
  "holds_first F n st =
     (n \<le> length F \<and> df_state (ds_file st) = Unwritten (take n F) \<and>
      df_size (ds_file st) = len64 F \<and> ds_total st = len64 F \<and>
      window_ok (of_nat n) (ds_requested st) (len64 F))"

datatype phase = Greeting nat | Greeted nat | Running nat "data_response list" "data_request list"
  | Finishing | Finished

fun in_phase :: "bytes \<Rightarrow> bytes \<Rightarrow> p2p_pair \<Rightarrow> phase \<Rightarrow> bool" where
  "in_phase pt F p (Greeting n) =
     (holds_first F n (pp_state p) \<and> ds_requested (pp_state p) = of_nat n \<and>
      \<not> pp_connected p \<and> pp_to_up p = [DownloaderHello] \<and> pp_to_down p = [] \<and>
      \<not> pp_finished p \<and> \<not> pp_served p)"
| "in_phase pt F p (Greeted n) =
     (holds_first F n (pp_state p) \<and> ds_requested (pp_state p) = of_nat n \<and>
      \<not> pp_connected p \<and> pp_to_up p = [] \<and> pp_to_down p = [UploaderHello] \<and>
      \<not> pp_finished p \<and> \<not> pp_served p)"
| "in_phase pt F p (Running n rs qs) =
     (holds_first F n (pp_state p) \<and> n < length F \<and>
      pp_connected p \<and> pp_to_up p = map DataRequest qs \<and> pp_to_down p = map DataResponse rs \<and>
      list_all (out_of F) rs \<and>
      tile (of_nat n) (map answered rs @ qs) (ds_requested (pp_state p)) \<and>
      (of_nat n :: u64) < ds_requested (pp_state p) \<and>
      \<not> pp_finished p \<and> \<not> pp_served p)"
| "in_phase pt F p Finishing =
     (df_target (ds_file (pp_state p)) = Some pt \<and> ds_total (pp_state p) = ds_requested (pp_state p) \<and>
      pp_to_up p = [TransferFinished] \<and> pp_to_down p = [] \<and> pp_finished p \<and> \<not> pp_served p)"
| "in_phase pt F p Finished =
     (df_target (ds_file (pp_state p)) = Some pt \<and>
      pp_to_up p = [] \<and> pp_to_down p = [] \<and> pp_finished p \<and> pp_served p)"

definition pair_inv :: "bytes \<Rightarrow> bytes \<Rightarrow> p2p_pair \<Rightarrow> bool" where
  "pair_inv pt F p = (\<exists>ph. in_phase pt F p ph)"

lemma holds_first_offset:
  "holds_first F n st \<Longrightarrow> length F < 2 ^ 64 \<Longrightarrow>
   file_offset (ds_file st) = Some (of_nat n) \<and> unat (of_nat n :: u64) = n"
  by (auto simp: holds_first_def file_offset_def len64_def unat_of_nat)

lemma tile_full: "tile a rs b \<Longrightarrow> b \<le> a \<Longrightarrow> rs = []"
  by (cases rs) (auto simp: word_le_nat_alt word_less_nat_alt)

text \<open>What the downloader does next once it has the first \<open>n\<close> bytes.\<close>

lemma next_requests:
  assumes h: "holds_first F n st" and len: "length F < 2 ^ 64" and lt: "n < length F"
    and t: "tile (of_nat n) rest (ds_requested st)"
  shows "\<exists>qs st'. request_data_or_finish decrypt (\<lambda>_. None) None st
      = Some (map DataRequest qs, Inr (Continue ()), st') \<and> holds_first F n st' \<and>
    tile (ds_requested st) qs (ds_requested st') \<and>
    tile (of_nat n) (rest @ qs) (ds_requested st') \<and> (of_nat n :: u64) < ds_requested st'"
proof -
  have o: "file_offset (ds_file st) = Some (of_nat n)" "unat (of_nat n :: u64) = n"
    using holds_first_offset [OF h len] by simp_all
  have lu: "unat (len64 F) = length F" using len by (rule unat_len64)
  have w: "window_ok (of_nat n) (ds_requested st) (len64 F)" and tot: "ds_total st = len64 F"
    using h by (simp_all add: holds_first_def)
  obtain rs err requested' where
    l: "request_loop (\<lambda>_. None) (ds_requested st) (len64 F) (of_nat n) = Some (rs, err, requested')"
      "tile (ds_requested st) rs requested'" "window_ok (of_nat n) requested' (len64 F)"
      "err = None \<longrightarrow> unat requested' = min (unat (len64 F)) (unat (of_nat n :: u64) + 10485760)"
    using request_loop_window [OF w, of "\<lambda>_. None"] by blast
  have "err = None" using request_loop_no_error [OF l(1)] by simp
  then have "n < unat requested'" using l(4) lu o(2) lt by auto
  then have "(of_nat n :: u64) < requested'" by (simp add: word_less_nat_alt o(2))
  moreover have "(of_nat n :: u64) < len64 F" using lt by (simp add: word_less_nat_alt o(2) lu)
  ultimately show ?thesis
    using o(1) l tot tile_append [OF t l(2)] \<open>err = None\<close> h
    by (intro exI [of _ rs] exI [of _ "st\<lparr>ds_requested := requested'\<rparr>"])
      (auto simp: request_data_or_finish_def holds_first_def)
qed

lemma finishes:
  assumes h: "holds_first F (length F) st" and len: "length F < 2 ^ 64" and d: "decrypt F = Inr pt"
  shows "\<exists>st'. request_data_or_finish decrypt (\<lambda>_. None) None st
      = Some ([TransferFinished], Inr (Break ()), st') \<and>
    df_target (ds_file st') = Some pt \<and> ds_total st' = ds_requested st'"
proof -
  have o: "file_offset (ds_file st) = Some (len64 F)" and lu: "unat (len64 F) = length F"
    using holds_first_offset [OF h len] unat_len64 [OF len] by (simp_all add: len64_def)
  moreover have "ds_requested st = len64 F"
    using h by (auto simp: holds_first_def window_ok_def len64_def)
  moreover have "df_size (ds_file st) = len64 F" "ds_total st = len64 F"
    "df_state (ds_file st) = Unwritten F"
    using h by (simp_all add: holds_first_def)
  ultimately show ?thesis
    using d by (simp add: request_data_or_finish_def poll_flush_def drive_write_def
        poll_pending_def final_io_def)
qed

text \<open>What a response at the awaited offset does to the file.\<close>

lemma response_received:
  assumes h: "holds_first F n st" and len: "length F < 2 ^ 64" and o: "out_of F r"
    and t: "tile (of_nat n) (answered r # rest) (ds_requested st)"
  shows "\<exists>st'. handle_uploader_message decrypt send io st \<lparr>um_inner = Some (DataResponse r)\<rparr>
      = request_data_or_finish decrypt send io st' \<and>
    holds_first F (n + length (resp_data r)) st' \<and> ds_requested st' = ds_requested st \<and>
    tile (of_nat (n + length (resp_data r))) rest (ds_requested st')"
proof -
  let ?d = "resp_data r"
  have off: "file_offset (ds_file st) = Some (of_nat n)" "unat (of_nat n :: u64) = n"
    using holds_first_offset [OF h len] by simp_all
  have ro: "resp_offset r = of_nat n" and pos: "0 < len64 ?d"
    and t': "tile (of_nat n + len64 ?d) rest (ds_requested st)"
    using t by (auto simp: answered_def)
  have ld: "unat (len64 ?d) = length ?d" using o by (intro unat_len64) (simp add: out_of_def)
  have w: "window_ok (of_nat n) (ds_requested st) (len64 F)" using h by (simp add: holds_first_def)
  have d: "?d = take (length ?d) (drop n F)" using o ro off(2) by (simp add: out_of_def)
  have "length ?d \<le> length F - n" using arg_cong [OF d, of length] by simp
  moreover have "n \<le> length F" using h by (simp add: holds_first_def)
  ultimately have le: "n + length ?d \<le> length F" by simp
  have app: "take n F @ ?d = take (n + length ?d) F" using d by (metis take_add)
  have eq: "of_nat n + len64 ?d = (of_nat (n + length ?d) :: u64)" by (simp add: len64_def)
  have "unat (of_nat (n + length ?d) :: u64) = n + length ?d"
    using le len by (intro unat_of_nat_len) simp
  moreover have "(of_nat (n + length ?d) :: u64) \<le> ds_requested st"
    using tile_le [OF t'] eq by simp
  ultimately have "window_ok (of_nat (n + length ?d)) (ds_requested st) (len64 F)"
    using w off(2) by (simp add: window_ok_def)
  moreover have "?d \<noteq> []" using pos by auto
  ultimately show ?thesis
    using h off ro le app t' eq
    by (intro exI [of _ "st\<lparr>ds_file := (ds_file st)\<lparr>df_state := Unwritten (take n F @ ?d)\<rparr>,
        ds_progress := ds_progress st @ [(of_nat n + len64 ?d, ds_total st)]\<rparr>"])
      (auto simp: handle_uploader_message_def write_all_def poll_write_def holds_first_def)
qed

text \<open>How much is left to do: what is not yet requested counts twice, as does a request.\<close>

fun up_weight :: "downloader_inner \<Rightarrow> nat" where
  "up_weight (DataRequest q) = 2 * unat (req_len q)"
| "up_weight TransferFinished = 1"
| "up_weight DownloaderHello = 2"

fun down_weight :: "uploader_inner \<Rightarrow> nat" where
  "down_weight (DataResponse r) = length (resp_data r)"
| "down_weight UploaderHello = 1"

definition to_do :: "p2p_pair \<Rightarrow> nat" where
  "to_do p =
     2 * (unat (ds_total (pp_state p)) - unat (ds_requested (pp_state p)))
     + sum_list (map up_weight (pp_to_up p)) + sum_list (map down_weight (pp_to_down p))
     + (if pp_finished p then 0 else 2)"

lemma tile_weight:
  "tile a qs b \<Longrightarrow> sum_list (map (up_weight \<circ> DataRequest) qs) = 2 * (unat b - unat a)"
proof (induction qs arbitrary: a)
  case (Cons q qs)
  have "unat (a + req_len q) = unat a + unat (req_len q)"
    using Cons.prems unat_u64 [of b] by (simp add: unat_add_lem [THEN iffD1])
  moreover have "sum_list (map (up_weight \<circ> DataRequest) qs) = 2 * (unat b - unat (a + req_len q))"
    by (rule Cons.IH) (use Cons.prems in simp)
  moreover have "unat a + unat (req_len q) \<le> unat b" using Cons.prems by simp
  ultimately show ?case by (simp add: comp_def)
qed simp

lemma in_tile:
  "tile a qs b \<Longrightarrow> q \<in> set qs \<Longrightarrow>
   unat (req_offset q) + unat (req_len q) \<le> unat b \<and> 0 < unat (req_len q)"
proof (induction qs arbitrary: a)
  case (Cons q' qs)
  then show ?case by (auto simp: word_less_nat_alt)
qed simp

lemma uploader_turn_works:
  assumes inv: "pair_inv pt F p" and len: "length F < 2 ^ 64" and m: "pp_to_up p \<noteq> []"
  shows "\<exists>p'. uploader_turn F p = Some p' \<and> pair_inv pt F p' \<and> to_do p' < to_do p"
proof -
  from inv obtain ph where ph: "in_phase pt F p ph" by (auto simp: pair_inv_def)
  show ?thesis
  proof (cases ph)
    case (Greeting n)
    let ?p = "p\<lparr>pp_to_up := [], pp_to_down := [UploaderHello], pp_served := False\<rparr>"
    have "uploader_turn F p = Some ?p"
      using ph Greeting by (simp add: uploader_turn_def handle_downloader_message_def)
    moreover have "in_phase pt F ?p (Greeted n)" using ph Greeting by simp
    moreover have "to_do ?p < to_do p" using ph Greeting by (simp add: to_do_def)
    ultimately show ?thesis unfolding pair_inv_def by blast
  next
    case (Running n rs qs)
    then obtain q qs' where q: "qs = q # qs'" using ph m by (cases qs) auto
    let ?r = "\<lparr>resp_offset = req_offset q, resp_data = take (unat (req_len q)) (drop (unat (req_offset q)) F)\<rparr>"
    let ?p = "p\<lparr>pp_to_up := map DataRequest qs', pp_to_down := map DataResponse (rs @ [?r]),
      pp_served := False\<rparr>"
    have t: "tile (of_nat n) (map answered rs @ q # qs') (ds_requested (pp_state p))"
      using ph Running q by simp
    have le: "unat (req_offset q) + unat (req_len q) \<le> length F" and pos: "0 < unat (req_len q)"
    proof -
      have "q \<in> set (map answered rs @ q # qs')" by simp
      note in_tile [OF t this]
      moreover have "ds_requested (pp_state p) \<le> len64 F"
        using ph Running by (simp add: holds_first_def window_ok_def)
      ultimately show "unat (req_offset q) + unat (req_len q) \<le> length F" "0 < unat (req_len q)"
        using unat_len64 [OF len] by (simp_all add: word_le_nat_alt)
    qed
    have ld: "length (resp_data ?r) = unat (req_len q)" using le by simp
    then have an: "answered ?r = q" by (simp add: answered_def len64_def)
    have o: "out_of F ?r" using le unat_u64 [of "req_len q"] by (simp add: out_of_def min_def)
    have "uploader_turn F p = Some ?p"
      using ph Running q read_at_exact_Some [OF len le]
      by (simp add: uploader_turn_def handle_downloader_message_def)
    moreover have "in_phase pt F ?p (Running n (rs @ [?r]) qs')"
      using ph Running q an o by simp
    moreover have "to_do ?p < to_do p"
      using ph Running q pos ld by (simp add: to_do_def)
    ultimately show ?thesis unfolding pair_inv_def by blast
  next
    case Finishing
    let ?p = "p\<lparr>pp_to_up := [], pp_to_down := pp_to_down p, pp_served := True\<rparr>"
    have "uploader_turn F p = Some ?p"
      using ph Finishing by (simp add: uploader_turn_def handle_downloader_message_def)
    moreover have "in_phase pt F ?p Finished" using ph Finishing by simp
    moreover have "to_do ?p < to_do p" using ph Finishing by (simp add: to_do_def)
    ultimately show ?thesis unfolding pair_inv_def by blast
  qed (use ph m in auto)
qed

lemma requests_to_do:
  assumes "tile a qs b" and "b \<le> w"
  shows "2 * (unat w - unat b) + sum_list (map (up_weight \<circ> DataRequest) qs) = 2 * (unat w - unat a)"
  using tile_weight [OF assms(1)] tile_le [OF assms(1)] assms(2) by (simp add: word_le_nat_alt)

text \<open>After a message has been received: either the next requests or the end.\<close>

lemma moves_on:
  assumes h: "holds_first F n st" and len: "length F < 2 ^ 64" and d: "decrypt F = Inr pt"
    and t: "tile (of_nat n) (map answered rs @ qs) (ds_requested st)" and o: "list_all (out_of F) rs"
    and p: "pp_state p = st'" "pp_connected p" "pp_to_up p = map DataRequest qs @ out"
      "pp_to_down p = map DataResponse rs" "pp_finished p = is_break f" "\<not> pp_served p"
    and r: "request_data_or_finish decrypt (\<lambda>_. None) None st = Some (out, Inr f, st')"
  shows "pair_inv pt F p \<and>
    to_do p \<le> 2 * (length F - unat (ds_requested st)) + sum_list (map (up_weight \<circ> DataRequest) qs)
      + sum_list (map (down_weight \<circ> DataResponse) rs) + 2"
proof (cases "n < length F")
  case True
  obtain qs' st'' where n: "request_data_or_finish decrypt (\<lambda>_. None) None st
      = Some (map DataRequest qs', Inr (Continue ()), st'')" "holds_first F n st''"
    "tile (ds_requested st) qs' (ds_requested st'')"
    "tile (of_nat n) ((map answered rs @ qs) @ qs') (ds_requested st'')"
    "(of_nat n :: u64) < ds_requested st''"
    using next_requests [OF h len True t] by blast
  then have "in_phase pt F p (Running n rs (qs @ qs'))"
    using p r o True by simp
  moreover have "ds_requested st'' \<le> len64 F" "ds_total st'' = len64 F"
    using n(2) by (simp_all add: holds_first_def window_ok_def)
  with requests_to_do [OF n(3), of "len64 F"] have
    "to_do p \<le> 2 * (length F - unat (ds_requested st)) + sum_list (map (up_weight \<circ> DataRequest) qs)
      + sum_list (map (down_weight \<circ> DataResponse) rs) + 2"
    using p r n(1) unat_len64 [OF len] by (auto simp: to_do_def)
  ultimately show ?thesis unfolding pair_inv_def by blast
next
  case False
  then have n: "n = length F" using h by (simp add: holds_first_def)
  have "ds_requested st \<le> of_nat n" using h n by (simp add: holds_first_def window_ok_def len64_def)
  from tile_full [OF t this] have e: "rs = []" "qs = []" by simp_all
  obtain st'' where f: "request_data_or_finish decrypt (\<lambda>_. None) None st
      = Some ([TransferFinished], Inr (Break ()), st'')"
    "df_target (ds_file st'') = Some pt" "ds_total st'' = ds_requested st''"
    using finishes [of F st decrypt pt] h len d n by blast
  then have fin: "in_phase pt F p Finishing" using p r e by simp
  have "pp_to_up p = [TransferFinished]" "ds_total (pp_state p) = ds_requested (pp_state p)"
    using p r e f by auto
  moreover from this(1) have "sum_list (map up_weight (pp_to_up p)) = 1" by simp
  moreover have "pp_finished p" using p(5) r f(1) by auto
  ultimately have "to_do p \<le> 2" using p(4) e by (simp add: to_do_def)
  then show ?thesis using exI [of "in_phase pt F p", OF fin] by (simp add: pair_inv_def)
qed

lemma request_works:
  assumes h: "holds_first F n st" and len: "length F < 2 ^ 64" and d: "decrypt F = Inr pt"
    and t: "tile (of_nat n) rest (ds_requested st)"
  shows "\<exists>out f st'. request_data_or_finish decrypt (\<lambda>_. None) None st = Some (out, Inr f, st')"
proof (cases "n < length F")
  case True
  then show ?thesis using next_requests [OF h len True t] by blast
next
  case False
  then have "n = length F" using h by (simp add: holds_first_def)
  then show ?thesis using finishes [of F st decrypt pt] h len d by blast
qed

lemma downloader_turn_works:
  assumes inv: "pair_inv pt F p" and len: "length F < 2 ^ 64" and d: "decrypt F = Inr pt"
    and m: "pp_to_down p \<noteq> []"
  shows "\<exists>p'. downloader_turn decrypt p = Some p' \<and> pair_inv pt F p' \<and> to_do p' < to_do p"
proof -
  from inv obtain ph where ph: "in_phase pt F p ph" by (auto simp: pair_inv_def)
  show ?thesis
  proof (cases ph)
    case (Greeted n)
    then have h: "holds_first F n (pp_state p)"
      and t: "tile (of_nat n) (map answered [] @ []) (ds_requested (pp_state p))"
      using ph by simp_all
    obtain out f st' where r: "request_data_or_finish decrypt (\<lambda>_. None) None (pp_state p)
        = Some (out, Inr f, st')"
      using request_works [where rest = "[]" and F = F and decrypt = decrypt, OF h len d] t by auto
    let ?p = "p\<lparr>pp_state := st', pp_connected := True, pp_to_down := [], pp_to_up := out,
      pp_finished := is_break f\<rparr>"
    have "downloader_turn decrypt p = Some ?p"
      using ph Greeted r by (cases f) (simp_all add: downloader_turn_def connect_message_def
        state_message_def handle_uploader_message_def)
    moreover have "pair_inv pt F ?p \<and> to_do ?p \<le> 2 * (length F - unat (ds_requested (pp_state p))) + 2"
      using moves_on [where F = F and decrypt = decrypt, OF h len d t, where f = f and p = ?p and out = out and st' = st'] r ph Greeted by simp
    moreover have "to_do p = 2 * (length F - unat (ds_requested (pp_state p))) + 3"
      using ph Greeted unat_len64 [OF len] by (simp add: to_do_def holds_first_def)
    ultimately show ?thesis by auto
  next
    case (Running n rs qs)
    then obtain a rs' where a: "rs = a # rs'" using ph m by (cases rs) auto
    have h: "holds_first F n (pp_state p)" and o: "out_of F a"
      and t: "tile (of_nat n) (answered a # map answered rs' @ qs) (ds_requested (pp_state p))"
      using ph Running a by simp_all
    obtain st where st: "handle_uploader_message decrypt (\<lambda>_. None) None (pp_state p)
        \<lparr>um_inner = Some (DataResponse a)\<rparr> = request_data_or_finish decrypt (\<lambda>_. None) None st"
      "holds_first F (n + length (resp_data a)) st" "ds_requested st = ds_requested (pp_state p)"
      "tile (of_nat (n + length (resp_data a))) (map answered rs' @ qs) (ds_requested st)"
      using response_received [OF h len o t, of decrypt "\<lambda>_. None" None] by auto
    obtain out f st' where r: "request_data_or_finish decrypt (\<lambda>_. None) None st
        = Some (out, Inr f, st')"
      using request_works [where F = F and decrypt = decrypt, OF st(2) len d st(4)] by blast
    let ?p = "p\<lparr>pp_state := st', pp_to_down := map DataResponse rs', pp_to_up := pp_to_up p @ out,
      pp_finished := is_break f\<rparr>"
    have "downloader_turn decrypt p = Some ?p"
      using ph Running a st(1) r by (simp add: downloader_turn_def)
    moreover have "list_all (out_of F) rs'" using ph Running a by simp
    with moves_on [where F = F and decrypt = decrypt, OF st(2) len d st(4), where f = f and p = ?p and out = out and st' = st'] r ph Running
    have "pair_inv pt F ?p \<and> to_do ?p \<le> 2 * (length F - unat (ds_requested (pp_state p)))
        + sum_list (map (up_weight \<circ> DataRequest) qs) + sum_list (map (down_weight \<circ> DataResponse) rs') + 2"
      by (simp add: st(3))
    moreover have "to_do p = 2 * (length F - unat (ds_requested (pp_state p)))
        + sum_list (map (up_weight \<circ> DataRequest) qs) + sum_list (map (down_weight \<circ> DataResponse) rs') + 2
        + length (resp_data a)"
      using ph Running a unat_len64 [OF len] by (simp add: to_do_def holds_first_def)
    moreover have "0 < length (resp_data a)" using t by (auto simp: answered_def)
    ultimately have "to_do ?p < to_do p" "downloader_turn decrypt p = Some ?p" "pair_inv pt F ?p"
      by linarith+
    then show ?thesis by blast
  qed (use ph m in auto)
qed

lemma pair_run:
  assumes "(p2p_step decrypt F ^^ k) p q" and "pair_inv pt F p"
    and "length F < 2 ^ 64" and "decrypt F = Inr pt"
  shows "pair_inv pt F q \<and> to_do q + k \<le> to_do p"
  using assms(1)
proof (induction k arbitrary: q)
  case 0
  then show ?case using assms(2) by simp
next
  case (Suc k)
  then obtain r where r: "(p2p_step decrypt F ^^ k) p r" "p2p_step decrypt F r q" by auto
  note ih = Suc.IH [OF r(1)]
  have up: "uploader_turn F r = Some q \<Longrightarrow> pp_to_up r \<noteq> []"
    and down: "downloader_turn decrypt r = Some q \<Longrightarrow> pp_to_down r \<noteq> []"
    by (auto simp: uploader_turn_def downloader_turn_def)
  have "pair_inv pt F q \<and> to_do q < to_do r"
    using r(2) uploader_turn_works [of pt F r] downloader_turn_works [of pt F r decrypt]
      ih up down assms(3,4) by (auto simp: p2p_step_iff)
  then show ?case using ih by auto
qed

lemma pair_can_complete:
  "pair_inv pt F p \<Longrightarrow> length F < 2 ^ 64 \<Longrightarrow> decrypt F = Inr pt \<Longrightarrow>
   \<exists>j q. (p2p_step decrypt F ^^ j) p q \<and> pair_inv pt F q \<and> pp_to_up q = [] \<and> pp_to_down q = []"
proof (induction "to_do p" arbitrary: p rule: less_induct)
  case less
  show ?case
  proof (cases "pp_to_up p = [] \<and> pp_to_down p = []")
    case True
    then show ?thesis using less.prems(1) by (intro exI [of _ 0] exI [of _ p]) simp
  next
    case False
    then obtain r where r: "p2p_step decrypt F p r" "pair_inv pt F r" "to_do r < to_do p"
      using uploader_turn_works [OF less.prems(1,2)] downloader_turn_works [where decrypt = decrypt and F = F, OF less.prems(1-3)]
      by (auto simp: p2p_step_iff)
    with less.hyps [of r] less.prems(2,3) obtain j q where
      "(p2p_step decrypt F ^^ j) r q" "pair_inv pt F q" "pp_to_up q = []" "pp_to_down q = []" by blast
    moreover from relpowp_Suc_I2 [OF r(1) this(1)] have "(p2p_step decrypt F ^^ Suc j) p q" .
    ultimately show ?thesis by blast
  qed
qed

lemma pair_quiet:
  "pair_inv pt F p \<Longrightarrow> pp_to_up p = [] \<Longrightarrow> pp_to_down p = [] \<Longrightarrow>
   pp_served p \<and> pp_finished p \<and> df_target (ds_file (pp_state p)) = Some pt"
  unfolding pair_inv_def
proof (elim exE)
  fix ph
  assume "in_phase pt F p ph" "pp_to_up p = []" "pp_to_down p = []"
  then show ?thesis by (cases ph) auto
qed

lemma pair_outcome:
  assumes d: "decrypt F = Inr pt" and len: "length F < 2 ^ 64" and h: "holds_first F n st"
    and r: "ds_requested st = of_nat n"
    and run: "(p2p_step decrypt F ^^ k) (pair_start st) p"
  shows "k \<le> 2 * (length F - n) + 4 \<and> pair_inv pt F p"
proof -
  have u: "unat (of_nat n :: u64) = n" "unat (len64 F) = length F" and tot: "ds_total st = len64 F"
    using h len by (simp_all add: unat_of_nat_len unat_len64 holds_first_def)
  have "in_phase pt F (pair_start st) (Greeting n)" using h r by (simp add: pair_start_def)
  then have "pair_inv pt F (pair_start st)" unfolding pair_inv_def by blast
  moreover have "to_do (pair_start st) = 2 * (length F - n) + 4"
    using tot r u by (simp add: to_do_def pair_start_def)
  ultimately show ?thesis using pair_run [OF run _ len d] by auto
qed

text \<open>A peer-to-peer transfer completes, however the two peers take turns, and from
  whatever prefix of the file the downloader starts: no turn ever panics or fails, there are
  at most two turns for every byte still missing and four more, so the exchange ends; and when
  nothing is left in the channel both peers have ended and the target file holds the
  decrypted content.\<close>

theorem p2p_transfer_completes:
  assumes "decrypt F = Inr pt" and "length F < 2 ^ 64"
    and "df_state (ds_file st) = Unwritten (take n F)" and "n \<le> length F"
    and "df_size (ds_file st) = len64 F" and "ds_total st = len64 F"
    and "ds_requested st = of_nat n"
    and "(p2p_step decrypt F ^^ k) (pair_start st) p"
  shows "k \<le> 2 * (length F - n) + 4 \<and>
    (pp_to_up p \<noteq> [] \<longrightarrow> uploader_turn F p \<noteq> None) \<and>
    (pp_to_down p \<noteq> [] \<longrightarrow> downloader_turn decrypt p \<noteq> None) \<and>
    (pp_to_up p = [] \<and> pp_to_down p = [] \<longrightarrow>
       pp_served p \<and> pp_finished p \<and> df_target (ds_file (pp_state p)) = Some pt)"
proof -
  have "holds_first F n st"
    using assms(2-7)
    by (simp add: holds_first_def window_ok_def word_le_nat_alt unat_of_nat_len unat_len64)
  from pair_outcome [OF assms(1,2) this assms(7,8)]
  have inv: "pair_inv pt F p" and k: "k \<le> 2 * (length F - n) + 4" by simp_all
  have "pp_to_up p \<noteq> [] \<longrightarrow> uploader_turn F p \<noteq> None"
    using uploader_turn_works [OF inv assms(2)] by auto
  moreover have "pp_to_down p \<noteq> [] \<longrightarrow> downloader_turn decrypt p \<noteq> None"
    using downloader_turn_works [where decrypt = decrypt and F = F, OF inv assms(2,1)] by auto
  ultimately show ?thesis using k pair_quiet [OF inv] by blast
qed

lemma example_pair:
  "uploader_turn [1, 2, 3] (pair_start
     \<lparr>ds_file = \<lparr>df_size = 3, df_state = Unwritten [1], df_taken = []\<rparr>, ds_requested = 1,
      ds_total = 3, ds_progress = []\<rparr>) =
   Some \<lparr>pp_state = \<lparr>ds_file = \<lparr>df_size = 3, df_state = Unwritten [1], df_taken = []\<rparr>,
      ds_requested = 1, ds_total = 3, ds_progress = []\<rparr>, pp_connected = False, pp_to_up = [],
      pp_to_down = [UploaderHello], pp_finished = False, pp_served = False\<rparr>"
  by (simp add: uploader_turn_def pair_start_def handle_downloader_message_def)

theorem p2p_transfer_completes_witness:
  "downloader_turn Inr \<lparr>pp_state = \<lparr>ds_file = \<lparr>df_size = 3, df_state = Unwritten [1],
      df_taken = []\<rparr>, ds_requested = 1, ds_total = 3, ds_progress = []\<rparr>,
      pp_connected = False, pp_to_up = [], pp_to_down = [UploaderHello], pp_finished = False,
      pp_served = False\<rparr> \<noteq> None"
proof -
  have "(p2p_step Inr [1, 2, 3] ^^ 1) (pair_start
     \<lparr>ds_file = \<lparr>df_size = 3, df_state = Unwritten [1], df_taken = []\<rparr>, ds_requested = 1,
      ds_total = 3, ds_progress = []\<rparr>)
    \<lparr>pp_state = \<lparr>ds_file = \<lparr>df_size = 3, df_state = Unwritten [1], df_taken = []\<rparr>,
      ds_requested = 1, ds_total = 3, ds_progress = []\<rparr>, pp_connected = False, pp_to_up = [],
      pp_to_down = [UploaderHello], pp_finished = False, pp_served = False\<rparr>"
    unfolding relpowp_1 by (rule p2p_step.uploads [OF example_pair])
  from p2p_transfer_completes [where n = 1 and pt = "[1, 2, 3]", OF _ _ _ _ _ _ _ this]
  show ?thesis by (simp add: len64_def)
qed

end
