(* ===== verification/Client_Session.thy ===== *)
theory Client_Session
  imports Client_Transfer
begin

text \<open>
  How the client puts its transfers together: the choice of a transport (\<^verbatim>\<open>transport.rs\<close>), the
  timers around requests (\<^verbatim>\<open>util/timeout.rs\<close>), the stream of progress updates
  (\<^verbatim>\<open>util/progress.rs\<close>), and the orchestration of an upload (\<^verbatim>\<open>uploader_client.rs\<close>) and of a
  download (\<^verbatim>\<open>downloader_client.rs\<close>). The outcomes of the tasks that are raced against each
  other, and the order in which they end, are inputs.
\<close>

subsection \<open>Transport\<close>

datatype transport = P2P | Relay | Both

definition with_p2p_and_relay :: "bool \<Rightarrow> bool \<Rightarrow> transport option" where
  "with_p2p_and_relay is_p2p_enabled is_relay_enabled =
     (case (is_p2p_enabled, is_relay_enabled) of
        (True, True) \<Rightarrow> Some Both
      | (True, False) \<Rightarrow> Some P2P
      | (False, True) \<Rightarrow> Some Relay
      | (False, False) \<Rightarrow> None)"

subsection \<open>Timers\<close>

text \<open>One poll of \<open>TimeoutFuture\<close>: the future's output if it is ready, and whether the time is up.\<close>

definition timeout_poll :: "'a option \<Rightarrow> bool \<Rightarrow> (unit + 'a) poll" where
  "timeout_poll output elapsed =
     (case output of
        Some a \<Rightarrow> Ready (Inr a)
      | None \<Rightarrow> if elapsed then Ready (Inl ()) else Waiting)"

text \<open>
  \<open>AbortableTimeoutFuture\<close>: the timer can be aborted through its handle, and is fused, so that
  it is not polled again once it has ended.
\<close>

record abortable_timer =
  at_aborted :: bool
  at_ended :: bool

definition new_timer :: abortable_timer where
  "new_timer = \<lparr>at_aborted = False, at_ended = False\<rparr>"

definition abortable_poll ::
  "abortable_timer \<Rightarrow> 'a option \<Rightarrow> bool \<Rightarrow> (unit + 'a) poll \<times> abortable_timer" where
  "abortable_poll t output elapsed =
     (case output of
        Some a \<Rightarrow> (Ready (Inr a), t)
      | None \<Rightarrow>
          if at_ended t then (Waiting, t)
          else if at_aborted t then (Waiting, t\<lparr>at_ended := True\<rparr>)
          else if elapsed then (Ready (Inl ()), t\<lparr>at_ended := True\<rparr>)
          else (Waiting, t))"

subsection \<open>The upload's websocket handler\<close>

text \<open>
  \<open>RelayRequestTimeoutHandle\<close>: the cell that holds the abort handle of the current relayed
  request, which is named by the number of its attempt.
\<close>

record timeout_cell =
  tc_handle :: "nat option"
  tc_aborted :: "nat list"

definition put_handle :: "timeout_cell \<Rightarrow> nat \<Rightarrow> timeout_cell" where
  "put_handle c h = c\<lparr>tc_handle := Some h\<rparr>"

definition cancel_handle :: "timeout_cell \<Rightarrow> timeout_cell" where
  "cancel_handle c =
     (case tc_handle c of
        Some h \<Rightarrow> c\<lparr>tc_handle := None, tc_aborted := tc_aborted c @ [h]\<rparr>
      | None \<Rightarrow> c)"

text \<open>
  \<open>UploadWebSocketHandler\<close>. \<open>signaling\<close> is \<open>None\<close> without a peer-to-peer client, and otherwise
  whether the client still takes messages.
\<close>

record upload_handler =
  uh_len :: u64
  uh_progress :: progress
  uh_cell :: timeout_cell
  uh_signaling :: "bool option"
  uh_delivered :: "encrypted_rtc_signaling list"

definition upload_websocket_message ::
  "upload_handler \<Rightarrow> web_socket_message \<Rightarrow> flow \<times> upload_handler" where
  "upload_websocket_message h message =
     (case wsm_inner message of
        Some (RtcSignaling m) \<Rightarrow>
          (case uh_signaling h of
             Some True \<Rightarrow> (Continue (), h\<lparr>uh_delivered := uh_delivered h @ [m]\<rparr>)
           | Some False \<Rightarrow> (Break (), h)
           | None \<Rightarrow> (Continue (), h))
      | Some (UploadDataAck ack) \<Rightarrow>
          (Continue (),
           h\<lparr>uh_progress := uh_progress h @ [(ack_offset ack, uh_len h)],
             uh_cell := cancel_handle (uh_cell h)\<rparr>)
      | None \<Rightarrow> (Continue (), h))"

text \<open>
  \<open>DownloadWebSocketMessageHandler\<close>: whether the peer-to-peer client takes the message is
  \<open>alive\<close>.
\<close>

definition download_websocket_message ::
  "bool \<Rightarrow> web_socket_message \<Rightarrow> flow \<times> encrypted_rtc_signaling list" where
  "download_websocket_message alive message =
     (case wsm_inner message of
        Some (RtcSignaling m) \<Rightarrow> if alive then (Continue (), [m]) else (Break (), [])
      | Some (UploadDataAck _) \<Rightarrow> (Continue (), [])
      | None \<Rightarrow> (Continue (), []))"

text \<open>
  One relayed attempt and the websocket together: the attempt is polled, and messages arrive
  in between. The attempt put its handle into the cell when it started.
\<close>

datatype attempt_event =
    Polled "(error + unit) option" bool
  | Arrives web_socket_message

fun relay_attempt ::
  "nat \<Rightarrow> abortable_timer \<Rightarrow> upload_handler \<Rightarrow> attempt_event list \<Rightarrow>
   (unit + (error + unit)) option" where
  "relay_attempt n t h [] = None"
| "relay_attempt n t h (Polled output elapsed # evs) =
     (case abortable_poll (t\<lparr>at_aborted := n \<in> set (tc_aborted (uh_cell h))\<rparr>) output elapsed of
        (Ready r, t') \<Rightarrow> Some r
      | (Waiting, t') \<Rightarrow> relay_attempt n t' h evs)"
| "relay_attempt n t h (Arrives message # evs) =
     relay_attempt n t (snd (upload_websocket_message h message)) evs"

definition start_attempt :: "nat \<Rightarrow> upload_handler \<Rightarrow> attempt_event list \<Rightarrow> (unit + (error + unit)) option" where
  "start_attempt n h evs = relay_attempt n new_timer (h\<lparr>uh_cell := put_handle (uh_cell h) n\<rparr>) evs"

subsection \<open>Driving an upload\<close>

datatype upload_event = P2pEnds "error + unit" | RelayEnds "error + unit"

text \<open>
  The loop around \<open>select!\<close>: the outer option is a panic (\<open>unreachable!\<close>), the inner one is
  \<open>None\<close> while the loop still runs.
\<close>

fun drive_upload :: "transport \<Rightarrow> upload_event list \<Rightarrow> (error + unit) option option" where
  "drive_upload transport [] = Some None"
| "drive_upload transport (P2pEnds (Inr _) # evs) =
     (case transport of
        P2P \<Rightarrow> Some (Some (Inr ()))
      | Both \<Rightarrow> drive_upload transport evs
      | Relay \<Rightarrow> None)"
| "drive_upload transport (P2pEnds (Inl e) # evs) =
     (case transport of
        P2P \<Rightarrow> Some (Some (Inl e))
      | Both \<Rightarrow> drive_upload transport evs
      | Relay \<Rightarrow> None)"
| "drive_upload transport (RelayEnds r # evs) = Some (Some r)"

text \<open>Which tasks there are: \<open>relay_task\<close> and \<open>p2p_task\<close> are set up by the transport.\<close>

definition task_exists :: "transport \<Rightarrow> upload_event \<Rightarrow> bool" where
  "task_exists transport ev =
     (case ev of
        RelayEnds _ \<Rightarrow> (case transport of Relay \<Rightarrow> True | Both \<Rightarrow> True | P2P \<Rightarrow> False)
      | P2pEnds _ \<Rightarrow> (case transport of P2P \<Rightarrow> True | Both \<Rightarrow> True | Relay \<Rightarrow> False))"

subsection \<open>Driving a download\<close>

datatype relay_fallback = Allowed | Forbidden

datatype download_action = Connects | Transfers | Relays

datatype race = ConnectFirst "error + flow" | RelayedFirst "error + unit"

text \<open>
  What happens in one round of the fallback loop: which of the raced tasks ends first, what
  the relayed transfer would answer, the peer-to-peer transfer with the file's offset before
  and after it (\<open>None\<close> if the file is poisoned), and the relayed transfer at the end.
\<close>

record download_round =
  rd_race :: race
  rd_relayed :: "error + unit"
  rd_before :: "u64 option"
  rd_transfer :: "error + unit"
  rd_finish :: "error + unit"
  rd_after :: "u64 option"
  rd_last :: "error + unit"

definition transfer_p2p :: "error + unit \<Rightarrow> error + unit \<Rightarrow> error + unit" where
  "transfer_p2p transfer finish = (case transfer of Inl e \<Rightarrow> Inl e | Inr _ \<Rightarrow> finish)"

fun fallback_loop :: "download_round list \<Rightarrow> (download_action list \<times> (error + unit) option) option" where
  "fallback_loop [] = Some ([], None)"
| "fallback_loop (r # rs) =
     (case rd_race r of
        RelayedFirst res \<Rightarrow> Some ([Relays, Connects], Some res)
      | ConnectFirst (Inl e) \<Rightarrow> Some ([Relays, Connects], Some (rd_relayed r))
      | ConnectFirst (Inr (Break _)) \<Rightarrow> Some ([Relays, Connects], Some (Inr ()))
      | ConnectFirst (Inr (Continue _)) \<Rightarrow>
          (case rd_before r of
             None \<Rightarrow> None
           | Some offset_before_p2p \<Rightarrow>
          case transfer_p2p (rd_transfer r) (rd_finish r) of
             Inr _ \<Rightarrow> Some ([Relays, Connects, Transfers], Some (Inr ()))
           | Inl e \<Rightarrow>
               (case rd_after r of
                  None \<Rightarrow> None
                | Some offset \<Rightarrow>
                    if offset = offset_before_p2p
                    then Some ([Relays, Connects, Transfers, Relays], Some (rd_last r))
                    else map_option (apfst ((@) [Relays, Connects, Transfers]))
                      (fallback_loop rs))))"

record download_run =
  dl_setup :: "error option"
  dl_connect :: "error + flow"
  dl_transfer :: "error + unit"
  dl_finish :: "error + unit"
  dl_rounds :: "download_round list"
  dl_relayed :: "error + unit"

definition after_p2p ::
  "relay_fallback \<Rightarrow> download_action list \<Rightarrow> error + unit \<Rightarrow> download_round list \<Rightarrow>
   (download_action list \<times> (error + unit) option) option" where
  "after_p2p fallback acts p2p_result rounds =
     (case p2p_result of
        Inr _ \<Rightarrow> Some (acts, Some (Inr ()))
      | Inl e \<Rightarrow>
          (case fallback of
             Forbidden \<Rightarrow> Some (acts, Some (Inl e))
           | Allowed \<Rightarrow> map_option (apfst ((@) acts)) (fallback_loop rounds)))"

definition download_p2p ::
  "relay_fallback \<Rightarrow> download_run \<Rightarrow> (download_action list \<times> (error + unit) option) option" where
  "download_p2p fallback d =
     (case dl_setup d of
        Some e \<Rightarrow> Some ([], Some (Inl e))
      | None \<Rightarrow>
          (case dl_connect d of
             Inr (Break _) \<Rightarrow> Some ([Connects], Some (Inr ()))
           | Inr (Continue _) \<Rightarrow>
               after_p2p fallback [Connects, Transfers] (transfer_p2p (dl_transfer d) (dl_finish d))
                 (dl_rounds d)
           | Inl e \<Rightarrow> after_p2p fallback [Connects] (Inl e) (dl_rounds d)))"

definition download_async ::
  "transport \<Rightarrow> download_run \<Rightarrow> (download_action list \<times> (error + unit) option) option" where
  "download_async transport d =
     (case transport of
        Both \<Rightarrow> download_p2p Allowed d
      | P2P \<Rightarrow> download_p2p Forbidden d
      | Relay \<Rightarrow> Some ([Relays], Some (dl_relayed d)))"

text \<open>The state that a download starts with.\<close>

definition new_download_state :: "decrypted_file \<Rightarrow> u64 \<Rightarrow> download_state" where
  "new_download_state f sz =
     \<lparr>ds_file = f, ds_requested = 0, ds_total = sz + extra_ciphertext_len, ds_progress = []\<rparr>"

text \<open>
  Where the native downloader writes: \<open>Path::join\<close> with the name in the metadata, which
  replaces the directory when the name is absolute.
\<close>

definition path_join :: "string \<Rightarrow> string \<Rightarrow> string" where
  "path_join dir p =
     (if take 1 p = ''/'' then p
      else if dir = [] \<or> last dir = CHR ''/'' then dir @ p else dir @ ''/'' @ p)"

definition output_path :: "string option \<Rightarrow> file_meta \<Rightarrow> string" where
  "output_path output_dir meta =
     (case output_dir of Some dir \<Rightarrow> path_join dir (file_name meta) | None \<Rightarrow> file_name meta)"

text \<open>The name is the uploader's: it reaches every absolute path, whatever the directory.\<close>

lemma output_path_anywhere:
  "take 1 p = ''/'' \<Longrightarrow> output_path output_dir \<lparr>file_name = p, file_size = n\<rparr> = p"
  by (simp add: output_path_def path_join_def split: option.split)

subsection \<open>Progress as a stream\<close>

text \<open>
  One poll of \<open>Progress\<close>: what the future answers, the updates queued, and whether a sender
  is left. The result is the stream's next item and what stays queued.
\<close>

definition progress_poll_next ::
  "(error + unit) poll \<Rightarrow> 'u list \<Rightarrow> bool \<Rightarrow> (error + 'u) option poll \<times> 'u list" where
  "progress_poll_next future queued open_senders =
     (case future of
        Ready (Inr _) \<Rightarrow> (Ready None, queued)
      | Ready (Inl e) \<Rightarrow> (Ready (Some (Inl e)), queued)
      | Waiting \<Rightarrow>
          (case queued of
             u # us \<Rightarrow> (Ready (Some (Inr u)), us)
           | [] \<Rightarrow> if open_senders then (Waiting, []) else (Ready None, [])))"

subsection \<open>Uploads keep waiting for a downloader\<close>

lemma cancel_aborts: "tc_handle c = Some n \<Longrightarrow> n \<in> set (tc_aborted (cancel_handle c))"
  by (simp add: cancel_handle_def)

lemma cancel_keeps: "n \<in> set (tc_aborted c) \<Longrightarrow> n \<in> set (tc_aborted (cancel_handle c))"
  by (simp add: cancel_handle_def split: option.splits)

definition is_ack :: "attempt_event \<Rightarrow> bool" where
  "is_ack ev = (case ev of Arrives m \<Rightarrow> (\<exists>a. wsm_inner m = Some (UploadDataAck a)) | _ \<Rightarrow> False)"

lemma message_cell:
  "uh_cell (snd (upload_websocket_message h m)) =
     (if is_ack (Arrives m) then cancel_handle (uh_cell h) else uh_cell h)"
  by (auto simp: upload_websocket_message_def is_ack_def split: option.splits ws_inner.splits bool.splits)

lemma aborted_attempt:
  "n \<in> set (tc_aborted (uh_cell h)) \<Longrightarrow> relay_attempt n t h evs \<noteq> Some (Inl ())"
proof (induction evs arbitrary: t h)
  case (Cons ev evs)
  then show ?case
    by (cases ev)
      (auto simp: abortable_poll_def message_cell cancel_keeps split: option.splits)
qed simp

lemma attempt_timeout:
  assumes "relay_attempt n t h evs = Some (Inl ())" and "tc_handle (uh_cell h) = Some n"
    and "n \<notin> set (tc_aborted (uh_cell h))"
  shows "\<exists>before after. evs = before @ Polled None True # after \<and> list_all (\<lambda>ev. \<not> is_ack ev) before"
  using assms
proof (induction evs arbitrary: t h)
  case (Cons ev evs)
  show ?case
  proof (cases ev)
    case (Polled out elapsed)
    show ?thesis
    proof (cases "out = None \<and> elapsed \<and> \<not> at_ended t")
      case True
      then show ?thesis using Polled by (intro exI [of _ "[]"] exI [of _ evs]) simp
    next
      case False
      then obtain t' where "relay_attempt n t' h evs = Some (Inl ())"
        using Cons.prems Polled
        by (auto simp: abortable_poll_def split: option.splits if_splits)
      from Cons.IH [OF this Cons.prems(2,3)] obtain xs ys where
        "evs = xs @ Polled None True # ys" "list_all (\<lambda>ev. \<not> is_ack ev) xs" by blast
      then show ?thesis
        using Polled by (intro exI [of _ "ev # xs"] exI [of _ ys]) (simp add: is_ack_def)
    qed
  next
    case (Arrives m)
    let ?h = "snd (upload_websocket_message h m)"
    have "\<not> is_ack ev"
    proof
      assume "is_ack ev"
      then have "n \<in> set (tc_aborted (uh_cell ?h))"
        using Arrives Cons.prems(2) by (simp add: message_cell cancel_aborts)
      from aborted_attempt [OF this] show False using Cons.prems(1) Arrives by simp
    qed
    moreover from this have "uh_cell ?h = uh_cell h" using Arrives by (simp add: message_cell)
    moreover have "relay_attempt n t ?h evs = Some (Inl ())" using Cons.prems(1) Arrives by simp
    ultimately obtain xs ys where
      "evs = xs @ Polled None True # ys" "list_all (\<lambda>ev. \<not> is_ack ev) xs"
      using Cons.IH [of t ?h] Cons.prems(2,3) by auto
    then show ?thesis
      using \<open>\<not> is_ack ev\<close> by (intro exI [of _ "ev # xs"] exI [of _ ys]) simp
  qed
qed simp

text \<open>A relayed upload times out only if nobody downloads: an attempt ends with a timeout
  only when its time was up before the first acknowledgement arrived on the websocket after
  the attempt began; from the acknowledgement on it waits as long as the request takes.\<close>

theorem upload_timeout_before_ack:
  assumes "start_attempt n h evs = Some (Inl ())" and "n \<notin> set (tc_aborted (uh_cell h))"
  shows "\<exists>before after. evs = before @ Polled None True # after \<and>
    list_all (\<lambda>ev. \<not> is_ack ev) before"
  using assms attempt_timeout [of n new_timer "h\<lparr>uh_cell := put_handle (uh_cell h) n\<rparr>" evs]
  by (simp add: start_attempt_def put_handle_def)

theorem upload_timeout_before_ack_witness:
  "\<exists>before after. [Arrives \<lparr>wsm_inner = None\<rparr>, Polled None False, Polled None True]
     = before @ Polled None True # after \<and> list_all (\<lambda>ev. \<not> is_ack ev) before"
  using upload_timeout_before_ack [of 0 "\<lparr>uh_len = 9, uh_progress = [],
      uh_cell = \<lparr>tc_handle = None, tc_aborted = []\<rparr>, uh_signaling = None, uh_delivered = []\<rparr>"
      "[Arrives \<lparr>wsm_inner = None\<rparr>, Polled None False, Polled None True]"]
  by (simp add: start_attempt_def new_timer_def put_handle_def abortable_poll_def
      upload_websocket_message_def)

subsection \<open>The transport decides\<close>

definition relay_result :: "upload_event \<Rightarrow> (error + unit) option" where
  "relay_result ev = (case ev of RelayEnds r \<Rightarrow> Some r | P2pEnds _ \<Rightarrow> None)"

definition deciding :: "transport \<Rightarrow> upload_event \<Rightarrow> (error + unit) option" where
  "deciding transport ev =
     (case ev of RelayEnds r \<Rightarrow> Some r | P2pEnds r \<Rightarrow> if transport = P2P then Some r else None)"

fun first_some :: "'b option list \<Rightarrow> 'b option" where
  "first_some [] = None"
| "first_some (Some b # xs) = Some b"
| "first_some (None # xs) = first_some xs"

lemma drive_upload_first:
  "list_all (task_exists transport) evs \<Longrightarrow>
   drive_upload transport evs = Some (first_some (map (deciding transport) evs))"
  by (induction transport evs rule: drive_upload.induct)
    (auto simp: task_exists_def deciding_def split: transport.splits)

text \<open>An upload ends as its transport says: with the relay enabled its result is that of the
  relayed upload, whatever becomes of the peer-to-peer transfer, without it the result is
  that of the peer-to-peer transfer; \<open>unreachable!\<close> is not reached.\<close>

theorem upload_result_by_transport:
  assumes "list_all (task_exists transport) evs"
  shows "drive_upload transport evs =
    Some (if transport = P2P
          then first_some (map (\<lambda>ev. case ev of P2pEnds r \<Rightarrow> Some r | RelayEnds _ \<Rightarrow> None) evs)
          else first_some (map relay_result evs))"
proof -
  have "map (deciding transport) evs = map (if transport = P2P
      then (\<lambda>ev. case ev of P2pEnds r \<Rightarrow> Some r | RelayEnds _ \<Rightarrow> None) else relay_result) evs"
    using assms
    by (intro map_cong)
      (auto simp: deciding_def relay_result_def task_exists_def list_all_iff
        split: upload_event.splits transport.splits)
  then show ?thesis by (simp only: drive_upload_first [OF assms] if_distrib [of "\<lambda>f. map f evs"]
      if_distrib [of first_some])
qed

theorem upload_result_by_transport_witness:
  "drive_upload Both [P2pEnds (Inr ()), RelayEnds (Inl TimedOut)] = Some (Some (Inl TimedOut))"
  using upload_result_by_transport [of Both "[P2pEnds (Inr ()), RelayEnds (Inl TimedOut)]"]
  by (simp add: task_exists_def relay_result_def)

lemma fallback_error:
  "fallback_loop rounds = Some (acts, Some (Inl e)) \<Longrightarrow>
   \<exists>r \<in> set rounds. rd_race r = RelayedFirst (Inl e) \<or> rd_relayed r = Inl e \<or> rd_last r = Inl e"
proof (induction rounds arbitrary: acts rule: fallback_loop.induct)
  case (2 r rs)
  then show ?case
    by (fastforce split: race.splits sum.splits control_flow.splits option.splits if_splits
        prod.splits)
qed simp

text \<open>A download keeps to its transport: peer-to-peer only, no relayed transfer is ever
  begun and the first failure is the result; relay only, no peer connection is made and the
  result is the relayed transfer's; with both, an error of the peer-to-peer transfer is
  never the result: once set up, the download fails only with an error of a relayed
  transfer.\<close>

theorem download_keeps_to_transport:
  "(case download_async P2P d of
      Some (acts, r) \<Rightarrow> Relays \<notin> set acts \<and> r =
        Some (case dl_setup d of
          Some e \<Rightarrow> Inl e
        | None \<Rightarrow> (case dl_connect d of
            Inl e \<Rightarrow> Inl e
          | Inr (Break _) \<Rightarrow> Inr ()
          | Inr (Continue _) \<Rightarrow> transfer_p2p (dl_transfer d) (dl_finish d)))
    | None \<Rightarrow> False) \<and>
   download_async Relay d = Some ([Relays], Some (dl_relayed d)) \<and>
   (case download_async Both d of
      Some (acts, Some (Inl e)) \<Rightarrow> dl_setup d = Some e \<or>
        (\<exists>r \<in> set (dl_rounds d).
           rd_race r = RelayedFirst (Inl e) \<or> rd_relayed r = Inl e \<or> rd_last r = Inl e)
    | _ \<Rightarrow> True)"
proof -
  have "dl_setup d = Some e \<or> (\<exists>r \<in> set (dl_rounds d).
      rd_race r = RelayedFirst (Inl e) \<or> rd_relayed r = Inl e \<or> rd_last r = Inl e)"
    if "download_async Both d = Some (acts, Some (Inl e))" for acts e
    using that fallback_error [of "dl_rounds d" _ e]
    by (auto simp: download_async_def download_p2p_def after_p2p_def
        split: option.splits sum.splits control_flow.splits)
  then show ?thesis
    by (auto simp: download_async_def download_p2p_def after_p2p_def transfer_p2p_def
        split: option.splits sum.splits control_flow.splits)
qed

text \<open>
  The rounds of one download: the file only grows, and never beyond its size.
\<close>

fun rounds_grow :: "nat \<Rightarrow> nat \<Rightarrow> download_round list \<Rightarrow> bool" where
  "rounds_grow n whole [] = True"
| "rounds_grow n whole (r # rs) =
     (case (rd_before r, rd_after r) of
        (Some b, Some a) \<Rightarrow>
          n \<le> unat b \<and> unat b \<le> unat a \<and> unat a \<le> whole \<and> rounds_grow (unat a) whole rs
      | _ \<Rightarrow> False)"

lemma fallback_continues:
  assumes "fallback_loop (r # rs) = Some (acts, None)"
  shows "rd_after r \<noteq> rd_before r \<and> (\<exists>acts'. fallback_loop rs = Some (acts', None))"
  using assms
  by (auto split: race.splits sum.splits control_flow.splits option.splits if_splits)

lemma fallback_running:
  "fallback_loop rs = Some (acts, None) \<Longrightarrow> rounds_grow n whole rs \<Longrightarrow> rs = [] \<or> n + length rs \<le> whole"
proof (induction rs arbitrary: n acts)
  case (Cons r rs)
  obtain b a where ba: "rd_before r = Some b" "rd_after r = Some a" "n \<le> unat b" "unat b \<le> unat a"
    "unat a \<le> whole" "rounds_grow (unat a) whole rs"
    using Cons.prems(2) by (auto split: option.splits)
  obtain acts' where c: "a \<noteq> b" "fallback_loop rs = Some (acts', None)"
    using fallback_continues [OF Cons.prems(1)] ba by auto
  then have "unat b < unat a" using ba(4) by (auto simp: word_unat_eq_iff)
  then show ?case using Cons.IH [OF c(2) ba(6)] ba by auto
qed simp

lemma fallback_no_panic: "rounds_grow n whole rs \<Longrightarrow> fallback_loop rs \<noteq> None"
proof (induction rs arbitrary: n)
  case (Cons r rs)
  obtain b a where "rd_before r = Some b" "rd_after r = Some a" "rounds_grow (unat a) whole rs"
    using Cons.prems by (auto split: option.splits)
  then show ?case
    using Cons.IH [of "unat a"] by (auto split: race.split sum.split control_flow.split)
qed simp

text \<open>C33: The fallback from peer-to-peer to relayed transfer and back ends: every round that the
  loop goes on after has brought the file forward, so that there are at most as many as
  bytes were missing, and one more; and as long as the file is not poisoned the loop does
  not panic.\<close>

theorem fallback_ends:
  assumes "rounds_grow n whole rounds" and "whole - n < length rounds" and "rounds \<noteq> []"
  shows "\<exists>acts result. fallback_loop rounds = Some (acts, Some result)"
proof -
  obtain acts r where f: "fallback_loop rounds = Some (acts, r)"
    using fallback_no_panic [OF assms(1)] by fastforce
  show ?thesis
  proof (cases r)
    case None
    then show ?thesis
      using fallback_running [of rounds acts n whole] f assms by auto
  qed (use f in auto)
qed

definition example_round :: "u64 \<Rightarrow> u64 \<Rightarrow> download_round" where
  "example_round b a =
     \<lparr>rd_race = ConnectFirst (Inr (Continue ())), rd_relayed = Inr (), rd_before = Some b,
      rd_transfer = Inl TimedOut, rd_finish = Inr (), rd_after = Some a, rd_last = Inl TimedOut\<rparr>"

theorem fallback_ends_witness:
  "\<exists>acts result. fallback_loop [example_round 0 1, example_round 1 2, example_round 2 2]
     = Some (acts, Some result)"
  by (rule fallback_ends [where n = 0 and whole = 2]) (simp_all add: example_round_def)

text \<open>What a consumer sees: the items of the stream, up to its end.\<close>

datatype 'u progress_event = Sends 'u | Polls "(error + unit) poll"

fun progress_items :: "'u list \<Rightarrow> 'u progress_event list \<Rightarrow> (error + 'u) list \<times> bool" where
  "progress_items queued [] = ([], False)"
| "progress_items queued (Sends u # evs) = progress_items (queued @ [u]) evs"
| "progress_items queued (Polls future # evs) =
     (case progress_poll_next future queued True of
        (Waiting, q) \<Rightarrow> progress_items q evs
      | (Ready None, q) \<Rightarrow> ([], True)
      | (Ready (Some (Inl e)), q) \<Rightarrow> ([Inl e], True)
      | (Ready (Some (Inr u)), q) \<Rightarrow> apfst (Cons (Inr u)) (progress_items q evs))"

definition sent_updates :: "'u progress_event list \<Rightarrow> 'u list" where
  "sent_updates evs = concat (map (\<lambda>ev. case ev of Sends u \<Rightarrow> [u] | Polls _ \<Rightarrow> []) evs)"

text \<open>The stream of an operation's progress: its updates are those the operation sent, in
  their order and without gap, followed by the operation's error if it failed and by nothing
  else; it ends when the operation does, also if updates are still queued, which are then
  never seen.\<close>

theorem progress_stream_in_order:
  "\<exists>us tail. fst (progress_items queued evs) = map Inr us @ tail \<and>
     prefix us (queued @ sent_updates evs) \<and>
     (tail = [] \<or> (\<exists>e. tail = [Inl e] \<and> Polls (Ready (Inl e)) \<in> set evs)) \<and>
     snd (progress_items queued evs) = (\<exists>r. Polls (Ready r) \<in> set evs)"
proof (induction queued evs rule: progress_items.induct)
  case (1 queued)
  then show ?case by (simp add: sent_updates_def)
next
  case (2 queued u evs)
  then show ?case by (simp add: sent_updates_def)
next
  case (3 queued future evs)
  show ?case
  proof (cases future)
    case Waiting
    show ?thesis
    proof (cases queued)
      case Nil
      have "progress_items queued (Polls future # evs) = progress_items [] evs"
        "sent_updates (Polls future # evs) = sent_updates evs"
        "(\<exists>r. Polls (Ready r) \<in> set (Polls future # evs)) = (\<exists>r. Polls (Ready r) \<in> set evs)"
        "Polls (Ready x) \<in> set (Polls future # evs) \<longleftrightarrow> Polls (Ready x) \<in> set evs" for x
        using Nil \<open>future = Waiting\<close> by (simp_all add: progress_poll_next_def sent_updates_def)
      then show ?thesis
        using 3(1) [of Waiting "[]"] Nil \<open>future = Waiting\<close>
        by (simp add: progress_poll_next_def)
    next
      case (Cons u us)
      with \<open>future = Waiting\<close> obtain vs tail where
        "fst (progress_items us evs) = map Inr vs @ tail" "prefix vs (us @ sent_updates evs)"
        "tail = [] \<or> (\<exists>e. tail = [Inl e] \<and> Polls (Ready (Inl e)) \<in> set evs)"
        "snd (progress_items us evs) = (\<exists>r. Polls (Ready r) \<in> set evs)"
        using 3(2) [of "Ready (Some (Inr u))" us "Some (Inr u)" "Inr u" u] by (auto simp: progress_poll_next_def)
      then show ?thesis
        using Cons \<open>future = Waiting\<close>
        by (intro exI [of _ "u # vs"] exI [of _ tail])
          (auto simp: progress_poll_next_def sent_updates_def)
    qed
  next
    case (Ready r)
    then show ?thesis
      by (intro exI [of _ "[]"] exI [of _ "case r of Inl e \<Rightarrow> [Inl e] | Inr _ \<Rightarrow> []"])
        (auto simp: progress_poll_next_def split: sum.splits)
  qed
qed

end
