(* ===== verification/Client_Fallback.thy ===== *)
theory Client_Fallback
  imports Client_Session
begin

text \<open>
  A whole download, \<open>download_async\<close> of \<^verbatim>\<open>downloader_client.rs\<close>, event by event: the peer-to-peer
  attempt, the fallback loop in which a relayed transfer races a new connection, and the file
  that all of them share. \<open>Client_Session\<close> has the same control flow over the outcomes of its
  parts; here the parts are the handlers themselves and the relayed transfer is taken apart
  into its awaits, so that everything interleaves as \<open>select!\<close> lets it. A panic is \<open>None\<close>; an
  event for which nothing waits changes nothing.
\<close>

subsection \<open>The relayed transfer, await by await\<close>

text \<open>
  Each state is one await of \<open>download_content\<close>; the list is what is left of the schedule. The
  updates of the progress, which nothing here reads, are those in the log of \<open>download_content\<close>.
\<close>

datatype relayed_task =
    RtRequest "duration list"
  | RtSent u64 "duration list"
  | RtStream u64 u64 "duration list"
  | RtFlush "duration list"
  | RtClose "duration list"
  | RtEnded "error + unit"

datatype 'h relayed_event =
    RelaySends
  | RelayAnswers "error + u16 \<times> 'h option"
  | RelayItem stream_item
  | RelayEnds
  | RelayPolls io

definition rt_failed :: "retry_error \<Rightarrow> duration list \<Rightarrow> relayed_task" where
  "rt_failed e schedule =
     (if \<not> should_retry e then RtEnded (Inl (re_error e))
      else case adjust e (case schedule of [] \<Rightarrow> None | d # ds \<Rightarrow> Some d) of
             None \<Rightarrow> RtEnded (Inl (re_error e))
           | Some d \<Rightarrow> RtRequest (tl schedule))"

fun relayed_step ::
  "(bytes \<Rightarrow> error + bytes) \<Rightarrow> ('h \<Rightarrow> string option) \<Rightarrow> relayed_task \<Rightarrow> decrypted_file \<Rightarrow>
   'h relayed_event \<Rightarrow> (relayed_task \<times> decrypted_file) option" where
  "relayed_step decrypt to_str (RtRequest s) f RelaySends =
     map_option (\<lambda>offset. (RtSent offset s, f)) (file_offset f)"
| "relayed_step decrypt to_str (RtSent offset s) f (RelayAnswers sent) =
     (case sent of
        Inl e \<Rightarrow> Some (rt_failed (retry_error_from e) s, f)
      | Inr (code, header) \<Rightarrow>
          (case response_ok_or to_str ''failed to download content'' code header of
             Inl e \<Rightarrow> Some (rt_failed (retry_error_from e) s, f)
           | Inr _ \<Rightarrow> Some (RtStream offset 0 s, f)))"
| "relayed_step decrypt to_str (RtStream offset downloaded s) f (RelayItem item) =
     (case item of
        StreamFailed e \<Rightarrow> Some (rt_failed (retry_error_from (HTTPClient e)) s, f)
      | StreamTimeout \<Rightarrow> Some (rt_failed (retry_error_from TimedOut) s, f)
      | StreamData d \<Rightarrow>
          (case write_all f d of
             None \<Rightarrow> None
           | Some (Inl e, f') \<Rightarrow> Some (rt_failed (permanent (IO e)) s, f')
           | Some (Inr _, f') \<Rightarrow> Some (RtStream offset (downloaded + len64 d) s, f')))"
| "relayed_step decrypt to_str (RtStream offset downloaded s) f RelayEnds = Some (RtFlush s, f)"
| "relayed_step decrypt to_str (RtFlush s) f (RelayPolls io) =
     (case poll_flush decrypt f io of
        None \<Rightarrow> None
      | Some (Waiting, f') \<Rightarrow> Some (RtFlush s, f')
      | Some (Ready (Inl e), f') \<Rightarrow> Some (rt_failed (permanent (IO e)) s, f')
      | Some (Ready (Inr _), f') \<Rightarrow> Some (RtClose s, f'))"
| "relayed_step decrypt to_str (RtClose s) f (RelayPolls io) =
     (case poll_close decrypt f io of
        None \<Rightarrow> None
      | Some (Waiting, f') \<Rightarrow> Some (RtClose s, f')
      | Some (Ready (Inl e), f') \<Rightarrow> Some (rt_failed (permanent (IO e)) s, f')
      | Some (Ready (Inr _), f') \<Rightarrow> Some (RtEnded (Inr ()), f'))"
| "relayed_step decrypt to_str task f _ = Some (task, f)"

fun relayed_events ::
  "(bytes \<Rightarrow> error + bytes) \<Rightarrow> ('h \<Rightarrow> string option) \<Rightarrow> relayed_task \<Rightarrow> decrypted_file \<Rightarrow>
   'h relayed_event list \<Rightarrow> (relayed_task \<times> decrypted_file) option" where
  "relayed_events decrypt to_str task f [] = Some (task, f)"
| "relayed_events decrypt to_str task f (ev # evs) =
     Option.bind (relayed_step decrypt to_str task f ev)
       (\<lambda>(task, f). relayed_events decrypt to_str task f evs)"

lemma relayed_events_append:
  "relayed_events decrypt to_str task f (evs @ evs') =
   Option.bind (relayed_events decrypt to_str task f evs)
     (\<lambda>(task, f). relayed_events decrypt to_str task f evs')"
  by (induction evs arbitrary: task f) (auto split: Option.bind_splits)

subsection \<open>The awaits of an attempt\<close>

text \<open>The events of one attempt; what comes after a failure is for nobody.\<close>

definition attempt_events :: "'h download_reply \<Rightarrow> 'h relayed_event list" where
  "attempt_events reply =
     RelayAnswers (dr_sent reply) # map RelayItem (dr_items reply) @
     [RelayEnds, RelayPolls (final_io (dr_io reply)), RelayPolls (final_io (dr_io reply))]"

definition leftover :: "relayed_task \<Rightarrow> bool" where
  "leftover task = (case task of RtRequest _ \<Rightarrow> True | RtEnded _ \<Rightarrow> True | _ \<Rightarrow> False)"

definition tail_event :: "'h relayed_event \<Rightarrow> bool" where
  "tail_event ev = (ev \<noteq> RelaySends)"

lemma leftover_ignores:
  "leftover task \<Longrightarrow> list_all tail_event evs \<Longrightarrow>
   relayed_events decrypt to_str task f evs = Some (task, f)"
proof (induction evs)
  case (Cons ev evs)
  then show ?case by (cases task; cases ev) (simp_all add: leftover_def tail_event_def)
qed simp

lemma leftover_failed [simp]: "leftover (rt_failed e s)"
  by (simp add: rt_failed_def leftover_def split: option.split)

definition closing :: "'h download_reply \<Rightarrow> 'h relayed_event list" where
  "closing reply = [RelayEnds, RelayPolls (final_io (dr_io reply)), RelayPolls (final_io (dr_io reply))]"

lemma stream_events:
  assumes "stream_to_file offset whole downloaded (f, log) items = Some (r, f', log')"
  shows "relayed_events decrypt to_str (RtStream offset downloaded s) f (map RelayItem items)
    = Some (case r of Inl e \<Rightarrow> rt_failed e s | Inr _ \<Rightarrow> RtStream offset (downloaded + len64 (concat (map item_data items))) s, f')"
  using assms
proof (induction items arbitrary: f log downloaded)
  case Nil
  then show ?case by (auto simp: len64_def)
next
  case (Cons i items)
  have t: "list_all tail_event (map RelayItem items :: 'a relayed_event list)"
    by (induction items) (simp_all add: tail_event_def)
  show ?case
  proof (cases i)
    case (StreamData d)
    obtain w g where w: "write_all f d = Some (w, g)"
      using Cons.prems StreamData by (auto simp: Let_def split: option.splits)
    show ?thesis
    proof (cases w)
      case (Inl e)
      then show ?thesis
        using Cons.prems StreamData w by (auto simp: Let_def leftover_ignores [OF _ t])
    next
      case (Inr u)
      then have "stream_to_file offset whole (downloaded + len64 d)
          (g, log @ [(offset + (downloaded + len64 d), whole)]) items = Some (r, f', log')"
        using Cons.prems StreamData w by (simp add: Let_def)
      from Cons.IH [OF this] show ?thesis
        using StreamData w Inr by (simp add: len64_def add.assoc split: sum.split)
    qed
  qed (use Cons.prems in \<open>auto simp: leftover_ignores [OF _ t]\<close>)
qed

lemma closing_events:
  assumes "(case awaited (poll_flush decrypt f (final_io io)) log of
       None \<Rightarrow> None
     | Some (Inl e, st) \<Rightarrow> Some (Inl e, st)
     | Some (Inr _, f1, log1) \<Rightarrow> awaited (poll_close decrypt f1 (final_io io)) log1)
    = Some (r, f', log')"
  shows "relayed_events decrypt to_str (RtStream offset downloaded s) f
      [RelayEnds, RelayPolls (final_io io), RelayPolls (final_io io)]
    = Some (case r of Inl e \<Rightarrow> rt_failed e s | Inr _ \<Rightarrow> RtEnded (Inr ()), f')"
proof -
  have ig: "relayed_step decrypt to_str (rt_failed e s) g (RelayPolls (final_io io)) = Some (rt_failed e s, g)"
    for e g
    using leftover_ignores [of "rt_failed e s" "[RelayPolls (final_io io)]" decrypt to_str g]
    by (auto simp: tail_event_def split: Option.bind_splits)
  show ?thesis
    using assms ig
    by (auto simp: awaited_def split: option.splits poll.splits sum.splits prod.splits)
qed

lemma attempt_refined:
  assumes "download_attempt decrypt to_str whole (f, log) server = Some (r, f', log')"
  shows "\<exists>offset. file_offset f = Some offset \<and>
    relayed_events decrypt to_str (RtRequest s) f
      (RelaySends # attempt_events (server (download_range offset)))
    = Some (case r of Inl e \<Rightarrow> rt_failed e s | Inr _ \<Rightarrow> RtEnded (Inr ()), f')"
proof -
  obtain offset where o: "file_offset f = Some offset"
    using assms by (auto simp: download_attempt_def split: option.splits)
  let ?reply = "server (download_range offset)"
  let ?rest = "map RelayItem (dr_items ?reply) @
    [RelayEnds, RelayPolls (final_io (dr_io ?reply)), RelayPolls (final_io (dr_io ?reply))]"
  have t: "list_all tail_event ?rest" by (simp add: list_all_iff tail_event_def)
  note ig = leftover_ignores [OF leftover_failed t, of decrypt to_str]
  have "relayed_events decrypt to_str (RtRequest s) f (RelaySends # attempt_events ?reply)
      = Some (case r of Inl e \<Rightarrow> rt_failed e s | Inr _ \<Rightarrow> RtEnded (Inr ()), f')"
  proof (cases "\<exists>code header. dr_sent ?reply = Inr (code, header) \<and>
      response_ok_or to_str ''failed to download content'' code header = Inr ()")
    case False
    then show ?thesis
      using assms o ig by (auto simp: download_attempt_def attempt_events_def Let_def split: sum.splits)
  next
    case True
    then obtain code header where ok: "dr_sent ?reply = Inr (code, header)"
      "response_ok_or to_str ''failed to download content'' code header = Inr ()" by blast
    obtain r1 f1 log1 where st: "stream_to_file offset whole 0 (f, log) (dr_items ?reply) = Some (r1, f1, log1)"
      using assms o ok by (auto simp: download_attempt_def Let_def split: option.splits)
    note ev = stream_events [OF st, of decrypt to_str s]
    show ?thesis
    proof (cases r1)
      case (Inl e)
      have "list_all tail_event [RelayEnds, RelayPolls (final_io (dr_io ?reply)),
          RelayPolls (final_io (dr_io ?reply)) :: 'a relayed_event]" by (simp add: tail_event_def)
      note ig' = leftover_ignores [OF leftover_failed this, of decrypt to_str]
      have "r = Inl e" "f' = f1"
        using Inl assms o ok st by (auto simp: download_attempt_def Let_def)
      then show ?thesis
        using Inl o ok ev ig' by (simp add: attempt_events_def relayed_events_append)
    next
      case (Inr u)
      then have "(case awaited (poll_flush decrypt f1 (final_io (dr_io ?reply))) log1 of
          None \<Rightarrow> None
        | Some (Inl e, st) \<Rightarrow> Some (Inl e, st)
        | Some (Inr _, f1, log1) \<Rightarrow> awaited (poll_close decrypt f1 (final_io (dr_io ?reply))) log1)
        = Some (r, f', log')"
        using assms o ok st by (simp add: download_attempt_def Let_def)
      note cl = closing_events [OF this, of to_str]
      show ?thesis
        using o ok ev cl Inr by (simp add: attempt_events_def relayed_events_append)
    qed
  qed
  then show ?thesis using o by blast
qed

text \<open>
  The transfer against a list of servers, one for each attempt: each is asked from where the
  file stands, and a transfer that has ended asks no more.
\<close>

fun relayed_attempts ::
  "(bytes \<Rightarrow> error + bytes) \<Rightarrow> ('h \<Rightarrow> string option) \<Rightarrow> relayed_task \<Rightarrow> decrypted_file \<Rightarrow>
   (string \<Rightarrow> 'h download_reply) list \<Rightarrow> (relayed_task \<times> decrypted_file) option" where
  "relayed_attempts decrypt to_str (RtRequest s) f (server # servers) =
     Option.bind (file_offset f)
       (\<lambda>offset. Option.bind
          (relayed_events decrypt to_str (RtRequest s) f
             (RelaySends # attempt_events (server (download_range offset))))
          (\<lambda>(task, f). relayed_attempts decrypt to_str task f servers))"
| "relayed_attempts decrypt to_str task f servers = Some (task, f)"

text \<open>C9: 
  The relayed transfer taken apart is the one of \<open>Client_Download\<close>: against the same servers,
  the awaits end in the same result and the same file.
\<close>

theorem relayed_transfer_refined:
  assumes "download_content decrypt to_str whole f servers schedule = Some (result, f', log)"
  shows "\<exists>task. relayed_attempts decrypt to_str (RtRequest schedule) f servers = Some (task, f') \<and>
    (case result of None \<Rightarrow> \<exists>s. task = RtRequest s | Some r \<Rightarrow> task = RtEnded r)"
proof -
  have "\<exists>task. relayed_attempts decrypt to_str (RtRequest schedule) f servers = Some (task, f') \<and>
      (case result of None \<Rightarrow> \<exists>s. task = RtRequest s | Some r \<Rightarrow> task = RtEnded r)"
    if "retry_with (download_attempt decrypt to_str whole) (f, log0) servers schedule = Some (result, f', log)"
    for log0
    using that
  proof (induction servers arbitrary: f log0 schedule)
    case (Cons server servers)
    obtain r f1 log1 where a: "download_attempt decrypt to_str whole (f, log0) server = Some (r, f1, log1)"
      using Cons.prems by (auto split: option.splits)
    obtain offset where e: "file_offset f = Some offset" "relayed_events decrypt to_str (RtRequest schedule) f
        (RelaySends # attempt_events (server (download_range offset)))
      = Some (case r of Inl e \<Rightarrow> rt_failed e schedule | Inr _ \<Rightarrow> RtEnded (Inr ()), f1)"
      using attempt_refined [OF a] by blast
    show ?case
    proof (cases "\<exists>err. r = Inl err \<and> (\<exists>s. rt_failed err schedule = RtRequest s)")
      case True
      then obtain err s where err: "r = Inl err" "rt_failed err schedule = RtRequest s" by blast
      then have "s = tl schedule" and
        "retry_with (download_attempt decrypt to_str whole) (f1, log1) servers (tl schedule)
          = Some (result, f', log)"
        using Cons.prems a by (auto simp: rt_failed_def split: if_splits option.splits)
      with Cons.IH [OF this(2)] show ?thesis using e err by simp
    next
      case False
      then obtain q where "(case r of Inl e \<Rightarrow> rt_failed e schedule | Inr _ \<Rightarrow> RtEnded (Inr ())) = RtEnded q"
        "result = Some q" "f' = f1"
        using Cons.prems a by (cases r) (auto simp: rt_failed_def split: if_splits option.splits)
      then show ?thesis using e by simp
    qed
  qed auto
  then show ?thesis using assms unfolding download_content_def by blast
qed

theorem relayed_transfer_refined_witness:
  "\<exists>f. relayed_attempts Inr Some (RtRequest []) (decrypt_file 2) [example_server (replicate 30 5) 30]
     = Some (RtEnded (Inr ()), f)"
proof -
  obtain f where "download_content Inr Some 2 (decrypt_file 2) [example_server (replicate 30 5) 30] []
      = Some (Some (Inr ()), f, [(30, 2)])" using relayed_progress_exceeds_total by blast
  from relayed_transfer_refined [OF this] show ?thesis by auto
qed

subsection \<open>The whole download\<close>

text \<open>
  What is awaited: the set-up; a new connection with the first transfer behind it; the race
  of a relayed transfer with a new connection; a further peer-to-peer transfer, with the
  offset before it; the request that finishes a transfer (with that offset, if it was a
  further one); a relayed transfer on its own.
\<close>

datatype download_phase =
    Starting
  | Connecting
  | Transferring
  | Racing relayed_task
  | Continuing u64
  | Finishing "u64 option"
  | Relaying relayed_task
  | Over "error + unit"

record fallback =
  fb_state :: download_state
  fb_phase :: download_phase

text \<open>
  What the peer-to-peer client passes to its handlers (with how the write to the target goes,
  should it come to that), or the error with which it ends.
\<close>

datatype 'h fallback_event =
    SetUp
  | P2pFails error
  | ChannelOpens write_end
  | ChannelSays bytes write_end
  | Relays "'h relayed_event"
  | FinishAnswers "error + unit"

text \<open>How a peer-to-peer attempt that failed goes on. \<open>delays\<close> is the schedule of a relayed transfer.\<close>

definition first_failed :: "transport \<Rightarrow> duration list \<Rightarrow> error \<Rightarrow> download_phase" where
  "first_failed transport delays e =
     (if transport = Both then Racing (RtRequest delays) else Over (Inl e))"

definition further_failed ::
  "duration list \<Rightarrow> u64 \<Rightarrow> download_state \<Rightarrow> download_phase option" where
  "further_failed delays offset_before_p2p st =
     map_option
       (\<lambda>offset. if offset = offset_before_p2p then Relaying (RtRequest delays)
          else Racing (RtRequest delays))
       (file_offset (ds_file st))"

definition p2p_failed ::
  "transport \<Rightarrow> duration list \<Rightarrow> download_phase \<Rightarrow> error \<Rightarrow> download_state \<Rightarrow> download_phase option" where
  "p2p_failed transport delays phase e st =
     (case phase of
        Starting \<Rightarrow> Some (Over (Inl e))
      | Connecting \<Rightarrow> Some (first_failed transport delays e)
      | Transferring \<Rightarrow> Some (first_failed transport delays e)
      | Finishing None \<Rightarrow> Some (first_failed transport delays e)
      | Racing task \<Rightarrow> Some (Relaying task)
      | Continuing offset \<Rightarrow> further_failed delays offset st
      | Finishing (Some offset) \<Rightarrow> further_failed delays offset st
      | Relaying task \<Rightarrow> Some (Relaying task)
      | Over r \<Rightarrow> Some (Over r))"

definition connected :: "download_phase \<Rightarrow> download_state \<Rightarrow> download_phase option" where
  "connected phase st =
     (case phase of
        Racing task \<Rightarrow> map_option Continuing (file_offset (ds_file st))
      | _ \<Rightarrow> Some Transferring)"

text \<open>The verdicts of the two handlers.\<close>

definition connect_verdict ::
  "transport \<Rightarrow> duration list \<Rightarrow> download_phase \<Rightarrow> (flow, unit) control_flow handled \<Rightarrow> fallback option" where
  "connect_verdict transport delays phase r =
     (case r of
        None \<Rightarrow> None
      | Some (ms, Inl e, st) \<Rightarrow>
          map_option (\<lambda>p. \<lparr>fb_state = st, fb_phase = p\<rparr>) (p2p_failed transport delays phase e st)
      | Some (ms, Inr (Continue _), st) \<Rightarrow> Some \<lparr>fb_state = st, fb_phase = phase\<rparr>
      | Some (ms, Inr (Break (Break _)), st) \<Rightarrow> Some \<lparr>fb_state = st, fb_phase = Over (Inr ())\<rparr>
      | Some (ms, Inr (Break (Continue _)), st) \<Rightarrow>
          map_option (\<lambda>p. \<lparr>fb_state = st, fb_phase = p\<rparr>) (connected phase st))"

definition transfer_verdict ::
  "transport \<Rightarrow> duration list \<Rightarrow> download_phase \<Rightarrow> flow handled \<Rightarrow> fallback option" where
  "transfer_verdict transport delays phase r =
     (case r of
        None \<Rightarrow> None
      | Some (ms, Inl e, st) \<Rightarrow>
          map_option (\<lambda>p. \<lparr>fb_state = st, fb_phase = p\<rparr>) (p2p_failed transport delays phase e st)
      | Some (ms, Inr (Continue _), st) \<Rightarrow> Some \<lparr>fb_state = st, fb_phase = phase\<rparr>
      | Some (ms, Inr (Break _), st) \<Rightarrow>
          Some \<lparr>fb_state = st,
            fb_phase = Finishing (case phase of Continuing offset \<Rightarrow> Some offset | _ \<Rightarrow> None)\<rparr>)"

definition relayed_phase :: "(relayed_task \<Rightarrow> download_phase) \<Rightarrow> relayed_task \<Rightarrow> download_phase" where
  "relayed_phase alive task = (case task of RtEnded r \<Rightarrow> Over r | _ \<Rightarrow> alive task)"

definition fallback_start :: "transport \<Rightarrow> duration list \<Rightarrow> decrypted_file \<Rightarrow> u64 \<Rightarrow> fallback" where
  "fallback_start transport delays f sz =
     \<lparr>fb_state = new_download_state f sz,
      fb_phase = (if transport = Relay then Relaying (RtRequest delays) else Starting)\<rparr>"

definition connecting :: "download_phase \<Rightarrow> bool" where
  "connecting phase = (case phase of Connecting \<Rightarrow> True | Racing _ \<Rightarrow> True | _ \<Rightarrow> False)"

definition transferring :: "download_phase \<Rightarrow> bool" where
  "transferring phase = (case phase of Transferring \<Rightarrow> True | Continuing _ \<Rightarrow> True | _ \<Rightarrow> False)"

definition fallback_step ::
  "transport \<Rightarrow> duration list \<Rightarrow> (bytes \<Rightarrow> uploader_message option) \<Rightarrow> (bytes \<Rightarrow> error + bytes) \<Rightarrow>
   ('h \<Rightarrow> string option) \<Rightarrow> (downloader_inner \<Rightarrow> error option) \<Rightarrow> fallback \<Rightarrow> 'h fallback_event \<Rightarrow>
   fallback option" where
  "fallback_step transport delays decode decrypt to_str send y ev =
     (let phase = fb_phase y; st = fb_state y
      in case ev of
           SetUp \<Rightarrow> Some (if phase = Starting then y\<lparr>fb_phase := Connecting\<rparr> else y)
         | P2pFails e \<Rightarrow>
             (if phase = Starting \<or> connecting phase \<or> transferring phase
              then map_option (\<lambda>p. y\<lparr>fb_phase := p\<rparr>) (p2p_failed transport delays phase e st)
              else Some y)
         | ChannelOpens io \<Rightarrow>
             (if connecting phase
              then connect_verdict transport delays phase (connect_opened send st)
              else if transferring phase
              then transfer_verdict transport delays phase (state_opened decrypt send io st)
              else Some y)
         | ChannelSays data io \<Rightarrow>
             (if connecting phase
              then connect_verdict transport delays phase (connect_message decode decrypt send io st data)
              else if transferring phase
              then transfer_verdict transport delays phase (state_message decode decrypt send io st data)
              else Some y)
         | Relays ev \<Rightarrow>
             (case phase of
                Racing task \<Rightarrow>
                  map_option (\<lambda>(task, f). \<lparr>fb_state = st\<lparr>ds_file := f\<rparr>, fb_phase = relayed_phase Racing task\<rparr>)
                    (relayed_step decrypt to_str task (ds_file st) ev)
              | Relaying task \<Rightarrow>
                  map_option (\<lambda>(task, f). \<lparr>fb_state = st\<lparr>ds_file := f\<rparr>, fb_phase = relayed_phase Relaying task\<rparr>)
                    (relayed_step decrypt to_str task (ds_file st) ev)
              | _ \<Rightarrow> Some y)
         | FinishAnswers r \<Rightarrow>
             (case phase of
                Finishing b \<Rightarrow>
                  (case r of
                     Inr _ \<Rightarrow> Some (y\<lparr>fb_phase := Over (Inr ())\<rparr>)
                   | Inl e \<Rightarrow> map_option (\<lambda>p. y\<lparr>fb_phase := p\<rparr>) (p2p_failed transport delays phase e st))
              | _ \<Rightarrow> Some y))"

fun fallback_run ::
  "transport \<Rightarrow> duration list \<Rightarrow> (bytes \<Rightarrow> uploader_message option) \<Rightarrow> (bytes \<Rightarrow> error + bytes) \<Rightarrow>
   ('h \<Rightarrow> string option) \<Rightarrow> (downloader_inner \<Rightarrow> error option) \<Rightarrow> fallback \<Rightarrow> 'h fallback_event list \<Rightarrow>
   fallback option" where
  "fallback_run transport delays decode decrypt to_str send y [] = Some y"
| "fallback_run transport delays decode decrypt to_str send y (ev # evs) =
     Option.bind (fallback_step transport delays decode decrypt to_str send y ev)
       (\<lambda>y. fallback_run transport delays decode decrypt to_str send y evs)"

subsection \<open>An honest relay and an honest peer\<close>

text \<open>
  Both serve one ciphertext: the relay's stream carries it from the position it was asked for,
  and the peer's answers carry it at their offsets, also those that come late, when the
  downloader already connects again.
\<close>

definition honest_event :: "(bytes \<Rightarrow> uploader_message option) \<Rightarrow> bytes \<Rightarrow> fallback \<Rightarrow> 'h fallback_event \<Rightarrow> bool" where
  "honest_event decode F y ev =
     (case ev of
        Relays (RelayItem (StreamData d)) \<Rightarrow>
          (case fb_phase y of
             Racing (RtStream offset downloaded _) \<Rightarrow> prefix d (drop (unat offset + unat downloaded) F)
           | Relaying (RtStream offset downloaded _) \<Rightarrow> prefix d (drop (unat offset + unat downloaded) F)
           | _ \<Rightarrow> True)
      | ChannelSays data io \<Rightarrow>
          (case Option.bind (decode data) um_inner of
             Some (DataResponse r) \<Rightarrow> prefix (resp_data r) (drop (unat (resp_offset r)) F)
           | _ \<Rightarrow> True)
      | _ \<Rightarrow> True)"

fun honest_run ::
  "transport \<Rightarrow> duration list \<Rightarrow> (bytes \<Rightarrow> uploader_message option) \<Rightarrow> (bytes \<Rightarrow> error + bytes) \<Rightarrow>
   ('h \<Rightarrow> string option) \<Rightarrow> (downloader_inner \<Rightarrow> error option) \<Rightarrow> bytes \<Rightarrow> fallback \<Rightarrow>
   'h fallback_event list \<Rightarrow> bool" where
  "honest_run transport delays decode decrypt to_str send F y [] = True"
| "honest_run transport delays decode decrypt to_str send F y (ev # evs) =
     (honest_event decode F y ev \<and>
      (case fallback_step transport delays decode decrypt to_str send y ev of
         None \<Rightarrow> True
       | Some y' \<Rightarrow> honest_run transport delays decode decrypt to_str send F y' evs))"

text \<open>
  One thing can go wrong with an honest relay and an honest peer, as
  \<open>late_answer_misplaces_relay\<close> below shows: a late answer is written to the file, and then the
  handler that took it fails, while a relayed transfer has its request out. That transfer goes
  on where it was, behind a file that has moved.
\<close>

definition in_flight :: "relayed_task \<Rightarrow> bool" where
  "in_flight task = (case task of RtSent _ _ \<Rightarrow> True | RtStream _ _ _ \<Rightarrow> True | _ \<Rightarrow> False)"

definition moved :: "decrypted_file \<Rightarrow> decrypted_file \<Rightarrow> bool" where
  "moved f f' = (case df_state f' of Unwritten data \<Rightarrow> df_state f \<noteq> Unwritten data | _ \<Rightarrow> False)"

definition late_failure ::
  "(bytes \<Rightarrow> uploader_message option) \<Rightarrow> (bytes \<Rightarrow> error + bytes) \<Rightarrow> (downloader_inner \<Rightarrow> error option) \<Rightarrow>
   fallback \<Rightarrow> 'h fallback_event \<Rightarrow> bool" where
  "late_failure decode decrypt send y ev =
     (case ev of
        ChannelSays data io \<Rightarrow>
          (case (fb_phase y, connect_message decode decrypt send io (fb_state y) data) of
             (Racing task, Some (_, Inl _, st)) \<Rightarrow> in_flight task \<and> moved (ds_file (fb_state y)) (ds_file st)
           | _ \<Rightarrow> False)
      | _ \<Rightarrow> False)"

fun no_late_failure ::
  "transport \<Rightarrow> duration list \<Rightarrow> (bytes \<Rightarrow> uploader_message option) \<Rightarrow> (bytes \<Rightarrow> error + bytes) \<Rightarrow>
   ('h \<Rightarrow> string option) \<Rightarrow> (downloader_inner \<Rightarrow> error option) \<Rightarrow> fallback \<Rightarrow>
   'h fallback_event list \<Rightarrow> bool" where
  "no_late_failure transport delays decode decrypt to_str send y [] = True"
| "no_late_failure transport delays decode decrypt to_str send y (ev # evs) =
     (\<not> late_failure decode decrypt send y ev \<and>
      (case fallback_step transport delays decode decrypt to_str send y ev of
         None \<Rightarrow> True
       | Some y' \<Rightarrow> no_late_failure transport delays decode decrypt to_str send y' evs))"

definition shared_file :: "bytes \<Rightarrow> bytes \<Rightarrow> decrypted_file \<Rightarrow> bool" where
  "shared_file F pt f =
     (unat (df_size f) = length F \<and>
      (case df_state f of
         Unwritten data \<Rightarrow> prefix data F \<and> df_taken f = []
       | PendingWrite data \<Rightarrow> data = F \<and> prefix (df_taken f) pt
       | Complete \<Rightarrow> df_taken f = pt
       | Poisoned \<Rightarrow> prefix (df_taken f) pt))"

lemma shared_file_taken: "shared_file F pt f \<Longrightarrow> prefix (df_taken f) pt"
  by (auto simp: shared_file_def split: write_state.splits)

definition stream_ok :: "decrypted_file \<Rightarrow> relayed_task \<Rightarrow> bool" where
  "stream_ok f task =
     (case df_state f of
        Unwritten data \<Rightarrow>
          (case task of
             RtSent offset _ \<Rightarrow> unat offset = length data
           | RtStream offset downloaded _ \<Rightarrow> unat offset + unat downloaded = length data
           | _ \<Rightarrow> True)
      | _ \<Rightarrow> True)"

definition phase_ok :: "bytes \<Rightarrow> decrypted_file \<Rightarrow> download_phase \<Rightarrow> bool" where
  "phase_ok pt f phase =
     (case phase of
        Racing task \<Rightarrow> stream_ok f task \<and> (\<forall>r. task \<noteq> RtEnded r)
      | Relaying task \<Rightarrow> stream_ok f task \<and> (\<forall>r. task \<noteq> RtEnded r)
      | Finishing _ \<Rightarrow> df_target f = Some pt
      | Over r \<Rightarrow> (r = Inr () \<longrightarrow> df_target f = Some pt)
      | _ \<Rightarrow> True)"

definition fallback_inv :: "bytes \<Rightarrow> bytes \<Rightarrow> fallback \<Rightarrow> bool" where
  "fallback_inv F pt y =
     (shared_file F pt (ds_file (fb_state y)) \<and> unat (ds_total (fb_state y)) = length F \<and>
      phase_ok pt (ds_file (fb_state y)) (fb_phase y))"

text \<open>A flush leaves the file as it is, takes its write on, or fails.\<close>

lemma drive_write_shared:
  assumes "drive_write decrypt f F io = (r, f')" and "unat (df_size f) = length F"
    and "prefix (df_taken f) pt" and "decrypt F = Inr pt"
  shows "shared_file F pt f' \<and> (\<forall>d. df_state f' \<noteq> Unwritten d) \<and>
    (r = Ready (Inr ()) \<longrightarrow> df_state f' = Complete)"
proof -
  have "target_begins decrypt F f" using assms(3,4) by (simp add: target_begins_def)
  from drive_write_begins [OF assms(1) this] show ?thesis
    using assms(2,4) by (cases r rule: poll.exhaust) (auto simp: shared_file_def target_begins_def split: sum.splits)
qed

lemma flush_shared:
  assumes "poll_flush decrypt f io = Some (r, f')" and "shared_file F pt f" and "decrypt F = Inr pt"
  shows "shared_file F pt f' \<and> (\<forall>d. df_state f' = Unwritten d \<longrightarrow> df_state f = Unwritten d) \<and>
    (r = Ready (Inr ()) \<longrightarrow> df_state f' = Complete \<or> (\<exists>d. df_state f' = Unwritten d \<and> length d < length F))"
proof (cases "df_state f")
  case (Unwritten data)
  then have p: "prefix data F" "df_taken f = []" "unat (df_size f) = length F"
    using assms(2) by (simp_all add: shared_file_def)
  show ?thesis
  proof (cases "length data = length F")
    case True
    then have "data = F" using p(1) by (auto simp: prefix_def)
    then show ?thesis
      using assms(1) Unwritten p drive_write_shared [of decrypt f F io r f' pt] assms(3)
      by (auto simp: poll_flush_def)
  next
    case False
    then have "length data < length F" using prefix_length_le [OF p(1)] by simp
    then show ?thesis using assms(1,2) Unwritten p by (auto simp: poll_flush_def)
  qed
next
  case (PendingWrite data)
  then show ?thesis
    using assms drive_write_shared [of decrypt f F io r f' pt]
    by (auto simp: poll_flush_def shared_file_def)
qed (use assms in \<open>auto simp: poll_flush_def\<close>)

lemma close_shared:
  assumes "poll_close decrypt f io = Some (r, f')" and "shared_file F pt f" and "decrypt F = Inr pt"
  shows "shared_file F pt f' \<and> (\<forall>d. df_state f' = Unwritten d \<longrightarrow> df_state f = Unwritten d) \<and>
    (r = Ready (Inr ()) \<longrightarrow> df_target f' = Some pt)"
proof -
  obtain r' where fl: "poll_flush decrypt f io = Some (r', f')" using close_flush [OF assms(1)] by blast
  note s = flush_shared [OF fl assms(2,3)]
  moreover have "r = Ready (Inr ()) \<Longrightarrow> df_state f' = Complete"
    using assms(1) fl by (auto simp: poll_close_def split: poll.splits sum.splits write_state.splits)
  ultimately show ?thesis by (auto simp: shared_file_def)
qed

lemma write_shared:
  assumes "write_all f d = Some (r, f')" and "shared_file F pt f"
    and "\<And>data. df_state f = Unwritten data \<Longrightarrow> prefix d (drop (length data) F)"
  shows "shared_file F pt f' \<and>
    (case df_state f of
       Unwritten data \<Rightarrow> df_state f' = Unwritten (data @ d)
     | _ \<Rightarrow> f' = f)"
  using assms
  by (cases "df_state f")
    (auto simp: write_all_def poll_write_def shared_file_def prefix_def split: if_splits)

definition unwritten_before :: "decrypted_file \<Rightarrow> decrypted_file \<Rightarrow> bool" where
  "unwritten_before f f' = (\<forall>d. df_state f' = Unwritten d \<longrightarrow> df_state f = Unwritten d)"

lemma unwritten_before_refl [simp]: "unwritten_before f f"
  by (simp add: unwritten_before_def)

lemma stream_ok_before: "stream_ok f task \<Longrightarrow> unwritten_before f f' \<Longrightarrow> stream_ok f' task"
  by (auto simp: stream_ok_def unwritten_before_def split: write_state.splits)

lemma stream_ok_failed [simp]: "stream_ok f (rt_failed e s)" "stream_ok f (RtRequest s)"
  "stream_ok f (RtFlush s)" "stream_ok f (RtClose s)" "stream_ok f (RtEnded r)"
  by (auto simp: stream_ok_def rt_failed_def split: write_state.splits option.splits)

lemma stream_ok_at_rest: "\<not> in_flight task \<Longrightarrow> stream_ok f task"
  by (auto simp: stream_ok_def in_flight_def split: write_state.splits relayed_task.splits)

lemma stream_ok_unmoved: "stream_ok f task \<Longrightarrow> \<not> (in_flight task \<and> moved f f') \<Longrightarrow> stream_ok f' task"
proof (cases "in_flight task")
  case True
  then show "stream_ok f task \<Longrightarrow> \<not> (in_flight task \<and> moved f f') \<Longrightarrow> stream_ok f' task"
    by (auto simp: stream_ok_def moved_def split: write_state.splits)
qed (simp add: stream_ok_at_rest)

lemma rt_failed_not_success [simp]: "rt_failed e s \<noteq> RtEnded (Inr ())"
  by (simp add: rt_failed_def split: option.split)

lemma stream_item_shared:
  assumes step: "relayed_step decrypt to_str task f ev = Some (task', f')"
    and item: "task = RtStream offset downloaded s" "ev = RelayItem (StreamData x)"
    and sh: "shared_file F pt f" and so: "stream_ok f task" and len: "length F < 2 ^ 64"
    and h: "prefix x (drop (unat offset + unat downloaded) F)"
  shows "shared_file F pt f' \<and> stream_ok f' task' \<and> task' \<noteq> RtEnded (Inr ())"
proof -
  obtain w g where w: "write_all f x = Some (w, g)" using step item by (auto split: option.splits)
  have at: "prefix x (drop (length data) F)" if "df_state f = Unwritten data" for data
    using h so that item(1) by (simp add: stream_ok_def)
  note ws = write_shared [OF w sh at]
  have f': "f' = g" "task' = (case w of Inl e \<Rightarrow> rt_failed (permanent (IO e)) s
      | Inr _ \<Rightarrow> RtStream offset (downloaded + len64 x) s)"
    using step item w by (auto split: sum.splits)
  have "stream_ok g (RtStream offset (downloaded + len64 x) s)"
  proof (cases "df_state f")
    case (Unwritten data)
    then have "prefix (data @ x) F" using ws by (auto simp: shared_file_def)
    then have l: "length data + length x < 2 ^ 64" using len prefix_length_le by fastforce
    moreover have "unat offset + unat downloaded = length data"
      using so item(1) Unwritten by (simp add: stream_ok_def)
    ultimately have "unat downloaded + length x < 2 ^ 64" by linarith
    then have "unat (downloaded + len64 x) = unat downloaded + length x" by (rule unat_add_len64)
    then show ?thesis
      using ws Unwritten \<open>unat offset + unat downloaded = length data\<close> by (simp add: stream_ok_def)
  next
    case (PendingWrite data)
    then show ?thesis using ws by (simp add: stream_ok_def)
  qed (use ws in \<open>simp_all add: stream_ok_def\<close>)
  then show ?thesis using ws f' by (auto split: sum.splits)
qed

lemma relayed_step_shared:
  assumes step: "relayed_step decrypt to_str task f ev = Some (task', f')"
    and sh: "shared_file F pt f" and so: "stream_ok f task" and alive: "\<forall>r. task \<noteq> RtEnded r"
    and d: "decrypt F = Inr pt" and len: "length F < 2 ^ 64"
    and honest: "\<And>offset downloaded s d. task = RtStream offset downloaded s \<Longrightarrow>
      ev = RelayItem (StreamData d) \<Longrightarrow> prefix d (drop (unat offset + unat downloaded) F)"
  shows "shared_file F pt f' \<and> stream_ok f' task' \<and>
    (task' = RtEnded (Inr ()) \<longrightarrow> df_target f' = Some pt)"
proof (cases task)
  case (RtRequest s)
  then show ?thesis
    using step sh so alive unat_len64 [OF le_less_trans [OF prefix_length_le len]]
    by (cases ev) (auto simp: stream_ok_def shared_file_def file_offset_def split: write_state.splits)
next
  case (RtSent offset s)
  then show ?thesis
  proof (cases "\<exists>sent. ev = RelayAnswers sent")
    case True
    then have "f' = f \<and> ((\<exists>e. task' = rt_failed e s) \<or> task' = RtStream offset 0 s)"
      using step RtSent by (auto split: sum.splits) blast+
    then show ?thesis
      using sh so RtSent by (auto simp: stream_ok_def [of _ "RtSent _ _"] stream_ok_def [of _ "RtStream _ _ _"]
          split: write_state.splits)
  next
    case False
    then have "task' = task \<and> f' = f" using step RtSent by (cases ev) auto
    then show ?thesis using sh so alive by auto
  qed
next
  case (RtStream offset downloaded s)
  show ?thesis
  proof (cases "\<exists>x. ev = RelayItem (StreamData x)")
    case True
    then obtain x where item: "ev = RelayItem (StreamData x)" by blast
    show ?thesis
      using stream_item_shared [OF step RtStream item sh so len honest [OF RtStream item]] by blast
  next
    case False
    then have "f' = f \<and> (task' = task \<or> (\<exists>e. task' = rt_failed e s) \<or> task' = RtFlush s)"
    proof (cases ev)
      case (RelayItem i)
      then show ?thesis using step RtStream False by (cases i) auto
    qed (use step RtStream in auto)
    then show ?thesis using sh so alive by auto
  qed
next
  case (RtFlush s)
  show ?thesis
  proof (cases "\<exists>io. ev = RelayPolls io")
    case True
    then obtain io r where fl: "ev = RelayPolls io" "poll_flush decrypt f io = Some (r, f')"
      using step RtFlush by (auto split: option.splits poll.splits sum.splits)
    then show ?thesis
      using flush_shared [OF fl(2) sh d] step RtFlush by (auto split: poll.splits sum.splits)
  next
    case False
    then have "task' = task \<and> f' = f" using step RtFlush by (cases ev) auto
    then show ?thesis using sh so alive by auto
  qed
next
  case (RtClose s)
  show ?thesis
  proof (cases "\<exists>io. ev = RelayPolls io")
    case True
    then obtain io r where cl: "ev = RelayPolls io" "poll_close decrypt f io = Some (r, f')"
      using step RtClose by (auto split: option.splits poll.splits sum.splits)
    then show ?thesis
      using close_shared [OF cl(2) sh d] step RtClose by (auto split: poll.splits sum.splits)
  next
    case False
    then have "task' = task \<and> f' = f" using step RtClose by (cases ev) auto
    then show ?thesis using sh so alive by auto
  qed
qed (use alive in blast)

subsection \<open>What the peer does to the file\<close>

definition download_ok :: "bytes \<Rightarrow> bytes \<Rightarrow> download_state \<Rightarrow> bool" where
  "download_ok F pt st = (shared_file F pt (ds_file st) \<and> unat (ds_total st) = length F)"

lemma request_shared:
  assumes r: "request_data_or_finish decrypt send io st = Some (ms, v, st')" and ok: "download_ok F pt st"
    and d: "decrypt F = Inr pt" and len: "length F < 2 ^ 64"
  shows "download_ok F pt st' \<and> unwritten_before (ds_file st) (ds_file st') \<and>
    (v = Inr (Break ()) \<longrightarrow> df_target (ds_file st') = Some pt)"
proof -
  obtain offset where o: "file_offset (ds_file st) = Some offset"
    using r by (auto simp: request_data_or_finish_def split: option.splits)
  show ?thesis
  proof (cases "offset < ds_total st")
    case True
    then show ?thesis
      using r ok o by (auto simp: request_data_or_finish_def download_ok_def split: option.splits)
  next
    case False
    then obtain q f where fl: "poll_flush decrypt (ds_file st) (final_io io) = Some (q, f)"
      using r o by (auto simp: request_data_or_finish_def split: option.splits poll.splits)
    have sh: "shared_file F pt (ds_file st)" using ok by (simp add: download_ok_def)
    note s = flush_shared [OF fl sh d]
    have st': "st' = st\<lparr>ds_file := f\<rparr>" "v = Inr (Break ()) \<Longrightarrow> q = Ready (Inr ())"
      using r o False fl by (auto simp: request_data_or_finish_def split: poll.splits sum.splits option.splits)
    have "df_target f = Some pt" if "v = Inr (Break ())"
    proof (cases "df_state f")
      case (Unwritten data)
      then have "df_state (ds_file st) = Unwritten data" "prefix data F" using s by (auto simp: shared_file_def)
      then have "offset = len64 data" "length data < 2 ^ 64"
        using o len prefix_length_le [of data F] by (auto simp: file_offset_def)
      then have "length F \<le> length data"
        using False ok by (simp add: download_ok_def word_le_nat_alt unat_len64 not_less)
      then show ?thesis using s st'(2) [OF that] Unwritten by auto
    qed (use s st'(2) [OF that] in \<open>auto simp: shared_file_def\<close>)
    then show ?thesis using s st'(1) ok by (auto simp: download_ok_def unwritten_before_def)
  qed
qed

lemma message_shared:
  assumes r: "handle_uploader_message decrypt send io st m = Some (ms, v, st')" and ok: "download_ok F pt st"
    and d: "decrypt F = Inr pt" and len: "length F < 2 ^ 64"
    and honest: "\<And>a. um_inner m = Some (DataResponse a) \<Longrightarrow>
      prefix (resp_data a) (drop (unat (resp_offset a)) F)"
  shows "download_ok F pt st' \<and>
    ((\<forall>a. um_inner m \<noteq> Some (DataResponse a)) \<longrightarrow> unwritten_before (ds_file st) (ds_file st')) \<and>
    (v = Inr (Break ()) \<longrightarrow> df_target (ds_file st') = Some pt)"
proof (cases "\<exists>a. um_inner m = Some (DataResponse a)")
  case False
  then show ?thesis
    using r ok by (auto simp: handle_uploader_message_def split: option.splits uploader_inner.splits)
next
  case True
  then obtain a where a: "um_inner m = Some (DataResponse a)" by blast
  obtain offset where o: "file_offset (ds_file st) = Some offset"
    using r a by (auto simp: handle_uploader_message_def split: option.splits)
  show ?thesis
  proof (cases "offset = resp_offset a")
    case False
    then show ?thesis
      using r a o request_shared [where decrypt = decrypt and F = F and pt = pt, OF _ ok d len] by (auto simp: handle_uploader_message_def)
  next
    case True
    obtain w f where w: "write_all (ds_file st) (resp_data a) = Some (w, f)"
      using r a o True by (auto simp: handle_uploader_message_def split: option.splits)
    have sh: "shared_file F pt (ds_file st)" using ok by (simp add: download_ok_def)
    have "prefix (resp_data a) (drop (length data) F)" if "df_state (ds_file st) = Unwritten data" for data
    proof -
      have "prefix data F" using sh that by (simp add: shared_file_def)
      then have "unat (len64 data) = length data"
        using len prefix_length_le [of data F] by (simp add: unat_len64)
      then show ?thesis using honest [OF a] o True that by (simp add: file_offset_def)
    qed
    from write_shared [OF w sh this] have sh': "shared_file F pt f" by blast
    have ok': "download_ok F pt (st\<lparr>ds_file := f\<rparr>)" "download_ok F pt (st\<lparr>ds_file := f, ds_progress := p\<rparr>)" for p
      using ok sh' by (simp_all add: download_ok_def)
    show ?thesis
      using r a o True w ok' request_shared [where decrypt = decrypt and F = F and pt = pt, OF _ ok'(2) d len]
      by (auto simp: handle_uploader_message_def split: sum.splits)
  qed
qed

lemma state_message_shared:
  assumes r: "state_message decode decrypt send io st data = Some (ms, v, st')" and ok: "download_ok F pt st"
    and d: "decrypt F = Inr pt" and len: "length F < 2 ^ 64"
    and honest: "\<And>a. Option.bind (decode data) um_inner = Some (DataResponse a) \<Longrightarrow>
      prefix (resp_data a) (drop (unat (resp_offset a)) F)"
  shows "download_ok F pt st' \<and>
    ((\<forall>a. Option.bind (decode data) um_inner \<noteq> Some (DataResponse a)) \<longrightarrow>
      unwritten_before (ds_file st) (ds_file st')) \<and>
    (v = Inr (Break ()) \<longrightarrow> df_target (ds_file st') = Some pt)"
proof (cases "decode data")
  case None
  then show ?thesis using r ok by (auto simp: state_message_def)
next
  case (Some m)
  then show ?thesis
    using r honest message_shared [where decrypt = decrypt and F = F and pt = pt, OF _ ok d len, of send io m ms v st'] by (simp add: state_message_def)
qed

lemma unwritten_before_trans: "unwritten_before f g \<Longrightarrow> unwritten_before g h \<Longrightarrow> unwritten_before f h"
  by (simp add: unwritten_before_def)

lemma connect_message_shared:
  assumes r: "connect_message decode decrypt send io st data = Some (ms, v, st')" and ok: "download_ok F pt st"
    and d: "decrypt F = Inr pt" and len: "length F < 2 ^ 64"
    and honest: "\<And>a. Option.bind (decode data) um_inner = Some (DataResponse a) \<Longrightarrow>
      prefix (resp_data a) (drop (unat (resp_offset a)) F)"
  shows "download_ok F pt st' \<and>
    ((\<forall>a. Option.bind (decode data) um_inner \<noteq> Some (DataResponse a)) \<longrightarrow>
      unwritten_before (ds_file st) (ds_file st')) \<and>
    (v = Inr (Break (Break ())) \<longrightarrow> df_target (ds_file st') = Some pt)"
proof -
  obtain ms1 v1 st1 where m: "state_message decode decrypt send io st data = Some (ms1, v1, st1)"
    using r by (auto simp: connect_message_def split: option.splits)
  have s: "download_ok F pt st1" "(\<forall>a. Option.bind (decode data) um_inner \<noteq> Some (DataResponse a)) \<longrightarrow>
      unwritten_before (ds_file st) (ds_file st1)"
    "v1 = Inr (Break ()) \<Longrightarrow> df_target (ds_file st1) = Some pt"
    using state_message_shared [where decrypt = decrypt and F = F and pt = pt, OF m ok d len] honest by auto
  show ?thesis
  proof (cases "v1 = Inr (Continue ())")
    case True
    then obtain ms2 v2 where q: "request_data_or_finish decrypt send io st1 = Some (ms2, v2, st')"
      "v = Inr (Break (Break ())) \<Longrightarrow> v2 = Inr (Break ())"
      using r m by (auto simp: connect_message_def split: option.splits sum.splits prod.splits)
    note s2 = request_shared [where decrypt = decrypt and F = F and pt = pt, OF q(1) s(1) d len]
    then show ?thesis using s(2) q(2) unwritten_before_trans by blast
  next
    case False
    then have "st' = st1 \<and> (v = Inr (Break (Break ())) \<longrightarrow> v1 = Inr (Break ()))"
      using r m by (auto simp: connect_message_def split: sum.splits control_flow.splits)
    then show ?thesis using s by blast
  qed
qed


lemma opened_shared:
  "connect_opened send st = Some (ms, v, st') \<Longrightarrow> st' = st \<and> v \<noteq> Inr (Break (Break ()))"
  by (auto simp: connect_opened_def split: option.splits)

subsection \<open>Only the right file\<close>

lemma fallback_inv_alt:
  "fallback_inv F pt y = (download_ok F pt (fb_state y) \<and> phase_ok pt (ds_file (fb_state y)) (fb_phase y))"
  by (auto simp: fallback_inv_def download_ok_def)

lemma p2p_failed_ok:
  "p2p_failed transport delays phase e st = Some p \<Longrightarrow> phase_ok pt f phase \<Longrightarrow> phase_ok pt f p"
  by (auto simp: p2p_failed_def first_failed_def further_failed_def phase_ok_def
      split: download_phase.splits option.splits if_splits)

lemma connecting_before:
  "connecting phase \<Longrightarrow> phase_ok pt f phase \<Longrightarrow> unwritten_before f f' \<Longrightarrow> phase_ok pt f' phase"
  using stream_ok_before by (auto simp: connecting_def phase_ok_def split: download_phase.splits)

lemma transferring_ok: "transferring phase \<Longrightarrow> phase_ok pt f phase"
  by (auto simp: transferring_def phase_ok_def split: download_phase.splits)

lemma connect_message_ends:
  "connect_message decode decrypt send io st data = Some (ms, v, st') \<Longrightarrow> (\<exists>e. v = Inl e) \<or> (\<exists>f. v = Inr (Break f))"
  by (auto simp: connect_message_def split: option.splits sum.splits control_flow.splits)

lemma connect_verdict_inv:
  assumes "connect_verdict transport delays phase (Some (ms, v, st)) = Some y'"
    and "download_ok F pt st" "phase_ok pt (ds_file st) phase \<or> (\<exists>f. v = Inr (Break f))"
    and "v = Inr (Break (Break ())) \<longrightarrow> df_target (ds_file st) = Some pt"
  shows "fallback_inv F pt y'"
  using assms p2p_failed_ok [of transport delays phase _ st _ pt "ds_file st"]
  by (auto simp: connect_verdict_def fallback_inv_alt connected_def
      phase_ok_def [of _ _ "Over _"] phase_ok_def [of _ _ Transferring] phase_ok_def [of _ _ "Continuing _"]
      split: sum.splits control_flow.splits download_phase.splits)

lemma transfer_verdict_inv:
  assumes "transfer_verdict transport delays phase (Some (ms, v, st)) = Some y'"
    and "download_ok F pt st" "phase_ok pt (ds_file st) phase"
    and "v = Inr (Break ()) \<longrightarrow> df_target (ds_file st) = Some pt"
  shows "fallback_inv F pt y'"
  using assms p2p_failed_ok [of transport delays phase _ st _ pt "ds_file st"]
  by (auto simp: transfer_verdict_def fallback_inv_alt phase_ok_def [of _ _ "Finishing _"]
      split: sum.splits control_flow.splits download_phase.splits)

lemma relayed_phase_ok:
  assumes "stream_ok f task" and "task = RtEnded (Inr ()) \<longrightarrow> df_target f = Some pt"
    and "alive = Racing \<or> alive = Relaying"
  shows "phase_ok pt f (relayed_phase alive task)"
  using assms by (auto simp: relayed_phase_def phase_ok_def split: relayed_task.splits)


lemma relays_inv:
  assumes step: "map_option (\<lambda>(task, f). \<lparr>fb_state = (fb_state y)\<lparr>ds_file := f\<rparr>, fb_phase = relayed_phase alive task\<rparr>)
      (relayed_step decrypt to_str task (ds_file (fb_state y)) re) = Some y'"
    and phase: "fb_phase y = alive task" and alive: "alive = Racing \<or> alive = Relaying"
    and inv: "fallback_inv F pt y" and honest: "honest_event decode F y (Relays re)"
    and d: "decrypt F = Inr pt" and len: "length F < 2 ^ 64"
  shows "fallback_inv F pt y'"
proof -
  let ?f = "ds_file (fb_state y)"
  obtain task' f' where s: "relayed_step decrypt to_str task ?f re = Some (task', f')"
    "y' = \<lparr>fb_state = (fb_state y)\<lparr>ds_file := f'\<rparr>, fb_phase = relayed_phase alive task'\<rparr>"
    using step by auto
  have sh: "shared_file F pt ?f" and so: "stream_ok ?f task" and going: "\<forall>r. task \<noteq> RtEnded r"
    using inv phase alive by (auto simp: fallback_inv_def phase_ok_def)
  have carried: "prefix x (drop (unat offset + unat downloaded) F)"
    if "task = RtStream offset downloaded s" "re = RelayItem (StreamData x)" for offset downloaded s x
    using honest that phase alive by (auto simp: honest_event_def)
  have "shared_file F pt f' \<and> stream_ok f' task' \<and> (task' = RtEnded (Inr ()) \<longrightarrow> df_target f' = Some pt)"
    by (rule relayed_step_shared [OF s(1) sh so going d len carried])
  then show ?thesis
    using relayed_phase_ok [OF _ _ alive] s(2) inv by (simp add: fallback_inv_alt download_ok_def)
qed

lemma channel_opens_inv:
  assumes step: "fallback_step transport delays decode decrypt to_str send y (ChannelOpens io) = Some y'"
    and inv: "fallback_inv F pt y"
    and d: "decrypt F = Inr pt" and len: "length F < 2 ^ 64"
  shows "fallback_inv F pt y'"
proof -
  let ?st = "fb_state y"
  have ok: "download_ok F pt ?st" and ph: "phase_ok pt (ds_file ?st) (fb_phase y)"
    using inv by (simp_all add: fallback_inv_alt)
  show ?thesis
  proof (cases "connecting (fb_phase y)")
    case True
    then obtain ms v where "connect_opened send ?st = Some (ms, v, ?st) \<and> v \<noteq> Inr (Break (Break ()))"
      using opened_shared [of send ?st] by (cases "send DownloaderHello") (auto simp: connect_opened_def)
    then show ?thesis
      using step True connect_verdict_inv [OF _ ok disjI1 [OF ph]] by (simp add: fallback_step_def Let_def)
  next
    case False
    then consider (idle) "y' = y" | (asks) ms v st where "transferring (fb_phase y)"
        "request_data_or_finish decrypt send io ?st = Some (ms, v, st)"
        "transfer_verdict transport delays (fb_phase y) (Some (ms, v, st)) = Some y'"
      using step
      by (cases "request_data_or_finish decrypt send io ?st")
        (auto simp: fallback_step_def Let_def state_opened_def transfer_verdict_def [of _ _ _ None] split: if_splits)
    then show ?thesis
    proof cases
      case asks
      show ?thesis
        using transfer_verdict_inv [OF asks(3)] transferring_ok [OF asks(1)]
          request_shared [where decrypt = decrypt and F = F and pt = pt, OF asks(2) ok d len] by blast
    qed (use inv in simp)
  qed
qed

lemma channel_says_inv:
  assumes step: "fallback_step transport delays decode decrypt to_str send y (ChannelSays data io) = Some y'"
    and inv: "fallback_inv F pt y"
    and honest: "honest_event decode F y (ChannelSays data io)"
    and late: "\<not> late_failure decode decrypt send y (ChannelSays data io :: 'h fallback_event)"
    and d: "decrypt F = Inr pt" and len: "length F < 2 ^ 64"
  shows "fallback_inv F pt y'"
proof -
  let ?st = "fb_state y"
  have ok: "download_ok F pt ?st" and ph: "phase_ok pt (ds_file ?st) (fb_phase y)"
    using inv by (simp_all add: fallback_inv_alt)
  show ?thesis
  proof (cases "connecting (fb_phase y)")
    case True
    then obtain ms v st where c: "connect_message decode decrypt send io ?st data = Some (ms, v, st)"
        "connect_verdict transport delays (fb_phase y) (Some (ms, v, st)) = Some y'"
      using step
      by (cases "connect_message decode decrypt send io ?st data")
        (auto simp: fallback_step_def Let_def connect_verdict_def [of _ _ _ None])
    have "\<And>a. Option.bind (decode data) um_inner = Some (DataResponse a) \<Longrightarrow>
        prefix (resp_data a) (drop (unat (resp_offset a)) F)"
      using honest by (auto simp: honest_event_def)
    note s = connect_message_shared [where decrypt = decrypt and F = F and pt = pt, OF c(1) ok d len this]
    have "phase_ok pt (ds_file st) (fb_phase y) \<or> (\<exists>f. v = Inr (Break f))"
    proof (cases "\<exists>e task. v = Inl e \<and> fb_phase y = Racing task")
      case failed: True
      then obtain e task where e: "v = Inl e" "fb_phase y = Racing task" by blast
      then have "\<not> (in_flight task \<and> moved (ds_file ?st) (ds_file st))"
        using late c(1) by (simp add: late_failure_def)
      then show ?thesis using e ph stream_ok_unmoved by (auto simp: phase_ok_def)
    next
      case False
      then show ?thesis
        using connect_message_ends [OF c(1)] True
        by (cases "fb_phase y") (auto simp: connecting_def phase_ok_def)
    qed
    then show ?thesis using connect_verdict_inv [OF c(2)] s by blast
  next
    case False
    then consider (idle) "y' = y" | (says) ms v st where "transferring (fb_phase y)"
        "state_message decode decrypt send io ?st data = Some (ms, v, st)"
        "transfer_verdict transport delays (fb_phase y) (Some (ms, v, st)) = Some y'"
      using step
      by (cases "state_message decode decrypt send io ?st data")
        (auto simp: fallback_step_def Let_def transfer_verdict_def [of _ _ _ None] split: if_splits)
    then show ?thesis
    proof cases
      case says
      have "\<And>a. Option.bind (decode data) um_inner = Some (DataResponse a) \<Longrightarrow>
          prefix (resp_data a) (drop (unat (resp_offset a)) F)"
        using honest by (auto simp: honest_event_def)
      note s = state_message_shared [where decrypt = decrypt and F = F and pt = pt, OF says(2) ok d len this]
      show ?thesis using transfer_verdict_inv [OF says(3)] transferring_ok [OF says(1)] s by blast
    qed (use inv in simp)
  qed
qed

lemma fallback_step_inv:
  assumes step: "fallback_step transport delays decode decrypt to_str send y ev = Some y'"
    and inv: "fallback_inv F pt y" and honest: "honest_event decode F y ev"
    and late: "\<not> late_failure decode decrypt send y ev"
    and d: "decrypt F = Inr pt" and len: "length F < 2 ^ 64"
  shows "fallback_inv F pt y'"
proof -
  let ?st = "fb_state y"
  have ok: "download_ok F pt ?st" and ph: "phase_ok pt (ds_file ?st) (fb_phase y)"
    using inv by (simp_all add: fallback_inv_alt)
  note fail = p2p_failed_ok [where f = "ds_file ?st" and pt = pt, OF _ ph]
  show ?thesis
  proof (cases ev)
    case SetUp
    then show ?thesis using step ok ph by (auto simp: fallback_step_def fallback_inv_alt phase_ok_def split: if_splits)
  next
    case (P2pFails e)
    then show ?thesis using step ok ph fail by (auto simp: fallback_step_def fallback_inv_alt Let_def split: if_splits)
  next
    case (FinishAnswers r)
    then show ?thesis
      using step ok ph fail
      by (cases "fb_phase y"; cases r) (auto simp: fallback_step_def fallback_inv_alt phase_ok_def [of _ _ "Over _"] phase_ok_def [of _ _ "Finishing _"])
  next
    case (Relays re)
    let ?next = "\<lambda>alive task. map_option (\<lambda>(task, f). \<lparr>fb_state = ?st\<lparr>ds_file := f\<rparr>, fb_phase = relayed_phase alive task\<rparr>)
      (relayed_step decrypt to_str task (ds_file ?st) re)"
    have h: "honest_event decode F y (Relays re)" using honest Relays by simp
    note goes = relays_inv [where F = F and decrypt = decrypt, OF _ _ _ inv h d len]
    consider (idle) "y' = y" | (going) alive task where "alive = Racing \<or> alive = Relaying"
      "fb_phase y = alive task" "?next alive task = Some y'"
      using step Relays unfolding fallback_step_def Let_def by (cases "fb_phase y") (simp_all, blast+)
    then show ?thesis
    proof cases
      case going
      show ?thesis by (rule goes [OF going(3,2,1)])
    qed (use inv in simp)
  next
    case (ChannelOpens io)
    then show ?thesis using channel_opens_inv [where decrypt = decrypt, OF _ inv d len] step by blast
  next
    case (ChannelSays data io)
    then show ?thesis using channel_says_inv [where decrypt = decrypt, OF _ inv _ _ d len] step honest late by blast
  qed
qed


lemma fallback_run_inv:
  assumes "fallback_run transport delays decode decrypt to_str send y evs = Some y'"
    and "honest_run transport delays decode decrypt to_str send F y evs"
    and "no_late_failure transport delays decode decrypt to_str send y evs"
    and "fallback_inv F pt y" and "decrypt F = Inr pt" and "length F < 2 ^ 64"
  shows "fallback_inv F pt y'"
  using assms
proof (induction evs arbitrary: y)
  case (Cons ev evs)
  then obtain z where s: "fallback_step transport delays decode decrypt to_str send y ev = Some z"
    by (auto split: Option.bind_splits)
  have "fallback_inv F pt z" using fallback_step_inv [OF s] Cons.prems by simp
  then show ?case using Cons s by simp
qed simp

lemma fallback_start_inv:
  "unat (sz + extra_ciphertext_len) = length F \<Longrightarrow>
   fallback_inv F pt (fallback_start transport delays (decrypt_file sz) sz)"
  by (simp add: fallback_inv_def fallback_start_def shared_file_def phase_ok_def decrypt_file_def
      new_download_state_def)

text \<open>
  A download whose peer sends a part and stalls, whose relay sends a part and is dropped for
  the peer that comes back, and which, when that peer sends nothing, ends over the relay.
\<close>

definition greeting_or_data :: "u64 \<Rightarrow> bytes \<Rightarrow> uploader_message option" where
  "greeting_or_data offset data =
     Some \<lparr>um_inner = Some (if data = [] then UploaderHello
        else DataResponse \<lparr>resp_offset = offset, resp_data = data\<rparr>)\<rparr>"

definition handed_over :: "unit fallback_event list" where
  "handed_over =
     [SetUp, ChannelOpens None, ChannelSays [] None, ChannelSays [1, 2] None, P2pFails TimedOut,
      Relays RelaySends, Relays (RelayAnswers (Inr (200, None))), Relays (RelayItem (StreamData [3])),
      ChannelOpens None, ChannelSays [] None, P2pFails TimedOut,
      Relays RelaySends, Relays (RelayAnswers (Inr (200, None))),
      Relays (RelayItem (StreamData (replicate 26 4))), Relays RelayEnds,
      Relays (RelayPolls IoDone), Relays (RelayPolls IoDone)]"

lemma run_requests:
  "request_loop (\<lambda>_. None) 29 29 n = (if n \<le> 29 then Some ([], None, 29) else None)"
  "request_loop (\<lambda>_. None) 0 29 0 = Some ([\<lparr>req_offset = 0, req_len = 29\<rparr>], None, 29)"
proof -
  show *: "request_loop (\<lambda>_. None) 29 29 n = (if n \<le> 29 then Some ([], None, 29) else None)" for n
    by (subst request_loop.simps) (simp add: next_data_request_def checked_sub_def Let_def min_def)
  show "request_loop (\<lambda>_. None) 0 29 0 = Some ([\<lparr>req_offset = 0, req_len = 29\<rparr>], None, 29)"
    by (subst request_loop.simps)
      (simp add: * next_data_request_def checked_sub_def Let_def min_def saturating_sub_def
        MAX_P2P_INFLIGHT_DATA_LEN_def CHUNK_SIZE_def)
qed

lemmas fallback_step_simps = fallback_start_def new_download_state_def fallback_step_def Let_def
  connecting_def transferring_def connect_verdict_def transfer_verdict_def p2p_failed_def
  first_failed_def further_failed_def connected_def relayed_phase_def connect_opened_def
  connect_message_def state_message_def state_opened_def handle_uploader_message_def
  request_data_or_finish_def honest_event_def late_failure_def in_flight_def moved_def response_ok_or_def is_success_def

lemmas fallback_file_simps = decrypt_file_def extra_ciphertext_len_def sizes file_offset_def
  write_all_def poll_write_def poll_flush_def poll_close_def drive_write_def poll_pending_def take_more_def len64_def

lemma handed_over_run:
  "fallback_run Both [] (greeting_or_data 0) (\<lambda>w. Inr (drop 28 w)) (\<lambda>_. None) (\<lambda>_. None)
     (fallback_start Both [] (decrypt_file 1) 1) handed_over
   = Some \<lparr>fb_state =
       \<lparr>ds_file = \<lparr>df_size = 29, df_state = Complete, df_taken = [4]\<rparr>, ds_requested = 29,
        ds_total = 29, ds_progress = [(2, 29)]\<rparr>, fb_phase = Over (Inr ())\<rparr> \<and>
   honest_run Both [] (greeting_or_data 0) (\<lambda>w. Inr (drop 28 w)) (\<lambda>_. None) (\<lambda>_. None)
     (1 # 2 # 3 # replicate 26 4) (fallback_start Both [] (decrypt_file 1) 1) handed_over \<and>
   no_late_failure Both [] (greeting_or_data 0) (\<lambda>w. Inr (drop 28 w)) (\<lambda>_. None) (\<lambda>_. None)
     (fallback_start Both [] (decrypt_file 1) 1) handed_over"
  by (simp add: handed_over_def greeting_or_data_def fallback_step_simps fallback_file_simps run_requests)

text \<open>
  The window of requests is shared by all connections and knows nothing of what the relay
  delivered: a peer that connects, or comes back, after the relayed transfer has passed the
  last request takes the download down with its greeting.
\<close>

theorem late_peer_panics:
  assumes "fb_phase y = Racing task" and "file_offset (ds_file (fb_state y)) = Some received"
    and "ds_requested (fb_state y) < received" and "received < ds_total (fb_state y)"
    and "Option.bind (decode data) um_inner = Some UploaderHello"
  shows "fallback_step transport delays decode decrypt to_str send y (ChannelSays data io) = None"
proof -
  have "request_loop send (ds_requested (fb_state y)) (ds_total (fb_state y)) received = None"
    using not_le [THEN iffD2, OF assms(3)] by (subst request_loop.simps) (auto simp: next_data_request_def checked_sub_def)
  then have "request_data_or_finish decrypt send io (fb_state y) = None"
    using assms(2,4) by (simp add: request_data_or_finish_def)
  then have "connect_message decode decrypt send io (fb_state y) data = None"
    using assms(5) by (cases "decode data")
      (simp_all add: connect_message_def state_message_def handle_uploader_message_def)
  then show ?thesis using assms(1) by (simp add: fallback_step_def connecting_def connect_verdict_def)
qed

text \<open>
  Why \<open>late_failure\<close> has to be excluded: an answer of the peer that comes late, while a relayed
  transfer streams beside the new connection, is written to the shared file; when sending
  the next request then fails, the relayed transfer goes on where it was, behind a file
  that has moved, and its bytes land in the wrong place.
\<close>

lemma late_answer_misplaces_relay:
  assumes y: "fb_phase y = Racing task" "df_state (ds_file (fb_state y)) = Unwritten data"
    and m: "Option.bind (decode bytes) um_inner = Some (DataResponse \<lparr>resp_offset = len64 data, resp_data = d\<rparr>)"
    and d: "d \<noteq> []" "len64 (data @ d) \<le> ds_requested (fb_state y)" "ds_requested (fb_state y) < ds_total (fb_state y)"
      "ds_requested (fb_state y) - len64 (data @ d) < MAX_P2P_INFLIGHT_DATA_LEN"
    and send: "\<And>r. send (DataRequest r) = Some e"
  shows "\<exists>st. fallback_step Both delays decode decrypt to_str send y (ChannelSays bytes io)
      = Some \<lparr>fb_state = st, fb_phase = Relaying task\<rparr> \<and> df_state (ds_file st) = Unwritten (data @ d)"
proof -
  let ?st = "fb_state y" and ?n = "len64 (data @ d)"
  let ?f = "(ds_file ?st)\<lparr>df_state := Unwritten (data @ d)\<rparr>"
  let ?st' = "?st\<lparr>ds_file := ?f, ds_progress := ds_progress ?st @ [(len64 data + len64 d, ds_total ?st)]\<rparr>"
  obtain msg where msg: "decode bytes = Some msg"
    "um_inner msg = Some (DataResponse \<lparr>resp_offset = len64 data, resp_data = d\<rparr>)"
    using m by (cases "decode bytes") auto
  let ?w = "saturating_sub MAX_P2P_INFLIGHT_DATA_LEN (ds_requested ?st - ?n)" and ?u = "ds_total ?st - ds_requested ?st"
  have "min (min ?w ?u) CHUNK_SIZE \<in> {?w, ?u, CHUNK_SIZE}" by (simp add: min_def)
  moreover have "?w \<noteq> 0" "?u \<noteq> 0" "CHUNK_SIZE \<noteq> 0"
    using d(3,4) by (auto simp: saturating_sub_def CHUNK_SIZE_def)
  ultimately have "min (min ?w ?u) CHUNK_SIZE \<noteq> 0" by (metis empty_iff insert_iff)
  then obtain r where "next_data_request (ds_requested ?st) (ds_total ?st) ?n = Some (Some r)"
    using d(2) by (simp add: next_data_request_def checked_sub_def Let_def)
  then have "request_loop send (ds_requested ?st) (ds_total ?st) ?n = Some ([], Some e, ds_requested ?st)"
    by (subst request_loop.simps) (simp add: send)
  moreover have "?n < ds_total ?st" using d(2,3) by (rule le_less_trans)
  ultimately have "request_data_or_finish decrypt send io ?st' = Some ([], Inl e, ?st')"
    by (simp add: request_data_or_finish_def file_offset_def)
  then have "state_message decode decrypt send io ?st bytes = Some ([], Inl e, ?st')"
    using msg y(2) d(1) by (simp add: state_message_def handle_uploader_message_def file_offset_def write_all_def poll_write_def)
  then show ?thesis
    using y(1) by (simp add: fallback_step_def Let_def connecting_def connect_message_def connect_verdict_def p2p_failed_def)
qed

lemma late_peer_reached:
  "fallback_run Both [] (greeting_or_data 0) Inr (\<lambda>_ :: unit. None) (\<lambda>_. None)
     (fallback_start Both [] (decrypt_file 1) 1)
     [SetUp, P2pFails TimedOut, Relays RelaySends, Relays (RelayAnswers (Inr (200, None))),
      Relays (RelayItem (StreamData [3])), ChannelOpens None]
   = Some \<lparr>fb_state = \<lparr>ds_file = \<lparr>df_size = 29, df_state = Unwritten [3], df_taken = []\<rparr>,
       ds_requested = 0, ds_total = 29, ds_progress = []\<rparr>, fb_phase = Racing (RtStream 0 1 [])\<rparr>"
  by (simp add: fallback_step_simps fallback_file_simps)

theorem late_peer_panics_witness:
  "fallback_run Both [] (greeting_or_data 0) Inr (\<lambda>_ :: unit. None) (\<lambda>_. None)
     (fallback_start Both [] (decrypt_file 1) 1)
     ([SetUp, P2pFails TimedOut, Relays RelaySends, Relays (RelayAnswers (Inr (200, None))),
      Relays (RelayItem (StreamData [3])), ChannelOpens None] @ [ChannelSays [] None]) = None"
proof -
  have run: "fallback_run transport delays decode decrypt to_str send y (evs @ evs')
      = Option.bind (fallback_run transport delays decode decrypt to_str send y evs)
          (\<lambda>y. fallback_run transport delays decode decrypt to_str send y evs')"
    for transport delays decode decrypt to_str send y and evs evs' :: "unit fallback_event list"
    by (induction evs arbitrary: y) (auto split: Option.bind_splits)
  show ?thesis
    unfolding run late_peer_reached
    by simp (rule late_peer_panics [where received = 1],
      simp_all add: file_offset_def len64_def greeting_or_data_def)
qed


subsection \<open>A download can always go on\<close>

definition can_finish ::
  "transport \<Rightarrow> duration list \<Rightarrow> (bytes \<Rightarrow> uploader_message option) \<Rightarrow> (bytes \<Rightarrow> error + bytes) \<Rightarrow>
   ('h \<Rightarrow> string option) \<Rightarrow> (downloader_inner \<Rightarrow> error option) \<Rightarrow> bytes \<Rightarrow> fallback \<Rightarrow> bool" where
  "can_finish transport delays decode decrypt to_str send F y =
     (\<exists>evs y'. honest_run transport delays decode decrypt to_str send F y evs \<and>
        no_late_failure transport delays decode decrypt to_str send y evs \<and>
        fallback_run transport delays decode decrypt to_str send y evs = Some y' \<and>
        fb_phase y' = Over (Inr ()))"

lemma can_finish_over: "fb_phase y = Over (Inr ()) \<Longrightarrow> can_finish transport delays decode decrypt to_str send F y"
  unfolding can_finish_def by (intro exI [of _ "[]"] exI [of _ y]) simp

lemma can_finish_step:
  assumes "fallback_step transport delays decode decrypt to_str send y ev = Some z"
    and "honest_event decode F y ev" and "\<And>data io. ev \<noteq> ChannelSays data io"
    and "can_finish transport delays decode decrypt to_str send F z"
  shows "can_finish transport delays decode decrypt to_str send F y"
proof -
  obtain evs y' where "honest_run transport delays decode decrypt to_str send F z evs"
    "no_late_failure transport delays decode decrypt to_str send z evs"
    "fallback_run transport delays decode decrypt to_str send z evs = Some y'" "fb_phase y' = Over (Inr ())"
    using assms(4) unfolding can_finish_def by blast
  moreover have "\<not> late_failure decode decrypt send y ev"
    using assms(3) by (auto simp: late_failure_def split: fallback_event.split)
  ultimately show ?thesis
    unfolding can_finish_def using assms(1,2) by (intro exI [of _ "ev # evs"] exI [of _ y']) simp
qed

lemma relayed_can_finish_step:
  assumes "relayed_step decrypt to_str task (ds_file (fb_state y)) ev = Some (task', f')"
    and "alive = Racing \<or> alive = Relaying" and "fb_phase y = alive task"
    and "honest_event decode F y (Relays ev)"
    and "can_finish transport delays decode decrypt to_str send F
      \<lparr>fb_state = (fb_state y)\<lparr>ds_file := f'\<rparr>, fb_phase = relayed_phase alive task'\<rparr>"
  shows "can_finish transport delays decode decrypt to_str send F y"
  by (rule can_finish_step [OF _ assms(4) _ assms(5)]) (use assms(1-3) in \<open>auto simp: fallback_step_def\<close>)

definition whole_file :: "decrypted_file \<Rightarrow> bytes \<Rightarrow> bool" where
  "whole_file f F = (df_state f = Unwritten F \<or> df_state f = PendingWrite F \<or> df_state f = Complete)"

lemma whole_file_written:
  assumes "whole_file f F" "unat (df_size f) = length F" "decrypt F = Inr pt"
  shows "\<exists>f'. poll_flush decrypt f IoDone = Some (Ready (Inr ()), f') \<and> df_state f' = Complete \<and>
    df_size f' = df_size f"
  using assms by (auto simp: whole_file_def poll_flush_def drive_write_def poll_pending_def)

lemma closing_can_finish:
  assumes "whole_file (ds_file (fb_state y)) F" "unat (df_size (ds_file (fb_state y))) = length F"
    and "decrypt F = Inr pt" and alive: "alive = Racing \<or> alive = Relaying" and "fb_phase y = alive (RtClose s)"
  shows "can_finish transport delays decode decrypt to_str send F y"
proof -
  obtain f where f: "poll_flush decrypt (ds_file (fb_state y)) IoDone = Some (Ready (Inr ()), f)"
    "df_state f = Complete" using whole_file_written [where decrypt = decrypt and F = F, OF assms(1-3)] by blast
  then have c: "poll_close decrypt (ds_file (fb_state y)) IoDone = Some (Ready (Inr ()), f)"
    by (simp add: poll_close_def)
  have "can_finish transport delays decode decrypt to_str send F
      \<lparr>fb_state = (fb_state y)\<lparr>ds_file := f\<rparr>, fb_phase = relayed_phase alive (RtEnded (Inr ()))\<rparr>"
    by (rule can_finish_over) (simp add: relayed_phase_def)
  then show ?thesis
    by (intro relayed_can_finish_step [where ev = "RelayPolls IoDone" and task' = "RtEnded (Inr ())" and f' = f,
        OF _ alive assms(5)])
      (use c in \<open>simp_all add: honest_event_def\<close>)
qed

lemma flushing_can_finish:
  assumes "whole_file (ds_file (fb_state y)) F" "unat (df_size (ds_file (fb_state y))) = length F"
    and "decrypt F = Inr pt" and alive: "alive = Racing \<or> alive = Relaying" and "fb_phase y = alive (RtFlush s)"
  shows "can_finish transport delays decode decrypt to_str send F y"
proof -
  obtain f where f: "poll_flush decrypt (ds_file (fb_state y)) IoDone = Some (Ready (Inr ()), f)"
    "df_state f = Complete" "df_size f = df_size (ds_file (fb_state y))"
    using whole_file_written [where decrypt = decrypt and F = F, OF assms(1-3)] by blast
  let ?z = "\<lparr>fb_state = (fb_state y)\<lparr>ds_file := f\<rparr>, fb_phase = relayed_phase alive (RtClose s)\<rparr>"
  have "can_finish transport delays decode decrypt to_str send F ?z"
    by (rule closing_can_finish [where decrypt = decrypt and F = F, OF _ _ assms(3) alive])
      (use f assms(2) in \<open>simp_all add: whole_file_def relayed_phase_def\<close>)
  then show ?thesis
    by (intro relayed_can_finish_step [where ev = "RelayPolls IoDone" and task' = "RtClose s" and f' = f, OF _ alive assms(5)])
      (use f(1) in \<open>simp_all add: honest_event_def\<close>)
qed

lemma missing_written:
  assumes "shared_file F pt f" "df_state f \<noteq> Poisoned"
  shows "\<exists>g. write_all f (case df_state f of Unwritten data \<Rightarrow> drop (length data) F | _ \<Rightarrow> []) = Some (Inr (), g) \<and>
    whole_file g F \<and> df_size g = df_size f"
proof (cases "df_state f")
  case (Unwritten data)
  then obtain zs where "F = data @ zs" using assms(1) by (auto simp: shared_file_def prefix_def)
  then show ?thesis
    using Unwritten by (cases "zs = []") (simp_all add: write_all_def poll_write_def whole_file_def)
qed (use assms in \<open>auto simp: write_all_def whole_file_def shared_file_def\<close>)

lemma streaming_can_finish:
  assumes sh: "shared_file F pt (ds_file (fb_state y))" and np: "df_state (ds_file (fb_state y)) \<noteq> Poisoned"
    and d: "decrypt F = Inr pt" and alive: "alive = Racing \<or> alive = Relaying"
    and ph: "fb_phase y = alive (RtStream offset downloaded s)"
    and so: "stream_ok (ds_file (fb_state y)) (RtStream offset downloaded s)"
  shows "can_finish transport delays decode decrypt to_str send F y"
proof -
  let ?f = "ds_file (fb_state y)"
  define missing where "missing = (case df_state ?f of Unwritten data \<Rightarrow> drop (length data) F | _ \<Rightarrow> [])"
  obtain g where g: "write_all ?f missing = Some (Inr (), g)" "whole_file g F" "df_size g = df_size ?f"
    using missing_written [OF sh np] unfolding missing_def by blast
  have "prefix missing (drop (unat offset + unat downloaded) F)"
    using so by (auto simp: missing_def stream_ok_def split: write_state.splits)
  then have h: "honest_event decode F y (Relays (RelayItem (StreamData missing)))"
    using alive ph by (auto simp: honest_event_def)
  show ?thesis
  proof (rule relayed_can_finish_step [OF _ alive ph h])
    show "relayed_step decrypt to_str (RtStream offset downloaded s) ?f (RelayItem (StreamData missing))
        = Some (RtStream offset (downloaded + len64 missing) s, g)" using g(1) by simp
    have size: "unat (df_size g) = length F" using g(3) sh by (simp add: shared_file_def)
    let ?z = "\<lparr>fb_state = (fb_state y)\<lparr>ds_file := g\<rparr>,
      fb_phase = relayed_phase alive (RtStream offset (downloaded + len64 missing) s)\<rparr>"
    have "can_finish transport delays decode decrypt to_str send F
        \<lparr>fb_state = (fb_state ?z)\<lparr>ds_file := g\<rparr>, fb_phase = relayed_phase alive (RtFlush s)\<rparr>"
      by (rule flushing_can_finish [where decrypt = decrypt and F = F, OF _ _ d alive]) (use g(2) size in \<open>simp_all add: relayed_phase_def\<close>)
    then show "can_finish transport delays decode decrypt to_str send F ?z"
      by (intro relayed_can_finish_step [where ev = RelayEnds and y = ?z and task' = "RtFlush s" and f' = g, OF _ alive])
        (auto simp: relayed_phase_def honest_event_def)
  qed
qed


lemma stream_ok_started: "stream_ok f (RtSent offset s) \<Longrightarrow> stream_ok f (RtStream offset 0 s)"
  by (cases "df_state f") (simp_all add: stream_ok_def)

lemma unpoisoned_offset: "df_state f \<noteq> Poisoned \<Longrightarrow> \<exists>offset. file_offset f = Some offset"
  by (cases "df_state f") (simp_all add: file_offset_def)

lemma sent_can_finish:
  assumes "shared_file F pt (ds_file (fb_state y))" "df_state (ds_file (fb_state y)) \<noteq> Poisoned"
    and "decrypt F = Inr pt" and alive: "alive = Racing \<or> alive = Relaying"
    and "fb_phase y = alive (RtSent offset s)" "stream_ok (ds_file (fb_state y)) (RtSent offset s)"
  shows "can_finish transport delays decode decrypt to_str send F y"
proof -
  let ?z = "\<lparr>fb_state = fb_state y,
    fb_phase = relayed_phase alive (RtStream offset 0 s)\<rparr>"
  have "can_finish transport delays decode decrypt to_str send F ?z"
    by (rule streaming_can_finish [where decrypt = decrypt and F = F, OF _ _ assms(3) alive])
      (use assms stream_ok_started in \<open>simp_all add: relayed_phase_def\<close>)
  then show ?thesis
    by (intro relayed_can_finish_step [where ev = "RelayAnswers (Inr (200, None))"
        and task' = "RtStream offset 0 s" and f' = "ds_file (fb_state y)", OF _ alive assms(5)])
      (simp_all add: honest_event_def response_ok_or_def is_success_def)
qed

lemma request_can_finish:
  assumes "shared_file F pt (ds_file (fb_state y))" "df_state (ds_file (fb_state y)) \<noteq> Poisoned"
    and "decrypt F = Inr pt" and alive: "alive = Racing \<or> alive = Relaying" and len: "length F < 2 ^ 64"
    and "fb_phase y = alive (RtRequest s)"
  shows "can_finish transport delays decode decrypt to_str send F y"
proof -
  obtain offset where o: "file_offset (ds_file (fb_state y)) = Some offset"
    using unpoisoned_offset [OF assms(2)] by blast
  have so: "stream_ok (ds_file (fb_state y)) (RtSent offset s)"
    using o assms(1) unat_len64 [OF le_less_trans [OF prefix_length_le len]]
    by (auto simp: stream_ok_def file_offset_def shared_file_def split: write_state.splits)
  let ?z = "\<lparr>fb_state = fb_state y,
    fb_phase = relayed_phase alive (RtSent offset s)\<rparr>"
  have "can_finish transport delays decode decrypt to_str send F ?z"
    by (rule sent_can_finish [where decrypt = decrypt and F = F, OF _ _ assms(3) alive])
      (use assms so in \<open>simp_all add: relayed_phase_def\<close>)
  then show ?thesis
    by (intro relayed_can_finish_step [where ev = RelaySends and task' = "RtSent offset s" and f' = "ds_file (fb_state y)", OF _ alive assms(6)])
      (use o in \<open>simp_all add: honest_event_def\<close>)
qed

text \<open>
  A relayed transfer whose response has ended with the file still short is past helping: it
  flushes and closes what there is, which fails. Any other that is not over goes on.
\<close>

definition cut_short :: "decrypted_file \<Rightarrow> relayed_task \<Rightarrow> bool" where
  "cut_short f task =
     ((\<exists>s. task = RtFlush s \<or> task = RtClose s) \<and>
      (case df_state f of Unwritten data \<Rightarrow> length data \<noteq> unat (df_size f) | _ \<Rightarrow> False))"

definition goes_on :: "fallback \<Rightarrow> bool" where
  "goes_on y =
     (case fb_phase y of
        Racing task \<Rightarrow> \<not> cut_short (ds_file (fb_state y)) task
      | Relaying task \<Rightarrow> \<not> cut_short (ds_file (fb_state y)) task
      | Over _ \<Rightarrow> False
      | _ \<Rightarrow> True)"

text \<open>Indeed the download of such a transfer, on its own, only ever ends in an error.\<close>

lemma cut_short_fails:
  assumes "fallback_run transport delays decode decrypt to_str send y evs = Some y'"
    and "fb_phase y = Relaying task \<and> cut_short (ds_file (fb_state y)) task \<or> (\<exists>e. fb_phase y = Over (Inl e))"
  shows "fb_phase y' \<noteq> Over (Inr ())"
  using assms
proof (induction evs arbitrary: y task)
  case (Cons ev evs)
  then obtain z where z: "fallback_step transport delays decode decrypt to_str send y ev = Some z"
    "fallback_run transport delays decode decrypt to_str send z evs = Some y'"
    by (auto split: Option.bind_splits)
  have "\<exists>task. fb_phase z = Relaying task \<and> cut_short (ds_file (fb_state z)) task \<or> (\<exists>e. fb_phase z = Over (Inl e))"
  proof (cases "fb_phase y")
    case (Relaying task)
    then obtain s data where c: "task = RtFlush s \<or> task = RtClose s" "df_state (ds_file (fb_state y)) = Unwritten data"
      "length data \<noteq> unat (df_size (ds_file (fb_state y)))"
      using Cons.prems(2) by (auto simp: cut_short_def split: write_state.splits)
    show ?thesis
    proof (cases "\<exists>io. ev = Relays (RelayPolls io)")
      case True
      then show ?thesis
        using z(1) Relaying c
        by (auto simp: fallback_step_def poll_flush_def poll_close_def relayed_phase_def rt_failed_def cut_short_def)
    next
      case False
      then have "z = y"
      proof (cases ev)
        case (Relays re)
        then show ?thesis using z(1) Relaying c(1) False by (cases re) (auto simp: fallback_step_def relayed_phase_def)
      qed (use z(1) Relaying in \<open>auto simp: fallback_step_def connecting_def transferring_def\<close>)
      then show ?thesis using Cons.prems(2) by blast
    qed
  next
    case (Over r)
    then have "z = y"
      using z(1) by (cases ev) (auto simp: fallback_step_def connecting_def transferring_def)
    then show ?thesis using Cons.prems(2) by blast
  qed (use Cons.prems(2) in auto)
  then show ?case using Cons.IH [OF z(2)] by blast
qed auto

lemma failing_can_finish:
  assumes "fallback_inv F pt y" "df_state (ds_file (fb_state y)) \<noteq> Poisoned"
    and "decrypt F = Inr pt" "length F < 2 ^ 64"
    and "fb_phase y = Connecting \<or> fb_phase y = Transferring \<or> (\<exists>offset. fb_phase y = Continuing offset)"
  shows "can_finish Both delays decode decrypt to_str send F y"
proof -
  obtain offset where o: "file_offset (ds_file (fb_state y)) = Some offset"
    using unpoisoned_offset [OF assms(2)] by blast
  have "\<exists>alive. (alive = Racing \<or> alive = Relaying) \<and>
      fallback_step Both delays decode decrypt to_str send y (P2pFails TimedOut)
        = Some (y\<lparr>fb_phase := alive (RtRequest delays)\<rparr>)"
    using assms(5) o by (auto simp: fallback_step_def connecting_def transferring_def p2p_failed_def
        first_failed_def further_failed_def)
  then obtain alive where alive: "alive = Racing \<or> alive = Relaying"
    and step: "fallback_step Both delays decode decrypt to_str send y (P2pFails TimedOut)
      = Some (y\<lparr>fb_phase := alive (RtRequest delays)\<rparr>)" by blast
  have "can_finish Both delays decode decrypt to_str send F (y\<lparr>fb_phase := alive (RtRequest delays)\<rparr>)"
    by (rule request_can_finish [where decrypt = decrypt and F = F, OF _ _ assms(3) alive assms(4)])
      (use assms(1,2) in \<open>auto simp: fallback_inv_def\<close>)
  then show ?thesis by (intro can_finish_step [OF step]) (simp_all add: honest_event_def)
qed

lemma fallback_can_finish:
  assumes inv: "fallback_inv F pt y" and np: "df_state (ds_file (fb_state y)) \<noteq> Poisoned"
    and d: "decrypt F = Inr pt" and len: "length F < 2 ^ 64" and on: "goes_on y"
  shows "can_finish Both delays decode decrypt to_str send F y"
proof -
  note fails = failing_can_finish [where decrypt = decrypt and F = F, OF _ _ d len]
  have sh: "shared_file F pt (ds_file (fb_state y))" using inv by (simp add: fallback_inv_def)
  have relayed: "can_finish Both delays decode decrypt to_str send F y"
    if alive: "alive = Racing \<or> alive = Relaying" and ph: "fb_phase y = alive task" for alive task
  proof -
    have so: "stream_ok (ds_file (fb_state y)) task" "\<forall>r. task \<noteq> RtEnded r"
      and whole: "\<not> cut_short (ds_file (fb_state y)) task"
      using inv on ph alive by (auto simp: fallback_inv_def phase_ok_def goes_on_def)
    have size: "unat (df_size (ds_file (fb_state y))) = length F" using sh by (simp add: shared_file_def)
    have wf: "whole_file (ds_file (fb_state y)) F" if "task = RtFlush s \<or> task = RtClose s" for s
    proof (cases "df_state (ds_file (fb_state y))")
      case (Unwritten data)
      then have "prefix data F" "length data = length F"
        using whole that sh size by (auto simp: cut_short_def shared_file_def)
      then show ?thesis using Unwritten prefix_take [of data F "length F"] by (simp add: whole_file_def)
    qed (use sh np in \<open>simp_all add: whole_file_def shared_file_def\<close>)
    consider (asks) s where "fb_phase y = alive (RtRequest s)"
      | (sent) offset s where "fb_phase y = alive (RtSent offset s)" "stream_ok (ds_file (fb_state y)) (RtSent offset s)"
      | (streams) offset downloaded s where "fb_phase y = alive (RtStream offset downloaded s)"
          "stream_ok (ds_file (fb_state y)) (RtStream offset downloaded s)"
      | (flushes) s where "fb_phase y = alive (RtFlush s)" "whole_file (ds_file (fb_state y)) F"
      | (closes) s where "fb_phase y = alive (RtClose s)" "whole_file (ds_file (fb_state y)) F"
    proof (cases task)
      case (RtRequest s)
      then show ?thesis using that(1) ph by simp
    next
      case (RtSent offset s)
      then show ?thesis using that(2) ph so(1) by simp
    next
      case (RtStream offset downloaded s)
      then show ?thesis using that(3) ph so(1) by simp
    next
      case (RtFlush s)
      then show ?thesis using that(4) ph wf by simp
    next
      case (RtClose s)
      then show ?thesis using that(5) ph wf by simp
    qed (use so(2) in simp)
    then show ?thesis
    proof cases
      case asks
      show ?thesis by (rule request_can_finish [where decrypt = decrypt and F = F, OF sh np d alive len asks])
    next
      case sent
      show ?thesis by (rule sent_can_finish [where decrypt = decrypt and F = F, OF sh np d alive sent])
    next
      case streams
      show ?thesis by (rule streaming_can_finish [where decrypt = decrypt and F = F, OF sh np d alive streams])
    next
      case flushes
      show ?thesis by (rule flushing_can_finish [where decrypt = decrypt and F = F, OF flushes(2) size d alive flushes(1)])
    next
      case closes
      show ?thesis by (rule closing_can_finish [where decrypt = decrypt and F = F, OF closes(2) size d alive closes(1)])
    qed
  qed
  show ?thesis
  proof (cases "fb_phase y")
    case Starting
    then have "fallback_step Both delays decode decrypt to_str send y SetUp = Some (y\<lparr>fb_phase := Connecting\<rparr>)"
      by (simp add: fallback_step_def)
    then show ?thesis
    proof (rule can_finish_step)
      show "can_finish Both delays decode decrypt to_str send F (y\<lparr>fb_phase := Connecting\<rparr>)"
        by (rule fails) (use inv np in \<open>simp_all add: fallback_inv_def phase_ok_def\<close>)
    qed (simp_all add: honest_event_def)
  next
    case (Finishing b)
    then have "fallback_step Both delays decode decrypt to_str send y (FinishAnswers (Inr ()))
        = Some (y\<lparr>fb_phase := Over (Inr ())\<rparr>)" by (simp add: fallback_step_def)
    then show ?thesis by (rule can_finish_step) (simp_all add: honest_event_def can_finish_over)
  qed (use fails [OF inv np] relayed on in \<open>auto simp: goes_on_def\<close>)
qed

text \<open>
  However the two transports interleave, lose their connections and hand over to each other
  half way, without a late failure the target takes nothing but a beginning of the file, and a
  download that ends well has delivered it. A download that may use both can still end well,
  unless a write to the target failed, it has ended, or its relayed transfer was cut short.
\<close>

theorem fallback_delivers:
  assumes "unat (sz + extra_ciphertext_len) = length F" and "decrypt F = Inr pt"
    and "y0 = fallback_start transport delays (decrypt_file sz) sz"
    and "honest_run transport delays decode decrypt to_str send F y0 evs"
    and "no_late_failure transport delays decode decrypt to_str send y0 evs"
    and "fallback_run transport delays decode decrypt to_str send y0 evs = Some y"
  shows "prefix (df_taken (ds_file (fb_state y))) pt \<and>
    (df_target (ds_file (fb_state y)) \<in> {None, Some pt}) \<and>
    (fb_phase y = Over (Inr ()) \<longrightarrow> df_target (ds_file (fb_state y)) = Some pt) \<and>
    (transport = Both \<and> df_state (ds_file (fb_state y)) \<noteq> Poisoned \<and> goes_on y \<longrightarrow>
       (\<exists>evs' y'. honest_run transport delays decode decrypt to_str send F y evs' \<and>
          fallback_run transport delays decode decrypt to_str send y evs' = Some y' \<and>
          fb_phase y' = Over (Inr ()) \<and> df_target (ds_file (fb_state y')) = Some pt))"
proof -
  have len: "length F < 2 ^ 64" using assms(1) unat_u64 [of "sz + extra_ciphertext_len"] by simp
  note keeps = fallback_run_inv [where decrypt = decrypt and F = F, OF _ _ _ _ assms(2) len]
  have inv: "fallback_inv F pt y"
    using keeps [OF assms(6,4,5)] fallback_start_inv [OF assms(1)] assms(3) by blast
  have right: "fb_phase z = Over (Inr ()) \<Longrightarrow> df_target (ds_file (fb_state z)) = Some pt"
    if "fallback_inv F pt z" for z
    using that by (simp add: fallback_inv_def phase_ok_def)
  have "\<exists>evs' y'. honest_run Both delays decode decrypt to_str send F y evs' \<and>
      fallback_run Both delays decode decrypt to_str send y evs' = Some y' \<and>
      fb_phase y' = Over (Inr ()) \<and> df_target (ds_file (fb_state y')) = Some pt"
    if "df_state (ds_file (fb_state y)) \<noteq> Poisoned" "goes_on y"
    using fallback_can_finish [where decrypt = decrypt and F = F, OF inv that(1) assms(2) len that(2)]
      keeps [OF _ _ _ inv] right unfolding can_finish_def by blast
  moreover have "shared_file F pt (ds_file (fb_state y))" using inv by (simp add: fallback_inv_def)
  ultimately show ?thesis
    using right [OF inv] shared_file_taken by (auto simp: shared_file_def)
qed

end
