(* ===== verification/Client_Uploading.thy ===== *)
theory Client_Uploading
  imports Client_Fallback
begin

text \<open>
  A whole upload, \<open>upload_provisioned_file_async\<close> of \<^verbatim>\<open>uploader_client.rs\<close>, event by event: the
  relayed attempts with their requests and their abortable timeout, the messages of the
  websocket, and the peer's requests, which \<open>select!\<close> interleaves as they come.
  \<open>Client_Session\<close> and \<open>Client_Api\<close> have its parts over the outcomes of what they await; here
  they run together on one file, one log of progress and one timeout handle. A panic is
  \<open>None\<close>; an event for which nothing waits changes nothing.
\<close>

subsection \<open>One call of \<open>upload_file\<close>, await by await\<close>

text \<open>
  What the call waits for: the answer to the start request, with the content request
  prepared beside it; the answer to the content request; the end of a retry's delay.
\<close>

datatype upload_await = AwStart "string \<times> bytes" | AwContent | AwBackoff

record upload_call =
  uc_position :: u64
  uc_delays :: "duration list"
  uc_await :: upload_await

datatype 'h upload_input =
    StartAnswers "'h sent"
  | ContentAnswers "'h sent"
  | BackoffEnds
  | TimeIsUp
  | AttemptBegins
  | SocketSays web_socket_message
  | PeerSays bytes
  | PeerFails error

definition begin_iteration :: "bytes \<Rightarrow> upload_call \<Rightarrow> upload_call option" where
  "begin_iteration F c =
     map_option (\<lambda>request. c\<lparr>uc_await := AwStart request\<rparr>) (upload_request F (uc_position c))"

text \<open>The retry inside \<open>upload_file\<close>: the call's error, or the call in its next delay.\<close>

definition retry_call :: "retry_error \<Rightarrow> upload_call \<Rightarrow> error + upload_call" where
  "retry_call e c =
     (if \<not> should_retry e then Inl (re_error e)
      else case adjust e (case uc_delays c of [] \<Rightarrow> None | d # ds \<Rightarrow> Some d) of
             None \<Rightarrow> Inl (re_error e)
           | Some d \<Rightarrow> Inr (c\<lparr>uc_delays := tl (uc_delays c), uc_await := AwBackoff\<rparr>))"

datatype call_next = Goes upload_call | Answers "error + unit"

definition call_decided ::
  "('h \<Rightarrow> string option) \<Rightarrow> bytes \<Rightarrow> upload_call \<Rightarrow> 'h sent \<Rightarrow> call_next option" where
  "call_decided to_str F c reply =
     (case upload_decided to_str F (uc_position c) reply of
        TryAgain p \<Rightarrow> map_option Goes (begin_iteration F (c\<lparr>uc_position := p\<rparr>))
      | Leave (Inr _) p \<Rightarrow> Some (Answers (Inr ()))
      | Leave (Inl e) p \<Rightarrow>
          Some (case retry_call e (c\<lparr>uc_position := p\<rparr>) of Inl e \<Rightarrow> Answers (Inl e) | Inr c \<Rightarrow> Goes c))"

text \<open>A step, and the content request that it sends.\<close>

fun call_step ::
  "('h \<Rightarrow> string option) \<Rightarrow> bytes \<Rightarrow> upload_call \<Rightarrow> 'h upload_input \<Rightarrow>
   (call_next \<times> (string \<times> bytes) list) option" where
  "call_step to_str F c (StartAnswers start) =
     (case uc_await c of
        AwStart request \<Rightarrow>
          (case start_verdict start of
             None \<Rightarrow> Some (Goes (c\<lparr>uc_await := AwContent\<rparr>), [request])
           | Some reply \<Rightarrow> map_option (\<lambda>n. (n, [])) (call_decided to_str F c reply))
      | _ \<Rightarrow> Some (Goes c, []))"
| "call_step to_str F c (ContentAnswers content) =
     (if uc_await c = AwContent then map_option (\<lambda>n. (n, [])) (call_decided to_str F c content)
      else Some (Goes c, []))"
| "call_step to_str F c BackoffEnds =
     (if uc_await c = AwBackoff then map_option (\<lambda>c. (Goes c, [])) (begin_iteration F c)
      else Some (Goes c, []))"
| "call_step to_str F c _ = Some (Goes c, [])"

definition new_call :: "bytes \<Rightarrow> duration list \<Rightarrow> upload_call option" where
  "new_call F delays =
     begin_iteration F \<lparr>uc_position = 0, uc_delays = delays, uc_await = AwBackoff\<rparr>"

subsection \<open>The relay task\<close>

text \<open>
  Attempt \<open>n\<close> under its timer, with the delays left to the retry around it; or the wait
  before attempt \<open>n\<close> (the first one begins when the task is first polled).
\<close>

datatype relay_task =
    Trying nat abortable_timer upload_call "duration list"
  | Pausing nat "duration list"

datatype task_next = Runs relay_task | Done "error + unit"

definition attempt_failed :: "nat \<Rightarrow> duration list \<Rightarrow> retry_error \<Rightarrow> task_next" where
  "attempt_failed n delays e =
     (if \<not> should_retry e then Done (Inl (re_error e))
      else case adjust e (case delays of [] \<Rightarrow> None | d # ds \<Rightarrow> Some d) of
             None \<Rightarrow> Done (Inl (re_error e))
           | Some d \<Rightarrow> Runs (Pausing (n + 1) (tl delays)))"

text \<open>A poll of the attempt. \<open>output\<close> is what the call inside it answers, if it does.\<close>

definition poll_attempt ::
  "timeout_cell \<Rightarrow> nat \<Rightarrow> abortable_timer \<Rightarrow> upload_call \<Rightarrow> duration list \<Rightarrow> (error + unit) option \<Rightarrow>
   bool \<Rightarrow> task_next" where
  "poll_attempt cell n t c delays output elapsed =
     (case abortable_poll (t\<lparr>at_aborted := n \<in> set (tc_aborted cell)\<rparr>) output elapsed of
        (Waiting, t') \<Rightarrow> Runs (Trying n t' c delays)
      | (Ready (Inl _), t') \<Rightarrow> attempt_failed n delays (retry_error_from TimedOut)
      | (Ready (Inr (Inl e)), t') \<Rightarrow> attempt_failed n delays (retry_error_from e)
      | (Ready (Inr (Inr _)), t') \<Rightarrow> Done (Inr ()))"

definition task_step ::
  "('h \<Rightarrow> string option) \<Rightarrow> (nat \<Rightarrow> duration list) \<Rightarrow> bytes \<Rightarrow> timeout_cell \<Rightarrow> relay_task \<Rightarrow>
   'h upload_input \<Rightarrow> (task_next \<times> (string \<times> bytes) list \<times> timeout_cell) option" where
  "task_step to_str inner F cell task ev =
     (case task of
        Pausing n delays \<Rightarrow>
          if ev = AttemptBegins
          then map_option (\<lambda>c. (Runs (Trying n new_timer c delays), [], put_handle cell n)) (new_call F (inner n))
          else Some (Runs task, [], cell)
      | Trying n t c delays \<Rightarrow>
          if ev = TimeIsUp then Some (poll_attempt cell n t c delays None True, [], cell)
          else map_option
            (\<lambda>(next, sent).
               (case next of
                  Goes c' \<Rightarrow> Runs (Trying n t c' delays)
                | Answers r \<Rightarrow> poll_attempt cell n t c delays (Some r) False, sent, cell))
            (call_step to_str F c ev))"

subsection \<open>The whole upload\<close>

record uploading =
  ul_relay :: "relay_task option"
  ul_peer :: bool
  ul_handler :: upload_handler
  ul_requests :: "(string \<times> bytes) list"
  ul_answers :: "uploader_inner list"
  ul_result :: "(error + unit) option"

text \<open>
  Up to the loop: the file is encrypted, the first progress update sent and the tasks set
  up. \<open>failed\<close> is the error of the peer-to-peer client or the websocket's address, which comes
  after that update.
\<close>

definition uploading_start ::
  "transport \<Rightarrow> duration list \<Rightarrow> error + bytes \<Rightarrow> error option \<Rightarrow> error + uploading" where
  "uploading_start transport outer encrypted failed =
     (case encrypted of
        Inl e \<Rightarrow> Inl e
      | Inr F \<Rightarrow> Inr
     \<lparr>ul_relay = (if transport = P2P then None else Some (Pausing 0 outer)),
      ul_peer = (transport \<noteq> Relay),
      ul_handler =
        \<lparr>uh_len = len64 F, uh_progress = [(0, len64 F)], uh_cell = \<lparr>tc_handle = None, tc_aborted = []\<rparr>,
         uh_signaling = (if transport = Relay then None else Some True), uh_delivered = []\<rparr>,
      ul_requests = [], ul_answers = [], ul_result = map_option Inl failed\<rparr>)"

text \<open>The end of the peer's task takes its client with it, which takes no more signaling.\<close>

definition peer_ended :: "transport \<Rightarrow> uploading \<Rightarrow> error + unit \<Rightarrow> uploading option" where
  "peer_ended transport u r =
     map_option
       (\<lambda>result. u\<lparr>ul_peer := False, ul_result := result,
          ul_handler := (ul_handler u)\<lparr>uh_signaling := map_option (\<lambda>_. False) (uh_signaling (ul_handler u))\<rparr>\<rparr>)
       (drive_upload transport [P2pEnds r])"

definition peer_says ::
  "transport \<Rightarrow> (bytes \<Rightarrow> downloader_message option) \<Rightarrow> (uploader_inner \<Rightarrow> error option) \<Rightarrow> bytes \<Rightarrow>
   uploading \<Rightarrow> bytes \<Rightarrow> uploading option" where
  "peer_says transport decode send F u data =
     (case upload_state_message decode send F data of
        None \<Rightarrow> None
      | Some (out, r, progress) \<Rightarrow>
          (let u' = u\<lparr>ul_answers := ul_answers u @ out,
                 ul_handler := (ul_handler u)\<lparr>uh_progress := uh_progress (ul_handler u) @ progress\<rparr>\<rparr>
           in case r of
                Inl e \<Rightarrow> peer_ended transport u' (Inl e)
              | Inr (Break _) \<Rightarrow> peer_ended transport u' (Inr ())
              | Inr (Continue _) \<Rightarrow> Some u'))"

definition relay_next :: "uploading \<Rightarrow> task_next \<times> (string \<times> bytes) list \<times> timeout_cell \<Rightarrow> uploading" where
  "relay_next u n =
     (let u' = u\<lparr>ul_requests := ul_requests u @ fst (snd n),
            ul_handler := (ul_handler u)\<lparr>uh_cell := snd (snd n)\<rparr>\<rparr>
      in case fst n of
           Runs task \<Rightarrow> u'\<lparr>ul_relay := Some task\<rparr>
         | Done r \<Rightarrow> u'\<lparr>ul_relay := None, ul_result := Some r\<rparr>)"

definition uploading_step ::
  "transport \<Rightarrow> (nat \<Rightarrow> duration list) \<Rightarrow> ('h \<Rightarrow> string option) \<Rightarrow> (bytes \<Rightarrow> downloader_message option) \<Rightarrow>
   (uploader_inner \<Rightarrow> error option) \<Rightarrow> bytes \<Rightarrow> uploading \<Rightarrow> 'h upload_input \<Rightarrow> uploading option" where
  "uploading_step transport inner to_str decode send F u ev =
     (if ul_result u \<noteq> None then Some u
      else case ev of
        SocketSays m \<Rightarrow> Some (u\<lparr>ul_handler := snd (upload_websocket_message (ul_handler u) m)\<rparr>)
      | PeerSays data \<Rightarrow> if ul_peer u then peer_says transport decode send F u data else Some u
      | PeerFails e \<Rightarrow> if ul_peer u then peer_ended transport u (Inl e) else Some u
      | _ \<Rightarrow>
          (case ul_relay u of
             None \<Rightarrow> Some u
           | Some task \<Rightarrow>
               map_option (relay_next u) (task_step to_str inner F (uh_cell (ul_handler u)) task ev)))"

fun uploading_run ::
  "transport \<Rightarrow> (nat \<Rightarrow> duration list) \<Rightarrow> ('h \<Rightarrow> string option) \<Rightarrow> (bytes \<Rightarrow> downloader_message option) \<Rightarrow>
   (uploader_inner \<Rightarrow> error option) \<Rightarrow> bytes \<Rightarrow> uploading \<Rightarrow> 'h upload_input list \<Rightarrow> uploading option" where
  "uploading_run transport inner to_str decode send F u [] = Some u"
| "uploading_run transport inner to_str decode send F u (ev # evs) =
     Option.bind (uploading_step transport inner to_str decode send F u ev)
       (\<lambda>u. uploading_run transport inner to_str decode send F u evs)"

subsection \<open>One file for everyone\<close>

text \<open>
  A peer that asks only for what is in the file, and the events that mean that the relay or
  the peer has it all.
\<close>

definition polite :: "(bytes \<Rightarrow> downloader_message option) \<Rightarrow> bytes \<Rightarrow> 'h upload_input \<Rightarrow> bool" where
  "polite decode F ev =
     (case ev of
        PeerSays data \<Rightarrow>
          (case Option.bind (decode data) dm_inner of
             Some (DataRequest r) \<Rightarrow> unat (req_offset r) + unat (req_len r) \<le> length F
           | _ \<Rightarrow> True)
      | _ \<Rightarrow> True)"

definition content_accepted :: "'h upload_input \<Rightarrow> bool" where
  "content_accepted ev =
     (case ev of
        ContentAnswers (Inr q) \<Rightarrow> is_success (hr_status q) \<and> hr_upload q = Some UploadResponseOk
      | _ \<Rightarrow> False)"

definition peer_finished :: "(bytes \<Rightarrow> downloader_message option) \<Rightarrow> 'h upload_input \<Rightarrow> bool" where
  "peer_finished decode ev =
     (case ev of PeerSays data \<Rightarrow> Option.bind (decode data) dm_inner = Some TransferFinished | _ \<Rightarrow> False)"

definition delivered_by ::
  "transport \<Rightarrow> (bytes \<Rightarrow> downloader_message option) \<Rightarrow> 'h upload_input \<Rightarrow> bool" where
  "delivered_by transport decode ev =
     (if transport = P2P then peer_finished decode ev else content_accepted ev)"

definition call_ok :: "bytes \<Rightarrow> upload_call \<Rightarrow> bool" where
  "call_ok F c =
     (unat (uc_position c) \<le> length F \<and>
      (case uc_await c of AwStart request \<Rightarrow> honest_request F request | _ \<Rightarrow> True))"

definition relay_task_ok :: "bytes \<Rightarrow> relay_task \<Rightarrow> bool" where
  "relay_task_ok F task = (case task of Trying n t c delays \<Rightarrow> call_ok F c | Pausing _ _ \<Rightarrow> True)"

definition uploading_inv :: "transport \<Rightarrow> bytes \<Rightarrow> uploading \<Rightarrow> bool" where
  "uploading_inv transport F u =
     (list_all (honest_request F) (ul_requests u) \<and>
      (\<forall>a. DataResponse a \<in> set (ul_answers u) \<longrightarrow>
         prefix (resp_data a) (drop (unat (resp_offset a)) F)) \<and>
      list_all (\<lambda>p. snd p = len64 F) (uh_progress (ul_handler u)) \<and> uh_len (ul_handler u) = len64 F \<and>
      (case ul_relay u of None \<Rightarrow> True | Some task \<Rightarrow> transport \<noteq> P2P \<and> relay_task_ok F task) \<and>
      (ul_peer u \<longrightarrow> transport \<noteq> Relay))"

lemma begin_iteration_ok:
  assumes "unat (uc_position c) \<le> length F" and "length F < 2 ^ 64"
  shows "\<exists>c'. begin_iteration F c = Some c' \<and> call_ok F c'"
  using upload_request_honest [OF assms] assms(1) by (auto simp: begin_iteration_def call_ok_def)

lemma retry_call_ok:
  "retry_call e c = Inr c' \<Longrightarrow> should_retry e \<and> uc_position c' = uc_position c \<and> uc_await c' = AwBackoff"
  by (auto simp: retry_call_def split: if_splits option.splits)

lemma call_decided_ok:
  assumes "call_ok F c" and "length F < 2 ^ 64"
  shows "\<exists>n. call_decided to_str F c reply = Some n \<and>
    (case n of
       Goes c' \<Rightarrow> call_ok F c'
     | Answers r \<Rightarrow> r = Inr () \<longrightarrow>
         (\<exists>q. reply = Inr q \<and> is_success (hr_status q) \<and> hr_upload q = Some UploadResponseOk))"
proof -
  have p: "unat (uc_position c) \<le> length F" using assms(1) by (simp add: call_ok_def)
  note pos = upload_decided_position [OF assms(2) p, of to_str reply]
  show ?thesis
  proof (cases "upload_decided to_str F (uc_position c) reply")
    case (TryAgain p)
    then show ?thesis
      using pos begin_iteration_ok [of "c\<lparr>uc_position := p\<rparr>" F] assms(2) by (auto simp: call_decided_def)
  next
    case (Leave x p)
    show ?thesis
    proof (cases x)
      case (Inl e)
      then show ?thesis
        using pos Leave retry_call_ok [of e "c\<lparr>uc_position := p\<rparr>"]
        by (auto simp: call_decided_def call_ok_def split: sum.split)
    next
      case (Inr u)
      then show ?thesis
        using Leave upload_decided_success [of to_str F "uc_position c" reply u p]
        by (simp add: call_decided_def)
    qed
  qed
qed

lemma start_verdict_Some:
  "start_verdict start = Some (Inr q) \<Longrightarrow> \<not> is_success (hr_status q)"
  by (auto simp: start_verdict_def split: sum.splits if_splits)

lemma call_step_ok:
  assumes "call_ok F c" and "length F < 2 ^ 64"
  shows "\<exists>n sent. call_step to_str F c ev = Some (n, sent) \<and> list_all (honest_request F) sent \<and>
    (case n of Goes c' \<Rightarrow> call_ok F c' | Answers r \<Rightarrow> r = Inr () \<longrightarrow> content_accepted ev)"
proof (cases ev)
  case (StartAnswers start)
  show ?thesis
  proof (cases "uc_await c")
    case (AwStart request)
    then show ?thesis
      using assms(1) StartAnswers call_decided_ok [OF assms] start_verdict_Some [of start]
      by (cases "start_verdict start")
        (fastforce simp: call_ok_def split: call_next.splits)+
  qed (use assms StartAnswers in auto)
next
  case (ContentAnswers content)
  obtain n where "call_decided to_str F c content = Some n"
    "case n of Goes c' \<Rightarrow> call_ok F c' | Answers r \<Rightarrow> r = Inr () \<longrightarrow> content_accepted ev"
    using call_decided_ok [OF assms, of to_str content] ContentAnswers
    by (force simp: content_accepted_def split: call_next.splits)
  then show ?thesis using assms(1) ContentAnswers by auto
next
  case BackoffEnds
  then show ?thesis
    using assms begin_iteration_ok [of c F] by (auto simp: call_ok_def)
qed (use assms in auto)

lemma poll_attempt_ok:
  "poll_attempt cell n t c delays output elapsed = Done (Inr ()) \<Longrightarrow> output = Some (Inr ())"
  "poll_attempt cell n t c delays output elapsed = Runs task \<Longrightarrow> call_ok F c \<Longrightarrow> relay_task_ok F task"
  by (auto simp: poll_attempt_def abortable_poll_def attempt_failed_def relay_task_ok_def
      split: option.splits if_splits sum.splits)

lemma task_step_ok:
  assumes "relay_task_ok F task" and len: "length F < 2 ^ 64"
  shows "\<exists>n sent cell'. task_step to_str inner F cell task ev = Some (n, sent, cell') \<and>
    list_all (honest_request F) sent \<and>
    (case n of Runs task' \<Rightarrow> relay_task_ok F task' | Done r \<Rightarrow> r = Inr () \<longrightarrow> content_accepted ev)"
proof (cases task)
  case (Pausing n delays)
  obtain c where "new_call F (inner n) = Some c \<and> call_ok F c"
    using begin_iteration_ok [of "\<lparr>uc_position = 0, uc_delays = inner n, uc_await = AwBackoff\<rparr>" F] len
    by (auto simp: new_call_def)
  then show ?thesis using Pausing by (auto simp: task_step_def relay_task_ok_def)
next
  case (Trying n t c delays)
  then have c: "call_ok F c" using assms(1) by (simp add: relay_task_ok_def)
  show ?thesis
  proof (cases "ev = TimeIsUp")
    case True
    then show ?thesis
      using Trying poll_attempt_ok [of cell n t c delays None True] c
      by (auto simp: task_step_def split: task_next.split)
  next
    case False
    obtain r sent where s: "call_step to_str F c ev = Some (r, sent)" "list_all (honest_request F) sent"
      "case r of Goes c' \<Rightarrow> call_ok F c' | Answers r \<Rightarrow> r = Inr () \<longrightarrow> content_accepted ev"
      using call_step_ok [OF c len] by blast
    show ?thesis
    proof (cases r)
      case (Goes c')
      then show ?thesis using Trying False s by (simp add: task_step_def relay_task_ok_def)
    next
      case (Answers a)
      then show ?thesis
        using Trying False s c poll_attempt_ok [of cell n t c delays "Some a" False]
        by (auto simp: task_step_def split: task_next.split)
    qed
  qed
qed

definition step_ok ::
  "transport \<Rightarrow> (bytes \<Rightarrow> downloader_message option) \<Rightarrow> bytes \<Rightarrow> uploading \<Rightarrow> 'h upload_input \<Rightarrow> uploading \<Rightarrow> bool" where
  "step_ok transport decode F u ev u' =
     (uploading_inv transport F u' \<and>
      (ul_result u' = Some (Inr ()) \<longrightarrow> ul_result u = Some (Inr ()) \<or> delivered_by transport decode ev))"

lemma peer_ended_ok:
  assumes "uploading_inv transport F u" and "ul_peer u" and "ul_result u = None"
    and "r = Inr () \<Longrightarrow> transport = P2P \<Longrightarrow> delivered_by transport decode ev"
  shows "\<exists>u'. peer_ended transport u r = Some u' \<and> step_ok transport decode F u ev u'"
  using assms
  by (cases transport; cases r) (auto simp: peer_ended_def step_ok_def uploading_inv_def)

lemma peer_answer_ok:
  assumes "upload_state_message decode send F data = Some (out, r, progress)" and "length F < 2 ^ 64"
    and "polite decode F (PeerSays data :: 'h upload_input)"
  shows "(\<forall>a. DataResponse a \<in> set out \<longrightarrow> prefix (resp_data a) (drop (unat (resp_offset a)) F)) \<and>
    list_all (\<lambda>p. snd p = len64 F) progress \<and>
    (r = Inr (Break ()) \<longrightarrow> peer_finished decode (PeerSays data :: 'h upload_input))"
proof (cases "decode data")
  case (Some m)
  then show ?thesis
    using assms read_at_exact_Some [of F]
    by (cases "dm_inner m"; cases "the (dm_inner m)")
      (auto simp: upload_state_message_def handle_downloader_message_def polite_def peer_finished_def Let_def
        encrypted_len_def len64_def take_is_prefix split: option.splits)
qed (use assms in \<open>auto simp: upload_state_message_def\<close>)

lemma peer_answer_total:
  assumes "polite decode F (PeerSays data :: 'h upload_input)" and "length F < 2 ^ 64"
  shows "\<exists>out r progress. upload_state_message decode send F data = Some (out, r, progress)"
proof (cases "decode data")
  case (Some m)
  then show ?thesis
    using assms read_at_exact_Some [of F]
    by (cases "dm_inner m"; cases "the (dm_inner m)")
      (auto simp: upload_state_message_def handle_downloader_message_def polite_def Let_def split: option.split)
qed (simp add: upload_state_message_def)

lemma peer_says_ok:
  assumes inv: "uploading_inv transport F u" and peer: "ul_peer u" and run: "ul_result u = None"
    and polite: "polite decode F (PeerSays data :: 'h upload_input)" and len: "length F < 2 ^ 64"
  shows "\<exists>u'. peer_says transport decode send F u data = Some u' \<and>
    step_ok transport decode F u (PeerSays data :: 'h upload_input) u'"
proof -
  obtain out r progress where m: "upload_state_message decode send F data = Some (out, r, progress)"
    using peer_answer_total [OF polite len] by blast
  note a = peer_answer_ok [OF m len polite]
  let ?u = "u\<lparr>ul_answers := ul_answers u @ out,
    ul_handler := (ul_handler u)\<lparr>uh_progress := uh_progress (ul_handler u) @ progress\<rparr>\<rparr>"
  have i: "uploading_inv transport F ?u" using inv a by (auto simp: uploading_inv_def)
  have ended: "\<exists>u'. peer_ended transport ?u q = Some u' \<and> step_ok transport decode F ?u (PeerSays data :: 'h upload_input) u'"
    if "q = Inr () \<Longrightarrow> r = Inr (Break ())" for q
    by (rule peer_ended_ok [OF i]) (use peer run a that in \<open>auto simp: delivered_by_def\<close>)
  have "step_ok transport decode F ?u ev u' = step_ok transport decode F u ev u'" for ev :: "'h upload_input" and u'
    by (simp add: step_ok_def)
  then show ?thesis
    using m i run ended [of "Inr ()"] ended [of "Inl _"]
    by (cases r) (auto simp: peer_says_def Let_def step_ok_def split: control_flow.split)
qed

lemma socket_message_ok:
  "uploading_inv transport F u \<Longrightarrow>
   uploading_inv transport F (u\<lparr>ul_handler := snd (upload_websocket_message (ul_handler u) m)\<rparr>)"
  by (auto simp: upload_websocket_message_def uploading_inv_def split: option.split ws_inner.split bool.split)

lemma uploading_step_ok:
  assumes inv: "uploading_inv transport F u" and polite: "polite decode F ev" and len: "length F < 2 ^ 64"
  shows "\<exists>u'. uploading_step transport inner to_str decode send F u ev = Some u' \<and> step_ok transport decode F u ev u'"
proof (cases "ul_result u")
  case (Some r)
  then show ?thesis using inv by (auto simp: uploading_step_def step_ok_def)
next
  case None
  have relay: "\<exists>u'. (case ul_relay u of None \<Rightarrow> Some u | Some task \<Rightarrow>
      map_option (relay_next u) (task_step to_str inner F (uh_cell (ul_handler u)) task ev)) = Some u' \<and>
      step_ok transport decode F u ev u'"
  proof (cases "ul_relay u")
    case (Some task)
    then have t: "relay_task_ok F task" "transport \<noteq> P2P" using inv by (auto simp: uploading_inv_def)
    obtain n sent cell where s: "task_step to_str inner F (uh_cell (ul_handler u)) task ev = Some (n, sent, cell)"
      "list_all (honest_request F) sent"
      "case n of Runs task' \<Rightarrow> relay_task_ok F task' | Done r \<Rightarrow> r = Inr () \<longrightarrow> content_accepted ev"
      using task_step_ok [OF t(1) len] by blast
    then show ?thesis
      using Some inv t(2) None
      by (cases n) (auto simp: relay_next_def step_ok_def uploading_inv_def delivered_by_def Let_def)
  qed (use inv None in \<open>simp add: step_ok_def\<close>)
  show ?thesis
  proof (cases ev)
    case (PeerSays data)
    then show ?thesis
      using None inv polite peer_says_ok [OF inv _ None _ len, of decode data]
      by (auto simp: uploading_step_def step_ok_def)
  next
    case (PeerFails e)
    then show ?thesis
      using None inv peer_ended_ok [OF inv _ None, of "Inl e" decode ev]
      by (auto simp: uploading_step_def step_ok_def)
  next
    case (SocketSays m)
    then show ?thesis using None inv socket_message_ok by (auto simp: uploading_step_def step_ok_def)
  qed (use None relay in \<open>simp_all add: uploading_step_def cong: option.case_cong\<close>)
qed

lemma uploading_step_keeps:
  assumes "uploading_step transport inner to_str decode send F u ev = Some u'" and "uploading_inv transport F u"
    and "polite decode F ev" and "length F < 2 ^ 64"
  shows "uploading_inv transport F u'"
proof -
  from uploading_step_ok [OF assms(2-4), of inner to_str send] assms(1) show ?thesis by (auto simp: step_ok_def)
qed

lemma uploading_run_ok:
  assumes "uploading_inv transport F u" and "list_all (polite decode F) evs" and len: "length F < 2 ^ 64"
  shows "\<exists>u'. uploading_run transport inner to_str decode send F u evs = Some u' \<and> uploading_inv transport F u' \<and>
    (ul_result u' = Some (Inr ()) \<longrightarrow>
       ul_result u = Some (Inr ()) \<or> (\<exists>ev \<in> set evs. delivered_by transport decode ev))"
  using assms(1,2)
proof (induction evs arbitrary: u)
  case (Cons ev evs)
  then obtain v where v: "uploading_step transport inner to_str decode send F u ev = Some v"
    "step_ok transport decode F u ev v" using uploading_step_ok [OF _ _ len] by fastforce
  then have "uploading_inv transport F v" by (simp add: step_ok_def)
  from Cons.IH [OF this] Cons.prems v show ?case by (auto simp: step_ok_def)
qed simp

lemma uploading_start_inv:
  "uploading_start transport outer (Inr F) failed = Inr u0 \<Longrightarrow> uploading_inv transport F u0"
  by (auto simp: uploading_start_def uploading_inv_def relay_task_ok_def)

text \<open>C7: 
  Whatever comes in from the relay, its websocket and a peer that asks only for what is
  there, in any order: the upload does not panic, everything it sends is out of the one
  file (a content request has the rest of it from its position, an answer to the peer what
  is at its offset), its progress is measured against the file, and it reports success only
  when the relay has accepted the content or, without a relay, the peer has finished.
\<close>

theorem upload_serves_one_file:
  assumes "length F < 2 ^ 64" and "uploading_start transport outer (Inr F) failed = Inr u0"
    and "list_all (polite decode F) evs"
  shows "\<exists>u. uploading_run transport inner to_str decode send F u0 evs = Some u \<and>
    list_all (honest_request F) (ul_requests u) \<and>
    (\<forall>a. DataResponse a \<in> set (ul_answers u) \<longrightarrow> prefix (resp_data a) (drop (unat (resp_offset a)) F)) \<and>
    list_all (\<lambda>p. snd p = len64 F) (uh_progress (ul_handler u)) \<and>
    (ul_result u = Some (Inr ()) \<longrightarrow> (\<exists>ev \<in> set evs. delivered_by transport decode ev))"
proof -
  have "uploading_inv transport F u0" "ul_result u0 \<noteq> Some (Inr ())"
    using uploading_start_inv [OF assms(2)] assms(2) by (auto simp: uploading_start_def)
  then obtain u where "uploading_run transport inner to_str decode send F u0 evs = Some u"
    "uploading_inv transport F u"
    "ul_result u = Some (Inr ()) \<longrightarrow> (\<exists>ev \<in> set evs. delivered_by transport decode ev)"
    using uploading_run_ok [OF _ assms(3,1)] by blast
  then show ?thesis by (auto simp: uploading_inv_def)
qed

text \<open>
  An upload over both transports: the relay asks for the content from position 2, the peer
  fetches a part and fails, the first attempt times out, and the second one is accepted.
\<close>

definition example_upload_events :: "string upload_input list" where
  "example_upload_events =
     [AttemptBegins, StartAnswers (Inr (conflict_reply 2)), PeerSays [1], StartAnswers (Inr ok_reply),
      PeerFails TimedOut, TimeIsUp, AttemptBegins, StartAnswers (Inr ok_reply),
      SocketSays \<lparr>wsm_inner = Some (UploadDataAck \<lparr>ack_offset = 1\<rparr>)\<rparr>, TimeIsUp, ContentAnswers (Inr ok_reply)]"

definition example_asks :: "bytes \<Rightarrow> downloader_message option" where
  "example_asks data = Some \<lparr>dm_inner = Some (DataRequest \<lparr>req_offset = 1, req_len = 2\<rparr>)\<rparr>"

lemma example_uploading:
  assumes "uploading_start Both [5] (Inr [10, 11, 12]) None = Inr u0"
  shows "map_option (\<lambda>u. (ul_requests u, ul_answers u, uh_progress (ul_handler u), ul_result u))
    (uploading_run Both (\<lambda>_. []) Some example_asks (\<lambda>_. None) [10, 11, 12] u0 example_upload_events) =
    Some ([(upload_content_range 2 3, [12]), (upload_content_range 0 3, [10, 11, 12])],
      [DataResponse \<lparr>resp_offset = 1, resp_data = [11, 12]\<rparr>], [(0, 3), (3, 3), (1, 3)], Some (Inr ()))"
  using assms [symmetric]
  by (simp add: example_upload_events_def example_asks_def uploading_start_def uploading_step_def task_step_def new_call_def
      begin_iteration_def upload_request_def slice_def start_verdict_def ok_reply_def conflict_reply_def is_success_def
      call_decided_def upload_decided_def CONFLICT_def after_conflict_def relay_next_def put_handle_def new_timer_def
      peer_says_def upload_state_message_def handle_downloader_message_def read_at_exact_def saturating_add_def
      encrypted_len_def peer_ended_def poll_attempt_def abortable_poll_def attempt_failed_def retry_error_from_def
      upload_websocket_message_def cancel_handle_def parsed_upload_def upload_response_ok_or_def response_ok_or_def
      len64_def Let_def should_retry_def retry_retriability_def adjust_def)

theorem upload_serves_one_file_witness:
  "\<exists>u0 u. uploading_start Both [5] (Inr [10, 11, 12]) None = Inr u0 \<and>
     uploading_run Both (\<lambda>_. []) Some example_asks (\<lambda>_. None) [10, 11, 12] u0 example_upload_events = Some u \<and>
     list_all (honest_request [10, 11, 12]) (ul_requests u) \<and> length (ul_requests u) = 2 \<and>
     ul_result u = Some (Inr ())"
proof -
  obtain u0 where u0: "uploading_start Both [5] (Inr [10, 11, 12]) None = Inr u0"
    by (simp add: uploading_start_def)
  have "list_all (polite example_asks [10, 11, 12]) example_upload_events"
    by (simp add: example_upload_events_def example_asks_def polite_def)
  from upload_serves_one_file [OF _ u0 this, of "\<lambda>_. []" Some "\<lambda>_. None"] obtain u where
    "uploading_run Both (\<lambda>_. []) Some example_asks (\<lambda>_. None) [10, 11, 12] u0 example_upload_events = Some u"
    "list_all (honest_request [10, 11, 12]) (ul_requests u)" by auto
  then show ?thesis using u0 example_uploading [OF u0] by auto
qed

subsection \<open>The call taken apart\<close>



lemma begin_iteration_await [simp]:
  "begin_iteration F (c\<lparr>uc_await := a\<rparr>) = begin_iteration F c"
  "begin_iteration F (c\<lparr>uc_position := p, uc_await := a\<rparr>) = begin_iteration F (c\<lparr>uc_position := p\<rparr>)"
  by (simp_all add: begin_iteration_def)

lemma map_append_Nil [simp]: "map_option (apsnd ((@) [])) x = x"
  by (cases x) auto




lemma retry_call_await:
  "retry_call e (c\<lparr>uc_await := a, uc_position := p\<rparr>) = retry_call e (c\<lparr>uc_position := p\<rparr>)"
  by (simp add: retry_call_def split: option.split)








end
