(* ===== verification/Client_Exchange.thy ===== *)
theory Client_Exchange
  imports Client_Uploading
begin

text \<open>
  Uploader and downloader together: a whole upload (\<open>Client_Uploading\<close>) and a whole download
  (\<open>Client_Fallback\<close>) of its file, which go on in any interleaving and hear from each other only
  what the other has said. The channel between them may lose, repeat, delay and reorder;
  the relay is as honest as \<open>Relay_System\<close> shows it to be.
\<close>

subsection \<open>What the downloader sends\<close>

definition handled_messages :: "'a handled \<Rightarrow> downloader_inner list" where
  "handled_messages r = (case r of None \<Rightarrow> [] | Some (ms, _, _) \<Rightarrow> ms)"

text \<open>The messages of the handler that \<open>fallback_step\<close> calls.\<close>

definition fallback_messages ::
  "(bytes \<Rightarrow> uploader_message option) \<Rightarrow> (bytes \<Rightarrow> error + bytes) \<Rightarrow> (downloader_inner \<Rightarrow> error option) \<Rightarrow>
   fallback \<Rightarrow> 'h fallback_event \<Rightarrow> downloader_inner list" where
  "fallback_messages decode decrypt send y ev =
     (case ev of
        ChannelOpens io \<Rightarrow>
          (if connecting (fb_phase y) then handled_messages (connect_opened send (fb_state y))
           else if transferring (fb_phase y) then handled_messages (state_opened decrypt send io (fb_state y))
           else [])
      | ChannelSays data io \<Rightarrow>
          (if connecting (fb_phase y)
           then handled_messages (connect_message decode decrypt send io (fb_state y) data)
           else if transferring (fb_phase y)
           then handled_messages (state_message decode decrypt send io (fb_state y) data)
           else [])
      | _ \<Rightarrow> [])"

text \<open>The downloader asks only for what the file has.\<close>

definition asks_within :: "u64 \<Rightarrow> downloader_inner list \<Rightarrow> bool" where
  "asks_within whole ms =
     (\<forall>r. DataRequest r \<in> set ms \<longrightarrow> unat (req_offset r) + unat (req_len r) \<le> unat whole)"

lemma asks_within_simps [simp]:
  "asks_within whole []" "asks_within whole [DownloaderHello]" "asks_within whole [TransferFinished]"
  "asks_within whole (ms @ ms') = (asks_within whole ms \<and> asks_within whole ms')"
  by (auto simp: asks_within_def)

lemma request_loop_within:
  "request_loop send requested whole received = Some (rs, err, requested') \<Longrightarrow> requested \<le> whole \<Longrightarrow>
   requested' \<le> whole \<and> asks_within whole (map DataRequest rs)"
proof (induction send requested whole received arbitrary: rs rule: request_loop.induct)
  case (1 send requested whole received)
  show ?case
  proof (cases "next_data_request requested whole received")
    case None
    then show ?thesis using "1.prems" by (simp add: request_loop.simps [of send requested])
  next
    case (Some r)
    show ?thesis
    proof (cases r)
      case None
      then show ?thesis using Some "1.prems" by (simp add: request_loop.simps [of send requested])
    next
      case r: (Some request)
      note n = next_data_request_Some [OF Some [unfolded r]]
      show ?thesis
      proof (cases "send (DataRequest request)")
        case e: (Some e)
        then show ?thesis using Some r "1.prems" by (simp add: request_loop.simps [of send requested])
      next
        case None
        then obtain rs' where rs': "rs = request # rs'"
          "request_loop send (requested + req_len request) whole received = Some (rs', err, requested')"
          using Some r "1.prems" by (auto simp: request_loop.simps [of send requested])
        have len: "unat (req_len request) \<le> unat whole - unat requested" "unat requested \<le> unat whole"
          using n(6) "1.prems"(2) by (simp_all add: unat_sub word_le_nat_alt)
        then have fits: "unat requested + unat (req_len request) \<le> unat whole" by linarith
        then have "unat (requested + req_len request) = unat requested + unat (req_len request)"
          using unat_u64 [of whole] by (simp add: unat_add_lem [THEN iffD1])
        then have "requested + req_len request \<le> whole" using fits by (simp add: word_le_nat_alt)
        from "1.IH" [OF Some r None rs'(2) this] rs'(1) n(2) fits show ?thesis
          by (auto simp: asks_within_def)
      qed
    qed
  qed
qed

text \<open>A handler that asks within the file and keeps its window there.\<close>

definition asks_ok :: "download_state \<Rightarrow> 'a handled \<Rightarrow> bool" where
  "asks_ok st r =
     (case r of
        None \<Rightarrow> True
      | Some (ms, v, st') \<Rightarrow>
          ds_total st' = ds_total st \<and> ds_requested st' \<le> ds_total st \<and> asks_within (ds_total st) ms)"

lemma request_asks: "ds_requested st \<le> ds_total st \<Longrightarrow> asks_ok st (request_data_or_finish decrypt send io st)"
  using request_loop_within [of send "ds_requested st" "ds_total st"]
  by (auto simp: request_data_or_finish_def asks_ok_def split: option.splits poll.splits sum.splits)

lemma asks_ok_simps [simp]:
  "asks_ok st None"
  "asks_ok (st\<lparr>ds_file := f, ds_progress := p\<rparr>) r = asks_ok st r"
  "asks_ok st (Some (ms, v, st')) =
    (ds_total st' = ds_total st \<and> ds_requested st' \<le> ds_total st \<and> asks_within (ds_total st) ms)"
  by (simp_all add: asks_ok_def split: option.split)

lemma message_asks:
  assumes "ds_requested st \<le> ds_total st"
  shows "asks_ok st (handle_uploader_message decrypt send io st m)"
proof -
  have "asks_ok st (request_data_or_finish decrypt send io (st\<lparr>ds_file := f, ds_progress := p\<rparr>))" for f p
    using request_asks [of "st\<lparr>ds_file := f, ds_progress := p\<rparr>" decrypt send io] assms by simp
  then show ?thesis
    using assms request_asks [OF assms]
    by (auto simp: handle_uploader_message_def split: option.split uploader_inner.split sum.split)
qed

lemma state_message_asks: "ds_requested st \<le> ds_total st \<Longrightarrow> asks_ok st (state_message decode decrypt send io st data)"
  using message_asks by (auto simp: state_message_def split: option.split)

lemma connect_opened_asks: "ds_requested st \<le> ds_total st \<Longrightarrow> asks_ok st (connect_opened send st)"
  by (auto simp: connect_opened_def split: option.split)

lemma connect_message_asks:
  assumes "ds_requested st \<le> ds_total st"
  shows "asks_ok st (connect_message decode decrypt send io st data)"
proof (cases "state_message decode decrypt send io st data")
  case (Some q)
  obtain ms v st1 where q: "q = (ms, v, st1)" by (cases q)
  have 1: "ds_total st1 = ds_total st" "ds_requested st1 \<le> ds_total st" "asks_within (ds_total st) ms"
    using state_message_asks [OF assms, of decode decrypt send io data] Some q by simp_all
  have "asks_ok st1 (request_data_or_finish decrypt send io st1)" by (rule request_asks) (use 1 in simp)
  then show ?thesis
    using Some q 1 by (auto simp: connect_message_def split: option.splits sum.splits control_flow.splits)
qed (simp add: connect_message_def)

definition asks_well :: "fallback \<Rightarrow> bool" where
  "asks_well y = (ds_requested (fb_state y) \<le> ds_total (fb_state y))"

lemma connect_verdict_asks:
  assumes "connect_verdict transport delays phase r = Some y'" and "asks_ok st r"
  shows "ds_total (fb_state y') = ds_total st \<and> asks_well y' \<and> asks_within (ds_total st) (handled_messages r)"
  using assms
  by (auto simp: connect_verdict_def asks_well_def handled_messages_def
      split: option.splits sum.splits control_flow.splits)

lemma transfer_verdict_asks:
  assumes "transfer_verdict transport delays phase r = Some y'" and "asks_ok st r"
  shows "ds_total (fb_state y') = ds_total st \<and> asks_well y' \<and> asks_within (ds_total st) (handled_messages r)"
  using assms
  by (auto simp: transfer_verdict_def asks_well_def handled_messages_def
      split: option.splits sum.splits control_flow.splits)

lemma fallback_step_asks:
  assumes step: "fallback_step transport delays decode decrypt to_str send y ev = Some y'" and ok: "asks_well y"
  shows "ds_total (fb_state y') = ds_total (fb_state y) \<and> asks_well y' \<and>
    asks_within (ds_total (fb_state y)) (fallback_messages decode decrypt send y ev)"
proof -
  have st: "ds_requested (fb_state y) \<le> ds_total (fb_state y)" using ok by (simp add: asks_well_def)
  show ?thesis
  proof (cases ev)
    case (ChannelOpens io)
    then show ?thesis
      using step ok connect_verdict_asks [OF _ connect_opened_asks [OF st]]
        transfer_verdict_asks [OF _ request_asks [OF st]]
      by (auto simp: fallback_step_def fallback_messages_def Let_def state_opened_def split: if_splits)
  next
    case (ChannelSays data io)
    then show ?thesis
      using step ok connect_verdict_asks [OF _ connect_message_asks [OF st]]
        transfer_verdict_asks [OF _ state_message_asks [OF st]]
      by (auto simp: fallback_step_def fallback_messages_def Let_def split: if_splits)
  next
    case (Relays re)
    then show ?thesis
      using step ok
      by (cases "fb_phase y") (auto simp: fallback_step_def fallback_messages_def asks_well_def Let_def)
  next
    case (FinishAnswers r)
    then show ?thesis
      using step ok
      by (cases "fb_phase y"; cases r) (auto simp: fallback_step_def fallback_messages_def asks_well_def Let_def)
  qed (use step ok in \<open>auto simp: fallback_step_def fallback_messages_def asks_well_def Let_def split: if_splits\<close>)
qed

subsection \<open>Both clients\<close>

record exchange =
  ex_up :: uploading
  ex_down :: fallback
  ex_asked :: "downloader_inner list"

datatype ('g, 'h) exchange_event = Upper "'g upload_input" | Downer "'h fallback_event"

text \<open>
  The parameters of the two: their transports, schedules, header decoders, codecs, what their
  channels answer to a send; the ciphertext and its decryption.
\<close>

record ('g, 'h) exchange_setting =
  xs_up_transport :: transport
  xs_outer :: "duration list"
  xs_inner :: "nat \<Rightarrow> duration list"
  xs_up_header :: "'g \<Rightarrow> string option"
  xs_up_decode :: "bytes \<Rightarrow> downloader_message option"
  xs_up_send :: "uploader_inner \<Rightarrow> error option"
  xs_down_transport :: transport
  xs_delays :: "duration list"
  xs_down_header :: "'h \<Rightarrow> string option"
  xs_down_decode :: "bytes \<Rightarrow> uploader_message option"
  xs_down_send :: "downloader_inner \<Rightarrow> error option"

definition exchange_step ::
  "('g, 'h) exchange_setting \<Rightarrow> (bytes \<Rightarrow> error + bytes) \<Rightarrow> bytes \<Rightarrow> exchange \<Rightarrow>
   ('g, 'h) exchange_event \<Rightarrow> exchange option" where
  "exchange_step s decrypt F x ev =
     (case ev of
        Upper e \<Rightarrow>
          map_option (\<lambda>u. x\<lparr>ex_up := u\<rparr>)
            (uploading_step (xs_up_transport s) (xs_inner s) (xs_up_header s) (xs_up_decode s) (xs_up_send s) F
              (ex_up x) e)
      | Downer e \<Rightarrow>
          map_option
            (\<lambda>y. x\<lparr>ex_down := y,
               ex_asked := ex_asked x
                 @ fallback_messages (xs_down_decode s) decrypt (xs_down_send s) (ex_down x) e\<rparr>)
            (fallback_step (xs_down_transport s) (xs_delays s) (xs_down_decode s) decrypt (xs_down_header s)
              (xs_down_send s) (ex_down x) e))"

text \<open>Each hears only what the other has said; the rest is as for an honest relay.\<close>

definition exchange_allowed ::
  "('g, 'h) exchange_setting \<Rightarrow> bytes \<Rightarrow> exchange \<Rightarrow> ('g, 'h) exchange_event \<Rightarrow> bool" where
  "exchange_allowed s F x ev =
     (case ev of
        Upper (PeerSays data) \<Rightarrow>
          (case Option.bind (xs_up_decode s data) dm_inner of
             Some m \<Rightarrow> m \<in> set (ex_asked x)
           | None \<Rightarrow> True)
      | Downer (ChannelSays data io) \<Rightarrow>
          (case Option.bind (xs_down_decode s data) um_inner of
             Some m \<Rightarrow> m \<in> set (ul_answers (ex_up x))
           | None \<Rightarrow> True)
      | Downer e \<Rightarrow> honest_event (xs_down_decode s) F (ex_down x) e
      | _ \<Rightarrow> True)"

fun exchange_run ::
  "('g, 'h) exchange_setting \<Rightarrow> (bytes \<Rightarrow> error + bytes) \<Rightarrow> bytes \<Rightarrow> exchange \<Rightarrow>
   ('g, 'h) exchange_event list \<Rightarrow> exchange option" where
  "exchange_run s decrypt F x [] = Some x"
| "exchange_run s decrypt F x (ev # evs) =
     (if exchange_allowed s F x ev
      then Option.bind (exchange_step s decrypt F x ev) (\<lambda>x. exchange_run s decrypt F x evs)
      else exchange_run s decrypt F x evs)"

text \<open>Whether the download has a late failure (\<open>Client_Fallback\<close>) on the way.\<close>

fun exchange_no_late_failure ::
  "('g, 'h) exchange_setting \<Rightarrow> (bytes \<Rightarrow> error + bytes) \<Rightarrow> bytes \<Rightarrow> exchange \<Rightarrow>
   ('g, 'h) exchange_event list \<Rightarrow> bool" where
  "exchange_no_late_failure s decrypt F x [] = True"
| "exchange_no_late_failure s decrypt F x (ev # evs) =
     (if exchange_allowed s F x ev
      then (case ev of
              Downer e \<Rightarrow> \<not> late_failure (xs_down_decode s) decrypt (xs_down_send s) (ex_down x) e
            | Upper e \<Rightarrow> True) \<and>
           (case exchange_step s decrypt F x ev of
              None \<Rightarrow> True
            | Some x' \<Rightarrow> exchange_no_late_failure s decrypt F x' evs)
      else exchange_no_late_failure s decrypt F x evs)"

text \<open>What the two owe each other holds with and without late failures.\<close>

definition exchange_inv :: "('g, 'h) exchange_setting \<Rightarrow> bytes \<Rightarrow> exchange \<Rightarrow> bool" where
  "exchange_inv s F x =
     (uploading_inv (xs_up_transport s) F (ex_up x) \<and>
      unat (ds_total (fb_state (ex_down x))) = length F \<and>
      asks_well (ex_down x) \<and> asks_within (ds_total (fb_state (ex_down x))) (ex_asked x))"

lemma upper_polite:
  "exchange_allowed s F x (Upper e) \<Longrightarrow> exchange_inv s F x \<Longrightarrow> polite (xs_up_decode s) F e"
  by (auto simp: exchange_allowed_def exchange_inv_def polite_def asks_within_def
      split: upload_input.splits option.splits downloader_inner.splits)

lemma downer_honest:
  "exchange_allowed s F x (Downer e) \<Longrightarrow> exchange_inv s F x \<Longrightarrow>
   honest_event (xs_down_decode s) F (ex_down x) e"
  by (cases e)
    (auto simp: exchange_allowed_def exchange_inv_def uploading_inv_def honest_event_def
      split: option.splits uploader_inner.splits)

lemma exchange_step_inv:
  assumes step: "exchange_step s decrypt F x ev = Some x'" and allowed: "exchange_allowed s F x ev"
    and inv: "exchange_inv s F x" and len: "length F < 2 ^ 64"
  shows "exchange_inv s F x'"
proof (cases ev)
  case (Upper e)
  have "polite (xs_up_decode s) F e" using upper_polite allowed inv Upper by blast
  moreover have "uploading_inv (xs_up_transport s) F (ex_up x)" using inv by (simp add: exchange_inv_def)
  moreover obtain u where u: "uploading_step (xs_up_transport s) (xs_inner s) (xs_up_header s) (xs_up_decode s)
      (xs_up_send s) F (ex_up x) e = Some u" "x' = x\<lparr>ex_up := u\<rparr>"
    using step Upper by (auto simp: exchange_step_def)
  ultimately have "uploading_inv (xs_up_transport s) F u"
    using uploading_step_keeps [OF _ _ _ len] by blast
  then show ?thesis using inv u(2) by (simp add: exchange_inv_def)
next
  case (Downer e)
  obtain y where y: "fallback_step (xs_down_transport s) (xs_delays s) (xs_down_decode s) decrypt (xs_down_header s)
      (xs_down_send s) (ex_down x) e = Some y"
    and x': "x' = x\<lparr>ex_down := y, ex_asked := ex_asked x @
      fallback_messages (xs_down_decode s) decrypt (xs_down_send s) (ex_down x) e\<rparr>"
    using step Downer by (auto simp: exchange_step_def)
  have "asks_well (ex_down x)" using inv by (simp add: exchange_inv_def)
  from fallback_step_asks [OF y this] inv show ?thesis by (simp add: x' exchange_inv_def)
qed

lemma exchange_step_file:
  assumes step: "exchange_step s decrypt F x ev = Some x'" and allowed: "exchange_allowed s F x ev"
    and inv: "exchange_inv s F x" and sh: "fallback_inv F pt (ex_down x)"
    and late: "\<And>e. ev = Downer e \<Longrightarrow> \<not> late_failure (xs_down_decode s) decrypt (xs_down_send s) (ex_down x) e"
    and d: "decrypt F = Inr pt" and len: "length F < 2 ^ 64"
  shows "fallback_inv F pt (ex_down x')"
proof (cases ev)
  case (Upper e)
  then show ?thesis using step sh by (auto simp: exchange_step_def)
next
  case (Downer e)
  then obtain y where "fallback_step (xs_down_transport s) (xs_delays s) (xs_down_decode s) decrypt (xs_down_header s)
      (xs_down_send s) (ex_down x) e = Some y" "ex_down x' = y"
    using step by (auto simp: exchange_step_def)
  then show ?thesis
    using fallback_step_inv [OF _ sh _ late [OF Downer] d len] downer_honest allowed inv Downer by blast
qed

lemma exchange_run_inv:
  "exchange_run s decrypt F x evs = Some x' \<Longrightarrow> exchange_inv s F x \<Longrightarrow> length F < 2 ^ 64 \<Longrightarrow> exchange_inv s F x'"
proof (induction evs arbitrary: x)
  case (Cons ev evs)
  then show ?case
    using exchange_step_inv [of s decrypt F x ev] by (auto split: if_splits Option.bind_splits)
qed simp

lemma exchange_run_file:
  "exchange_run s decrypt F x evs = Some x' \<Longrightarrow> exchange_no_late_failure s decrypt F x evs \<Longrightarrow>
   exchange_inv s F x \<Longrightarrow> fallback_inv F pt (ex_down x) \<Longrightarrow> decrypt F = Inr pt \<Longrightarrow> length F < 2 ^ 64 \<Longrightarrow>
   fallback_inv F pt (ex_down x')"
proof (induction evs arbitrary: x)
  case (Cons ev evs)
  show ?case
  proof (cases "exchange_allowed s F x ev")
    case True
    then obtain z where z: "exchange_step s decrypt F x ev = Some z" "exchange_run s decrypt F z evs = Some x'"
      using Cons.prems(1) by (auto split: Option.bind_splits)
    have rest: "exchange_no_late_failure s decrypt F z evs"
      and late: "\<And>e. ev = Downer e \<Longrightarrow> \<not> late_failure (xs_down_decode s) decrypt (xs_down_send s) (ex_down x) e"
      using Cons.prems(2) True z(1) by auto
    show ?thesis
      using Cons.IH [OF z(2) rest exchange_step_inv [OF z(1) True Cons.prems(3,6)]
          exchange_step_file [OF z(1) True Cons.prems(3,4) late Cons.prems(5,6)] Cons.prems(5,6)] .
  next
    case False
    then show ?thesis using Cons by simp
  qed
qed simp

text \<open>
  The uploader serves every event that is left to happen, whatever the downloader asked. Without
  late failures the target takes a beginning of the file, and what is reported delivered is there.
\<close>

lemma exchange_delivers:
  assumes run: "exchange_run s decrypt F x evs = Some x'" and inv: "exchange_inv s F x"
    and sh: "fallback_inv F pt (ex_down x)" and d: "decrypt F = Inr pt" and len: "length F < 2 ^ 64"
  shows "(exchange_no_late_failure s decrypt F x evs \<longrightarrow>
      prefix (df_taken (ds_file (fb_state (ex_down x')))) pt \<and>
      df_target (ds_file (fb_state (ex_down x'))) \<in> {None, Some pt} \<and>
      (fb_phase (ex_down x') = Over (Inr ()) \<longrightarrow> df_target (ds_file (fb_state (ex_down x'))) = Some pt)) \<and>
    (\<forall>e. exchange_allowed s F x' (Upper e) \<longrightarrow> exchange_step s decrypt F x' (Upper e) \<noteq> None)"
proof -
  have i: "exchange_inv s F x'" by (rule exchange_run_inv [OF run inv len])
  then have u: "uploading_inv (xs_up_transport s) F (ex_up x')" by (simp add: exchange_inv_def)
  have "exchange_step s decrypt F x' (Upper e) \<noteq> None" if "exchange_allowed s F x' (Upper e)" for e
    using uploading_step_ok [OF u upper_polite [OF that i] len] by (fastforce simp: exchange_step_def)
  moreover have "prefix (df_taken (ds_file (fb_state (ex_down x')))) pt \<and>
      df_target (ds_file (fb_state (ex_down x'))) \<in> {None, Some pt} \<and>
      (fb_phase (ex_down x') = Over (Inr ()) \<longrightarrow> df_target (ds_file (fb_state (ex_down x'))) = Some pt)"
    if late: "exchange_no_late_failure s decrypt F x evs"
  proof -
    have f: "fallback_inv F pt (ex_down x')" by (rule exchange_run_file [OF run late inv sh d len])
    then have "shared_file F pt (ds_file (fb_state (ex_down x')))" by (simp add: fallback_inv_def)
    then show ?thesis
      using f shared_file_taken by (auto simp: fallback_inv_def phase_ok_def shared_file_def)
  qed
  ultimately show ?thesis by blast
qed

text \<open>A whole transfer from peer to peer, of any file of one byte.\<close>

definition example_setting :: "(unit, unit) exchange_setting" where
  "example_setting =
     \<lparr>xs_up_transport = P2P, xs_outer = [], xs_inner = (\<lambda>_. []), xs_up_header = (\<lambda>_. None),
      xs_up_decode = (\<lambda>data. Some \<lparr>dm_inner = Some (if data = [0] then DownloaderHello
        else if data = [1] then DataRequest \<lparr>req_offset = 0, req_len = 29\<rparr> else TransferFinished)\<rparr>),
      xs_up_send = (\<lambda>_. None),
      xs_down_transport = Both, xs_delays = [], xs_down_header = (\<lambda>_. None),
      xs_down_decode = greeting_or_data 0, xs_down_send = (\<lambda>_. None)\<rparr>"

definition example_exchange :: "bytes \<Rightarrow> (unit, unit) exchange_event list" where
  "example_exchange F =
     [Downer SetUp, Downer (ChannelOpens None), Upper (PeerSays [0]), Downer (ChannelSays [] None),
      Upper (PeerSays [1]), Downer (ChannelSays F None), Upper (PeerSays [2]), Downer (FinishAnswers (Inr ()))]"

lemma example_exchange_run:
  assumes "length F = 29" and "decrypt F = Inr pt" and "uploading_start P2P [] (Inr F) None = Inr u0"
  shows "\<exists>x. exchange_run example_setting decrypt F
      \<lparr>ex_up = u0, ex_down = fallback_start Both [] (decrypt_file 1) 1, ex_asked = []\<rparr> (example_exchange F) = Some x \<and>
    fb_phase (ex_down x) = Over (Inr ()) \<and> ul_result (ex_up x) = Some (Inr ()) \<and>
    exchange_no_late_failure example_setting decrypt F
      \<lparr>ex_up = u0, ex_down = fallback_start Both [] (decrypt_file 1) 1, ex_asked = []\<rparr> (example_exchange F)"
proof -
  have F: "F \<noteq> []" "len64 F = 29" "read_at_exact F 0 29 = Some F" "length F = 29"
    using assms(1) by (auto simp: len64_def read_at_exact_def slice_def saturating_add_def)
  show ?thesis
    using assms(2) F assms(3) [symmetric]
    by (simp add: example_exchange_def example_setting_def exchange_step_def exchange_allowed_def greeting_or_data_def
        uploading_start_def uploading_step_def peer_says_def upload_state_message_def handle_downloader_message_def
        peer_ended_def fallback_messages_def handled_messages_def fallback_step_simps fallback_file_simps run_requests
        encrypted_len_def final_io_def)
qed

end
