(* ===== verification/Client_Native_File.thy ===== *)
theory Client_Native_File
  imports Client_Session
begin

text \<open>
  The files of the native clients: \<open>NativeUploadFile\<close> (\<^verbatim>\<open>uploader_client/native.rs\<close>), read by the
  encryption and cloned by the foreign-function interface, and \<open>DownloadFile\<close>
  (\<^verbatim>\<open>downloader_client/native.rs\<close>), which the pending write of \<^verbatim>\<open>api_client.rs\<close> fills. Of the
  operating system it has what the standard library documents: a handle reads at the cursor
  of its open file, a cloned handle shares that open file, and the writer of
  a new file is a parameter with its documented behaviour.
\<close>

subsection \<open>Reading\<close>

record open_file =
  of_contents :: bytes
  of_cursor :: nat

text \<open>The open files of the process, by handle.\<close>

type_synonym open_files = "open_file list"

definition native_open :: "bytes \<Rightarrow> open_files \<Rightarrow> nat \<times> open_files" where
  "native_open contents fs = (length fs, fs @ [\<lparr>of_contents = contents, of_cursor = 0\<rparr>])"

datatype read_outcome = ReadPending | ReadSome nat | ReadFails string

text \<open>A read has nothing only at the end; otherwise it has one byte or as many more as it likes.\<close>

definition native_poll_read ::
  "nat \<Rightarrow> nat \<Rightarrow> read_outcome \<Rightarrow> open_files \<Rightarrow> (string + bytes) poll \<times> open_files" where
  "native_poll_read h len r fs =
     (case r of
        ReadPending \<Rightarrow> (Waiting, fs)
      | ReadFails e \<Rightarrow> (Ready (Inl e), fs)
      | ReadSome k \<Rightarrow>
          (let f = fs ! h; bs = take (min (Suc k) len) (drop (of_cursor f) (of_contents f))
           in (Ready (Inr bs), fs[h := f\<lparr>of_cursor := of_cursor f + length bs\<rparr>])))"

definition native_len :: "nat \<Rightarrow> open_files \<Rightarrow> u64" where
  "native_len h fs = len64 (of_contents (fs ! h))"

text \<open>\<open>TryClone\<close>: a handle to the same open file, and the rest of a provisioned file copied.\<close>

definition file_try_clone :: "string option \<Rightarrow> nat \<Rightarrow> error + nat" where
  "file_try_clone failure h = (case failure of Some e \<Rightarrow> Inl (IO e) | None \<Rightarrow> Inr h)"

record native_provisioned =
  npf_file :: nat
  npf_rest :: provisioned_file

definition provisioned_try_clone :: "string option \<Rightarrow> native_provisioned \<Rightarrow> error + native_provisioned" where
  "provisioned_try_clone failure p =
     (case file_try_clone failure (npf_file p) of
        Inl e \<Rightarrow> Inl e
      | Inr h \<Rightarrow> Inr \<lparr>npf_file = h, npf_rest = npf_rest p\<rparr>)"

text \<open>The reads that \<open>read_plaintext_to_end\<close> makes with its buffer.\<close>

fun native_reads :: "nat \<Rightarrow> open_files \<Rightarrow> read_outcome list \<Rightarrow> (string + bytes) list \<times> open_files" where
  "native_reads h fs [] = ([], fs)"
| "native_reads h fs (r # rs) =
     (case native_poll_read h 16384 r fs of
        (Waiting, fs') \<Rightarrow> native_reads h fs' rs
      | (Ready (Inl e), fs') \<Rightarrow> ([Inl e], fs')
      | (Ready (Inr bs), fs') \<Rightarrow>
          if bs = [] then ([Inr []], fs') else apfst (Cons (Inr bs)) (native_reads h fs' rs))"

text \<open>\<open>upload_provisioned_file_ffi\<close> up to the encrypted file: the clone is read to its end.\<close>

definition ffi_upload_reads ::
  "native_provisioned \<Rightarrow> open_files \<Rightarrow> string option \<Rightarrow> read_outcome list \<Rightarrow>
   (error + (string + bytes) list) \<times> open_files" where
  "ffi_upload_reads p fs failure rs =
     (case provisioned_try_clone failure p of
        Inl e \<Rightarrow> (Inl e, fs)
      | Inr q \<Rightarrow> apfst Inr (native_reads (npf_file q) fs rs))"

lemma take_drop_length: "take n xs @ drop (length (take n xs)) xs = xs"
  by (cases "n \<le> length xs") simp_all

lemma native_reads_rest:
  assumes "native_reads h fs rs = (reads, fs')" and "h < length fs" and "Inr [] \<in> set reads"
  shows "read_all reads = Inr (drop (of_cursor (fs ! h)) (of_contents (fs ! h))) \<and>
    h < length fs' \<and> of_contents (fs' ! h) = of_contents (fs ! h) \<and>
    length (of_contents (fs ! h)) \<le> of_cursor (fs' ! h)"
  using assms
proof (induction rs arbitrary: fs reads)
  case (Cons r rs)
  show ?case
  proof (cases r)
    case ReadPending
    then show ?thesis using Cons by (simp add: native_poll_read_def)
  next
    case (ReadFails e)
    then show ?thesis using Cons.prems by (auto simp: native_poll_read_def)
  next
    case (ReadSome k)
    let ?f = "fs ! h" and ?n = "min (Suc k) 16384"
    let ?bs = "take ?n (drop (of_cursor ?f) (of_contents ?f))"
    let ?fs = "fs[h := ?f\<lparr>of_cursor := of_cursor ?f + length ?bs\<rparr>]"
    have p: "native_poll_read h 16384 r fs = (Ready (Inr ?bs), ?fs)"
      by (simp add: ReadSome native_poll_read_def Let_def)
    show ?thesis
    proof (cases "?bs = []")
      case True
      then show ?thesis using Cons.prems p by auto
    next
      case False
      obtain reads' where r: "reads = Inr ?bs # reads'" "native_reads h ?fs rs = (reads', fs')"
        using Cons.prems(1) p False by (cases "native_reads h ?fs rs") (auto simp del: take_eq_Nil)
      have rest: "?bs @ drop (of_cursor ?f + length ?bs) (of_contents ?f) = drop (of_cursor ?f) (of_contents ?f)"
        using take_drop_length [of ?n "drop (of_cursor ?f) (of_contents ?f)"] by (simp only: drop_drop add.commute)
      obtain b bs where b: "?bs = b # bs" using False by (cases ?bs) auto
      have "Inr [] \<in> set reads'" using Cons.prems(3) r(1) False by auto
      from Cons.IH [OF r(2) _ this] Cons.prems(2)
      have "read_all reads' = Inr (drop (of_cursor ?f + length ?bs) (of_contents ?f))"
        "h < length fs'" "of_contents (fs' ! h) = of_contents ?f" "length (of_contents ?f) \<le> of_cursor (fs' ! h)"
        by simp_all
      then show ?thesis using r(1) rest b by (metis append_Cons read_all.simps(4) sum.case(2))
    qed
  qed
qed simp

text \<open>
  A handle of the foreign-function interface cannot be uploaded twice: a clone shares the
  cursor, which the first upload has left at the end of the file, so that the second one
  reads nothing and encrypts an empty file, whatever the size that was announced.
\<close>

theorem second_ffi_upload_is_empty:
  assumes "npf_file p < length fs" and "ffi_upload_reads p fs None rs = (Inr reads, fs')" and "Inr [] \<in> set reads"
    and "ffi_upload_reads p fs' None rs' = (Inr reads', fs'')" and "Inr [] \<in> set reads'"
    and "aead_law seal unseal" and "length nonce = NONCE_SIZE" and "length rnd = NONCE_SIZE"
  shows "\<exists>F. encrypt_file (native_encrypt seal) hkdf key rnd nonce reads' = Inr F \<and> length F = 28 \<and>
    content_decrypt (native_decrypt unseal) hkdf key F Content = Inr []"
proof -
  have "native_reads (npf_file p) fs rs = (reads, fs')" "native_reads (npf_file p) fs' rs' = (reads', fs'')"
    using assms(2,4)
    by (auto simp: ffi_upload_reads_def provisioned_try_clone_def file_try_clone_def apfst_def map_prod_def
        split: prod.splits)
  then have "read_all reads' = Inr []"
    using native_reads_rest [OF _ assms(1,3)] native_reads_rest [of "npf_file p" fs' rs' reads'] assms(5) by force
  moreover from this obtain F where "encrypt_file (native_encrypt seal) hkdf key rnd nonce reads' = Inr F"
    by (auto simp: encrypt_file_def read_plaintext_to_end_def)
  ultimately show ?thesis
    using encrypt_file_decrypts [OF assms(6-8)] by (auto simp: sizes)
qed

theorem second_ffi_upload_is_empty_witness:
  "\<exists>fs' fs'' reads. ffi_upload_reads
       \<lparr>npf_file = 0, npf_rest = \<lparr>pf_size = 3, pf_upload_path = ''u'', pf_download_id = ''d'', pf_key = [1]\<rparr>\<rparr>
       [\<lparr>of_contents = [1, 2, 3], of_cursor = 0\<rparr>] None [ReadSome 1, ReadPending, ReadSome 5, ReadSome 0]
     = (Inr [Inr [1, 2], Inr [3], Inr []], fs') \<and>
     ffi_upload_reads
       \<lparr>npf_file = 0, npf_rest = \<lparr>pf_size = 3, pf_upload_path = ''u'', pf_download_id = ''d'', pf_key = [1]\<rparr>\<rparr>
       fs' None [ReadSome 5] = (Inr reads, fs'') \<and>
     map_sum id length (encrypt_file (native_encrypt example_seal) (@) [1] (replicate 12 6) (replicate 12 5) reads)
       = Inr 28"
proof -
  let ?p = "\<lparr>npf_file = 0, npf_rest = \<lparr>pf_size = 3, pf_upload_path = ''u'', pf_download_id = ''d'', pf_key = [1]\<rparr>\<rparr>"
  let ?fs = "[\<lparr>of_contents = [1, 2, 3], of_cursor = 0\<rparr>] :: open_files"
  note defs = ffi_upload_reads_def provisioned_try_clone_def file_try_clone_def native_poll_read_def Let_def
  obtain fs' where 1: "ffi_upload_reads ?p ?fs None [ReadSome 1, ReadPending, ReadSome 5, ReadSome 0]
      = (Inr [Inr [1, 2], Inr [3], Inr []], fs')" and f: "fs' = [\<lparr>of_contents = [1, 2, 3], of_cursor = 3\<rparr>]"
    by (simp add: defs)
  have 2: "ffi_upload_reads ?p fs' None [ReadSome 5] = (Inr [Inr []], fs')" unfolding f by (simp add: defs)
  from second_ffi_upload_is_empty [OF _ 1 _ 2 _ example_aead, of "replicate 12 5" "replicate 12 6" "(@)" "[1]"]
  show ?thesis using 1 2 by (auto simp: sizes)
qed

subsection \<open>Writing\<close>

text \<open>
  \<open>DownloadFile\<close> passes every operation on to its writer, tokio's \<open>BufWriter\<close> over the file it
  created. That writer is a parameter: its operations over its own state, what it has taken
  (\<open>acc\<close>), and what of it is in the file (\<open>disk\<close>).
\<close>

definition native_target :: "'w target_ops \<Rightarrow> 'w target_ops" where
  "native_target file_writer =
     \<lparr>to_write = (\<lambda>buf s. to_write file_writer buf s),
      to_flush = (\<lambda>s. to_flush file_writer s),
      to_close = (\<lambda>s. to_close file_writer s)\<rparr>"

text \<open>
  What its documentation says: it takes bytes in order, writes them to the file in that order,
  and all of them before it has flushed or shut down.
\<close>

definition buffers_file :: "'w target_ops \<Rightarrow> ('w \<Rightarrow> bytes) \<Rightarrow> ('w \<Rightarrow> bytes) \<Rightarrow> bool" where
  "buffers_file t acc disk =
     (takes_in_order t acc \<and> (\<forall>s. prefix (disk s) (acc s)) \<and>
      (\<forall>s s'. to_flush t s = (Ready (Inr ()), s') \<longrightarrow> disk s' = acc s') \<and>
      (\<forall>s s'. to_close t s = (Ready (Inr ()), s') \<longrightarrow> disk s' = acc s'))"

lemma native_target_same: "native_target t = t"
  by (simp add: native_target_def)

lemma poll_stages_closed:
  "buffers_file t acc disk \<Longrightarrow> poll_stages t k stage s = (Some (Inr ()), s') \<Longrightarrow> disk s' = acc s'"
proof (induction k arbitrary: stage s)
  case (Suc k)
  have close: "close_stage t x = (Ready (Inr ()), y, z) \<Longrightarrow> disk z = acc z" for x y z
    using Suc.prems(1) by (auto simp: close_stage_def buffers_file_def split: prod.splits)
  have "flush_stage t x = (Ready (Inr ()), y, z) \<Longrightarrow> disk z = acc z" for x y z
    using close by (auto simp: flush_stage_def split: prod.splits poll.splits sum.splits)
  then have "poll_stage t stage s = (Ready (Inr ()), y, z) \<Longrightarrow> disk z = acc z" for y z
    using close by (auto simp: poll_stage_def split: write_stage.splits prod.splits poll.splits sum.splits)
  then show ?case
    using Suc by (auto split: prod.splits poll.splits)
qed simp

text \<open>C10: A native download writes its file, over any writer that behaves as documented: let all of
  the ciphertext be there and decrypt, and let the pending write be polled any number of
  times, whatever the writer takes, holds back or fails at. Then the writer has taken, and the
  file on disk holds, a beginning of the plaintext; when the write succeeds the file is the
  plaintext; and the download's file state goes the way it goes in the other properties, with
  what the writer has taken.\<close>

theorem native_target_written:
  assumes "buffers_file file_writer acc disk" and "acc s = []"
    and "df_state f = Unwritten data" and "length data = unat (df_size f)" and "df_taken f = []"
    and "decrypt data = Inr plaintext"
    and "poll_stages (native_target file_writer) k (WritingRest plaintext) s = (res, s')"
  shows "prefix (disk s') (acc s') \<and> prefix (acc s') plaintext \<and>
    (res = Some (Inr ()) \<longrightarrow> disk s' = plaintext) \<and>
    (\<exists>ios f'. file_run decrypt f (map FlushOp ios) = Some f' \<and> df_taken f' = acc s' \<and>
       (case res of
          None \<Rightarrow> df_state f' = Unwritten data \<or> df_state f' = PendingWrite data
        | Some (Inr _) \<Rightarrow> df_state f' = Complete
        | Some (Inl e) \<Rightarrow> df_state f' = Poisoned))"
proof -
  have polls: "poll_stages file_writer k (WritingRest plaintext) s = (res, s')"
    using assms(7) by (simp add: native_target_same)
  have "takes_in_order file_writer acc" using assms(1) by (simp add: buffers_file_def)
  from pending_write_refined [where decrypt = decrypt, OF this assms(6) polls, of f] assms(2-5)
  obtain ios f' where r: "file_run decrypt f (map FlushOp ios) = Some f'" "df_taken f' = acc s'"
    "prefix (acc s') plaintext"
    "case res of None \<Rightarrow> df_state f' = Unwritten data \<or> df_state f' = PendingWrite data
      | Some (Inr _) \<Rightarrow> df_state f' = Complete \<and> acc s' = plaintext | Some (Inl e) \<Rightarrow> df_state f' = Poisoned"
    by (auto simp: stage_ok_def)
  then have "res = Some (Inr ()) \<longrightarrow> disk s' = plaintext"
    using poll_stages_closed [OF assms(1)] polls by auto
  moreover have "prefix (disk s') (acc s')" using assms(1) by (simp add: buffers_file_def)
  moreover have "\<exists>ios f'. file_run decrypt f (map FlushOp ios) = Some f' \<and> df_taken f' = acc s' \<and>
      (case res of
         None \<Rightarrow> df_state f' = Unwritten data \<or> df_state f' = PendingWrite data
       | Some (Inr _) \<Rightarrow> df_state f' = Complete
       | Some (Inl e) \<Rightarrow> df_state f' = Poisoned)"
    using r by (intro exI [of _ ios] exI [of _ f']) (auto split: option.splits sum.splits)
  ultimately show ?thesis using r(3) by blast
qed

text \<open>
  A writer that keeps the law: it takes one byte or as many more as its next answer says, and
  passes on some of what it holds.
\<close>

datatype writer_answer = WriterWaits | WriterTakes nat nat | WriterFails string

record example_writer =
  ew_disk :: bytes
  ew_buffer :: bytes
  ew_next :: "writer_answer list"

definition ew_taken :: "example_writer \<Rightarrow> bytes" where
  "ew_taken s = ew_disk s @ ew_buffer s"

definition ew_pass :: "nat \<Rightarrow> example_writer \<Rightarrow> example_writer" where
  "ew_pass k s = s\<lparr>ew_disk := ew_disk s @ take k (ew_buffer s), ew_buffer := drop k (ew_buffer s)\<rparr>"

definition ew_write :: "bytes \<Rightarrow> example_writer \<Rightarrow> (string + nat) poll \<times> example_writer" where
  "ew_write buf s =
     (case ew_next s of
        [] \<Rightarrow> (Waiting, s)
      | WriterWaits # rs \<Rightarrow> (Waiting, s\<lparr>ew_next := rs\<rparr>)
      | WriterFails e # rs \<Rightarrow> (Ready (Inl e), s\<lparr>ew_next := rs\<rparr>)
      | WriterTakes n k # rs \<Rightarrow>
          (Ready (Inr (min (Suc n) (length buf))),
           ew_pass k (s\<lparr>ew_buffer := ew_buffer s @ take (Suc n) buf, ew_next := rs\<rparr>)))"

definition ew_flush :: "example_writer \<Rightarrow> (string + unit) poll \<times> example_writer" where
  "ew_flush s =
     (case ew_next s of
        WriterTakes n k # rs \<Rightarrow> (Waiting, ew_pass k (s\<lparr>ew_next := rs\<rparr>))
      | WriterFails e # rs \<Rightarrow> (Ready (Inl e), s\<lparr>ew_next := rs\<rparr>)
      | _ \<Rightarrow> (Ready (Inr ()), ew_pass (length (ew_buffer s)) s))"

definition example_writer_ops :: "example_writer target_ops" where
  "example_writer_ops = \<lparr>to_write = ew_write, to_flush = ew_flush, to_close = ew_flush\<rparr>"

lemma ew_pass_taken: "ew_taken (ew_pass k s) = ew_taken s"
  by (simp add: ew_taken_def ew_pass_def)

lemma example_writer_lawful: "buffers_file example_writer_ops ew_taken ew_disk"
proof -
  have more: "ew_taken (s\<lparr>ew_buffer := ew_buffer s @ bs\<rparr>) = ew_taken s @ bs"
    and same: "ew_taken (s\<lparr>ew_next := rs\<rparr>) = ew_taken s" for s bs rs
    by (simp_all add: ew_taken_def)
  have "takes_in_order example_writer_ops ew_taken"
    by (auto simp: takes_in_order_def example_writer_ops_def ew_write_def ew_flush_def ew_pass_taken more same min_def
        split: list.splits writer_answer.splits)
  moreover have "\<forall>s s'. ew_flush s = (Ready (Inr ()), s') \<longrightarrow> ew_disk s' = ew_taken s'"
    by (auto simp: ew_flush_def ew_pass_def ew_taken_def split: list.splits writer_answer.splits)
  ultimately show ?thesis by (simp add: buffers_file_def example_writer_ops_def ew_taken_def)
qed

theorem native_target_written_witness:
  "\<exists>s'. poll_stages (native_target example_writer_ops) 3 (WritingRest [1, 2, 3])
       \<lparr>ew_disk = [], ew_buffer = [], ew_next = [WriterTakes 1 0, WriterWaits, WriterTakes 4 1, WriterTakes 0 1]\<rparr>
     = (Some (Inr ()), s') \<and> ew_disk s' = [1, 2, 3]"
proof -
  let ?s = "\<lparr>ew_disk = [], ew_buffer = [], ew_next = [WriterTakes 1 0, WriterWaits, WriterTakes 4 1, WriterTakes 0 1]\<rparr>"
  obtain s' where p: "poll_stages (native_target example_writer_ops) 3 (WritingRest [1, 2, 3]) ?s = (Some (Inr ()), s')"
    by (simp add: eval_nat_numeral poll_stage_def write_all_poll.simps flush_stage_def close_stage_def native_target_def
        example_writer_ops_def ew_write_def ew_flush_def ew_pass_def)
  have "ew_disk s' = [1, 2, 3]"
    using native_target_written [where decrypt = "\<lambda>_. Inr [1, 2, 3]" and data = "[]"
        and f = "\<lparr>df_size = 0, df_state = Unwritten [], df_taken = []\<rparr>", OF example_writer_lawful _ _ _ _ _ p]
    by (simp add: ew_taken_def)
  then show ?thesis using p by blast
qed

end
