(* ===== verification/Client_Websocket.thy ===== *)
theory Client_Websocket
  imports Client_Error Wire_Messages
begin

text \<open>
  The client's websocket: \<open>WebSocketClient\<close> of \<^verbatim>\<open>websocket.rs\<close>, which reconnects in the
  background and hands the current connection out, and the two implementations of a
  connection, \<^verbatim>\<open>websocket/native.rs\<close> and \<^verbatim>\<open>websocket/web.rs\<close>. A panic is \<open>None\<close>. What the
  network does is an input: the events of each component.
\<close>

subsection \<open>The reconnecting client\<close>

text \<open>A oneshot channel as its (shared) receiver sees it.\<close>

datatype 'w oneshot = Empty | Sent 'w | Canceled

text \<open>
  \<open>wc_shared\<close> is the receiver that \<open>connect\<close> clones; \<open>wc_paired\<close> tells whether the sender
  \<open>connection_tx\<close> that the next attempt takes is the one of that receiver. \<open>wc_current\<close> is
  the connection that is up.
\<close>

record 'w ws_client =
  wc_shared :: "'w oneshot"
  wc_paired :: bool
  wc_current :: "'w option"

definition new_ws_client :: "'w ws_client" where
  "new_ws_client = \<lparr>wc_shared = Empty, wc_paired = True, wc_current = None\<rparr>"

text \<open>
  An attempt takes \<open>connection_tx\<close> and leaves the sender of a fresh channel in its place,
  whose receiver it shares only once its own connection has ended. The flag of an event tells
  whether the retry schedule still has a delay.
\<close>

datatype 'w ws_event =
    ConnectFails websocket_error bool
  | Connected 'w
  | Joins "websocket_error + unit" bool

definition will_retry :: "websocket_error \<Rightarrow> bool \<Rightarrow> bool" where
  "will_retry e left =
     (case retry_retriability (retry_error_from (error_of_websocket e)) of
        Permanent \<Rightarrow> False
      | After _ \<Rightarrow> True
      | Transient \<Rightarrow> left)"

definition join_error :: "websocket_error + unit \<Rightarrow> websocket_error" where
  "join_error r =
     (case r of Inl e \<Rightarrow> e | Inr _ \<Rightarrow> WsClosed (Known ConnectionClosed) ''server closed'')"

text \<open>The task ends: the sender in the closure is dropped.\<close>

definition task_ends :: "'w ws_client \<Rightarrow> 'w ws_client" where
  "task_ends c = c\<lparr>wc_shared := if wc_paired c then Canceled else wc_shared c, wc_paired := False\<rparr>"

definition after_attempt ::
  "websocket_error \<Rightarrow> bool \<Rightarrow> 'w ws_client \<Rightarrow> flow \<times> 'w ws_client \<times> unit list" where
  "after_attempt e left c =
     (if will_retry e left then (Continue (), c, []) else (Break (), task_ends c, []))"

definition ws_client_step :: "'w ws_client \<Rightarrow> 'w ws_event \<Rightarrow> flow \<times> 'w ws_client \<times> unit list" where
  "ws_client_step c ev =
     (case ev of
        ConnectFails e left \<Rightarrow>
          after_attempt e left
            (c\<lparr>wc_shared := if wc_paired c then Canceled else wc_shared c, wc_paired := False\<rparr>)
      | Connected w \<Rightarrow>
          (Continue (),
           c\<lparr>wc_shared := if wc_paired c then Sent w else wc_shared c, wc_paired := False,
             wc_current := Some w\<rparr>, [])
      | Joins r left \<Rightarrow>
          after_attempt (join_error r) left
            (c\<lparr>wc_shared := Empty, wc_paired := True, wc_current := None\<rparr>))"

definition ws_client_connect :: "'w ws_client \<Rightarrow> (websocket_error + 'w) option" where
  "ws_client_connect c =
     (case wc_shared c of
        Empty \<Rightarrow> None
      | Sent w \<Rightarrow> Some (Inr w)
      | Canceled \<Rightarrow> Some (Inl (WsClient ''websocket thread died'')))"

text \<open>Attempts follow each other: a connection ends before the next attempt begins.\<close>

definition in_turn :: "'w ws_client \<Rightarrow> 'w ws_event \<Rightarrow> bool" where
  "in_turn c ev =
     (case ev of Joins _ _ \<Rightarrow> wc_current c \<noteq> None | _ \<Rightarrow> wc_current c = None)"

definition first_try :: "'w ws_client \<Rightarrow> 'w ws_event \<Rightarrow> bool" where
  "first_try c ev = (in_turn c ev \<and> (case ev of ConnectFails _ left \<Rightarrow> False | _ \<Rightarrow> True))"

definition serves_current :: "'w ws_client \<Rightarrow> bool" where
  "serves_current c =
     (case wc_current c of
        Some w \<Rightarrow> wc_shared c = Sent w
      | None \<Rightarrow> if wc_paired c then wc_shared c = Empty else wc_shared c = Canceled)"

interpretation reconnecting: guarded_invariant ws_client_step serves_current
  "\<lambda>c ev. first_try c ev \<and> (wc_current c = None \<longrightarrow> wc_paired c)"
  by unfold_locales
    (auto simp: ws_client_step_def after_attempt_def task_ends_def serves_current_def
      first_try_def in_turn_def split: ws_event.splits option.splits if_splits)

lemma run_paired:
  "run_allowed ws_client_step first_try c evs \<Longrightarrow> serves_current c \<Longrightarrow>
   (wc_current c = None \<longrightarrow> wc_paired c) \<Longrightarrow> run_machine ws_client_step c evs = (f, c', es) \<Longrightarrow>
   run_allowed ws_client_step (\<lambda>c ev. first_try c ev \<and> (wc_current c = None \<longrightarrow> wc_paired c)) c evs \<and>
   (f = Continue () \<longrightarrow> wc_current c' = None \<longrightarrow> wc_paired c') \<and> (f = Break () \<longrightarrow> wc_current c' = None \<and> wc_shared c' = Canceled)"
proof (induction evs arbitrary: c es)
  case (Cons ev evs)
  obtain f1 c1 es1 where st: "ws_client_step c ev = (f1, c1, es1)" by (cases "ws_client_step c ev")
  have ok: "first_try c ev" using Cons.prems(1) by simp
  have "serves_current c1"
    using reconnecting.guarded_step_keeps [OF Cons.prems(2) _ st] ok Cons.prems(3) by simp
  moreover have "f1 = Continue () \<Longrightarrow> wc_current c1 = None \<longrightarrow> wc_paired c1"
    and "f1 = Break () \<Longrightarrow> wc_current c1 = None \<and> wc_shared c1 = Canceled"
    using st ok Cons.prems(2,3)
    by (auto simp: ws_client_step_def after_attempt_def task_ends_def first_try_def in_turn_def
        split: ws_event.splits if_splits)
  ultimately show ?case
    using Cons.prems Cons.IH [of c1] st ok
    by (cases f1) (auto split: prod.splits)
qed auto

text \<open>C36: As long as every attempt to connect succeeds, \<open>connect\<close> hands out exactly the connection
  that is up, after any number of reconnects, and waits for the next one while none is; once
  the task has given up it answers with an error.\<close>

theorem websocket_client_serves_current:
  assumes "run_allowed ws_client_step first_try new_ws_client evs"
    and "run_machine ws_client_step new_ws_client evs = (f, c, es)"
  shows "ws_client_connect c =
    (case (wc_current c, f) of
       (Some w, _) \<Rightarrow> Some (Inr w)
     | (None, Continue _) \<Rightarrow> None
     | (None, Break _) \<Rightarrow> Some (Inl (WsClient ''websocket thread died'')))"
proof -
  have i: "serves_current (new_ws_client :: 'a ws_client)"
    "wc_current (new_ws_client :: 'a ws_client) = None \<longrightarrow> wc_paired (new_ws_client :: 'a ws_client)"
    by (simp_all add: serves_current_def new_ws_client_def)
  note r = run_paired [OF assms(1) i assms(2)]
  have "serves_current c"
    using reconnecting.guarded_run_keeps [OF i(1) _ assms(2)] r by simp
  then show ?thesis
    using r by (cases f) (auto simp: serves_current_def ws_client_connect_def split: option.splits)
qed

text \<open>A failed attempt hides the connection that follows: when an attempt fails and is
  retried, and the next one connects, the connection is up but \<open>connect\<close> answers with an
  error, and goes on so until that connection has ended. The sender that the failed attempt
  took is dropped with it, and so is the receiver of the sender that it left.\<close>

theorem failed_attempt_hides_connection:
  assumes "wc_current c = None" and "wc_paired c" and "will_retry e left"
  shows "\<exists>c'. run_machine ws_client_step c [ConnectFails e left, Connected w] = (Continue (), c', []) \<and>
    wc_current c' = Some w \<and>
    ws_client_connect c' = Some (Inl (WsClient ''websocket thread died''))"
  using assms by (simp add: ws_client_step_def after_attempt_def ws_client_connect_def)

theorem failed_attempt_hides_connection_witness:
  "\<exists>c'. run_machine ws_client_step new_ws_client
       [ConnectFails (WsIO ''refused'') True, Connected (7 :: nat)] = (Continue (), c', []) \<and>
     wc_current c' = Some 7 \<and>
     ws_client_connect c' = Some (Inl (WsClient ''websocket thread died''))"
  by (rule failed_attempt_hides_connection)
    (simp_all add: new_ws_client_def will_retry_def retry_retriability_def retry_error_from_def)

theorem websocket_client_serves_current_witness:
  "ws_client_connect \<lparr>wc_shared = Sent (2 :: nat), wc_paired = False, wc_current = Some 2\<rparr>
     = Some (Inr 2)"
proof -
  let ?evs = "[Connected 1, Joins (Inr ()) True, Connected (2 :: nat)]"
  have "run_allowed ws_client_step first_try new_ws_client ?evs"
    "run_machine ws_client_step new_ws_client ?evs
       = (Continue (), \<lparr>wc_shared = Sent 2, wc_paired = False, wc_current = Some 2\<rparr>, [])"
    by (simp_all add: ws_client_step_def after_attempt_def will_retry_def join_error_def
        retry_retriability_def retry_error_from_def known_retriability_def first_try_def
        in_turn_def new_ws_client_def)
  from websocket_client_serves_current [OF this] show ?thesis by simp
qed

subsection \<open>The native connection\<close>

datatype ws_thread = Running | Ended "websocket_error + unit" | Joined

datatype ws_frame =
    Text string
  | Binary bytes
  | Ping bytes
  | Pong bytes
  | RawFrame
  | Close "(u16 \<times> string) option"

datatype thread_event =
    Outgoing "websocket_error option"
  | OutgoingClosed
  | Incoming ws_frame "websocket_error option"
  | IncomingFails websocket_error
  | IncomingEnds

text \<open>
  One turn of the loop of the connection's thread. Sending, of a message or a pong, may fail
  with an error; the handler's verdict on a message is a parameter.
\<close>

definition thread_turn ::
  "(bytes \<Rightarrow> string + web_socket_message) \<Rightarrow> (web_socket_message \<Rightarrow> flow) \<Rightarrow> thread_event \<Rightarrow>
   (websocket_error + unit) option" where
  "thread_turn decode handle_message ev =
     (case ev of
        Outgoing None \<Rightarrow> None
      | Outgoing (Some e) \<Rightarrow> Some (Inl e)
      | OutgoingClosed \<Rightarrow> Some (Inr ())
      | Incoming (Text _) _ \<Rightarrow> None
      | Incoming (Binary data) _ \<Rightarrow>
          (case decode data of
             Inl e \<Rightarrow> Some (Inl (WsInvalidMessage e))
           | Inr m \<Rightarrow> if is_break (handle_message m) then Some (Inr ()) else None)
      | Incoming (Ping _) None \<Rightarrow> None
      | Incoming (Ping _) (Some e) \<Rightarrow> Some (Inl e)
      | Incoming (Pong _) _ \<Rightarrow> None
      | Incoming RawFrame _ \<Rightarrow> None
      | Incoming (Close None) _ \<Rightarrow> Some (Inr ())
      | Incoming (Close (Some (code, reason))) _ \<Rightarrow> Some (Inl (WsClosed (close_status_of code) reason))
      | IncomingFails e \<Rightarrow> Some (Inl e)
      | IncomingEnds \<Rightarrow> Some (Inr ()))"

definition thread_step ::
  "(bytes \<Rightarrow> string + web_socket_message) \<Rightarrow> (web_socket_message \<Rightarrow> flow) \<Rightarrow> ws_thread \<Rightarrow>
   thread_event \<Rightarrow> ws_thread" where
  "thread_step decode handle_message t ev =
     (case t of
        Running \<Rightarrow>
          (case thread_turn decode handle_message ev of Some r \<Rightarrow> Ended r | None \<Rightarrow> Running)
      | _ \<Rightarrow> t)"

text \<open>\<open>join_sync\<close> waits for the thread, whose end is given; \<open>unwrap_err\<close> panics on success.\<close>

definition join_sync :: "ws_thread \<Rightarrow> websocket_error + unit \<Rightarrow> (websocket_error + unit) \<times> ws_thread" where
  "join_sync t ending =
     (case t of
        Running \<Rightarrow> (ending, Joined)
      | Ended r \<Rightarrow> (r, Joined)
      | Joined \<Rightarrow> (Inl (WsClient ''already closed''), Joined))"

definition unwrap_err :: "(websocket_error + unit) \<times> ws_thread \<Rightarrow> (websocket_error \<times> ws_thread) option" where
  "unwrap_err r = (case r of (Inl e, t) \<Rightarrow> Some (e, t) | (Inr _, _) \<Rightarrow> None)"

text \<open>
  \<open>send\<close>: the thread takes the message and answers, or it has ended, or it ends (\<open>ending\<close>)
  before it answers.
\<close>

definition native_send ::
  "ws_thread \<Rightarrow> (websocket_error + unit) option \<Rightarrow> ((websocket_error + unit) \<times> ws_thread) option" where
  "native_send t ending =
     (case (t, ending) of
        (Running, None) \<Rightarrow> Some (Inr (), Running)
      | (Running, Some r) \<Rightarrow> map_option (apfst Inl) (unwrap_err (join_sync t r))
      | _ \<Rightarrow> map_option (apfst Inl) (unwrap_err (join_sync t (Inr ()))))"

text \<open>\<open>join\<close>, once the thread has ended.\<close>

definition native_join :: "ws_thread \<Rightarrow> ((websocket_error + unit) \<times> ws_thread) option" where
  "native_join t = (case t of Running \<Rightarrow> None | _ \<Rightarrow> Some (join_sync t (Inr ())))"

text \<open>Sending on a native connection that ended without an error takes the client down: when
  the server closes the websocket without a status, or the stream ends, or the message
  handler breaks, and nobody has joined the thread yet, \<open>send\<close> panics; after an error it
  reports that error, and after the join that the connection is closed.\<close>

theorem native_send_after_end:
  "native_send (thread_step decode handle_message Running ev) ending =
    (case thread_turn decode handle_message ev of
       None \<Rightarrow> native_send Running ending
     | Some (Inr _) \<Rightarrow> None
     | Some (Inl e) \<Rightarrow> Some (Inl e, Joined)) \<and>
   thread_turn decode handle_message (Incoming (Close None) answer) = Some (Inr ()) \<and>
   thread_turn decode handle_message (IncomingEnds :: thread_event) = Some (Inr ()) \<and>
   native_send Joined ending = Some (Inl (WsClient ''already closed''), Joined)"
  for ev :: "thread_event"
  by (auto simp: thread_step_def thread_turn_def native_send_def join_sync_def unwrap_err_def
      split: option.splits sum.splits)

subsection \<open>The web connection\<close>

record web_connection =
  wb_error :: "websocket_error option"
  wb_closed :: bool

datatype web_event =
    MessageEvent bytes
  | CloseEvent u16 string
  | ErrorEvent websocket_error

definition set_closed :: "web_connection \<Rightarrow> web_connection" where
  "set_closed c = c\<lparr>wb_closed := True\<rparr>"

definition catch_error :: "web_connection \<Rightarrow> websocket_error + unit \<Rightarrow> web_connection" where
  "catch_error c r =
     (case r of Inl e \<Rightarrow> set_closed (c\<lparr>wb_error := Some e\<rparr>) | Inr _ \<Rightarrow> c)"

definition web_close :: "web_connection \<Rightarrow> websocket_error option \<Rightarrow> (websocket_error + unit) \<times> web_connection" where
  "web_close c close_result =
     (if wb_closed c then (Inr (), c)
      else case close_result of Some e \<Rightarrow> (Inl e, c) | None \<Rightarrow> (Inr (), set_closed c))"

definition web_event_step ::
  "(bytes \<Rightarrow> string + web_socket_message) \<Rightarrow> (web_socket_message \<Rightarrow> flow) \<Rightarrow>
   websocket_error option \<Rightarrow> web_connection \<Rightarrow> web_event \<Rightarrow> web_connection" where
  "web_event_step decode handle_message close_result c ev =
     (case ev of
        MessageEvent data \<Rightarrow>
          (case decode data of
             Inl e \<Rightarrow> catch_error c (Inl (WsInvalidMessage e))
           | Inr m \<Rightarrow>
               if is_break (handle_message m)
               then (case web_close c close_result of (r, c') \<Rightarrow> catch_error c' r)
               else c)
      | CloseEvent code reason \<Rightarrow>
          set_closed (c\<lparr>wb_error := Some (WsClosed (close_status_of code) reason)\<rparr>)
      | ErrorEvent e \<Rightarrow> catch_error c (Inl e))"

definition try_join :: "web_connection \<Rightarrow> (websocket_error + unit) option \<times> web_connection" where
  "try_join c =
     (case wb_error c of
        Some e \<Rightarrow> (Some (Inl e), c\<lparr>wb_error := None\<rparr>)
      | None \<Rightarrow>
          (if wb_closed c
           then Some (Inl (WsClosed (Known ConnectionClosed) ''closed by application'')) else None,
           c))"

definition web_send :: "web_connection \<Rightarrow> websocket_error option \<Rightarrow> (websocket_error + unit) \<times> web_connection" where
  "web_send c sent =
     (case try_join c of
        (Some r, c') \<Rightarrow> (r, c')
      | (None, c') \<Rightarrow> (case sent of Some e \<Rightarrow> (Inl e, c') | None \<Rightarrow> (Inr (), c')))"

text \<open>\<open>join\<close>: waits until the connection is closed; \<open>unwrap\<close> panics if there is no result.\<close>

definition web_join :: "web_connection \<Rightarrow> ((websocket_error + unit) \<times> web_connection) option" where
  "web_join c =
     (if wb_closed c
      then (case try_join c of (Some r, c') \<Rightarrow> Some (r, c') | (None, _) \<Rightarrow> None)
      else None)"

fun web_run ::
  "(bytes \<Rightarrow> string + web_socket_message) \<Rightarrow> (web_socket_message \<Rightarrow> flow) \<Rightarrow>
   websocket_error option \<Rightarrow> web_connection \<Rightarrow> web_event list \<Rightarrow> web_connection" where
  "web_run decode handle_message close_result c [] = c"
| "web_run decode handle_message close_result c (ev # evs) =
     web_run decode handle_message close_result
       (web_event_step decode handle_message close_result c ev) evs"

definition web_ok :: "web_connection \<Rightarrow> bool" where
  "web_ok c = (wb_error c \<noteq> None \<longrightarrow> wb_closed c)"

lemma web_run_ok: "web_ok c \<Longrightarrow> web_ok (web_run decode handle_message close_result c evs)"
proof (induction evs arbitrary: c)
  case (Cons ev evs)
  have "web_ok (web_event_step decode handle_message close_result c ev)"
    using Cons.prems
    by (auto simp: web_ok_def web_event_step_def catch_error_def set_closed_def web_close_def
        split: web_event.splits sum.splits option.splits)
  then show ?case using Cons.IH by simp
qed simp

text \<open>On the web a closed connection always has a result for whoever waits for its end, so
  that \<open>join\<close> does not panic; it is an error, an error is held only by a closed connection,
  and once taken the connection reports that it was closed by the application; sending on a
  closed connection gives the same.\<close>

theorem web_join_has_result:
  assumes "c = web_run decode handle_message close_result \<lparr>wb_error = None, wb_closed = False\<rparr> evs"
  shows "(wb_error c \<noteq> None \<longrightarrow> wb_closed c) \<and>
    (wb_closed c \<longrightarrow>
      (\<exists>e c'. web_join c = Some (Inl e, c') \<and> web_send c sent = (Inl e, c') \<and>
        wb_closed c' \<and> wb_error c' = None \<and>
        web_join c' = Some (Inl (WsClosed (Known ConnectionClosed) ''closed by application''), c')))"
proof -
  have "web_ok c" unfolding assms by (rule web_run_ok) (simp add: web_ok_def)
  then show ?thesis
    by (cases "wb_error c") (auto simp: web_ok_def web_join_def web_send_def try_join_def)
qed

theorem web_join_has_result_witness:
  "\<exists>e c'. web_join \<lparr>wb_error = Some (WsClosed (Known Normal) ''bye''), wb_closed = True\<rparr> = Some (Inl e, c')"
  using web_join_has_result [of "\<lparr>wb_error = Some (WsClosed (Known Normal) ''bye''), wb_closed = True\<rparr>"
      "\<lambda>_. Inl ''''" "\<lambda>_. Continue ()" None "[CloseEvent 1000 ''bye'']" None]
  by (auto simp: web_event_step_def set_closed_def close_status_of_def known_of_code_def
      known_statuses_def)

end
