(* ===== verification/Client_P2p.thy ===== *)
theory Client_P2p
  imports Client_Transfer Client_Websocket
begin

text \<open>
  The peer-to-peer client (\<^verbatim>\<open>p2p.rs\<close>): the negotiation of a connection over encrypted
  signaling messages, the websocket that carries them, the inactivity timeout, and the loop
  that drives a transfer's handler. A panic is \<open>None\<close>. The WebRTC stack behind the trait
  \<open>Rtc\<close>, the network and the clock are inputs.
\<close>

subsection \<open>The inactivity timeout\<close>

text \<open>Instants and durations count the same unit; \<open>last\<close> is the last instant the clock knows.\<close>

record inactivity =
  in_deadline :: nat
  in_timeout :: duration

definition deadline :: "nat \<Rightarrow> nat \<Rightarrow> duration \<Rightarrow> nat option" where
  "deadline last_instant now d = (if now + d \<le> last_instant then Some (now + d) else None)"

definition timeout_new :: "nat \<Rightarrow> nat \<Rightarrow> duration \<Rightarrow> inactivity option" where
  "timeout_new last_instant now d =
     map_option (\<lambda>t. \<lparr>in_deadline = t, in_timeout = d\<rparr>) (deadline last_instant now d)"

definition timeout_remaining :: "nat \<Rightarrow> inactivity \<Rightarrow> error + duration" where
  "timeout_remaining now t =
     (if now \<le> in_deadline t \<and> in_deadline t - now \<noteq> 0 then Inr (in_deadline t - now)
      else Inl TimedOut)"

definition timeout_reset :: "nat \<Rightarrow> nat \<Rightarrow> inactivity \<Rightarrow> inactivity option" where
  "timeout_reset last_instant now t =
     map_option (\<lambda>d. t\<lparr>in_deadline := d\<rparr>) (deadline last_instant now (in_timeout t))"

subsection \<open>Signaling\<close>

datatype signaling_usage = UploaderSide | DownloaderSide

fun peer_side :: "signaling_usage \<Rightarrow> signaling_usage" where
  "peer_side DownloaderSide = UploaderSide"
| "peer_side UploaderSide = DownloaderSide"

fun content_usage :: "signaling_usage \<Rightarrow> cipher_usage" where
  "content_usage DownloaderSide = DownloaderRtcSignaling"
| "content_usage UploaderSide = UploaderRtcSignaling"

definition SIGNALING_BLOCK_LEN :: nat where "SIGNALING_BLOCK_LEN = 64"

record signaling =
  sg_client :: bool
  sg_websocket :: "nat option"
  sg_pending :: "bytes list"

text \<open>
  \<open>flush\<close>. For each pending message: when its turn comes, whether connecting ends in time and how, and how sending ends. The result has the messages
  sent, with the connection each was sent on.
\<close>

record flush_io =
  fi_now :: nat
  fi_in_time :: bool
  fi_connect :: "websocket_error + nat"
  fi_send :: "websocket_error option"

definition flush_connect :: "inactivity option \<Rightarrow> flush_io \<Rightarrow> error + nat" where
  "flush_connect timeout io =
     (case timeout of
        Some t \<Rightarrow>
          (case timeout_remaining (fi_now io) t of
             Inl e \<Rightarrow> Inl e
           | Inr d \<Rightarrow>
               if \<not> fi_in_time io then Inl (RTCDataChannel ''Timed out'')
               else map_sum error_of_websocket id (fi_connect io))
      | None \<Rightarrow> map_sum error_of_websocket id (fi_connect io))"

fun flush_loop ::
  "inactivity option \<Rightarrow> (nat \<Rightarrow> flush_io) \<Rightarrow> nat \<Rightarrow> nat option \<Rightarrow> bytes list \<Rightarrow>
   (error + unit) \<times> nat option \<times> bytes list \<times> (nat \<times> bytes) list" where
  "flush_loop timeout io i sock [] = (Inr (), sock, [], [])"
| "flush_loop timeout io i sock (m # ms) =
     (case (case sock of Some w \<Rightarrow> Inr w | None \<Rightarrow> flush_connect timeout (io i)) of
        Inl e \<Rightarrow> (Inl e, None, m # ms, [])
      | Inr w \<Rightarrow>
          (case fi_send (io i) of
             Some e \<Rightarrow> flush_loop timeout io (Suc i) None ms
           | None \<Rightarrow>
               (case flush_loop timeout io (Suc i) (Some w) ms of
                  (r, sock', queue, sent) \<Rightarrow> (r, sock', queue, (w, m) # sent))))"

definition signaling_flush ::
  "inactivity option \<Rightarrow> (nat \<Rightarrow> flush_io) \<Rightarrow> signaling \<Rightarrow> (error + unit) \<times> signaling \<times> (nat \<times> bytes) list" where
  "signaling_flush timeout io s =
     (if sg_client s
      then (case flush_loop timeout io 0 (sg_websocket s) (sg_pending s) of
        (r, sock, queue, sent) \<Rightarrow>
          (r, s\<lparr>sg_websocket := sock, sg_pending := queue\<rparr>, sent))
      else (Inr (), s, []))"

text \<open>
  \<open>send\<close> encrypts and queues the message, then flushes; \<open>decrypt\<close> expects a message of the
  other side. \<open>encrypt\<close> and \<open>decrypt\<close> are the content cipher under the file's key.
\<close>

definition signaling_send ::
  "(signaling_usage \<Rightarrow> rtc_signaling_message \<Rightarrow> bytes) \<Rightarrow> signaling_usage \<Rightarrow>
   inactivity option \<Rightarrow> (nat \<Rightarrow> flush_io) \<Rightarrow> signaling \<Rightarrow> rtc_inner \<Rightarrow> (error + unit) \<times> signaling \<times> (nat \<times> bytes) list" where
  "signaling_send encrypt usage timeout io s message =
     signaling_flush timeout io
       (s\<lparr>sg_pending := sg_pending s @ [encrypt usage \<lparr>rtc_inner = Some message\<rparr>]\<rparr>)"

definition signaling_decrypt ::
  "(signaling_usage \<Rightarrow> bytes \<Rightarrow> error + rtc_signaling_message) \<Rightarrow> signaling_usage \<Rightarrow>
   encrypted_rtc_signaling \<Rightarrow> error + rtc_signaling_message" where
  "signaling_decrypt decrypt usage m = decrypt (peer_side usage) (ers_ciphertext m)"

text \<open>The cipher of \<open>cipher.rs\<close> as it is used here.\<close>

definition encrypt_signaling ::
  "sealer \<Rightarrow> (bytes \<Rightarrow> bytes \<Rightarrow> bytes) \<Rightarrow> (rtc_signaling_message \<Rightarrow> bytes) \<Rightarrow> cipher_key \<Rightarrow> bytes \<Rightarrow>
   bytes \<Rightarrow> signaling_usage \<Rightarrow> rtc_signaling_message \<Rightarrow> bytes" where
  "encrypt_signaling seal hkdf encode key nonce rnd usage m =
     content_encrypt (native_encrypt seal) hkdf key nonce
       (from_message_padded encode rnd SIGNALING_BLOCK_LEN m) (content_usage usage)"

definition decrypt_signaling ::
  "opener \<Rightarrow> (bytes \<Rightarrow> bytes \<Rightarrow> bytes) \<Rightarrow> (bytes \<Rightarrow> rtc_signaling_message option) \<Rightarrow> cipher_key \<Rightarrow>
   signaling_usage \<Rightarrow> bytes \<Rightarrow> error + rtc_signaling_message" where
  "decrypt_signaling unseal hkdf decode key usage data =
     decrypt_message decode (native_decrypt unseal) hkdf key data (content_usage usage)"

subsection \<open>The client and its connection\<close>

record p2p_client =
  pc_id :: u32
  pc_local :: "sdp_type option"
  pc_alive :: bool
  pc_signaling :: signaling

definition next_connection_id :: "u32 \<Rightarrow> u32 option" where
  "next_connection_id i = (if i = 2 ^ 32 - 1 then None else Some (i + 1))"

text \<open>The calls of the WebRTC stack; \<open>rtc\<close> answers each with its error, if any.\<close>

datatype peer_call =
    NewConnection u32
  | CreateOffer
  | CreateAnswer
  | SetRemote session_description
  | AddCandidate ice_candidate

type_synonym rtc = "peer_call \<Rightarrow> error option"

definition p2p_new :: "rtc \<Rightarrow> error + p2p_client" where
  "p2p_new rtc =
     (case rtc (NewConnection 0) of
        Some e \<Rightarrow> Inl e
      | None \<Rightarrow> Inr \<lparr>pc_id = 0, pc_local = None, pc_alive = True,
          pc_signaling = \<lparr>sg_client = False, sg_websocket = None, sg_pending = []\<rparr>\<rparr>)"

definition set_websocket_client :: "p2p_client \<Rightarrow> p2p_client" where
  "set_websocket_client c = c\<lparr>pc_signaling := (pc_signaling c)\<lparr>sg_client := True\<rparr>\<rparr>"

type_synonym signaled = "((error + unit) \<times> p2p_client \<times> peer_call list) option"

definition create_offer :: "rtc \<Rightarrow> p2p_client \<Rightarrow> signaled" where
  "create_offer rtc c =
     Some (case rtc CreateOffer of
        Some e \<Rightarrow> (Inl e, c, [CreateOffer])
      | None \<Rightarrow> (Inr (), c\<lparr>pc_local := Some Offer\<rparr>, [CreateOffer]))"

text \<open>The peer connection takes the offer and answers it.\<close>

definition accept_offer :: "rtc \<Rightarrow> p2p_client \<Rightarrow> session_description \<Rightarrow> (error + unit) \<times> p2p_client \<times> peer_call list" where
  "accept_offer rtc c d =
     (case rtc (SetRemote d) of
        Some e \<Rightarrow> (Inl e, c, [SetRemote d])
      | None \<Rightarrow>
          (case rtc CreateAnswer of
             Some e \<Rightarrow> (Inl e, c, [SetRemote d, CreateAnswer])
           | None \<Rightarrow> (Inr (), c\<lparr>pc_local := Some Answer\<rparr>, [SetRemote d, CreateAnswer])))"

definition reset_connection :: "rtc \<Rightarrow> p2p_client \<Rightarrow> session_description \<Rightarrow> signaled" where
  "reset_connection rtc c d =
     (case next_connection_id (pc_id c) of
        None \<Rightarrow> None
      | Some i \<Rightarrow>
          if \<not> pc_alive c then Some (Inl (RTCDataChannel ''RTC thread died''), c, [])
          else (case rtc (NewConnection i) of
             Some e \<Rightarrow> Some (Inl e, c, [NewConnection i])
           | None \<Rightarrow>
               Some (apsnd (apsnd (Cons (NewConnection i)))
                 (accept_offer rtc (c\<lparr>pc_id := i, pc_local := None\<rparr>) d))))"

definition incoming_description :: "rtc \<Rightarrow> p2p_client \<Rightarrow> session_description \<Rightarrow> signaled" where
  "incoming_description rtc c d =
     (case (pc_local c, description_type d) of
        (None, Offer) \<Rightarrow> Some (accept_offer rtc c d)
      | (Some Answer, Offer) \<Rightarrow> reset_connection rtc c d
      | (Some Offer, Answer) \<Rightarrow>
          Some (case rtc (SetRemote d) of
             Some e \<Rightarrow> (Inl e, c, [SetRemote d])
           | None \<Rightarrow> (Inr (), c, [SetRemote d]))
      | (None, _) \<Rightarrow> Some (Inr (), c, [])
      | (Some Offer, _) \<Rightarrow> Some (Inr (), c, [])
      | (Some Answer, _) \<Rightarrow> Some (Inr (), c, [])
      | (Some Pranswer, _) \<Rightarrow> None
      | (Some Rollback, _) \<Rightarrow> None)"

definition incoming_signaling ::
  "rtc \<Rightarrow> (encrypted_rtc_signaling \<Rightarrow> error + rtc_signaling_message) \<Rightarrow> p2p_client \<Rightarrow>
   encrypted_rtc_signaling \<Rightarrow> signaled" where
  "incoming_signaling rtc decrypt c m =
     (case decrypt m of
        Inl e \<Rightarrow> Some (Inl e, c, [])
      | Inr message \<Rightarrow>
          (case rtc_inner message of
             Some (SessionDescription d) \<Rightarrow> incoming_description rtc c d
           | Some (IceCandidate i) \<Rightarrow>
               if candidate i = [] then Some (Inr (), c, [])
               else Some (case rtc (AddCandidate i) of
                  Some e \<Rightarrow> (Inl e, c, [AddCandidate i])
                | None \<Rightarrow> (Inr (), c, [AddCandidate i]))
           | None \<Rightarrow> Some (Inr (), c, [])))"

text \<open>Outgoing messages: \<open>None\<close> is the panic, \<open>Some False\<close> a candidate that is dropped.\<close>

definition outgoing_admitted :: "rtc_inner \<Rightarrow> bool option" where
  "outgoing_admitted message =
     (case message of
        SessionDescription d \<Rightarrow>
          (case description_type d of
             Offer \<Rightarrow> Some True
           | Answer \<Rightarrow> Some True
           | Pranswer \<Rightarrow> None
           | Rollback \<Rightarrow> None)
      | IceCandidate i \<Rightarrow> Some (candidate i \<noteq> []))"

definition outgoing_signaling ::
  "(signaling \<Rightarrow> rtc_inner \<Rightarrow> (error + unit) \<times> signaling \<times> (nat \<times> bytes) list) \<Rightarrow> p2p_client \<Rightarrow>
   rtc_inner \<Rightarrow> ((error + unit) \<times> p2p_client) option" where
  "outgoing_signaling send c message =
     (case outgoing_admitted message of
        None \<Rightarrow> None
      | Some False \<Rightarrow> Some (Inr (), c)
      | Some True \<Rightarrow>
          (case send (pc_signaling c) message of
             (r, s, sent) \<Rightarrow> Some (r, c\<lparr>pc_signaling := s\<rparr>)))"

subsection \<open>Driving a transfer\<close>

datatype peer_event =
    OutgoingSignaling rtc_inner
  | ChannelOpened
  | ChannelError string
  | ChannelMessage bytes

datatype p2p_event =
    IncomingSignaling encrypted_rtc_signaling
  | ConnectionEvent u32 peer_event

text \<open>
  The interface \<open>PeerToPeerClientHandler\<close>: the callbacks return the messages they have sent
  on the data channel, their verdict and the handler's new state.
\<close>

record ('s, 'm, 'out) handler =
  on_opened :: "'s \<Rightarrow> ('m list \<times> (error + ('out, unit) control_flow) \<times> 's) option"
  on_message :: "'s \<Rightarrow> bytes \<Rightarrow> ('m list \<times> (error + ('out, unit) control_flow) \<times> 's) option"

text \<open>
  One turn of the loop: when the wait begins, what arrives (\<open>None\<close> if nothing does before the
  time is up, \<open>Some None\<close> if the queue is closed), when it is handled, and how flushing goes.
\<close>

record turn =
  tn_now :: nat
  tn_event :: "p2p_event option option"
  tn_at :: nat
  tn_io :: "nat \<Rightarrow> flush_io"

record transfer_env =
  te_last_instant :: nat
  te_rtc :: rtc
  te_usage :: signaling_usage
  te_encrypt :: "signaling_usage \<Rightarrow> rtc_signaling_message \<Rightarrow> bytes"
  te_decrypt :: "signaling_usage \<Rightarrow> bytes \<Rightarrow> error + rtc_signaling_message"

record 's transfer_state =
  ts_client :: p2p_client
  ts_timeout :: "inactivity option"
  ts_handler :: 's

text \<open>Waiting: \<open>None\<close> while it goes on, which without a timeout may be forever.\<close>

definition next_event :: "inactivity option \<Rightarrow> turn \<Rightarrow> (error + p2p_event) option" where
  "next_event timeout t =
     (case (case timeout of Some i \<Rightarrow> map_sum id (\<lambda>_. ()) (timeout_remaining (tn_now t) i) | None \<Rightarrow> Inr ()) of
        Inl e \<Rightarrow> Some (Inl e)
      | Inr _ \<Rightarrow>
          (case tn_event t of
             Some (Some ev) \<Rightarrow> Some (Inr ev)
           | Some None \<Rightarrow> Some (Inl (RTCDataChannel ''RTC thread died''))
           | None \<Rightarrow> if timeout = None then None else Some (Inl TimedOut)))"

definition reset_timeout :: "transfer_env \<Rightarrow> turn \<Rightarrow> inactivity option \<Rightarrow> inactivity option option" where
  "reset_timeout env t timeout =
     (case timeout of
        None \<Rightarrow> Some None
      | Some i \<Rightarrow> map_option Some (timeout_reset (te_last_instant env) (tn_at t) i))"

type_synonym ('s, 'm, 'out) turned =
  "('m list \<times> (error + ('out, unit) control_flow) \<times> 's transfer_state) option"

definition call_handler ::
  "('m list \<times> (error + ('out, unit) control_flow) \<times> 's) option \<Rightarrow> 's transfer_state \<Rightarrow>
   ('s, 'm, 'out) turned" where
  "call_handler r st = map_option (\<lambda>(ms, v, s). (ms, v, st\<lparr>ts_handler := s\<rparr>)) r"

definition transfer_event ::
  "transfer_env \<Rightarrow> ('s, 'm, 'out) handler \<Rightarrow> 's transfer_state \<Rightarrow> turn \<Rightarrow> p2p_event \<Rightarrow>
   ('s, 'm, 'out) turned" where
  "transfer_event env h st t ev =
     (case ev of
        IncomingSignaling m \<Rightarrow>
          (case incoming_signaling (te_rtc env) (signaling_decrypt (te_decrypt env) (te_usage env))
              (ts_client st) m of
             None \<Rightarrow> None
           | Some (Inl e, c, calls) \<Rightarrow> Some ([], Inl e, st\<lparr>ts_client := c\<rparr>)
           | Some (Inr _, c, calls) \<Rightarrow> Some ([], Inr (Continue ()), st\<lparr>ts_client := c\<rparr>))
      | ConnectionEvent i pe \<Rightarrow>
          if i \<noteq> pc_id (ts_client st) then Some ([], Inr (Continue ()), st)
          else (case pe of
             OutgoingSignaling m \<Rightarrow>
               (case outgoing_signaling
                   (signaling_send (te_encrypt env) (te_usage env) (ts_timeout st) (tn_io t))
                   (ts_client st) m of
                  None \<Rightarrow> None
                | Some (Inl e, c) \<Rightarrow> Some ([], Inl e, st\<lparr>ts_client := c\<rparr>)
                | Some (Inr _, c) \<Rightarrow> Some ([], Inr (Continue ()), st\<lparr>ts_client := c\<rparr>))
           | ChannelOpened \<Rightarrow> call_handler (on_opened h (ts_handler st)) st
           | ChannelError e \<Rightarrow> Some ([], Inl (RTCDataChannel e), st)
           | ChannelMessage data \<Rightarrow>
               (case reset_timeout env t (ts_timeout st) of
                  None \<Rightarrow> None
                | Some timeout \<Rightarrow>
                    call_handler (on_message h (ts_handler st) data) (st\<lparr>ts_timeout := timeout\<rparr>))))"

fun transfer_loop ::
  "transfer_env \<Rightarrow> ('s, 'm, 'out) handler \<Rightarrow> 's transfer_state \<Rightarrow> turn list \<Rightarrow>
   ('m list \<times> (error + 'out) option \<times> 's transfer_state) option" where
  "transfer_loop env h st [] = Some ([], None, st)"
| "transfer_loop env h st (t # ts) =
     (case next_event (ts_timeout st) t of
        None \<Rightarrow> Some ([], None, st)
      | Some (Inl e) \<Rightarrow> Some ([], Some (Inl e), st)
      | Some (Inr ev) \<Rightarrow>
          (case transfer_event env h st t ev of
             None \<Rightarrow> None
           | Some (ms, Inl e, st') \<Rightarrow> Some (ms, Some (Inl e), st')
           | Some (ms, Inr (Break out), st') \<Rightarrow> Some (ms, Some (Inr out), st')
           | Some (ms, Inr (Continue _), st') \<Rightarrow>
               map_option (apfst ((@) ms)) (transfer_loop env h st' ts)))"

text \<open>The handlers of the three kinds of transfers.\<close>

definition connect_handler ::
  "(bytes \<Rightarrow> uploader_message option) \<Rightarrow> (bytes \<Rightarrow> error + bytes) \<Rightarrow>
   (downloader_inner \<Rightarrow> error option) \<Rightarrow> write_end \<Rightarrow>
   (download_state, downloader_inner, flow) handler" where
  "connect_handler decode decrypt send io =
     \<lparr>on_opened = connect_opened send, on_message = connect_message decode decrypt send io\<rparr>"

definition download_handler ::
  "(bytes \<Rightarrow> uploader_message option) \<Rightarrow> (bytes \<Rightarrow> error + bytes) \<Rightarrow>
   (downloader_inner \<Rightarrow> error option) \<Rightarrow> write_end \<Rightarrow>
   (download_state, downloader_inner, unit) handler" where
  "download_handler decode decrypt send io =
     \<lparr>on_opened = state_opened decrypt send io, on_message = state_message decode decrypt send io\<rparr>"

definition upload_state_handler ::
  "(bytes \<Rightarrow> downloader_message option) \<Rightarrow> (uploader_inner \<Rightarrow> error option) \<Rightarrow>
   (encrypted_file \<times> progress, uploader_inner, unit) handler" where
  "upload_state_handler decode send =
     \<lparr>on_opened = (\<lambda>s. Some ([], Inr (Continue ()), s)),
      on_message = (\<lambda>(f, log) data.
        map_option (\<lambda>(ms, v, p). (ms, v, (f, log @ p))) (upload_state_message decode send f data))\<rparr>"

subsection \<open>What a transfer keeps of its handler\<close>

locale p2p_handler =
  fixes h :: "('s, 'm, 'out) handler"
    and inv :: "'s \<Rightarrow> bool"
  assumes opened_keeps: "inv s \<Longrightarrow> on_opened h s = Some (ms, v, s') \<Longrightarrow> inv s'"
    and message_keeps: "inv s \<Longrightarrow> on_message h s data = Some (ms, v, s') \<Longrightarrow> inv s'"
begin

lemma event_keeps:
  assumes "inv (ts_handler st)" and "transfer_event env h st t ev = Some (ms, v, st')"
  shows "inv (ts_handler st')"
proof (cases "\<exists>i data. ev = ConnectionEvent i (ChannelMessage data)")
  case True
  then obtain i data where "ev = ConnectionEvent i (ChannelMessage data)" by blast
  then show ?thesis
    using assms message_keeps
    by (auto simp: transfer_event_def call_handler_def split: option.splits if_splits)
next
  case False
  show ?thesis
  proof (cases "\<exists>i. ev = ConnectionEvent i ChannelOpened")
    case True
    then show ?thesis
      using assms opened_keeps by (auto simp: transfer_event_def call_handler_def split: if_splits)
  next
    case no: False
    have "ts_handler st' = ts_handler st"
    proof (cases ev)
      case (IncomingSignaling m)
      then show ?thesis
        using assms(2)
        by (auto simp: transfer_event_def split: option.splits sum.splits prod.splits)
    next
      case (ConnectionEvent i pe)
      then show ?thesis
        using assms(2) False no
        by (cases pe) (auto simp: transfer_event_def split: option.splits sum.splits if_splits prod.splits)
    qed
    then show ?thesis using assms(1) by simp
  qed
qed

lemma transfer_keeps:
  "inv (ts_handler st) \<Longrightarrow> transfer_loop env h st ts = Some (ms, r, st') \<Longrightarrow> inv (ts_handler st')"
proof (induction ts arbitrary: st ms)
  case (Cons t ts)
  then show ?case
    by (auto split: option.splits sum.splits control_flow.splits prod.splits
        dest: event_keeps)
qed simp

end

text \<open>
  A download: the target has taken nothing, or a beginning of the decryption of as many bytes
  as were announced. This holds whatever the peer sends.
\<close>

definition target_safe :: "(bytes \<Rightarrow> error + bytes) \<Rightarrow> u64 \<Rightarrow> download_state \<Rightarrow> bool" where
  "target_safe decrypt n st = (\<exists>w. file_inv decrypt n w (ds_file st))"

lemma request_safe:
  assumes "request_data_or_finish decrypt send io st = Some (ms, v, st')"
    and "target_safe decrypt n st"
  shows "target_safe decrypt n st'"
proof -
  have "ds_file st' = ds_file st \<or> (\<exists>r. poll_flush decrypt (ds_file st) (final_io io) = Some (r, ds_file st'))"
    using assms(1)
    by (auto simp: request_data_or_finish_def
        split: option.splits if_splits poll.splits sum.splits prod.splits)
  then show ?thesis
    using assms(2) flush_inv unfolding target_safe_def by metis
qed

lemma message_safe:
  assumes "handle_uploader_message decrypt send io st m = Some (ms, v, st')"
    and "target_safe decrypt n st"
  shows "target_safe decrypt n st'"
proof -
  have w: "target_safe decrypt n (st\<lparr>ds_file := f\<rparr>)"
    "target_safe decrypt n (st\<lparr>ds_file := f, ds_progress := p\<rparr>)"
    if "write_all (ds_file st) data = Some (r, f)" for data r f p
    using write_inv [OF that] assms(2) by (auto simp: target_safe_def)
  show ?thesis
    using assms w request_safe
    by (auto simp: handle_uploader_message_def
        split: option.splits uploader_inner.splits if_splits sum.splits prod.splits)
qed

interpretation downloading: p2p_handler "download_handler decode decrypt send io" "target_safe decrypt n"
  by unfold_locales
    (auto simp: download_handler_def state_opened_def state_message_def
      intro: request_safe message_safe split: option.splits)

interpretation connecting: p2p_handler "connect_handler decode decrypt send io" "target_safe decrypt n"
proof
  fix s data ms v s'
  assume i: "target_safe decrypt n s" and m: "on_message (connect_handler decode decrypt send io) s data = Some (ms, v, s')"
  from m have "connect_message decode decrypt send io s data = Some (ms, v, s')"
    by (simp add: connect_handler_def)
  then show "target_safe decrypt n s'"
    using downloading.message_keeps [OF i, of decode send io data]
    by (auto simp: connect_message_def download_handler_def intro: request_safe
        split: option.splits sum.splits prod.splits control_flow.splits)
qed (auto simp: connect_handler_def connect_opened_def split: option.splits)

interpretation serving: p2p_handler "upload_state_handler decode send" "\<lambda>(f, log). f = file"
  by unfold_locales (auto simp: upload_state_handler_def)

text \<open>No peer can harm the target of a download: over any transfer, connecting or
  transferring, with whatever signaling and data channel messages in whatever order, the
  target file stays untouched, or as many bytes as were announced decrypted under the file's
  key and it has taken a beginning of just their plaintext, all of it once it is complete.\<close>

theorem transfer_keeps_target_safe:
  assumes "ds_file (ts_handler st) = decrypt_file sz"
    and "transfer_loop env (connect_handler decode decrypt send io) st ts = Some (ms, r, st1)"
    and "transfer_loop env' (download_handler decode decrypt send io')
      \<lparr>ts_client = c, ts_timeout = i, ts_handler = ts_handler st1\<rparr> ts' = Some (ms', r', st2)"
    and "f = ds_file (ts_handler st2)"
  shows "df_taken f = [] \<and> df_target f = None \<or>
    (\<exists>received p. length received = unat (sz + extra_ciphertext_len) \<and> decrypt received = Inr p \<and>
       prefix (df_taken f) p \<and> df_target f \<in> {None, Some p})"
proof -
  let ?n = "sz + extra_ciphertext_len"
  have "file_inv decrypt ?n [] (decrypt_file sz)" by (simp add: file_inv_def decrypt_file_def)
  then have "target_safe decrypt ?n (ts_handler st)"
    using assms(1) by (auto simp: target_safe_def)
  from connecting.transfer_keeps [OF this assms(2)]
  have "target_safe decrypt ?n (ts_handler st1)" .
  with downloading.transfer_keeps [OF _ assms(3), of ?n]
  have "target_safe decrypt ?n (ts_handler st2)" by simp
  then obtain w where w: "file_inv decrypt ?n w f"
    by (auto simp: target_safe_def assms(4))
  show ?thesis
  proof (cases "df_state f")
    case (PendingWrite data)
    then have "length data = unat ?n" "target_begins decrypt data f" using w by (simp_all add: file_inv_def)
    then show ?thesis using PendingWrite by (auto simp: target_begins_def)
  next
    case Complete
    then have "unat ?n \<le> length w" "decrypt (take (unat ?n) w) = Inr (df_taken f)"
      using w by (simp_all add: file_inv_def)
    then show ?thesis using Complete by (intro disjI2) (rule exI [of _ "take (unat ?n) w"], auto)
  next
    case Poisoned
    then have l: "unat ?n \<le> length w" and "target_begins decrypt (take (unat ?n) w) f"
      using w by (simp_all add: file_inv_def)
    then consider "df_taken f = []" | p where "decrypt (take (unat ?n) w) = Inr p" "prefix (df_taken f) p"
      by (auto simp: target_begins_def)
    then show ?thesis
    proof cases
      case 2
      then show ?thesis using l Poisoned by (intro disjI2) (rule exI [of _ "take (unat ?n) w"], auto)
    qed (use Poisoned in simp)
  qed (use w in \<open>simp add: file_inv_def\<close>)
qed

definition idle_client :: p2p_client where
  "idle_client = \<lparr>pc_id = 0, pc_local = Some Offer, pc_alive = True,
     pc_signaling = \<lparr>sg_client = True, sg_websocket = None, sg_pending = []\<rparr>\<rparr>"

definition example_env :: transfer_env where
  "example_env = \<lparr>te_last_instant = 1000, te_rtc = (\<lambda>_. None), te_usage = DownloaderSide,
     te_encrypt = (\<lambda>_ _. []), te_decrypt = (\<lambda>_ _. Inl Decrypt)\<rparr>"

definition example_turn :: "nat \<Rightarrow> peer_event \<Rightarrow> turn" where
  "example_turn now ev = \<lparr>tn_now = now, tn_event = Some (Some (ConnectionEvent 0 ev)), tn_at = now,
     tn_io = (\<lambda>_. \<lparr>fi_now = now, fi_in_time = True, fi_connect = Inr 0, fi_send = None\<rparr>)\<rparr>"

definition example_download :: "download_state transfer_state" where
  "example_download = \<lparr>ts_client = idle_client, ts_timeout = Some \<lparr>in_deadline = 50, in_timeout = 50\<rparr>,
     ts_handler = \<lparr>ds_file = decrypt_file 2, ds_requested = 0, ds_total = 30, ds_progress = []\<rparr>\<rparr>"

theorem transfer_keeps_target_safe_witness:
  "df_taken (ds_file (ts_handler example_download)) = []"
proof -
  have "transfer_loop example_env (connect_handler (\<lambda>_. None) (\<lambda>_. Inl Decrypt) (\<lambda>_. None) None) example_download
      [example_turn 10 ChannelOpened] = Some ([DownloaderHello], None, example_download)"
    by (simp add: example_download_def example_env_def example_turn_def next_event_def idle_client_def
        timeout_remaining_def transfer_event_def call_handler_def connect_handler_def connect_opened_def)
  from transfer_keeps_target_safe [OF _ this _ refl, where sz = 2 and ts' = "[]" and r' = None and ms' = "[]"
      and ?st2.0 = "\<lparr>ts_client = idle_client, ts_timeout = None, ts_handler = ts_handler example_download\<rparr>"
      and c = idle_client and i = None and env' = example_env and io' = None]
  show ?thesis by (simp add: example_download_def)
qed

subsection \<open>Timeouts, signaling and negotiation\<close>

lemma turn_keeps_timeout:
  assumes "transfer_event env h st t ev = Some (ms, v, st')"
    and "\<forall>i data. ev \<noteq> ConnectionEvent i (ChannelMessage data)"
  shows "ts_timeout st' = ts_timeout st"
proof (cases ev)
  case (IncomingSignaling m)
  then show ?thesis
    using assms(1) by (auto simp: transfer_event_def split: option.splits sum.splits prod.splits)
next
  case (ConnectionEvent i pe)
  then show ?thesis
    using assms
    by (cases pe) (auto simp: transfer_event_def call_handler_def
        split: option.splits sum.splits if_splits prod.splits)
qed

definition brings_data :: "turn \<Rightarrow> bool" where
  "brings_data t =
     (case tn_event t of Some (Some (ConnectionEvent _ (ChannelMessage _))) \<Rightarrow> True | _ \<Rightarrow> False)"

lemma stalled_ends:
  assumes "transfer_loop env h st ts = Some (ms, r, st')"
    and "ts_timeout st = Some i" and "list_all (\<lambda>t. \<not> brings_data t) ts"
    and "\<exists>t \<in> set ts. in_deadline i \<le> tn_now t"
  shows "r \<noteq> None"
  using assms
proof (induction ts arbitrary: st ms)
  case Nil
  then show ?case by simp
next
  case (Cons t ts)
  show ?case
  proof (cases "next_event (ts_timeout st) t")
    case None
    then show ?thesis
      using Cons.prems(2) by (auto simp: next_event_def split: sum.splits option.splits)
  next
    case (Some ne)
    show ?thesis
    proof (cases ne)
      case (Inl e)
      then show ?thesis using Some Cons.prems(1) by auto
    next
      case (Inr ev)
      then have ev: "tn_event t = Some (Some ev)" and now: "tn_now t < in_deadline i"
        using Some Cons.prems(2)
        by (auto simp: next_event_def timeout_remaining_def split: option.splits if_splits)
      obtain ms1 v st1 where te: "transfer_event env h st t ev = Some (ms1, v, st1)"
        using Cons.prems(1) Some Inr by (auto split: option.splits)
      have "ts_timeout st1 = Some i"
        using turn_keeps_timeout [OF te] Cons.prems(2,3) ev
        by (auto simp: brings_data_def split: p2p_event.splits peer_event.splits)
      moreover have "\<exists>t \<in> set ts. in_deadline i \<le> tn_now t" using Cons.prems(4) now by auto
      ultimately show ?thesis
        using Cons.IH [of st1] Cons.prems(1,3) Some Inr te
        by (auto split: sum.splits control_flow.splits)
    qed
  qed
qed

text \<open>A stalled transfer ends: with an inactivity timeout, and as long as no data channel
  message arrives, the first wait that begins when the time is up ends the transfer if
  nothing did before, however many signaling messages were exchanged in the meantime.\<close>

theorem stalled_transfer_ends:
  assumes "timeout_new last_instant start d = Some i" and "ts_timeout st = Some i"
    and "list_all (\<lambda>t. \<not> brings_data t) ts" and "\<exists>t \<in> set ts. start + d \<le> tn_now t"
    and "transfer_loop env h st ts = Some (ms, r, st')"
  shows "r \<noteq> None"
proof -
  have "in_deadline i = start + d"
    using assms(1) by (auto simp: timeout_new_def deadline_def split: if_splits)
  then show ?thesis
    using stalled_ends [OF assms(5,2,3)] assms(4) by simp
qed

theorem stalled_transfer_ends_witness:
  "(Some (Inl TimedOut) :: (error + flow) option) \<noteq> None"
proof (rule stalled_transfer_ends)
  show "timeout_new 1000 0 50 = Some \<lparr>in_deadline = 50, in_timeout = 50\<rparr>"
    by (simp add: timeout_new_def deadline_def)
  show "ts_timeout example_download = Some \<lparr>in_deadline = 50, in_timeout = 50\<rparr>"
    by (simp add: example_download_def)
  show "list_all (\<lambda>t. \<not> brings_data t) [example_turn 10 ChannelOpened, example_turn 60 ChannelOpened]"
    by (simp add: brings_data_def example_turn_def)
  show "\<exists>t \<in> set [example_turn 10 ChannelOpened, example_turn 60 ChannelOpened]. 0 + 50 \<le> tn_now t"
    by (simp add: example_turn_def)
  show "transfer_loop example_env (connect_handler (\<lambda>_. None) Inr (\<lambda>_. None) None) example_download
      [example_turn 10 ChannelOpened, example_turn 60 ChannelOpened]
      = Some ([DownloaderHello], Some (Inl TimedOut), example_download)"
    by (simp add: example_download_def example_env_def example_turn_def next_event_def idle_client_def
        timeout_remaining_def transfer_event_def call_handler_def connect_handler_def connect_opened_def)
qed

text \<open>Flushing the queue of signaling messages.\<close>

lemma flush_loop_outcome:
  "flush_loop timeout io i sock ms = (r, sock', queue, sent) \<Longrightarrow>
   \<exists>k \<le> length ms. queue = drop k ms \<and> (r = Inr () \<longleftrightarrow> k = length ms) \<and>
     map snd sent = map ((!) ms) (filter (\<lambda>j. fi_send (io (i + j)) = None) [0..<k])"
proof (induction timeout io i sock ms arbitrary: r sock' queue sent rule: flush_loop.induct)
  case (1 timeout io i sock)
  then show ?case by simp
next
  case (2 timeout io i sock m ms)
  let ?c = "case sock of Some w \<Rightarrow> Inr w | None \<Rightarrow> flush_connect timeout (io i)"
  have shift: "filter (\<lambda>j. fi_send (io (i + j)) = None) [0..<Suc k]
      = (if fi_send (io i) = None then [0] else [])
        @ map Suc (filter (\<lambda>j. fi_send (io (Suc i + j)) = None) [0..<k])" for k
    by (simp add: upt_conv_Cons map_Suc_upt [symmetric] filter_map comp_def del: upt_Suc)
  show ?case
  proof (cases ?c)
    case (Inl e)
    then have "(r, sock', queue, sent) = (Inl e, None, m # ms, [])" using 2(3) by simp
    then show ?thesis by (intro exI [of _ 0]) simp
  next
    case (Inr w)
    show ?thesis
    proof (cases "fi_send (io i)")
      case None
      obtain sent1 where f: "flush_loop timeout io (Suc i) (Some w) ms = (r, sock', queue, sent1)"
        "sent = (w, m) # sent1"
        using 2(3) Inr None by (auto split: prod.splits)
      from 2(1) [OF Inr None f(1)] obtain k where k: "k \<le> length ms" "queue = drop k ms"
        "(r = Inr ()) = (k = length ms)"
        "map snd sent1 = map ((!) ms) (filter (\<lambda>j. fi_send (io (Suc i + j)) = None) [0..<k])"
        by blast
      then show ?thesis
        using f(2) None by (intro exI [of _ "Suc k"]) (simp add: shift comp_def del: upt_Suc)
    next
      case (Some e)
      have "flush_loop timeout io (Suc i) None ms = (r, sock', queue, sent)"
        using 2(3) Inr Some by simp
      from 2(2) [OF Inr Some this] obtain k where k: "k \<le> length ms" "queue = drop k ms"
        "(r = Inr ()) = (k = length ms)"
        "map snd sent = map ((!) ms) (filter (\<lambda>j. fi_send (io (Suc i + j)) = None) [0..<k])"
        by blast
      then show ?thesis
        using Some by (intro exI [of _ "Suc k"]) (simp add: shift comp_def del: upt_Suc)
    qed
  qed
qed

text \<open>Flushing the signaling queue takes its messages in order: those sent are the first ones
  except where sending failed, and what stays queued for the next flush is the rest, from
  the message for which no connection was to be had. A message whose sending failed is in
  neither: it is dropped and never sent again.\<close>

theorem signaling_flush_outcome:
  assumes "signaling_flush timeout io s = (r, s', sent)" and "sg_client s"
  shows "\<exists>k \<le> length (sg_pending s). sg_pending s' = drop k (sg_pending s) \<and>
    (r = Inr () \<longleftrightarrow> k = length (sg_pending s)) \<and>
    map snd sent = map ((!) (sg_pending s)) (filter (\<lambda>j. fi_send (io j) = None) [0..<k])"
proof -
  obtain sock' queue where
    f: "flush_loop timeout io 0 (sg_websocket s) (sg_pending s) = (r, sock', queue, sent)"
    and "sg_pending s' = queue"
    using assms by (auto simp: signaling_flush_def split: prod.splits)
  then show ?thesis using flush_loop_outcome [OF f] by simp
qed

theorem signaling_flush_outcome_witness:
  "\<exists>k \<le> 2. ([] :: bytes list) = drop k [[1], [2]] \<and> map snd [(5 :: nat, [2 :: u8])] = map ((!) [[1], [2]])
     (filter (\<lambda>j. (if j = 0 then Some (WsIO ''broken'') else None) = None) [0..<k])"
  using signaling_flush_outcome [of None
      "\<lambda>j. \<lparr>fi_now = 0, fi_in_time = True, fi_connect = Inr 5,
         fi_send = if j = 0 then Some (WsIO ''broken'') else None\<rparr>"
      "\<lparr>sg_client = True, sg_websocket = Some 4, sg_pending = [[1], [2]]\<rparr>" "Inr ()"
      "\<lparr>sg_client = True, sg_websocket = Some 5, sg_pending = []\<rparr>" "[(5, [2])]"]
  by (auto simp: signaling_flush_def flush_connect_def numeral_2_eq_2)

text \<open>Any sequence of offers made and messages received, whatever the WebRTC stack answers.\<close>

datatype negotiation = Offers rtc | Receives rtc encrypted_rtc_signaling

fun negotiate ::
  "(encrypted_rtc_signaling \<Rightarrow> error + rtc_signaling_message) \<Rightarrow> p2p_client \<Rightarrow> negotiation list \<Rightarrow>
   p2p_client option" where
  "negotiate decrypt c [] = Some c"
| "negotiate decrypt c (op # ops) =
     (case (case op of
          Offers rtc \<Rightarrow> create_offer rtc c
        | Receives rtc m \<Rightarrow> incoming_signaling rtc decrypt c m) of
        None \<Rightarrow> None
      | Some (_, c', _) \<Rightarrow> negotiate decrypt c' ops)"

definition local_ok :: "p2p_client \<Rightarrow> bool" where
  "local_ok c = (pc_local c \<noteq> Some Pranswer \<and> pc_local c \<noteq> Some Rollback)"

lemma accept_offer_ok:
  "accept_offer rtc c d = (r, c', calls) \<Longrightarrow> local_ok c \<Longrightarrow> local_ok c' \<and> pc_id c' = pc_id c"
  by (auto simp: accept_offer_def local_ok_def split: option.splits)

lemma next_connection_id_Some:
  "unat i < 2 ^ 32 - 1 \<Longrightarrow> next_connection_id i = Some (i + 1) \<and> unat (i + 1) = Suc (unat i)"
proof -
  assume a: "unat i < 2 ^ 32 - 1"
  then have "i \<noteq> 2 ^ 32 - 1" by auto
  moreover have "unat (i + 1) = Suc (unat i)"
    using a by (simp add: unat_word_ariths)
  ultimately show ?thesis by (simp add: next_connection_id_def)
qed

lemma reset_connection_ok:
  assumes "local_ok c" and "unat (pc_id c) < 2 ^ 32 - 1"
  shows "\<exists>r c' calls. reset_connection rtc c d = Some (r, c', calls) \<and> local_ok c' \<and>
    unat (pc_id c') \<le> Suc (unat (pc_id c))"
proof -
  note n = next_connection_id_Some [OF assms(2)]
  obtain r c' calls where a: "accept_offer rtc (c\<lparr>pc_id := pc_id c + 1, pc_local := None\<rparr>) d = (r, c', calls)"
    by (cases "accept_offer rtc (c\<lparr>pc_id := pc_id c + 1, pc_local := None\<rparr>) d")
  have "local_ok c'" "pc_id c' = pc_id c + 1"
    using accept_offer_ok [OF a] by (simp_all add: local_ok_def)
  then show ?thesis
    using n a assms(1) by (auto simp: reset_connection_def split: option.split)
qed

lemma incoming_ok:
  assumes "local_ok c" and "unat (pc_id c) < 2 ^ 32 - 1"
  shows "\<exists>r c' calls. incoming_signaling rtc decrypt c m = Some (r, c', calls) \<and> local_ok c' \<and>
    unat (pc_id c') \<le> Suc (unat (pc_id c))"
proof -
  have d: "\<exists>r c' calls. incoming_description rtc c d = Some (r, c', calls) \<and> local_ok c' \<and>
    unat (pc_id c') \<le> Suc (unat (pc_id c))" for d
  proof -
    obtain r c' calls where a: "accept_offer rtc c d = (r, c', calls)"
      by (cases "accept_offer rtc c d")
    show ?thesis
    proof (cases "pc_local c = Some Answer \<and> description_type d = Offer")
      case True
      then show ?thesis
        using reset_connection_ok [OF assms, of rtc d] by (simp add: incoming_description_def)
    next
      case False
      then show ?thesis
        using assms(1) a accept_offer_ok [OF a assms(1)]
        by (auto simp: incoming_description_def local_ok_def
            split: option.splits sdp_type.splits)
    qed
  qed
  show ?thesis
    using d assms(1)
    by (auto simp: incoming_signaling_def split: sum.splits option.splits rtc_inner.splits)
qed

lemma negotiate_ok:
  "local_ok c \<Longrightarrow> unat (pc_id c) + length ops < 2 ^ 32 \<Longrightarrow>
   \<exists>c'. negotiate decrypt c ops = Some c' \<and> local_ok c' \<and>
     unat (pc_id c') \<le> unat (pc_id c) + length ops"
proof (induction ops arbitrary: c)
  case Nil
  then show ?case by simp
next
  case (Cons op ops)
  have "\<exists>r c' calls. (case op of Offers rtc \<Rightarrow> create_offer rtc c
        | Receives rtc m \<Rightarrow> incoming_signaling rtc decrypt c m) = Some (r, c', calls) \<and> local_ok c' \<and>
      unat (pc_id c') \<le> Suc (unat (pc_id c))"
  proof (cases op)
    case (Offers rtc)
    then show ?thesis
      using Cons.prems(1) by (auto simp: create_offer_def local_ok_def split: option.split)
  next
    case (Receives rtc m)
    then show ?thesis using incoming_ok [OF Cons.prems(1), of rtc decrypt m] Cons.prems(2) by simp
  qed
  then obtain r c' calls where c: "(case op of Offers rtc \<Rightarrow> create_offer rtc c
        | Receives rtc m \<Rightarrow> incoming_signaling rtc decrypt c m) = Some (r, c', calls)" "local_ok c'"
      "unat (pc_id c') \<le> Suc (unat (pc_id c))"
    by blast
  have "unat (pc_id c') + length ops < 2 ^ 32" using c(3) Cons.prems(2) by simp
  from Cons.IH [OF c(2) this] show ?case using c by auto
qed

text \<open>C34: Negotiating a connection never panics: after any sequence of fewer than 2 to the 32
  offers made and signaling messages received, whatever these say and whatever the WebRTC
  stack answers, the local description is none, an offer or an answer; and a client that
  has not made an offer itself takes every offer and answers it, on a new connection with a
  new identifier if it had answered one before.\<close>

theorem negotiation_never_panics:
  assumes "p2p_new rtc = Inr c0" and "length ops < 2 ^ 32 - 1" and "description_type d = Offer"
  shows "\<exists>c. negotiate decrypt c0 ops = Some c \<and>
    pc_local c \<in> {None, Some Offer, Some Answer} \<and>
    (pc_local c \<noteq> Some Offer \<longrightarrow> pc_alive c \<longrightarrow>
      (\<exists>c' calls. incoming_description (\<lambda>_. None) c d
          = Some (Inr (), c', calls @ [SetRemote d, CreateAnswer]) \<and>
        pc_local c' = Some Answer \<and>
        pc_id c' = (if pc_local c = None then pc_id c else pc_id c + 1)))"
proof -
  have c0: "local_ok c0" "pc_id c0 = 0"
    using assms(1) by (auto simp: p2p_new_def local_ok_def split: option.splits)
  obtain c where c: "negotiate decrypt c0 ops = Some c" "local_ok c" "unat (pc_id c) \<le> length ops"
    using negotiate_ok [OF c0(1), of ops decrypt] c0(2) assms(2) by auto
  then have l: "pc_local c \<in> {None, Some Offer, Some Answer}"
    by (cases "pc_local c"; cases "the (pc_local c)") (auto simp: local_ok_def)
  have "unat (pc_id c) < 2 ^ 32 - 1" using c(3) assms(2) by simp
  note n = next_connection_id_Some [OF this]
  have "\<exists>c' calls. incoming_description (\<lambda>_. None) c d
      = Some (Inr (), c', calls @ [SetRemote d, CreateAnswer]) \<and> pc_local c' = Some Answer \<and>
    pc_id c' = (if pc_local c = None then pc_id c else pc_id c + 1)"
    if "pc_local c \<noteq> Some Offer" "pc_alive c"
    using that l n assms(3)
    by (auto simp: incoming_description_def accept_offer_def reset_connection_def)
  then show ?thesis using c(1) l by blast
qed

theorem negotiation_never_panics_witness:
  "\<exists>c. negotiate (\<lambda>_. Inl Decrypt)
     \<lparr>pc_id = 0, pc_local = None, pc_alive = True,
      pc_signaling = \<lparr>sg_client = False, sg_websocket = None, sg_pending = []\<rparr>\<rparr>
     [Offers (\<lambda>_. None)] = Some c"
  using negotiation_never_panics [of "\<lambda>_. None" _ "[Offers (\<lambda>_. None)]"
      "\<lparr>sdp = '''', sd_type = sdp_number Offer\<rparr>" "\<lambda>_. Inl Decrypt"]
  by (auto simp: p2p_new_def description_type_def sdp_of_number_def)

text \<open>What one side signals the other side reads: a message encrypted for the uploader's
  signaling decrypts to itself at the downloader, and the other way round, and the two
  directions never use the same derived key.\<close>

theorem signaling_roundtrip:
  assumes "aead_law seal unseal" and "delimited_law encode decode"
    and "length nonce = NONCE_SIZE" and "length rnd = NONCE_SIZE"
  shows "signaling_decrypt (decrypt_signaling unseal hkdf decode key) (peer_side usage)
      \<lparr>ers_ciphertext = encrypt_signaling seal hkdf encode key nonce rnd usage m\<rparr> = Inr m \<and>
    usage_info (content_usage usage) \<noteq> usage_info (content_usage (peer_side usage))"
proof -
  have "peer_side (peer_side usage) = usage" by (cases usage) simp_all
  moreover have "content_usage usage \<noteq> content_usage (peer_side usage)" by (cases usage) simp_all
  ultimately show ?thesis
    using native.message_roundtrip [OF assms] usage_info_inj
    by (auto simp: signaling_decrypt_def decrypt_signaling_def encrypt_signaling_def)
qed

text \<open>A codec for examples: strings end with a zero byte, their characters follow a one.\<close>

fun example_string :: "string \<Rightarrow> bytes" where
  "example_string [] = [0]"
| "example_string (c # cs) = 1 # of_nat (of_char c) # example_string cs"

fun example_unstring :: "bytes \<Rightarrow> (string \<times> bytes) option" where
  "example_unstring [] = None"
| "example_unstring [b] = (if b = 0 then Some ([], []) else None)"
| "example_unstring (b # c # bs) =
     (if b = 0 then Some ([], c # bs)
      else map_option (apfst (Cons (char_of (unat c)))) (example_unstring bs))"

lemma example_unstring_string: "example_unstring (example_string s @ bs) = Some (s, bs)"
proof (induction s)
  case Nil
  then show ?case by (cases bs) simp_all
next
  case (Cons c s)
  have "unat (of_nat (of_char c) :: u8) = of_char c"
    using nat_of_char_less_256 [of c] by (simp add: unat_of_nat)
  then show ?case using Cons by simp
qed

text \<open>A number is as many ones, up to a zero.\<close>

definition example_number :: "i32 \<Rightarrow> bytes" where
  "example_number n = replicate (unat n) 1 @ [0]"

definition example_unnumber :: "bytes \<Rightarrow> i32 \<times> bytes" where
  "example_unnumber bs = (of_nat (length (takeWhile ((=) 1) bs)), tl (dropWhile ((=) 1) bs))"

lemma example_unnumber_number: "example_unnumber (example_number n @ bs) = (n, bs)"
  by (simp add: example_unnumber_def example_number_def takeWhile_append dropWhile_append)

definition encode_example :: "rtc_signaling_message \<Rightarrow> bytes" where
  "encode_example m =
     (case rtc_inner m of
        None \<Rightarrow> [0]
      | Some (IceCandidate i) \<Rightarrow> 1 # example_string (candidate i) @ example_string (mid i)
      | Some (SessionDescription d) \<Rightarrow> 2 # example_number (sd_type d) @ example_string (sdp d))"

definition decode_example :: "bytes \<Rightarrow> rtc_signaling_message option" where
  "decode_example bs =
     (if hd bs = 0 then Some \<lparr>rtc_inner = None\<rparr>
      else if hd bs = 1 then
        (case example_unstring (tl bs) of
           None \<Rightarrow> None
         | Some (c, bs') \<Rightarrow>
             (case example_unstring bs' of
                None \<Rightarrow> None
              | Some (m, _) \<Rightarrow> Some \<lparr>rtc_inner = Some (IceCandidate \<lparr>candidate = c, mid = m\<rparr>)\<rparr>))
      else (case example_unnumber (tl bs) of (n, bs') \<Rightarrow>
         (case example_unstring bs' of
            None \<Rightarrow> None
          | Some (s, _) \<Rightarrow> Some \<lparr>rtc_inner = Some (SessionDescription \<lparr>sdp = s, sd_type = n\<rparr>)\<rparr>)))"

lemma example_codec: "delimited_law encode_example decode_example"
proof -
  have "decode_example (encode_example m @ bs) = Some m" for m bs
    by (cases m; cases "rtc_inner m"; cases "the (rtc_inner m)")
      (auto simp: encode_example_def decode_example_def example_unstring_string example_unnumber_number)
  then show ?thesis by (simp add: delimited_law_def)
qed

theorem signaling_roundtrip_witness:
  "signaling_decrypt (decrypt_signaling example_open (@) decode_example [1]) DownloaderSide
     \<lparr>ers_ciphertext = encrypt_signaling example_seal (@) encode_example [1] (replicate 12 5)
        (replicate 12 6) UploaderSide \<lparr>rtc_inner = None\<rparr>\<rparr> = Inr \<lparr>rtc_inner = None\<rparr>"
  using signaling_roundtrip [OF example_aead example_codec, of "replicate 12 5" "replicate 12 6"
      "(@)" "[1]" UploaderSide "\<lparr>rtc_inner = None\<rparr>"]
  by (simp add: sizes)

end
