(* ===== verification/Client_Rtc.thy ===== *)
theory Client_Rtc
  imports Client_P2p
begin

text \<open>
  The two WebRTC stacks behind the trait \<open>Rtc\<close> of \<^verbatim>\<open>p2p.rs\<close>: \<^verbatim>\<open>p2p/native.rs\<close> over the
  datachannel crate and \<^verbatim>\<open>p2p/web.rs\<close> over the browser, their conversions to and from the
  signaling messages, the events their callbacks raise, and the registration of callbacks of
  \<^verbatim>\<open>util/web.rs\<close>. What the stacks answer is an input; a panic is \<open>None\<close>.
\<close>

subsection \<open>Conversions of the native stack\<close>

datatype native_sdp_type = NativeAnswer | NativeOffer | NativePranswer | NativeRollback

fun native_of_sdp_type :: "sdp_type \<Rightarrow> native_sdp_type" where
  "native_of_sdp_type Answer = NativeAnswer"
| "native_of_sdp_type Offer = NativeOffer"
| "native_of_sdp_type Pranswer = NativePranswer"
| "native_of_sdp_type Rollback = NativeRollback"

fun sdp_type_of_native :: "native_sdp_type \<Rightarrow> sdp_type" where
  "sdp_type_of_native NativeAnswer = Answer"
| "sdp_type_of_native NativeOffer = Offer"
| "sdp_type_of_native NativePranswer = Pranswer"
| "sdp_type_of_native NativeRollback = Rollback"

text \<open>A description holds parsed SDP; \<open>parse\<close> and \<open>print\<close> are those of the webrtc_sdp crate.\<close>

record 'sdp native_description =
  nd_sdp :: 'sdp
  nd_type :: native_sdp_type

datatype convert_error = SdpParse string | InvalidType i32

definition description_of_native ::
  "('sdp \<Rightarrow> string) \<Rightarrow> 'sdp native_description \<Rightarrow> session_description" where
  "description_of_native print d =
     \<lparr>sdp = print (nd_sdp d), sd_type = sdp_number (sdp_type_of_native (nd_type d))\<rparr>"

definition native_of_description ::
  "(string \<Rightarrow> string + 'sdp) \<Rightarrow> session_description \<Rightarrow> convert_error + 'sdp native_description" where
  "native_of_description parse d =
     (case parse (sdp d) of
        Inl e \<Rightarrow> Inl (SdpParse e)
      | Inr s \<Rightarrow>
     case sdp_of_number (sd_type d) of
        None \<Rightarrow> Inl (InvalidType (sd_type d))
      | Some t \<Rightarrow> Inr \<lparr>nd_sdp = s, nd_type = native_of_sdp_type t\<rparr>)"

subsection \<open>Conversions of the browser\<close>

text \<open>A number outside the enumeration is what \<open>RtcSdpType\<close> makes of an unknown string.\<close>

datatype web_sdp_type = WebOffer | WebPranswer | WebAnswer | WebRollback | WebInvalid

fun sdp_type_of_web :: "web_sdp_type \<Rightarrow> sdp_type option" where
  "sdp_type_of_web WebOffer = Some Offer"
| "sdp_type_of_web WebAnswer = Some Answer"
| "sdp_type_of_web WebPranswer = Some Pranswer"
| "sdp_type_of_web WebRollback = Some Rollback"
| "sdp_type_of_web WebInvalid = None"

fun web_of_sdp_type :: "sdp_type \<Rightarrow> web_sdp_type" where
  "web_of_sdp_type Offer = WebOffer"
| "web_of_sdp_type Answer = WebAnswer"
| "web_of_sdp_type Pranswer = WebPranswer"
| "web_of_sdp_type Rollback = WebRollback"

record web_description =
  wd_sdp :: string
  wd_type :: web_sdp_type

record web_candidate =
  wc_candidate :: string
  wc_mid :: "string option"

definition description_of_web :: "web_description \<Rightarrow> session_description option" where
  "description_of_web d =
     map_option (\<lambda>t. \<lparr>sdp = wd_sdp d, sd_type = sdp_number t\<rparr>) (sdp_type_of_web (wd_type d))"

definition web_of_description :: "session_description \<Rightarrow> web_description" where
  "web_of_description d = \<lparr>wd_sdp = sdp d, wd_type = web_of_sdp_type (description_type d)\<rparr>"

definition candidate_of_web :: "web_candidate \<Rightarrow> ice_candidate" where
  "candidate_of_web c =
     \<lparr>candidate = wc_candidate c, mid = (case wc_mid c of Some m \<Rightarrow> m | None \<Rightarrow> [])\<rparr>"

definition web_of_candidate :: "ice_candidate \<Rightarrow> web_candidate" where
  "web_of_candidate c = \<lparr>wc_candidate = candidate c, wc_mid = Some (mid c)\<rparr>"

lemma sdp_type_of_native_of [simp]: "sdp_type_of_native (native_of_sdp_type t) = t"
  by (cases t) simp_all

lemma native_of_sdp_type_of [simp]: "native_of_sdp_type (sdp_type_of_native n) = n"
  by (cases n) simp_all

lemma sdp_type_of_web_of [simp]: "sdp_type_of_web (web_of_sdp_type t) = Some t"
  by (cases t) simp_all

lemma sdp_type_of_web_Some: "sdp_type_of_web w = Some t \<longleftrightarrow> w = web_of_sdp_type t"
  by (cases w; cases t) simp_all

lemma description_type_number [simp]: "description_type \<lparr>sdp = s, sd_type = sdp_number t\<rparr> = t"
  by (simp add: description_type_def)

text \<open>What one peer's stack describes is what the other peer's stack is given, whichever of the
  two each uses: a description of the native stack arrives as itself, or as its text with the
  same type in a browser; one of a browser arrives there as itself, and in a native stack as
  its parsed text with the same type. Only a number that is no type is refused by the native
  stack, while a browser takes it for an answer.\<close>

theorem descriptions_cross_platforms:
  assumes "\<And>s. parse (print s) = Inr s"
  shows "native_of_description parse (description_of_native print n) = Inr n \<and>
    web_of_description (description_of_native print n)
      = \<lparr>wd_sdp = print (nd_sdp n), wd_type = web_of_sdp_type (sdp_type_of_native (nd_type n))\<rparr> \<and>
    (wd_type w \<noteq> WebInvalid \<longrightarrow>
      (\<exists>d. description_of_web w = Some d \<and> web_of_description d = w \<and>
         native_of_description parse d = map_sum SdpParse
           (\<lambda>s. \<lparr>nd_sdp = s, nd_type = native_of_sdp_type (the (sdp_type_of_web (wd_type w)))\<rparr>)
           (parse (wd_sdp w)))) \<and>
    (sdp_of_number k = None \<longrightarrow>
      wd_type (web_of_description \<lparr>sdp = t, sd_type = k\<rparr>) = WebAnswer \<and>
      (\<forall>r. native_of_description parse \<lparr>sdp = t, sd_type = k\<rparr> \<noteq> Inr r))"
proof (intro conjI impI)
  show "native_of_description parse (description_of_native print n) = Inr n"
    by (simp add: native_of_description_def description_of_native_def assms)
  show "web_of_description (description_of_native print n)
      = \<lparr>wd_sdp = print (nd_sdp n), wd_type = web_of_sdp_type (sdp_type_of_native (nd_type n))\<rparr>"
    by (simp add: web_of_description_def description_of_native_def)
next
  assume "wd_type w \<noteq> WebInvalid"
  then obtain ty where ty: "wd_type w = web_of_sdp_type ty"
    by (cases "wd_type w") (metis web_of_sdp_type.simps)+
  let ?d = "\<lparr>sdp = wd_sdp w, sd_type = sdp_number ty\<rparr>"
  have "description_of_web w = Some ?d" "web_of_description ?d = w"
    by (simp_all add: description_of_web_def web_of_description_def ty [symmetric])
      (simp add: ty)
  moreover have "native_of_description parse ?d = map_sum SdpParse
      (\<lambda>s. \<lparr>nd_sdp = s, nd_type = native_of_sdp_type (the (sdp_type_of_web (wd_type w)))\<rparr>) (parse (wd_sdp w))"
    by (simp add: native_of_description_def ty split: sum.split)
  ultimately show "\<exists>d. description_of_web w = Some d \<and> web_of_description d = w \<and>
      native_of_description parse d = map_sum SdpParse
        (\<lambda>s. \<lparr>nd_sdp = s, nd_type = native_of_sdp_type (the (sdp_type_of_web (wd_type w)))\<rparr>)
        (parse (wd_sdp w))" by blast
next
  assume k: "sdp_of_number k = None"
  then show "wd_type (web_of_description \<lparr>sdp = t, sd_type = k\<rparr>) = WebAnswer"
    by (simp add: web_of_description_def description_type_def)
  show "\<forall>r. native_of_description parse \<lparr>sdp = t, sd_type = k\<rparr> \<noteq> Inr r"
    using k by (auto simp: native_of_description_def split: sum.split)
qed

theorem descriptions_cross_platforms_witness:
  "native_of_description Inr (description_of_native id \<lparr>nd_sdp = ''v=0'', nd_type = NativeOffer\<rparr>)
     = Inr \<lparr>nd_sdp = ''v=0'', nd_type = NativeOffer\<rparr> \<and>
   web_of_description (description_of_native id \<lparr>nd_sdp = ''v=0'', nd_type = NativeOffer\<rparr>)
     = \<lparr>wd_sdp = ''v=0'', wd_type = WebOffer\<rparr> \<and>
   wd_type (web_of_description \<lparr>sdp = ''v=0'', sd_type = 9\<rparr>) = WebAnswer"
proof -
  have "sdp_of_number 9 = None" by (simp add: sdp_of_number_def)
  then show ?thesis
    using descriptions_cross_platforms [where parse = Inr and print = id and k = 9 and
        n = "\<lparr>nd_sdp = ''v=0'', nd_type = NativeOffer\<rparr>" and t = "''v=0''"]
    by simp
qed

text \<open>Candidates keep their text; a browser's missing media id becomes the empty one.\<close>

lemma candidate_roundtrip:
  "candidate_of_web (web_of_candidate c) = c"
  "wc_candidate (web_of_candidate (candidate_of_web w)) = wc_candidate w"
  "wc_mid (web_of_candidate (candidate_of_web w)) = Some (case wc_mid w of Some m \<Rightarrow> m | None \<Rightarrow> [])"
  by (simp_all add: candidate_of_web_def web_of_candidate_def)

subsection \<open>Peer connections\<close>

text \<open>
  The operations of a peer connection, and what the stack answers to one: its error, if any,
  and for the browser the description it creates. An operation returns the result and the
  signaling messages it sends itself.
\<close>

datatype rtc_operation =
    OfferOperation | AnswerOperation | RemoteOperation session_description
  | CandidateOperation ice_candidate

type_synonym 'p operated = "((error + unit) \<times> 'p \<times> rtc_inner list) option"

definition rtc_err :: "string \<Rightarrow> error" where "rtc_err source = RTCDataChannel source"

text \<open>The native stack signals its descriptions through callbacks.\<close>

record native_peer = np_local :: "sdp_type option"

definition native_new :: "string option \<Rightarrow> error + native_peer" where
  "native_new created = (case created of Some e \<Rightarrow> Inl (rtc_err e) | None \<Rightarrow> Inr \<lparr>np_local = None\<rparr>)"

definition native_set_local :: "sdp_type \<Rightarrow> string option \<Rightarrow> native_peer \<Rightarrow> native_peer operated" where
  "native_set_local t result p =
     Some (case result of
        Some e \<Rightarrow> (Inl (rtc_err e), p, [])
      | None \<Rightarrow> (Inr (), p\<lparr>np_local := Some t\<rparr>, []))"

definition native_set_remote ::
  "(string \<Rightarrow> string + 'sdp) \<Rightarrow> (convert_error \<Rightarrow> string) \<Rightarrow> session_description \<Rightarrow> string option \<Rightarrow>
   native_peer \<Rightarrow> native_peer operated" where
  "native_set_remote parse text d result p =
     Some (case native_of_description parse d of
        Inl e \<Rightarrow> (Inl (rtc_err (text e)), p, [])
      | Inr _ \<Rightarrow> (case result of Some e \<Rightarrow> (Inl (rtc_err e), p, []) | None \<Rightarrow> (Inr (), p, [])))"

definition native_add_candidate :: "ice_candidate \<Rightarrow> string option \<Rightarrow> native_peer \<Rightarrow> native_peer operated" where
  "native_add_candidate c result p =
     Some (case result of Some e \<Rightarrow> (Inl (rtc_err e), p, []) | None \<Rightarrow> (Inr (), p, []))"

fun native_operation ::
  "(string \<Rightarrow> string + 'sdp) \<Rightarrow> (convert_error \<Rightarrow> string) \<Rightarrow> string option \<Rightarrow> rtc_operation \<Rightarrow>
   native_peer \<Rightarrow> native_peer operated" where
  "native_operation parse text result OfferOperation p = native_set_local Offer result p"
| "native_operation parse text result AnswerOperation p = native_set_local Answer result p"
| "native_operation parse text result (RemoteOperation d) p = native_set_remote parse text d result p"
| "native_operation parse text result (CandidateOperation c) p = native_add_candidate c result p"

text \<open>
  The browser is asked for a description, which is then set as the local one and sent as the
  browser has it afterwards (\<open>unwrap\<close>). What the browser's connection keeps is its local
  description.
\<close>

record web_peer = wp_local :: "web_description option"

record web_answer =
  wa_created :: "string + web_description"
  wa_set :: "string option"
  wa_applied :: "string option"

definition web_new :: "string option \<Rightarrow> error + web_peer" where
  "web_new created = (case created of Some e \<Rightarrow> Inl (rtc_err e) | None \<Rightarrow> Inr \<lparr>wp_local = None\<rparr>)"

definition send_local_description ::
  "web_description \<Rightarrow> string option \<Rightarrow> web_peer \<Rightarrow> web_peer operated" where
  "send_local_description d result p =
     (case result of
        Some e \<Rightarrow> Some (Inl (rtc_err e), p, [])
      | None \<Rightarrow>
          (let p' = p\<lparr>wp_local := Some d\<rparr>
           in case wp_local p' of
                None \<Rightarrow> None
              | Some l \<Rightarrow> map_option (\<lambda>s. (Inr (), p', [SessionDescription s])) (description_of_web l)))"

definition web_create ::
  "web_answer \<Rightarrow> web_peer \<Rightarrow> web_peer operated" where
  "web_create a p =
     (case wa_created a of
        Inl e \<Rightarrow> Some (Inl (rtc_err e), p, [])
      | Inr d \<Rightarrow> send_local_description d (wa_set a) p)"

fun web_operation :: "web_answer \<Rightarrow> rtc_operation \<Rightarrow> web_peer \<Rightarrow> web_peer operated" where
  "web_operation a OfferOperation p = web_create a p"
| "web_operation a AnswerOperation p = web_create a p"
| "web_operation a (RemoteOperation d) p =
     Some (case wa_applied a of Some e \<Rightarrow> (Inl (rtc_err e), p, []) | None \<Rightarrow> (Inr (), p, []))"
| "web_operation a (CandidateOperation c) p =
     Some (case wa_applied a of Some e \<Rightarrow> (Inl (rtc_err e), p, []) | None \<Rightarrow> (Inr (), p, []))"

text \<open>The outer option is the panic on a type that is none.\<close>

definition web_local_type :: "web_peer \<Rightarrow> sdp_type option option" where
  "web_local_type p =
     (case wp_local p of
        None \<Rightarrow> Some None
      | Some d \<Rightarrow> map_option Some (sdp_type_of_web (wd_type d)))"

subsection \<open>What negotiation relies on\<close>

text \<open>
  The contract of a peer connection: a new one has no local description, an offer or an answer
  that succeeds becomes its type, and nothing else changes it. Under it the type is that of
  the last one created.
\<close>

definition created_type :: "rtc_operation \<Rightarrow> sdp_type option" where
  "created_type operation =
     (case operation of OfferOperation \<Rightarrow> Some Offer | AnswerOperation \<Rightarrow> Some Answer | _ \<Rightarrow> None)"

fun run_operations ::
  "('a \<Rightarrow> rtc_operation \<Rightarrow> 'p \<Rightarrow> 'p operated) \<Rightarrow> ('a \<times> rtc_operation) list \<Rightarrow> 'p \<Rightarrow>
   ((error + unit) list \<times> 'p) option" where
  "run_operations operate [] p = Some ([], p)"
| "run_operations operate ((a, operation) # ops) p =
     (case operate a operation p of
        None \<Rightarrow> None
      | Some (r, p', ms) \<Rightarrow> map_option (apfst (Cons r)) (run_operations operate ops p'))"

fun last_created :: "sdp_type option \<Rightarrow> rtc_operation list \<Rightarrow> (error + unit) list \<Rightarrow> sdp_type option" where
  "last_created t (operation # ops) (r # rs) =
     last_created (if r = Inr () \<and> created_type operation \<noteq> None then created_type operation else t) ops rs"
| "last_created t _ _ = t"

locale rtc_peer =
  fixes operate :: "'a \<Rightarrow> rtc_operation \<Rightarrow> 'p \<Rightarrow> 'p operated"
    and local_type :: "'p \<Rightarrow> sdp_type option option"
    and proper :: "'a \<Rightarrow> rtc_operation \<Rightarrow> bool"
  assumes operation_outcome: "proper a operation \<Longrightarrow> local_type p = Some t \<Longrightarrow>
    \<exists>r p' ms. operate a operation p = Some (r, p', ms) \<and>
      local_type p' = Some (if r = Inr () \<and> created_type operation \<noteq> None
        then created_type operation else t)"
begin

lemma local_type_last_created:
  "list_all (\<lambda>(a, operation). proper a operation) ops \<Longrightarrow> local_type p = Some t \<Longrightarrow>
   \<exists>rs p'. run_operations operate ops p = Some (rs, p') \<and> length rs = length ops \<and>
     local_type p' = Some (last_created t (map snd ops) rs)"
proof (induction ops arbitrary: p t)
  case Nil
  then show ?case by simp
next
  case (Cons op ops)
  obtain a operation where op: "op = (a, operation)" by fastforce
  obtain r p1 ms where r: "operate a operation p = Some (r, p1, ms)"
    "local_type p1 = Some (if r = Inr () \<and> created_type operation \<noteq> None then created_type operation else t)"
    using operation_outcome [of a operation p t] Cons.prems op by auto
  show ?case
    using Cons.IH [OF _ r(2)] Cons.prems(1) op r(1) by (auto split: if_splits)
qed

end

interpretation native_rtc: rtc_peer "native_operation parse text" "\<lambda>p. Some (np_local p)" "\<lambda>_ _. True"
proof
  fix result :: "string option" and operation and p :: native_peer and t
  assume "Some (np_local p) = Some t"
  then show "\<exists>r p' ms. native_operation parse text result operation p = Some (r, p', ms) \<and>
      Some (np_local p') = Some (if r = Inr () \<and> created_type operation \<noteq> None
        then created_type operation else t)"
    by (cases operation)
      (auto simp: native_set_local_def native_set_remote_def native_add_candidate_def created_type_def
        split: option.split sum.split)
qed

text \<open>A browser answers a request for an offer with an offer, and for an answer with an answer.\<close>

definition proper_browser :: "web_answer \<Rightarrow> rtc_operation \<Rightarrow> bool" where
  "proper_browser a operation =
     (case wa_created a of
        Inl e \<Rightarrow> True
      | Inr d \<Rightarrow>
          (case created_type operation of
             Some t \<Rightarrow> wd_type d = web_of_sdp_type t
           | None \<Rightarrow> True))"

lemma web_create_outcome:
  assumes "case wa_created a of Inl e \<Rightarrow> True | Inr d \<Rightarrow> wd_type d = web_of_sdp_type t"
  shows "\<exists>r p' ms. web_create a p = Some (r, p', ms) \<and>
    web_local_type p' = (if r = Inr () then Some (Some t) else web_local_type p)"
  using assms
  by (cases "wa_created a"; cases "wa_set a")
    (simp_all add: web_create_def send_local_description_def web_local_type_def description_of_web_def)

interpretation web_rtc: rtc_peer web_operation web_local_type proper_browser
proof
  fix a operation and p :: web_peer and t
  assume a: "proper_browser a operation" "web_local_type p = Some t"
  show "\<exists>r p' ms. web_operation a operation p = Some (r, p', ms) \<and>
      web_local_type p' = Some (if r = Inr () \<and> created_type operation \<noteq> None
        then created_type operation else t)"
  proof (cases operation)
    case OfferOperation
    then show ?thesis
      using a web_create_outcome [where a = a and t = Offer and p = p]
      by (fastforce simp: proper_browser_def created_type_def split: sum.splits)
  next
    case AnswerOperation
    then show ?thesis
      using a web_create_outcome [where a = a and t = Answer and p = p]
      by (fastforce simp: proper_browser_def created_type_def split: sum.splits)
  qed (use a in \<open>auto simp: created_type_def split: option.split\<close>)
qed

text \<open>Both stacks report the local description that negotiation goes by: over any operations,
  whatever fails, the local type is none at first and then that of the last offer or answer
  whose creation succeeded, and in a browser that answers properly nothing panics.\<close>

theorem rtc_local_type:
  assumes "list_all (\<lambda>(a, operation). proper_browser a operation) web_ops"
    and "native_new None = Inr n" and "web_new None = Inr w"
  shows "(\<exists>rs n'. run_operations (native_operation parse text) native_ops n = Some (rs, n') \<and>
      np_local n' = last_created None (map snd native_ops) rs) \<and>
    (\<exists>rs w'. run_operations web_operation web_ops w = Some (rs, w') \<and>
      web_local_type w' = Some (last_created None (map snd web_ops) rs))"
proof -
  have "np_local n = None" "web_local_type w = Some None"
    using assms(2,3) by (auto simp: native_new_def web_new_def web_local_type_def)
  then show ?thesis
    using web_rtc.local_type_last_created [OF assms(1), of w None]
      native_rtc.local_type_last_created [of native_ops n None parse "text"]
    by (auto simp: list_all_iff)
qed

theorem rtc_local_type_witness:
  "\<exists>rs w. run_operations web_operation
     [(\<lparr>wa_created = Inr \<lparr>wd_sdp = ''v=0'', wd_type = WebOffer\<rparr>, wa_set = None, wa_applied = None\<rparr>,
       OfferOperation),
      (\<lparr>wa_created = Inl ''closed'', wa_set = None, wa_applied = None\<rparr>, AnswerOperation)]
     \<lparr>wp_local = None\<rparr> = Some (rs, w) \<and> web_local_type w = Some (Some Offer)"
proof -
  let ?ops = "[(\<lparr>wa_created = Inr \<lparr>wd_sdp = ''v=0'', wd_type = WebOffer\<rparr>, wa_set = None, wa_applied = None\<rparr>,
       OfferOperation),
      (\<lparr>wa_created = Inl ''closed'', wa_set = None, wa_applied = None\<rparr>, AnswerOperation)]"
  have p: "list_all (\<lambda>(a, operation). proper_browser a operation) ?ops"
    by (simp add: proper_browser_def created_type_def)
  have w: "web_new None = Inr \<lparr>wp_local = None\<rparr>" and n: "native_new None = Inr \<lparr>np_local = None\<rparr>"
    by (simp_all add: web_new_def native_new_def)
  have "run_operations web_operation ?ops \<lparr>wp_local = None\<rparr>
      = Some ([Inr (), Inl (rtc_err ''closed'')], \<lparr>wp_local = Some \<lparr>wd_sdp = ''v=0'', wd_type = WebOffer\<rparr>\<rparr>)"
    by (simp add: web_create_def send_local_description_def description_of_web_def)
  then show ?thesis
    using rtc_local_type [OF p n w, of Inr "\<lambda>_. []" "[]"] by (auto simp: created_type_def)
qed

subsection \<open>Callbacks\<close>

text \<open>
  The queue of a peer-to-peer client takes events as long as it is there. The handler given to
  the WebRTC stack ignores that it is gone; the one given to the websocket reports it.
\<close>

definition peer_event_handle :: "u32 \<Rightarrow> peer_event \<Rightarrow> p2p_event list option \<Rightarrow> p2p_event list option" where
  "peer_event_handle i ev queue = map_option (\<lambda>q. q @ [ConnectionEvent i ev]) queue"

definition signaling_handle ::
  "encrypted_rtc_signaling \<Rightarrow> p2p_event list option \<Rightarrow> bool \<times> p2p_event list option" where
  "signaling_handle m queue =
     (case queue of None \<Rightarrow> (False, None) | Some q \<Rightarrow> (True, Some (q @ [IncomingSignaling m])))"

datatype 'sdp native_callback =
    OnDescription "'sdp native_description" | OnCandidate ice_candidate
  | OnConnectionState | OnGatheringState | OnSignalingState | OnDataChannel
  | OnOpen | OnClosed | OnError string | OnMessage bytes | OnBufferedAmountLow | OnAvailable

fun native_callback_event :: "('sdp \<Rightarrow> string) \<Rightarrow> 'sdp native_callback \<Rightarrow> peer_event option option" where
  "native_callback_event print (OnDescription d) =
     Some (Some (OutgoingSignaling (SessionDescription (description_of_native print d))))"
| "native_callback_event print (OnCandidate c) = Some (Some (OutgoingSignaling (IceCandidate c)))"
| "native_callback_event print OnConnectionState = Some None"
| "native_callback_event print OnGatheringState = Some None"
| "native_callback_event print OnSignalingState = Some None"
| "native_callback_event print OnDataChannel = None"
| "native_callback_event print OnOpen = Some (Some ChannelOpened)"
| "native_callback_event print OnClosed = Some None"
| "native_callback_event print (OnError e) = Some (Some (ChannelError e))"
| "native_callback_event print (OnMessage data) = Some (Some (ChannelMessage data))"
| "native_callback_event print OnBufferedAmountLow = Some None"
| "native_callback_event print OnAvailable = Some None"

text \<open>A message that is no \<open>ArrayBuffer\<close> panics, which the channel's binary type excludes.\<close>

datatype web_callback =
    OnIceCandidate "web_candidate option" | OnIceConnectionState | OnIceGatheringState
  | OnWebSignalingState | OnWebDataChannel
  | OnWebOpen | OnWebClose | OnWebError string | OnWebMessage "bytes option" | OnWebBufferedAmountLow

fun web_callback_event :: "web_callback \<Rightarrow> peer_event option option" where
  "web_callback_event (OnIceCandidate c) =
     Some (map_option (\<lambda>c. OutgoingSignaling (IceCandidate (candidate_of_web c))) c)"
| "web_callback_event OnIceConnectionState = Some None"
| "web_callback_event OnIceGatheringState = Some None"
| "web_callback_event OnWebSignalingState = Some None"
| "web_callback_event OnWebDataChannel = None"
| "web_callback_event OnWebOpen = Some (Some ChannelOpened)"
| "web_callback_event OnWebClose = Some None"
| "web_callback_event (OnWebError e) = Some (Some (ChannelError e))"
| "web_callback_event (OnWebMessage data) = map_option (\<lambda>d. Some (ChannelMessage d)) data"
| "web_callback_event OnWebBufferedAmountLow = Some None"

definition raise_event :: "u32 \<Rightarrow> peer_event option \<Rightarrow> p2p_event list option \<Rightarrow> p2p_event list option" where
  "raise_event i ev queue = (case ev of None \<Rightarrow> queue | Some ev \<Rightarrow> peer_event_handle i ev queue)"

lemma raise_events:
  "\<exists>new. foldl (\<lambda>q ev. raise_event i ev q) (Some q) evs = Some (q @ new) \<and>
     (\<forall>e \<in> set new. \<exists>pe. e = ConnectionEvent i pe)"
proof (induction evs arbitrary: q)
  case (Cons ev evs)
  show ?case
  proof (cases ev)
    case None
    then show ?thesis using Cons.IH [of q] by (simp add: raise_event_def)
  next
    case (Some pe)
    then show ?thesis
      using Cons.IH [of "q @ [ConnectionEvent i pe]"]
      by (fastforce simp: raise_event_def peer_event_handle_def)
  qed
qed simp

lemma stale_turn:
  assumes "next_event (ts_timeout st) t = Some (Inr (ConnectionEvent i pe))" and "i \<noteq> pc_id (ts_client st)"
  shows "transfer_loop env h st (t # ts) = transfer_loop env h st ts"
  using assms by (cases "transfer_loop env h st ts") (auto simp: transfer_event_def)

text \<open>C39: A connection that was replaced no longer matters: whatever events the callbacks of its
  peer connection and its channel still raise, in either stack, the transfer loop passes over
  them, so that only the current connection can end a transfer or feed it data.\<close>

theorem stale_callbacks_ignored:
  assumes "i \<noteq> pc_id (ts_client st)"
    and "foldl (\<lambda>q ev. raise_event i ev q) (Some []) evs = Some q"
    and "map (next_event (ts_timeout st)) turns = map (\<lambda>e. Some (Inr e)) q"
  shows "transfer_loop env h st (turns @ ts) = transfer_loop env h st ts"
proof -
  from raise_events [of i "[]" evs] assms(2)
  have stale: "\<forall>e \<in> set q. \<exists>pe. e = ConnectionEvent i pe" by auto
  from assms(3) stale show ?thesis
  proof (induction turns arbitrary: q)
    case (Cons t turns)
    from Cons.prems obtain e q' where q: "q = e # q'" by (cases q) auto
    with Cons.prems obtain pe where "next_event (ts_timeout st) t = Some (Inr (ConnectionEvent i pe))"
      by auto
    from stale_turn [OF this assms(1), of env h] Cons.IH [of q'] Cons.prems q
    show ?case by simp
  qed simp
qed

theorem stale_callbacks_ignored_witness:
  "transfer_loop example_env (connect_handler (\<lambda>_. None) Inr (\<lambda>_. None) None)
     (example_download\<lparr>ts_client := idle_client\<lparr>pc_id := 1\<rparr>\<rparr>)
     [example_turn 10 ChannelOpened, example_turn 11 (ChannelError ''gone'')]
   = Some ([], None, example_download\<lparr>ts_client := idle_client\<lparr>pc_id := 1\<rparr>\<rparr>)"
proof -
  let ?st = "example_download\<lparr>ts_client := idle_client\<lparr>pc_id := 1\<rparr>\<rparr>"
  have i: "0 \<noteq> pc_id (ts_client ?st)" by simp
  have q: "foldl (\<lambda>q ev. raise_event 0 ev q) (Some []) [Some ChannelOpened, None, Some (ChannelError ''gone'')]
      = Some [ConnectionEvent 0 ChannelOpened, ConnectionEvent 0 (ChannelError ''gone'')]"
    by (simp add: raise_event_def peer_event_handle_def)
  have t: "map (next_event (ts_timeout ?st)) [example_turn 10 ChannelOpened, example_turn 11 (ChannelError ''gone'')]
      = map (\<lambda>e. Some (Inr e)) [ConnectionEvent 0 ChannelOpened, ConnectionEvent 0 (ChannelError ''gone'')]"
    by (simp add: example_download_def example_turn_def next_event_def timeout_remaining_def)
  from stale_callbacks_ignored [OF i q t, where ts = "[]"] show ?thesis by simp
qed


subsection \<open>Connections\<close>

text \<open>
  A connection is made of a peer connection and its channel, the channel only once the peer
  connection is there; what the stack answers to either is an input.
\<close>

definition connection_new :: "error + 'p \<Rightarrow> ('p \<Rightarrow> string option) \<Rightarrow> error + 'p" where
  "connection_new peer_connection new_channel =
     (case peer_connection of
        Inl e \<Rightarrow> Inl e
      | Inr p \<Rightarrow> (case new_channel p of Some e \<Rightarrow> Inl (rtc_err e) | None \<Rightarrow> Inr p))"

definition channel_send :: "(bytes \<Rightarrow> string option) \<Rightarrow> bytes \<Rightarrow> error option" where
  "channel_send rtc_send message = map_option rtc_err (rtc_send message)"

definition send_downloader_message ::
  "(downloader_message \<Rightarrow> bytes) \<Rightarrow> (bytes \<Rightarrow> string option) \<Rightarrow> downloader_inner \<Rightarrow> error option" where
  "send_downloader_message encode rtc_send m =
     channel_send rtc_send (encode \<lparr>dm_inner = Some m\<rparr>)"

definition send_uploader_message ::
  "(uploader_message \<Rightarrow> bytes) \<Rightarrow> (bytes \<Rightarrow> string option) \<Rightarrow> uploader_inner \<Rightarrow> error option" where
  "send_uploader_message encode rtc_send m =
     channel_send rtc_send (encode \<lparr>um_inner = Some m\<rparr>)"

text \<open>
  The channel itself is announced by nobody: both ends create it, negotiated, under the same
  stream and label, so that a native client and a browser meet on it.
\<close>

definition DATA_CHANNEL_LABEL :: string where "DATA_CHANNEL_LABEL = ''glopfile''"
definition DATA_CHANNEL_ID :: u16 where "DATA_CHANNEL_ID = 0"

record channel_setup =
  cs_label :: string
  cs_negotiated :: bool
  cs_stream :: "u16 option"

definition native_new_data_channel :: "u16 \<Rightarrow> string \<Rightarrow> (channel_setup \<Rightarrow> string option) \<Rightarrow> error + channel_setup" where
  "native_new_data_channel stream label rtc_create =
     (let init = \<lparr>cs_label = label, cs_negotiated = True, cs_stream = Some stream\<rparr>
      in case rtc_create init of Some e \<Rightarrow> Inl (rtc_err e) | None \<Rightarrow> Inr init)"

text \<open>In the browser messages come as array buffers, which is what the callback expects of them.\<close>

datatype rtc_data_channel_type = Blob | Arraybuffer

definition web_new_data_channel :: "u16 \<Rightarrow> string \<Rightarrow> channel_setup \<times> rtc_data_channel_type" where
  "web_new_data_channel stream label =
     (\<lparr>cs_label = label, cs_negotiated = True, cs_stream = Some stream\<rparr>, Arraybuffer)"

lemma channels_meet:
  assumes "native_new_data_channel DATA_CHANNEL_ID DATA_CHANNEL_LABEL rtc_create = Inr ch"
  shows "web_new_data_channel DATA_CHANNEL_ID DATA_CHANNEL_LABEL = (ch, Arraybuffer)" and "cs_negotiated ch"
  using assms by (auto simp: native_new_data_channel_def web_new_data_channel_def Let_def split: option.splits)

end
