(* ===== verification/Client_Negotiation.thy ===== *)
theory Client_Negotiation
  imports Client_Rtc
begin

text \<open>
  Two peer-to-peer clients (\<^verbatim>\<open>p2p.rs\<close>) that negotiate a connection with each other: the
  downloader's, which offers it, and offers it again when it falls back (\<open>connect_p2p\<close> of
  \<^verbatim>\<open>downloader_client.rs\<close>), and the uploader's, which answers, on a new connection if it had
  answered before. Their WebRTC stacks raise events, their transfer loops take these and the
  signaling messages from one queue each, and the encrypted messages travel through the relay,
  which keeps their order (\<open>Relay_Session_Frames\<close>, \<open>Relay_Websocket\<close>) but may lose some with a
  connection. Everything interleaves.
\<close>

subsection \<open>One side\<close>

text \<open>
  A client with its queue; \<open>sd_told\<close> logs what its peer connection was told of the other
  side, \<open>sd_raised\<close> what its stack wanted signaled.
\<close>

record side =
  sd_client :: p2p_client
  sd_queue :: "p2p_event list"
  sd_told :: "peer_call list"
  sd_raised :: "rtc_inner list"

record signaling_cipher =
  sc_seal :: sealer
  sc_open :: opener
  sc_hkdf :: "bytes \<Rightarrow> bytes \<Rightarrow> bytes"
  sc_encode :: "rtc_signaling_message \<Rightarrow> bytes"
  sc_decode :: "bytes \<Rightarrow> rtc_signaling_message option"
  sc_key :: cipher_key

text \<open>What a turn of the transfer loop needs of its surroundings.\<close>

record side_io =
  si_rtc :: rtc
  si_timeout :: "inactivity option"
  si_flush :: "nat \<Rightarrow> flush_io"
  si_nonce :: bytes
  si_rnd :: bytes

definition side_send ::
  "signaling_cipher \<Rightarrow> signaling_usage \<Rightarrow> side_io \<Rightarrow> signaling \<Rightarrow> rtc_inner \<Rightarrow>
   (error + unit) \<times> signaling \<times> (nat \<times> bytes) list" where
  "side_send k u io =
     signaling_send (encrypt_signaling (sc_seal k) (sc_hkdf k) (sc_encode k) (sc_key k) (si_nonce io) (si_rnd io))
       u (si_timeout io) (si_flush io)"

definition side_decrypt ::
  "signaling_cipher \<Rightarrow> signaling_usage \<Rightarrow> encrypted_rtc_signaling \<Rightarrow> error + rtc_signaling_message" where
  "side_decrypt k = signaling_decrypt (decrypt_signaling (sc_open k) (sc_hkdf k) (sc_decode k) (sc_key k))"

text \<open>
  One event of the queue, as \<open>transfer\<close> handles it, with the ciphertexts that go out. An error
  ends the transfer, but a later one may go on with the same client. What is opened or said on
  the channel is for the transfer's handler.
\<close>

definition side_event ::
  "signaling_cipher \<Rightarrow> signaling_usage \<Rightarrow> side_io \<Rightarrow> side \<Rightarrow> p2p_event \<Rightarrow> (side \<times> bytes list) option" where
  "side_event k u io s ev =
     (case ev of
        IncomingSignaling m \<Rightarrow>
          map_option (\<lambda>(r, c, calls). (s\<lparr>sd_client := c, sd_told := sd_told s @ calls\<rparr>, []))
            (incoming_signaling (si_rtc io) (side_decrypt k u) (sd_client s) m)
      | ConnectionEvent i (OutgoingSignaling m) \<Rightarrow>
          if i \<noteq> pc_id (sd_client s) then Some (s, [])
          else map_option
            (\<lambda>(r, c). (s\<lparr>sd_client := c\<rparr>,
               if outgoing_admitted m = Some True
               then map snd (snd (snd (side_send k u io (pc_signaling (sd_client s)) m))) else []))
            (outgoing_signaling (side_send k u io) (sd_client s) m)
      | ConnectionEvent i _ \<Rightarrow> Some (s, []))"

text \<open>It is the loop's own handling of the event.\<close>

lemma side_event_transfer:
  assumes "side_event k u io s ev = Some (s', out)"
    and "transfer_event
      \<lparr>te_last_instant = l, te_rtc = si_rtc io, te_usage = u,
       te_encrypt = encrypt_signaling (sc_seal k) (sc_hkdf k) (sc_encode k) (sc_key k) (si_nonce io) (si_rnd io),
       te_decrypt = decrypt_signaling (sc_open k) (sc_hkdf k) (sc_decode k) (sc_key k)\<rparr>
      h \<lparr>ts_client = sd_client s, ts_timeout = si_timeout io, ts_handler = hs\<rparr> t ev = Some (ms, v, st)"
    and "tn_io t = si_flush io"
  shows "sd_client s' = ts_client st"
proof (cases ev)
  case (IncomingSignaling m)
  then show ?thesis
    using assms by (auto simp: side_event_def transfer_event_def side_decrypt_def split: option.splits sum.splits)
next
  case (ConnectionEvent i pe)
  then show ?thesis
    using assms
    by (cases pe) (auto simp: side_event_def transfer_event_def side_send_def call_handler_def
        split: option.splits sum.splits if_splits)
qed

subsection \<open>Messages\<close>

text \<open>What a peer connection is told, what a ciphertext says, and what a queue holds of either.\<close>

definition told_messages :: "peer_call list \<Rightarrow> rtc_inner list" where
  "told_messages calls =
     concat (map (\<lambda>c. case c of SetRemote d \<Rightarrow> [SessionDescription d] | AddCandidate i \<Rightarrow> [IceCandidate i] | _ \<Rightarrow> []) calls)"

definition readable :: "signaling_cipher \<Rightarrow> signaling_usage \<Rightarrow> bytes \<Rightarrow> rtc_inner list" where
  "readable k u ct =
     (case side_decrypt k u \<lparr>ers_ciphertext = ct\<rparr> of
        Inl _ \<Rightarrow> []
      | Inr m \<Rightarrow> (case rtc_inner m of Some x \<Rightarrow> [x] | None \<Rightarrow> []))"

definition readables :: "signaling_cipher \<Rightarrow> signaling_usage \<Rightarrow> bytes list \<Rightarrow> rtc_inner list" where
  "readables k u cts = concat (map (readable k u) cts)"

definition incoming_queued :: "signaling_cipher \<Rightarrow> signaling_usage \<Rightarrow> p2p_event list \<Rightarrow> rtc_inner list" where
  "incoming_queued k u q =
     concat (map (\<lambda>e. case e of IncomingSignaling m \<Rightarrow> readable k u (ers_ciphertext m) | _ \<Rightarrow> []) q)"

definition outgoing_of :: "peer_event \<Rightarrow> rtc_inner list" where
  "outgoing_of pe = (case pe of OutgoingSignaling m \<Rightarrow> [m] | _ \<Rightarrow> [])"

text \<open>An empty candidate ends the gathering and is not signaled.\<close>

definition signaled :: "rtc_inner list \<Rightarrow> rtc_inner list" where
  "signaled ms = filter (\<lambda>m. outgoing_admitted m = Some True) ms"

definition outgoing_queued :: "p2p_event list \<Rightarrow> rtc_inner list" where
  "outgoing_queued q = signaled (concat (map (\<lambda>e. case e of ConnectionEvent i pe \<Rightarrow> outgoing_of pe | _ \<Rightarrow> []) q))"

subsection \<open>Both sides\<close>

text \<open>
  \<open>ng_wire u\<close> are the ciphertexts on their way to side \<open>u\<close>. \<open>ng_lossy\<close> says whether any message was
  ever lost: on the way, because sending it failed, because its connection was replaced while
  it was queued, or because the connection that should have been told of it could not be made.
\<close>

record negotiating =
  ng_side :: "signaling_usage \<Rightarrow> side"
  ng_wire :: "signaling_usage \<Rightarrow> bytes list"
  ng_lossy :: bool

datatype negotiating_event =
    StackRaises signaling_usage peer_event
  | OffersAgain rtc
  | TakesTurn signaling_usage side_io
  | Arrives signaling_usage
  | GetsLost signaling_usage

text \<open>The clients as \<open>download_p2p\<close> and the uploader make them, the websocket client set or not.\<close>

definition fresh_side :: "p2p_client \<Rightarrow> bool \<Rightarrow> peer_call list \<Rightarrow> side" where
  "fresh_side c socket calls =
     \<lparr>sd_client = (if socket then set_websocket_client c else c), sd_queue = [], sd_told = calls, sd_raised = []\<rparr>"

definition negotiating_start :: "rtc \<Rightarrow> rtc \<Rightarrow> bool \<Rightarrow> bool \<Rightarrow> (error + negotiating) option" where
  "negotiating_start up_rtc down_rtc up_socket down_socket =
     (case p2p_new up_rtc of
        Inl e \<Rightarrow> Some (Inl e)
      | Inr up \<Rightarrow>
          (case p2p_new down_rtc of
             Inl e \<Rightarrow> Some (Inl e)
           | Inr down \<Rightarrow>
               (case create_offer down_rtc down of
                  None \<Rightarrow> None
                | Some (Inl e, _) \<Rightarrow> Some (Inl e)
                | Some (Inr _, down, calls) \<Rightarrow>
                    Some (Inr
                      \<lparr>ng_side = (\<lambda>u. case u of
                         UploaderSide \<Rightarrow> fresh_side up up_socket []
                       | DownloaderSide \<Rightarrow> fresh_side down down_socket calls),
                       ng_wire = (\<lambda>_. []), ng_lossy = False\<rparr>))))"

text \<open>
  Whether the handling of an event lost its message: one of the peer's that could be read and was
  not told to the connection, or one raised that was neither sent nor kept to be sent. A turn
  with good answers of the stack and the websocket, where nothing is stuck, loses nothing
  (\<open>good_side_turn\<close>).
\<close>

definition message_lost ::
  "signaling_cipher \<Rightarrow> signaling_usage \<Rightarrow> side \<Rightarrow> p2p_event \<Rightarrow> side \<Rightarrow> bytes list \<Rightarrow> bool" where
  "message_lost k u s ev s' out =
     (case ev of
        IncomingSignaling m \<Rightarrow>
          length (told_messages (sd_told s')) < length (told_messages (sd_told s)) + length (readable k u (ers_ciphertext m))
      | ConnectionEvent i pe \<Rightarrow>
          length (sg_pending (pc_signaling (sd_client s'))) + length out
            < length (sg_pending (pc_signaling (sd_client s))) + length (signaled (outgoing_of pe)))"

definition negotiating_step ::
  "signaling_cipher \<Rightarrow> negotiating \<Rightarrow> negotiating_event \<Rightarrow> negotiating option" where
  "negotiating_step k g ev =
     (case ev of
        StackRaises u pe \<Rightarrow>
          (let s = ng_side g u
           in Some (g\<lparr>ng_side := (ng_side g)(u := s\<lparr>sd_queue := sd_queue s @ [ConnectionEvent (pc_id (sd_client s)) pe],
                sd_raised := sd_raised s @ outgoing_of pe\<rparr>)\<rparr>))
      | OffersAgain rtc \<Rightarrow>
          (let s = ng_side g DownloaderSide
           in map_option
             (\<lambda>(r, c, calls). g\<lparr>ng_side := (ng_side g)(DownloaderSide := s\<lparr>sd_client := c, sd_told := sd_told s @ calls\<rparr>)\<rparr>)
             (create_offer rtc (sd_client s)))
      | TakesTurn u io \<Rightarrow>
          (let s = ng_side g u
           in case sd_queue s of
                [] \<Rightarrow> Some g
              | e # q \<Rightarrow>
                  map_option
                    (\<lambda>(s', out). g\<lparr>ng_side := (ng_side g)(u := s'\<lparr>sd_queue := q\<rparr>),
                       ng_wire := (ng_wire g)(peer_side u := ng_wire g (peer_side u) @ out),
                       ng_lossy := (ng_lossy g \<or> message_lost k u s e s' out)\<rparr>)
                    (side_event k u io s e))
      | Arrives u \<Rightarrow>
          (case ng_wire g u of
             [] \<Rightarrow> Some g
           | ct # cts \<Rightarrow>
               (let s = ng_side g u
                in Some (g\<lparr>ng_wire := (ng_wire g)(u := cts),
                     ng_side := (ng_side g)(u := s\<lparr>sd_queue := sd_queue s @ [IncomingSignaling \<lparr>ers_ciphertext = ct\<rparr>]\<rparr>)\<rparr>)))
      | GetsLost u \<Rightarrow> Some (g\<lparr>ng_wire := (ng_wire g)(u := tl (ng_wire g u)), ng_lossy := True\<rparr>))"

text \<open>
  What the WebRTC stack of a connection raises, as its standard has it: at most one description
  for each offer or answer it was asked for, of that type, and candidates only after a
  description. Nonces have their length.
\<close>

fun is_description :: "rtc_inner \<Rightarrow> bool" where
  "is_description (SessionDescription d) = True"
| "is_description (IceCandidate c) = False"

definition descriptions :: "rtc_inner list \<Rightarrow> nat" where
  "descriptions ms = length (filter is_description ms)"

definition creations :: "signaling_usage \<Rightarrow> peer_call list \<Rightarrow> nat" where
  "creations u calls = length (filter (\<lambda>c. c = (case u of UploaderSide \<Rightarrow> CreateAnswer | DownloaderSide \<Rightarrow> CreateOffer)) calls)"

definition negotiating_allowed :: "negotiating \<Rightarrow> negotiating_event \<Rightarrow> bool" where
  "negotiating_allowed g ev =
     (case ev of
        StackRaises u (OutgoingSignaling (SessionDescription d)) \<Rightarrow>
          pc_local (sd_client (ng_side g u)) = Some (description_type d) \<and>
          descriptions (sd_raised (ng_side g u)) < creations u (sd_told (ng_side g u))
      | StackRaises u (OutgoingSignaling (IceCandidate c)) \<Rightarrow> sd_raised (ng_side g u) \<noteq> []
      | TakesTurn u io \<Rightarrow> length (si_nonce io) = NONCE_SIZE \<and> length (si_rnd io) = NONCE_SIZE
      | _ \<Rightarrow> True)"

fun negotiating_run ::
  "signaling_cipher \<Rightarrow> negotiating \<Rightarrow> negotiating_event list \<Rightarrow> negotiating option" where
  "negotiating_run k g [] = Some g"
| "negotiating_run k g (ev # evs) =
     (if negotiating_allowed g ev
      then Option.bind (negotiating_step k g ev) (\<lambda>g. negotiating_run k g evs)
      else negotiating_run k g evs)"

subsection \<open>What is on its way\<close>

text \<open>
  The messages for a side, back from its connection to the stack that raised them: in its
  queue, on the wire, pending at the other side, in the other side's queue.
\<close>

definition underway :: "signaling_cipher \<Rightarrow> negotiating \<Rightarrow> signaling_usage \<Rightarrow> rtc_inner list" where
  "underway k g u =
     incoming_queued k u (sd_queue (ng_side g u)) @ readables k u (ng_wire g u) @
     readables k u (sg_pending (pc_signaling (sd_client (ng_side g (peer_side u))))) @
     outgoing_queued (sd_queue (ng_side g (peer_side u)))"

lemma message_simps [simp]:
  "told_messages [] = []" "told_messages (xs @ ys) = told_messages xs @ told_messages ys"
  "told_messages (SetRemote d # xs) = SessionDescription d # told_messages xs"
  "told_messages (AddCandidate cand # xs) = IceCandidate cand # told_messages xs"
  "told_messages (CreateAnswer # xs) = told_messages xs" "told_messages (CreateOffer # xs) = told_messages xs"
  "told_messages (NewConnection new # xs) = told_messages xs"
  "readables k u [] = []" "readables k u (xs' @ ys') = readables k u xs' @ readables k u ys'"
  "readables k u (ct # cts) = readable k u ct @ readables k u cts"
  "incoming_queued k u [] = []" "incoming_queued k u (q @ q') = incoming_queued k u q @ incoming_queued k u q'"
  "incoming_queued k u (IncomingSignaling m # q) = readable k u (ers_ciphertext m) @ incoming_queued k u q"
  "incoming_queued k u (ConnectionEvent i pe # q) = incoming_queued k u q"
  "signaled [] = []" "signaled (ms @ ms') = signaled ms @ signaled ms'"
  "outgoing_queued [] = []" "outgoing_queued (q @ q') = outgoing_queued q @ outgoing_queued q'"
  "outgoing_queued (IncomingSignaling m # q) = outgoing_queued q"
  "outgoing_queued (ConnectionEvent i pe # q) = signaled (outgoing_of pe) @ outgoing_queued q"
  by (simp_all add: told_messages_def readables_def incoming_queued_def signaled_def outgoing_queued_def)

lemma count_simps [simp]:
  "descriptions [] = 0" "descriptions (ms @ ms') = descriptions ms + descriptions ms'"
  "descriptions (SessionDescription d # ms) = Suc (descriptions ms)"
  "descriptions (IceCandidate c # ms) = descriptions ms"
  "creations u [] = 0" "creations u (cs @ cs') = creations u cs + creations u cs'"
  "creations u (NewConnection i # cs) = creations u cs" "creations u (SetRemote d # cs) = creations u cs"
  "creations u (AddCandidate cand # cs) = creations u cs"
  "creations u (CreateAnswer # cs) = (if u = UploaderSide then 1 else 0) + creations u cs"
  "creations u (CreateOffer # cs) = (if u = DownloaderSide then 1 else 0) + creations u cs"
  by (simp_all add: descriptions_def creations_def split: signaling_usage.split)

lemma peer_side_simps [simp]: "peer_side (peer_side u) = u" "peer_side u \<noteq> u" "u \<noteq> peer_side u"
  by (cases u; simp)+

lemma peer_side_cases: "v = u \<or> v = peer_side u"
  by (cases u; cases v) simp_all

lemma subseq_concat_map: "subseq xs ys \<Longrightarrow> subseq (concat (map f xs)) (concat (map f ys))"
proof (induction rule: list_emb.induct)
  case (list_emb_Cons xs ys y)
  then show ?case using subseq_order.trans by fastforce
next
  case (list_emb_Cons2 x y xs ys)
  then show ?case by (simp add: list_emb_append_mono)
qed simp

lemma subseq_member: "subseq xs ys \<Longrightarrow> x \<in> set xs \<Longrightarrow> x \<in> set ys"
  by (induction rule: list_emb.induct) auto

text \<open>What a side sends, the other side reads.\<close>

definition lawful_cipher :: "signaling_cipher \<Rightarrow> bool" where
  "lawful_cipher k = (aead_law (sc_seal k) (sc_open k) \<and> delimited_law (sc_encode k) (sc_decode k))"

lemma readable_encrypted:
  assumes "lawful_cipher k" and "length nonce = NONCE_SIZE" and "length rnd = NONCE_SIZE"
  shows "readable k (peer_side u)
    (encrypt_signaling (sc_seal k) (sc_hkdf k) (sc_encode k) (sc_key k) nonce rnd u \<lparr>rtc_inner = Some m\<rparr>) = [m]"
  using native.message_roundtrip [of "sc_seal k" "sc_open k" "sc_encode k" "sc_decode k" nonce rnd] assms
  by (auto simp: readable_def side_decrypt_def signaling_decrypt_def decrypt_signaling_def encrypt_signaling_def
      lawful_cipher_def)

lemma flush_keeps_order:
  assumes "signaling_flush timeout io s = (r, s', sent)"
  shows "subseq (map snd sent @ sg_pending s') (sg_pending s)"
    and "length (sg_pending s) \<le> length (sg_pending s') + length sent \<Longrightarrow>
      map snd sent @ sg_pending s' = sg_pending s"
proof -
  have "subseq (map snd sent @ sg_pending s') (sg_pending s) \<and>
    (length (sg_pending s) \<le> length (sg_pending s') + length sent \<longrightarrow> map snd sent @ sg_pending s' = sg_pending s)"
  proof (cases "sg_client s")
    case False
    then show ?thesis using assms by (auto simp: signaling_flush_def)
  next
    case True
    let ?p = "sg_pending s"
    obtain sock' queue where f: "flush_loop timeout io 0 (sg_websocket s) ?p = (r, sock', queue, sent)"
      and q: "sg_pending s' = queue"
      using assms True by (auto simp: signaling_flush_def split: prod.splits)
    obtain n where n: "n \<le> length ?p" "queue = drop n ?p"
      "map snd sent = map ((!) ?p) (filter (\<lambda>j. fi_send (io (0 + j)) = None) [0..<n])"
      using flush_loop_outcome [OF f] by blast
    have t: "map ((!) ?p) [0..<n] = take n ?p" using n(1) by (simp add: map_nth take_map [symmetric] take_upt list_eq_iff_nth_eq)
    have "subseq (map snd sent) (take n ?p)" unfolding n(3) t [symmetric] by (intro subseq_map subseq_filter_left)
    then have sub: "subseq (map snd sent @ queue) (take n ?p @ drop n ?p)"
      unfolding n(2) by (intro list_emb_append_mono) simp_all
    have "map snd sent @ queue = take n ?p @ drop n ?p" if "length ?p \<le> length queue + length sent"
      using that sub list_emb_length [OF sub] by (intro subseq_same_length) (simp_all add: n(2))
    then show ?thesis using sub q by simp
  qed
  then show "subseq (map snd sent @ sg_pending s') (sg_pending s)"
    and "length (sg_pending s) \<le> length (sg_pending s') + length sent \<Longrightarrow>
      map snd sent @ sg_pending s' = sg_pending s" by blast+
qed

lemma side_send_order:
  assumes send: "side_send k u io s m = (r, s', sent)" and k: "lawful_cipher k"
    and n: "length (si_nonce io) = NONCE_SIZE" "length (si_rnd io) = NONCE_SIZE"
  shows "subseq (readables k (peer_side u) (map snd sent @ sg_pending s'))
      (readables k (peer_side u) (sg_pending s) @ [m])"
    and "Suc (length (sg_pending s)) \<le> length (sg_pending s') + length sent \<Longrightarrow>
      readables k (peer_side u) (map snd sent @ sg_pending s') = readables k (peer_side u) (sg_pending s) @ [m]"
proof -
  let ?ct = "encrypt_signaling (sc_seal k) (sc_hkdf k) (sc_encode k) (sc_key k) (si_nonce io) (si_rnd io) u
    \<lparr>rtc_inner = Some m\<rparr>"
  have f: "signaling_flush (si_timeout io) (si_flush io) (s\<lparr>sg_pending := sg_pending s @ [?ct]\<rparr>) = (r, s', sent)"
    using send by (simp add: side_send_def signaling_send_def)
  have r: "readables k (peer_side u) (sg_pending s @ [?ct]) = readables k (peer_side u) (sg_pending s) @ [m]"
    using readable_encrypted [OF k n, of u m] by simp
  show "subseq (readables k (peer_side u) (map snd sent @ sg_pending s'))
      (readables k (peer_side u) (sg_pending s) @ [m])"
    using subseq_concat_map [OF flush_keeps_order(1) [OF f], of "readable k (peer_side u)"] r by (simp add: readables_def)
  show "readables k (peer_side u) (map snd sent @ sg_pending s') = readables k (peer_side u) (sg_pending s) @ [m]"
    if "Suc (length (sg_pending s)) \<le> length (sg_pending s') + length sent"
    using flush_keeps_order(2) [OF f] that r by simp
qed

subsection \<open>The negotiation\<close>

text \<open>
  The invariant of a run of at most \<open>n\<close> events: what a side was told and what is underway to it
  is what the other stack raised, in order, with gaps only where something was lost; the stacks
  raise offers and answers, as many as they were asked for; the downloader's client keeps
  offering, and the uploader's creates an answer only when it was told of an offer.
\<close>

definition own_type :: "signaling_usage \<Rightarrow> sdp_type" where
  "own_type u = (case u of UploaderSide \<Rightarrow> Answer | DownloaderSide \<Rightarrow> Offer)"

definition raised_ok :: "signaling_usage \<Rightarrow> rtc_inner list \<Rightarrow> bool" where
  "raised_ok u ms =
     ((\<forall>d. SessionDescription d \<in> set ms \<longrightarrow> description_type d = own_type u) \<and>
      (ms = [] \<or> is_description (hd ms)))"

fun queued_ok :: "rtc_inner list \<Rightarrow> p2p_event \<Rightarrow> bool" where
  "queued_ok raised (IncomingSignaling m) = True"
| "queued_ok raised (ConnectionEvent i pe) = (set (outgoing_of pe) \<subseteq> set raised)"

lemma queued_ok_more: "queued_ok raised e \<Longrightarrow> queued_ok (raised @ ms) e"
  by (cases e) auto

definition side_ok :: "nat \<Rightarrow> signaling_usage \<Rightarrow> side \<Rightarrow> bool" where
  "side_ok n u s =
     (raised_ok u (sd_raised s) \<and> descriptions (sd_raised s) \<le> creations u (sd_told s) \<and>
      list_all (queued_ok (sd_raised s)) (sd_queue s) \<and>
      pc_alive (sd_client s) \<and> unat (pc_id (sd_client s)) \<le> n \<and>
      (case u of
         DownloaderSide \<Rightarrow> pc_local (sd_client s) = Some Offer
       | UploaderSide \<Rightarrow>
           pc_local (sd_client s) \<in> {None, Some Answer} \<and>
           (pc_local (sd_client s) = Some Answer \<longrightarrow> 1 \<le> creations UploaderSide (sd_told s)) \<and>
           creations UploaderSide (sd_told s) \<le> descriptions (told_messages (sd_told s))))"

text \<open>One direction: what was told and is underway against what was raised.\<close>

definition way_ok :: "bool \<Rightarrow> rtc_inner list \<Rightarrow> rtc_inner list \<Rightarrow> bool" where
  "way_ok lossy xs ys = (subseq xs ys \<and> (\<not> lossy \<longrightarrow> xs = ys))"

lemma way_ok_more: "way_ok lossy (xs @ zs) (ys @ zs) = way_ok lossy xs ys"
  by (simp add: way_ok_def)

lemma way_ok_less:
  "way_ok lossy (a @ xs @ b) ys \<Longrightarrow> subseq xs' xs \<Longrightarrow> (lossy' \<or> xs' = xs) \<Longrightarrow> (lossy \<Longrightarrow> lossy') \<Longrightarrow>
   way_ok lossy' (a @ xs' @ b) ys"
  using subseq_order.order_trans [of "a @ xs' @ b" "a @ xs @ b" ys]
  by (auto simp: way_ok_def intro!: list_emb_append_mono)

definition negotiating_inv :: "signaling_cipher \<Rightarrow> nat \<Rightarrow> negotiating \<Rightarrow> bool" where
  "negotiating_inv k n g =
     ((\<forall>u. side_ok n u (ng_side g u)) \<and>
      (\<forall>u. way_ok (ng_lossy g) (told_messages (sd_told (ng_side g u)) @ underway k g u)
         (signaled (sd_raised (ng_side g (peer_side u))))))"

lemma negotiating_invD:
  assumes "negotiating_inv k n g"
  shows "side_ok n u (ng_side g u)"
    and "way_ok (ng_lossy g) (told_messages (sd_told (ng_side g u)) @ underway k g u)
      (signaled (sd_raised (ng_side g (peer_side u))))"
  using assms by (simp_all add: negotiating_inv_def)

lemma side_ok_more: "side_ok n u s \<Longrightarrow> n \<le> m \<Longrightarrow> side_ok m u s"
  by (auto simp: side_ok_def)

lemma some_description: "list_ex is_description ms \<longleftrightarrow> (\<exists>d. SessionDescription d \<in> set ms)"
  by (induction ms) (auto elim: is_description.elims(2))

lemma raised_okD:
  assumes "raised_ok u ms"
  shows "m \<in> set ms \<Longrightarrow> (\<exists>c. m = IceCandidate c) \<or> (\<exists>d. m = SessionDescription d \<and> description_type d = own_type u)"
    and "m \<in> set ms \<Longrightarrow> outgoing_admitted m \<noteq> None"
    and "prefix xs (signaled ms) \<Longrightarrow> xs = [] \<or> is_description (hd xs)"
proof -
  show m: "(\<exists>c. m = IceCandidate c) \<or> (\<exists>d. m = SessionDescription d \<and> description_type d = own_type u)"
    if "m \<in> set ms" for m
    using assms that by (cases m) (auto simp: raised_ok_def)
  have t: "description_type d = own_type u \<Longrightarrow> outgoing_admitted (SessionDescription d) = Some True" for d
    by (cases u) (simp_all add: outgoing_admitted_def own_type_def)
  show "outgoing_admitted m \<noteq> None" if "m \<in> set ms"
    using m [OF that] t by (auto simp: outgoing_admitted_def)
  show "xs = [] \<or> is_description (hd xs)" if x: "prefix xs (signaled ms)"
  proof (cases ms)
    case (Cons x rest)
    then obtain d where "x = SessionDescription d" "description_type d = own_type u"
      using assms by (cases x) (auto simp: raised_ok_def)
    then show ?thesis using x Cons t by (cases xs) (auto simp: signaled_def)
  qed (use x in simp)
qed

text \<open>
  A message that can come next is taken: its connection is told of it, unless a new one had to
  be made for it and could not.
\<close>

definition expected :: "p2p_client \<Rightarrow> rtc_inner \<Rightarrow> bool" where
  "expected c x =
     (outgoing_admitted x = Some True \<and>
      (case x of
         IceCandidate i \<Rightarrow> True
       | SessionDescription d \<Rightarrow>
           (case pc_local c of
              None \<Rightarrow> description_type d = Offer
            | Some t \<Rightarrow> t = Offer \<and> description_type d = Answer \<or> t = Answer \<and> description_type d = Offer)))"

definition takes :: "p2p_client \<Rightarrow> rtc_inner list \<Rightarrow> p2p_client \<Rightarrow> peer_call list \<Rightarrow> bool" where
  "takes c xs c' calls =
     ((told_messages calls = xs \<or> told_messages calls = []) \<and>
      creations DownloaderSide calls = 0 \<and> creations UploaderSide calls \<le> descriptions (told_messages calls) \<and>
      pc_signaling c' = pc_signaling c \<and> pc_alive c' = pc_alive c \<and> unat (pc_id c') \<le> Suc (unat (pc_id c)) \<and>
      (pc_local c' = pc_local c \<or>
       pc_local c \<noteq> Some Offer \<and> (pc_local c' = None \<or> pc_local c' = Some Answer \<and> 1 \<le> creations UploaderSide calls)))"

lemma incoming_taken:
  assumes d: "side_decrypt k u m = Inr message" "rtc_inner message = Some x" and x: "expected c x"
    and alive: "pc_alive c" and id: "unat (pc_id c) < 2 ^ 32 - 1"
  shows "\<exists>r c' calls. incoming_signaling rtc (side_decrypt k u) c m = Some (r, c', calls) \<and> takes c [x] c' calls \<and>
    (rtc = (\<lambda>_. None) \<longrightarrow> told_messages calls = [x])"
proof (cases x)
  case (IceCandidate i)
  then show ?thesis
    using d x by (auto simp: incoming_signaling_def expected_def outgoing_admitted_def takes_def split: option.split)
next
  case (SessionDescription sdesc)
  have "\<exists>r c' calls. incoming_description rtc c sdesc = Some (r, c', calls) \<and> takes c [x] c' calls \<and>
    (rtc = (\<lambda>_. None) \<longrightarrow> told_messages calls = [x])"
  proof (cases "pc_local c")
    case None
    then show ?thesis
      using x SessionDescription
      by (auto simp: incoming_description_def accept_offer_def expected_def takes_def split: option.split)
  next
    case (Some t)
    note next_connection_id_Some [OF id]
    then show ?thesis
      using x SessionDescription Some alive
      by (cases t) (auto simp: incoming_description_def accept_offer_def reset_connection_def expected_def takes_def
          split: option.split)
  qed
  then show ?thesis using d SessionDescription by (simp add: incoming_signaling_def)
qed

lemma incoming_unread:
  assumes "readable k u (ers_ciphertext m) = []"
  shows "\<exists>r. incoming_signaling rtc (side_decrypt k u) c m = Some (r, c, [])"
  using assms by (cases m) (auto simp: readable_def incoming_signaling_def split: sum.splits option.splits)

lemma side_event_incoming:
  assumes x: "\<And>x. x \<in> set (readable k u (ers_ciphertext m)) \<Longrightarrow> expected (sd_client s) x"
    and alive: "pc_alive (sd_client s)" and id: "unat (pc_id (sd_client s)) < 2 ^ 32 - 1"
  shows "\<exists>c calls. side_event k u io s (IncomingSignaling m) = Some (s\<lparr>sd_client := c, sd_told := sd_told s @ calls\<rparr>, []) \<and>
    takes (sd_client s) (readable k u (ers_ciphertext m)) c calls \<and>
    (si_rtc io = (\<lambda>_. None) \<longrightarrow> told_messages calls = readable k u (ers_ciphertext m))"
proof (cases "readable k u (ers_ciphertext m)")
  case Nil
  from incoming_unread [OF this, of "si_rtc io" "sd_client s"] Nil
  show ?thesis by (auto simp: side_event_def takes_def intro!: exI [of _ "sd_client s"] exI [of _ "[]"])
next
  case (Cons x xs)
  obtain message where d: "side_decrypt k u m = Inr message" "rtc_inner message = Some x" and xs: "xs = []"
    using Cons by (cases m) (auto simp: readable_def split: sum.splits option.splits)
  from incoming_taken [OF d _ alive id, of "si_rtc io"] x Cons xs obtain r c calls where
    "incoming_signaling (si_rtc io) (side_decrypt k u) (sd_client s) m = Some (r, c, calls)"
    "takes (sd_client s) [x] c calls" "si_rtc io = (\<lambda>_. None) \<longrightarrow> told_messages calls = [x]"
    by auto
  then show ?thesis using Cons xs by (auto simp: side_event_def)
qed

lemma side_event_connection:
  assumes m: "\<And>m. m \<in> set (outgoing_of pe) \<Longrightarrow> outgoing_admitted m \<noteq> None" and k: "lawful_cipher k"
    and n: "length (si_nonce io) = NONCE_SIZE" "length (si_rnd io) = NONCE_SIZE"
  shows "\<exists>sg out. side_event k u io s (ConnectionEvent i pe)
      = Some (s\<lparr>sd_client := (sd_client s)\<lparr>pc_signaling := sg\<rparr>\<rparr>, out) \<and>
    subseq (readables k (peer_side u) (out @ sg_pending sg))
      (readables k (peer_side u) (sg_pending (pc_signaling (sd_client s))) @ signaled (outgoing_of pe)) \<and>
    (length (sg_pending (pc_signaling (sd_client s))) + length (signaled (outgoing_of pe))
        \<le> length (sg_pending sg) + length out \<longrightarrow>
      readables k (peer_side u) (out @ sg_pending sg)
        = readables k (peer_side u) (sg_pending (pc_signaling (sd_client s))) @ signaled (outgoing_of pe))"
proof (cases "\<exists>m. pe = OutgoingSignaling m \<and> i = pc_id (sd_client s) \<and> outgoing_admitted m = Some True")
  case True
  then obtain m where m: "pe = OutgoingSignaling m" "i = pc_id (sd_client s)" "outgoing_admitted m = Some True" by blast
  obtain r sg sent where f: "side_send k u io (pc_signaling (sd_client s)) m = (r, sg, sent)"
    by (cases "side_send k u io (pc_signaling (sd_client s)) m")
  show ?thesis
    using m f side_send_order [OF f k n]
    by (auto simp: side_event_def outgoing_signaling_def outgoing_of_def signaled_def)
next
  case False
  have "side_event k u io s (ConnectionEvent i pe) = Some (s, [])"
  proof (cases pe)
    case (OutgoingSignaling msg)
    then have "outgoing_admitted msg \<noteq> None" using m by (simp add: outgoing_of_def)
    then show ?thesis
      using False OutgoingSignaling by (cases "outgoing_admitted msg") (auto simp: side_event_def outgoing_signaling_def)
  qed (simp_all add: side_event_def)
  moreover have "length (signaled (outgoing_of pe)) \<le> 0 \<Longrightarrow> signaled (outgoing_of pe) = []" by simp
  ultimately show ?thesis
    by (intro exI [of _ "pc_signaling (sd_client s)"] exI [of _ "[]"]) (auto simp: subseq_rev_drop_many)
qed

text \<open>What comes next for a side is expected there.\<close>

lemma next_message_fits:
  assumes ok: "side_ok n u s" and raised: "raised_ok (peer_side u) raised"
    and sub: "subseq (told_messages (sd_told s) @ xs) (signaled raised)" and x: "x \<in> set xs"
  shows "expected (sd_client s) x"
proof -
  have "x \<in> set (signaled raised)" using x by (intro subseq_member [OF sub]) simp
  then have s: "outgoing_admitted x = Some True" "x \<in> set raised" by (auto simp: signaled_def)
  from raised_okD(1) [OF raised s(2)] ok s(1) show ?thesis
    by (cases u) (auto simp: expected_def own_type_def side_ok_def)
qed

text \<open>The stack adds to what is raised and queues it.\<close>

lemma side_raises:
  assumes ok: "side_ok n u (ng_side g u)" and allowed: "negotiating_allowed g (StackRaises u pe)"
  shows "side_ok n u ((ng_side g u)\<lparr>sd_queue := sd_queue (ng_side g u) @ [ConnectionEvent i pe],
    sd_raised := sd_raised (ng_side g u) @ outgoing_of pe\<rparr>)"
proof -
  let ?s = "ng_side g u"
  have l: "pc_local (sd_client ?s) = Some t \<Longrightarrow> t = own_type u" for t
    using ok by (cases u) (auto simp: side_ok_def own_type_def)
  have "raised_ok u (sd_raised ?s @ outgoing_of pe) \<and>
    descriptions (sd_raised ?s @ outgoing_of pe) \<le> creations u (sd_told ?s)"
  proof (cases "\<exists>m. pe = OutgoingSignaling m")
    case False
    then show ?thesis using ok by (cases pe) (simp_all add: outgoing_of_def side_ok_def)
  next
    case True
    then obtain m where "pe = OutgoingSignaling m" by blast
    then show ?thesis
      using allowed l ok
      by (cases m) (auto simp: negotiating_allowed_def outgoing_of_def raised_ok_def side_ok_def hd_append)
  qed
  moreover have "list_all (queued_ok (sd_raised ?s @ outgoing_of pe)) (sd_queue ?s @ [ConnectionEvent i pe])"
    using ok queued_ok_more by (auto simp: side_ok_def list_all_iff)
  ultimately show ?thesis using ok by (cases u) (auto simp: side_ok_def)
qed

lemma raises_step:
  assumes inv: "negotiating_inv k n g" and allowed: "negotiating_allowed g (StackRaises u pe)"
  shows "\<exists>g'. negotiating_step k g (StackRaises u pe) = Some g' \<and> negotiating_inv k n g'"
proof -
  let ?s = "ng_side g u"
  let ?s' = "?s\<lparr>sd_queue := sd_queue ?s @ [ConnectionEvent (pc_id (sd_client ?s)) pe],
    sd_raised := sd_raised ?s @ outgoing_of pe\<rparr>"
  let ?g = "g\<lparr>ng_side := (ng_side g)(u := ?s')\<rparr>"
  have step: "negotiating_step k g (StackRaises u pe) = Some ?g"
    by (simp add: negotiating_step_def Let_def)
  have "way_ok (ng_lossy g) (told_messages (sd_told (ng_side ?g v)) @ underway k ?g v)
      (signaled (sd_raised (ng_side ?g (peer_side v))))" for v
    using negotiating_invD(2) [OF inv, of v] peer_side_cases [of v u]
      way_ok_more [of "ng_lossy g" "told_messages (sd_told (ng_side g v)) @ underway k g v"
        "signaled (outgoing_of pe)" "signaled (sd_raised (ng_side g (peer_side v)))"]
    by (auto simp: underway_def)
  then show ?thesis
    using step side_raises [OF negotiating_invD(1) [OF inv] allowed] negotiating_invD(1) [OF inv]
    by (simp add: negotiating_inv_def)
qed

lemma offers_step:
  assumes inv: "negotiating_inv k n g"
  shows "\<exists>g'. negotiating_step k g (OffersAgain rtc) = Some g' \<and> negotiating_inv k n g'"
proof -
  let ?s = "ng_side g DownloaderSide"
  obtain r c calls where c: "create_offer rtc (sd_client ?s) = Some (r, c, calls)" "calls = [CreateOffer]"
    "pc_local c = Some Offer" "pc_id c = pc_id (sd_client ?s)" "pc_alive c = pc_alive (sd_client ?s)"
    "pc_signaling c = pc_signaling (sd_client ?s)"
    using negotiating_invD(1) [OF inv, of DownloaderSide]
    by (cases "rtc CreateOffer") (fastforce simp: create_offer_def side_ok_def)+
  let ?g = "g\<lparr>ng_side := (ng_side g)(DownloaderSide := ?s\<lparr>sd_client := c, sd_told := sd_told ?s @ calls\<rparr>)\<rparr>"
  have "way_ok (ng_lossy g) (told_messages (sd_told (ng_side ?g v)) @ underway k ?g v)
      (signaled (sd_raised (ng_side ?g (peer_side v))))" for v
    using negotiating_invD(2) [OF inv, of v] c by (cases v) (simp_all add: underway_def)
  moreover have "side_ok n v (ng_side ?g v)" for v
    using negotiating_invD(1) [OF inv, of v] c by (cases v) (auto simp: side_ok_def)
  ultimately show ?thesis using c(1) by (simp add: negotiating_step_def Let_def negotiating_inv_def)
qed

lemma arrives_step:
  assumes inv: "negotiating_inv k n g"
  shows "\<exists>g'. negotiating_step k g (Arrives u) = Some g' \<and> negotiating_inv k n g'"
proof (cases "ng_wire g u")
  case Nil
  then show ?thesis using inv by (simp add: negotiating_step_def)
next
  case (Cons ct cts)
  let ?s = "ng_side g u"
  let ?g = "g\<lparr>ng_wire := (ng_wire g)(u := cts),
    ng_side := (ng_side g)(u := ?s\<lparr>sd_queue := sd_queue ?s @ [IncomingSignaling \<lparr>ers_ciphertext = ct\<rparr>]\<rparr>)\<rparr>"
  have "way_ok (ng_lossy g) (told_messages (sd_told (ng_side ?g v)) @ underway k ?g v)
      (signaled (sd_raised (ng_side ?g (peer_side v))))" for v
    using negotiating_invD(2) [OF inv, of v] peer_side_cases [of v u] Cons
    by (auto simp: underway_def)
  moreover have "side_ok n v (ng_side ?g v)" for v
    using negotiating_invD(1) [OF inv, of v] by (auto simp: side_ok_def split: signaling_usage.split)
  ultimately show ?thesis using Cons by (simp add: negotiating_step_def Let_def negotiating_inv_def)
qed

lemma lost_step:
  assumes inv: "negotiating_inv k n g"
  shows "\<exists>g'. negotiating_step k g (GetsLost u) = Some g' \<and> negotiating_inv k n g'"
proof -
  let ?g = "g\<lparr>ng_wire := (ng_wire g)(u := tl (ng_wire g u)), ng_lossy := True\<rparr>"
  have t: "subseq (readables k u (tl (ng_wire g u))) (readables k u (ng_wire g u))"
    by (cases "ng_wire g u") (simp_all add: subseq_drop_many)
  have "way_ok True (told_messages (sd_told (ng_side g v)) @ underway k ?g v)
      (signaled (sd_raised (ng_side g (peer_side v))))" for v
  proof -
    have "way_ok True ((told_messages (sd_told (ng_side g v)) @ incoming_queued k v (sd_queue (ng_side g v))) @
        readables k v (ng_wire ?g v) @ readables k v (sg_pending (pc_signaling (sd_client (ng_side g (peer_side v))))) @
        outgoing_queued (sd_queue (ng_side g (peer_side v)))) (signaled (sd_raised (ng_side g (peer_side v))))"
      by (rule way_ok_less [where lossy = "ng_lossy g" and xs = "readables k v (ng_wire g v)"])
        (use negotiating_invD(2) [OF inv, of v] t in \<open>auto simp: underway_def\<close>)
    then show ?thesis by (simp add: underway_def)
  qed
  then show ?thesis
    using negotiating_invD(1) [OF inv] by (simp add: negotiating_step_def negotiating_inv_def)
qed

text \<open>A turn of the loop.\<close>

lemma incoming_turn_step:
  assumes inv: "negotiating_inv k n g" and bound: "n < 2 ^ 32 - 1"
    and q: "sd_queue (ng_side g u) = IncomingSignaling m # q"
  shows "\<exists>g'. negotiating_step k g (TakesTurn u io) = Some g' \<and> negotiating_inv k (Suc n) g'"
proof -
  let ?s = "ng_side g u"
  note side = negotiating_invD(1) [OF inv] and way = negotiating_invD(2) [OF inv]
  have raised: "raised_ok v (sd_raised (ng_side g v))" for v
    using side [of v] by (simp add: side_ok_def)
  have sub: "subseq (told_messages (sd_told ?s) @ underway k g u) (signaled (sd_raised (ng_side g (peer_side u))))"
    using way [of u] by (simp add: way_ok_def)
  have alive: "pc_alive (sd_client ?s)" "unat (pc_id (sd_client ?s)) < 2 ^ 32 - 1" "unat (pc_id (sd_client ?s)) \<le> n"
    using side [of u] bound by (auto simp: side_ok_def)
  let ?read = "readable k u (ers_ciphertext m)"
  have "expected (sd_client ?s) x" if "x \<in> set ?read" for x
    by (rule next_message_fits [OF side raised sub]) (use that q in \<open>auto simp: underway_def\<close>)
  from side_event_incoming [OF this alive(1,2), where io = io] obtain c calls where
    ev: "side_event k u io ?s (IncomingSignaling m) = Some (?s\<lparr>sd_client := c, sd_told := sd_told ?s @ calls\<rparr>, [])"
    and t: "takes (sd_client ?s) ?read c calls" by blast
  let ?s' = "?s\<lparr>sd_client := c, sd_told := sd_told ?s @ calls, sd_queue := q\<rparr>"
  let ?lossy = "ng_lossy g \<or> length (told_messages calls) < length ?read"
  let ?g = "g\<lparr>ng_side := (ng_side g)(u := ?s'), ng_lossy := ?lossy\<rparr>"
  have "negotiating_step k g (TakesTurn u io) = Some ?g"
    using q ev by (simp add: negotiating_step_def message_lost_def Let_def)
  moreover have "side_ok (Suc n) v (ng_side ?g v)" for v
  proof (cases "v = u")
    case True
    then show ?thesis using side [of u] t q by (cases u) (auto simp: side_ok_def takes_def)
  qed (use side_ok_more [OF side, of "Suc n"] in simp)
  moreover have "way_ok (ng_lossy ?g) (told_messages (sd_told (ng_side ?g v)) @ underway k ?g v)
      (signaled (sd_raised (ng_side ?g (peer_side v))))" for v
  proof (cases "v = u")
    case True
    have "way_ok ?lossy (told_messages (sd_told ?s) @ told_messages calls @ underway k ?g u)
        (signaled (sd_raised (ng_side g (peer_side u))))"
      by (rule way_ok_less [where lossy = "ng_lossy g" and xs = ?read])
        (use way [of u] t q in \<open>auto simp: underway_def takes_def\<close>)
    then show ?thesis using True by simp
  next
    case False
    then have v: "v = peer_side u" using peer_side_cases by blast
    then show ?thesis
      using way [of v] t q by (auto simp: underway_def takes_def way_ok_def)
  qed
  ultimately show ?thesis by (simp add: negotiating_inv_def)
qed

lemma connection_turn_step:
  assumes inv: "negotiating_inv k n g" and allowed: "negotiating_allowed g (TakesTurn u io)"
    and k: "lawful_cipher k" and q: "sd_queue (ng_side g u) = ConnectionEvent i pe # q"
  shows "\<exists>g'. negotiating_step k g (TakesTurn u io) = Some g' \<and> negotiating_inv k (Suc n) g'"
proof -
  let ?s = "ng_side g u"
  note side = negotiating_invD(1) [OF inv] and way = negotiating_invD(2) [OF inv]
  have raised: "raised_ok v (sd_raised (ng_side g v))" for v
    using side [of v] by (simp add: side_ok_def)
  have pe: "outgoing_admitted m \<noteq> None" if "m \<in> set (outgoing_of pe)" for m
    using raised_okD(2) [OF raised, of m u] side [of u] q that by (auto simp: side_ok_def)
  have "length (si_nonce io) = NONCE_SIZE" "length (si_rnd io) = NONCE_SIZE"
    using allowed by (simp_all add: negotiating_allowed_def)
  from side_event_connection [OF pe k this, where s = ?s and i = i and u = u] obtain sg out where
    ev: "side_event k u io ?s (ConnectionEvent i pe)
      = Some (?s\<lparr>sd_client := (sd_client ?s)\<lparr>pc_signaling := sg\<rparr>\<rparr>, out)"
    and out: "subseq (readables k (peer_side u) (out @ sg_pending sg))
      (readables k (peer_side u) (sg_pending (pc_signaling (sd_client ?s))) @ signaled (outgoing_of pe))"
      "length (sg_pending (pc_signaling (sd_client ?s))) + length (signaled (outgoing_of pe))
          \<le> length (sg_pending sg) + length out \<longrightarrow>
        readables k (peer_side u) (out @ sg_pending sg)
          = readables k (peer_side u) (sg_pending (pc_signaling (sd_client ?s))) @ signaled (outgoing_of pe)"
    by blast
  let ?lossy = "ng_lossy g \<or> length (sg_pending sg) + length out
      < length (sg_pending (pc_signaling (sd_client ?s))) + length (signaled (outgoing_of pe))"
  let ?s' = "?s\<lparr>sd_client := (sd_client ?s)\<lparr>pc_signaling := sg\<rparr>, sd_queue := q\<rparr>"
  let ?g = "g\<lparr>ng_side := (ng_side g)(u := ?s'),
    ng_wire := (ng_wire g)(peer_side u := ng_wire g (peer_side u) @ out), ng_lossy := ?lossy\<rparr>"
  have "negotiating_step k g (TakesTurn u io) = Some ?g"
    using q ev by (simp add: negotiating_step_def message_lost_def Let_def)
  moreover have "side_ok (Suc n) v (ng_side ?g v)" for v
  proof (cases "v = u")
    case True
    then show ?thesis using side [of u] q by (cases u) (auto simp: side_ok_def)
  qed (use side_ok_more [OF side, of "Suc n"] in simp)
  moreover have "way_ok (ng_lossy ?g) (told_messages (sd_told (ng_side ?g v)) @ underway k ?g v)
      (signaled (sd_raised (ng_side ?g (peer_side v))))" for v
  proof (cases "v = u")
    case True
    then show ?thesis using way [of u] q by (auto simp: underway_def way_ok_def)
  next
    case False
    then have v: "v = peer_side u" using peer_side_cases by blast
    have "way_ok ?lossy
      ((told_messages (sd_told (ng_side g v)) @ incoming_queued k v (sd_queue (ng_side g v)) @
        readables k v (ng_wire g v)) @
       readables k v (out @ sg_pending sg) @ outgoing_queued q)
      (signaled (sd_raised (ng_side g (peer_side v))))"
      by (rule way_ok_less [where lossy = "ng_lossy g" and
            xs = "readables k v (sg_pending (pc_signaling (sd_client ?s))) @ signaled (outgoing_of pe)"])
        (use way [of v] v out q in \<open>auto simp: underway_def not_less\<close>)
    then show ?thesis using v by (simp add: underway_def)
  qed
  ultimately show ?thesis by (simp add: negotiating_inv_def)
qed

lemma turn_step:
  assumes inv: "negotiating_inv k n g" and allowed: "negotiating_allowed g (TakesTurn u io)"
    and k: "lawful_cipher k" and bound: "n < 2 ^ 32 - 1"
  shows "\<exists>g'. negotiating_step k g (TakesTurn u io) = Some g' \<and> negotiating_inv k (Suc n) g'"
proof (cases "sd_queue (ng_side g u)")
  case Nil
  then show ?thesis
    using inv side_ok_more [of n _ _ "Suc n"] by (auto simp: negotiating_step_def negotiating_inv_def)
next
  case q: (Cons e q)
  then show ?thesis
    using incoming_turn_step [OF inv bound] connection_turn_step [OF inv allowed k] by (cases e) blast+
qed

lemma negotiating_step_inv:
  assumes inv: "negotiating_inv k n g" and allowed: "negotiating_allowed g ev" and k: "lawful_cipher k"
    and n: "n < 2 ^ 32 - 1"
  shows "\<exists>g'. negotiating_step k g ev = Some g' \<and> negotiating_inv k (Suc n) g'"
proof -
  have more: "negotiating_inv k n g' \<Longrightarrow> negotiating_inv k (Suc n) g'" for g'
    using side_ok_more [of n _ _ "Suc n"] by (auto simp: negotiating_inv_def)
  show ?thesis
    using raises_step [OF inv] offers_step [OF inv] arrives_step [OF inv] lost_step [OF inv]
      turn_step [OF inv _ k n] allowed more
    by (cases ev) blast+
qed

lemma negotiating_run_inv:
  "negotiating_inv k n g \<Longrightarrow> lawful_cipher k \<Longrightarrow> n + length evs < 2 ^ 32 \<Longrightarrow>
   \<exists>g'. negotiating_run k g evs = Some g' \<and> negotiating_inv k (n + length evs) g'"
proof (induction evs arbitrary: n g)
  case (Cons ev evs)
  show ?case
  proof (cases "negotiating_allowed g ev")
    case True
    then show ?thesis
      using negotiating_step_inv [OF Cons.prems(1) True Cons.prems(2)] Cons.IH [of "Suc n"] Cons.prems by auto
  next
    case False
    have "negotiating_inv k (Suc n) g"
      using Cons.prems(1) side_ok_more [of n _ _ "Suc n"] by (auto simp: negotiating_inv_def)
    then show ?thesis using False Cons.IH [of "Suc n" g] Cons.prems by simp
  qed
qed simp


lemma negotiating_start_inv:
  assumes "negotiating_start up_rtc down_rtc up_socket down_socket = Some (Inr g)"
  shows "negotiating_inv k 0 g"
proof -
  have "side_ok 0 u (ng_side g u) \<and> underway k g u = [] \<and> told_messages (sd_told (ng_side g u)) = [] \<and>
    sd_raised (ng_side g u) = []" for u
    using assms
    by (cases u; cases up_socket; cases down_socket) (auto simp: negotiating_start_def p2p_new_def create_offer_def
        fresh_side_def set_websocket_client_def side_ok_def raised_ok_def underway_def split: option.splits)
  then show ?thesis by (simp add: negotiating_inv_def way_ok_def)
qed

lemma subseq_descriptions: "subseq xs ys \<Longrightarrow> descriptions xs \<le> descriptions ys"
  unfolding descriptions_def by (intro list_emb_length [of "(=)"] subseq_filter)

text \<open>C11: 
  Two clients negotiate what their stacks raise, over any number of offers. Whatever the
  interleaving, the errors and the losses, nothing panics, and what a peer's connections are
  told of the other side is what the other side's stack raised, in that order, with gaps only
  where messages were lost: offers for the uploader's, answers for the downloader's, and
  candidates. As long as nothing is lost, no candidate comes before the first description, and
  when nothing is underway any more all of it has been told. The downloader's connection is
  told of no more answers than the uploader's stack was asked for, and that of no more than the
  offers it was told of, which are no more than the downloader made.
\<close>

theorem negotiation_in_order:
  assumes "negotiating_start up_rtc down_rtc up_socket down_socket = Some (Inr g0)" and k: "lawful_cipher k"
    and n: "length evs < 2 ^ 32"
  shows "\<exists>g. negotiating_run k g0 evs = Some g \<and>
    (\<forall>u. case told_messages (sd_told (ng_side g u)) of told \<Rightarrow>
      case signaled (sd_raised (ng_side g (peer_side u))) of said \<Rightarrow>
        subseq told said \<and>
        (\<forall>d. SessionDescription d \<in> set told \<longrightarrow> description_type d = own_type (peer_side u)) \<and>
        (ng_lossy g \<or> prefix told said \<and> (told = [] \<or> is_description (hd told)) \<and>
          (underway k g u = [] \<longrightarrow> told = said))) \<and>
    descriptions (told_messages (sd_told (ng_side g DownloaderSide)))
      \<le> creations UploaderSide (sd_told (ng_side g UploaderSide)) \<and>
    creations UploaderSide (sd_told (ng_side g UploaderSide))
      \<le> descriptions (told_messages (sd_told (ng_side g UploaderSide))) \<and>
    descriptions (told_messages (sd_told (ng_side g UploaderSide)))
      \<le> creations DownloaderSide (sd_told (ng_side g DownloaderSide))"
proof -
  obtain g where g: "negotiating_run k g0 evs = Some g" "negotiating_inv k (length evs) g"
    using negotiating_run_inv [OF negotiating_start_inv [OF assms(1)] k, of evs] n by auto
  note side = negotiating_invD(1) [OF g(2)] and way = negotiating_invD(2) [OF g(2)]
  have raised: "raised_ok u (sd_raised (ng_side g u))" for u using side [of u] by (simp add: side_ok_def)
  have sub: "subseq (told_messages (sd_told (ng_side g u))) (signaled (sd_raised (ng_side g (peer_side u))))" for u
    using way [of u] subseq_order.order_trans [OF subseq_rev_drop_many [OF subseq_order.order_refl]]
    by (auto simp: way_ok_def)
  have type: "description_type d = own_type (peer_side u)"
    if "SessionDescription d \<in> set (told_messages (sd_told (ng_side g u)))" for u d
    using raised_okD(1) [OF raised [of "peer_side u"]] subseq_member [OF sub that] by (fastforce simp: signaled_def)
  have order: "ng_lossy g \<or> prefix told said \<and> (told = [] \<or> is_description (hd told)) \<and>
      (underway k g u = [] \<longrightarrow> told = said)"
    if "told = told_messages (sd_told (ng_side g u))" "said = signaled (sd_raised (ng_side g (peer_side u)))"
    for u told said
  proof (cases "ng_lossy g")
    case False
    then have "said = told @ underway k g u" using way [of u] that by (simp add: way_ok_def)
    then show ?thesis using raised_okD(3) [OF raised [of "peer_side u"], of told] that(2) by auto
  qed simp
  have "descriptions (told_messages (sd_told (ng_side g u)))
      \<le> creations (peer_side u) (sd_told (ng_side g (peer_side u)))" for u
  proof -
    have "subseq (told_messages (sd_told (ng_side g u))) (sd_raised (ng_side g (peer_side u)))"
      using subseq_order.order_trans [OF sub] by (auto simp: signaled_def)
    from subseq_descriptions [OF this] show ?thesis
      using side [of "peer_side u"] by (simp add: side_ok_def)
  qed
  from this [of DownloaderSide] this [of UploaderSide] show ?thesis
    using g(1) sub type order side [of UploaderSide] by (auto simp: side_ok_def)
qed


subsection \<open>Completing a negotiation\<close>

text \<open>
  A turn in which connecting and sending succeed, and a state that needs no more than such:
  nothing was lost or is pending, no event queued is of a connection that was replaced, and the
  offer underway is the only one, and the first if the uploader has not answered one yet.
\<close>

definition good_io :: side_io where
  "good_io =
     \<lparr>si_rtc = (\<lambda>_. None), si_timeout = None,
      si_flush = (\<lambda>_. \<lparr>fi_now = 0, fi_in_time = True, fi_connect = Inr 0, fi_send = None\<rparr>),
      si_nonce = replicate NONCE_SIZE 0, si_rnd = replicate NONCE_SIZE 0\<rparr>"

fun current_event :: "32 word \<Rightarrow> p2p_event \<Rightarrow> bool" where
  "current_event now (IncomingSignaling m) = True"
| "current_event now (ConnectionEvent i pe) = (i = now)"

definition side_ready :: "side \<Rightarrow> bool" where
  "side_ready s =
     (sg_client (pc_signaling (sd_client s)) \<and> sg_pending (pc_signaling (sd_client s)) = [] \<and>
      list_all (current_event (pc_id (sd_client s))) (sd_queue s))"

definition nothing_stuck :: "signaling_cipher \<Rightarrow> negotiating \<Rightarrow> bool" where
  "nothing_stuck k g =
     (\<not> ng_lossy g \<and> (\<forall>u. side_ready (ng_side g u)) \<and>
      descriptions (underway k g UploaderSide)
        \<le> (if pc_local (sd_client (ng_side g UploaderSide)) = Some Answer then 0 else 1))"

lemma good_send:
  "sg_client s \<Longrightarrow> sg_pending s = [] \<Longrightarrow>
   \<exists>w ct s'. side_send k u good_io s m = (Inr (), s', [(w, ct)]) \<and> sg_client s' \<and> sg_pending s' = []"
  by (cases "sg_websocket s")
    (auto simp: side_send_def signaling_send_def signaling_flush_def flush_connect_def good_io_def)

fun event_weight :: "p2p_event \<Rightarrow> nat" where
  "event_weight (IncomingSignaling m) = 1"
| "event_weight (ConnectionEvent i pe) = 4"

definition side_weight :: "negotiating \<Rightarrow> signaling_usage \<Rightarrow> nat" where
  "side_weight g u = sum_list (map event_weight (sd_queue (ng_side g u))) + 2 * length (ng_wire g u)"

definition negotiating_weight :: "negotiating \<Rightarrow> nat" where
  "negotiating_weight g = side_weight g UploaderSide + side_weight g DownloaderSide"

lemma negotiating_weight_side: "negotiating_weight g = side_weight g u + side_weight g (peer_side u)"
  by (cases u) (simp_all add: negotiating_weight_def)

definition same_raised :: "negotiating \<Rightarrow> negotiating \<Rightarrow> bool" where
  "same_raised g g' = (\<forall>u. sd_raised (ng_side g' u) = sd_raised (ng_side g u))"

text \<open>No connection is replaced.\<close>

lemma incoming_keeps_id:
  assumes "incoming_signaling rtc (side_decrypt k u) c m = Some (r, c', calls)"
    and "pc_local c \<noteq> Some Answer \<or> descriptions (readable k u (ers_ciphertext m)) = 0"
  shows "pc_id c' = pc_id c"
  using assms
  by (cases m) (auto simp: incoming_signaling_def incoming_description_def accept_offer_def readable_def
      split: sum.splits option.splits rtc_inner.splits sdp_type.splits if_splits)

lemma keeps_bound:
  assumes "negotiating_inv k (Suc n) g'" and "negotiating_inv k n g"
    and "\<And>u. pc_id (sd_client (ng_side g' u)) = pc_id (sd_client (ng_side g u))"
  shows "negotiating_inv k n g'"
  using assms by (simp add: negotiating_inv_def side_ok_def)

lemma underway_count:
  assumes "negotiating_inv k n g" and "\<not> ng_lossy g"
  shows "descriptions (told_messages (sd_told (ng_side g u))) + descriptions (underway k g u)
    = descriptions (signaled (sd_raised (ng_side g (peer_side u))))"
  using negotiating_invD(2) [OF assms(1), of u] assms(2) by (simp add: way_ok_def flip: count_simps(2))

text \<open>What a good turn does to its side.\<close>

lemma good_side_turn:
  assumes inv: "negotiating_inv k n g" and quiet: "nothing_stuck k g" and n: "n < 2 ^ 32 - 1"
    and q: "sd_queue (ng_side g u) = e # q" and s': "side_event k u good_io (ng_side g u) e = Some (s', out)"
  shows "side_ready (s'\<lparr>sd_queue := q\<rparr>) \<and> sd_raised s' = sd_raised (ng_side g u) \<and>
    pc_id (sd_client s') = pc_id (sd_client (ng_side g u)) \<and> 2 * length out < event_weight e \<and>
    \<not> message_lost k u (ng_side g u) e s' out \<and>
    (\<exists>calls. sd_told s' = sd_told (ng_side g u) @ calls \<and>
      (pc_local (sd_client s') = Some Answer \<longrightarrow>
        pc_local (sd_client (ng_side g u)) = Some Answer \<or> 1 \<le> descriptions (told_messages calls)))"
proof -
  let ?s = "ng_side g u"
  have ready: "side_ready ?s" using quiet by (simp add: nothing_stuck_def)
  note side = negotiating_invD(1) [OF inv]
  show ?thesis
  proof (cases e)
    case (IncomingSignaling m)
    obtain r c calls where c: "incoming_signaling (\<lambda>_. None) (side_decrypt k u) (sd_client ?s) m = Some (r, c, calls)"
      "s' = ?s\<lparr>sd_client := c, sd_told := sd_told ?s @ calls\<rparr>" "out = []"
      using s' IncomingSignaling by (auto simp: side_event_def good_io_def)
    have "pc_local (sd_client ?s) \<noteq> Some Answer \<or> descriptions (readable k u (ers_ciphertext m)) = 0"
      using side [of u] quiet q IncomingSignaling
      by (cases u) (auto simp: side_ok_def nothing_stuck_def underway_def)
    then have id: "pc_id c = pc_id (sd_client ?s)" using incoming_keeps_id [OF c(1)] by blast
    have sub: "subseq (told_messages (sd_told ?s) @ underway k g u) (signaled (sd_raised (ng_side g (peer_side u))))"
      using negotiating_invD(2) [OF inv, of u] by (simp add: way_ok_def)
    have "expected (sd_client ?s) x" if "x \<in> set (readable k u (ers_ciphertext m))" for x
      by (rule next_message_fits [OF side _ sub])
        (use that q IncomingSignaling side [of "peer_side u"] in \<open>auto simp: underway_def side_ok_def\<close>)
    from side_event_incoming [of k u m ?s good_io, OF this] obtain c2 calls2 where
      ev: "side_event k u good_io ?s e = Some (?s\<lparr>sd_client := c2, sd_told := sd_told ?s @ calls2\<rparr>, [])"
      and t: "takes (sd_client ?s) (readable k u (ers_ciphertext m)) c2 calls2"
        "told_messages calls2 = readable k u (ers_ciphertext m)"
      using side [of u] n IncomingSignaling by (auto simp: side_ok_def good_io_def)
    have "sd_client s' = c2" "sd_told s' = sd_told ?s @ calls2" using ev s' by auto
    then have "c2 = c" "calls2 = calls" using c(2) by simp_all
    with t have "takes (sd_client ?s) (readable k u (ers_ciphertext m)) c calls"
      "told_messages calls = readable k u (ers_ciphertext m)" by simp_all
    then show ?thesis
      using c(2,3) q ready id IncomingSignaling by (auto simp: takes_def side_ready_def message_lost_def)
  next
    case (ConnectionEvent i pe)
    have i: "i = pc_id (sd_client ?s)" using ready q ConnectionEvent by (simp add: side_ready_def)
    show ?thesis
    proof (cases "\<exists>m. pe = OutgoingSignaling m \<and> outgoing_admitted m = Some True")
      case True
      then obtain m where m: "pe = OutgoingSignaling m" "outgoing_admitted m = Some True" by blast
      obtain w ct sg where "side_send k u good_io (pc_signaling (sd_client ?s)) m = (Inr (), sg, [(w, ct)])"
        "sg_client sg" "sg_pending sg = []"
        using good_send [of "pc_signaling (sd_client ?s)" k u m] ready by (auto simp: side_ready_def)
      then show ?thesis
        using s' q m i ready ConnectionEvent
        by (auto simp: side_event_def outgoing_signaling_def side_ready_def message_lost_def outgoing_of_def signaled_def)
    next
      case False
      then have "s' = ?s \<and> out = []"
        using s' ConnectionEvent
        by (cases pe) (auto simp: side_event_def outgoing_signaling_def split: if_splits option.splits bool.splits)
      moreover have "signaled (outgoing_of pe) = []"
        using False by (cases pe) (auto simp: outgoing_of_def signaled_def)
      ultimately show ?thesis using q ready ConnectionEvent by (auto simp: side_ready_def message_lost_def)
    qed
  qed
qed

text \<open>The offers underway only become fewer, and none is left once one is answered.\<close>

lemma still_one_offer:
  assumes inv: "negotiating_inv k n g" and inv': "negotiating_inv k m g'" and quiet: "nothing_stuck k g"
    and lossy: "\<not> ng_lossy g'" and raised: "same_raised g g'"
    and told: "sd_told (ng_side g' UploaderSide) = sd_told (ng_side g UploaderSide) @ calls"
    and here: "pc_local (sd_client (ng_side g' UploaderSide)) = Some Answer \<Longrightarrow>
      pc_local (sd_client (ng_side g UploaderSide)) = Some Answer \<or> 1 \<le> descriptions (told_messages calls)"
  shows "descriptions (underway k g' UploaderSide)
    \<le> (if pc_local (sd_client (ng_side g' UploaderSide)) = Some Answer then 0 else 1)"
  using underway_count [OF inv, of UploaderSide] underway_count [OF inv' lossy, of UploaderSide] raised told here quiet
  by (auto simp: same_raised_def nothing_stuck_def split: if_splits)


lemma good_turn:
  assumes inv: "negotiating_inv k n g" and k: "lawful_cipher k" and quiet: "nothing_stuck k g" and n: "n < 2 ^ 32 - 1"
    and q: "sd_queue (ng_side g u) = e # q"
  shows "\<exists>g'. negotiating_step k g (TakesTurn u good_io) = Some g' \<and> negotiating_inv k n g' \<and> nothing_stuck k g' \<and>
    same_raised g g' \<and> negotiating_weight g' < negotiating_weight g"
proof -
  let ?s = "ng_side g u"
  have allowed: "negotiating_allowed g (TakesTurn u good_io)" by (simp add: negotiating_allowed_def good_io_def)
  obtain g' where g': "negotiating_step k g (TakesTurn u good_io) = Some g'" "negotiating_inv k (Suc n) g'"
    using turn_step [OF inv allowed k n] by blast
  obtain s' out where s': "side_event k u good_io ?s e = Some (s', out)"
    using g'(1) q by (auto simp: negotiating_step_def Let_def)
  note turn = good_side_turn [OF inv quiet n q s']
  have g'_eq: "g' = g\<lparr>ng_side := (ng_side g)(u := s'\<lparr>sd_queue := q\<rparr>),
      ng_wire := (ng_wire g)(peer_side u := ng_wire g (peer_side u) @ out)\<rparr>"
    using g'(1) q s' turn by (simp add: negotiating_step_def Let_def)
  then have inv': "negotiating_inv k n g'"
    using turn by (intro keeps_bound [OF g'(2) inv]) simp
  obtain calls where told: "sd_told s' = sd_told ?s @ calls" and local:
      "pc_local (sd_client s') = Some Answer \<longrightarrow>
        pc_local (sd_client ?s) = Some Answer \<or> 1 \<le> descriptions (told_messages calls)"
    using turn by blast
  have "descriptions (underway k g' UploaderSide)
      \<le> (if pc_local (sd_client (ng_side g' UploaderSide)) = Some Answer then 0 else 1)"
    by (rule still_one_offer [OF inv inv' quiet, where calls = "if u = UploaderSide then calls else []"])
      (use g'_eq quiet turn told local in \<open>auto simp: nothing_stuck_def same_raised_def\<close>)
  then have "nothing_stuck k g'" "same_raised g g'" "negotiating_weight g' < negotiating_weight g"
    using g'_eq quiet turn q
    by (auto simp: nothing_stuck_def same_raised_def negotiating_weight_side [of _ u] side_weight_def)
  then show ?thesis using g'(1) inv' by blast
qed

lemma good_arrival:
  assumes inv: "negotiating_inv k n g" and quiet: "nothing_stuck k g" and w: "ng_wire g u = ct # cts"
  shows "\<exists>g'. negotiating_step k g (Arrives u) = Some g' \<and> negotiating_inv k n g' \<and> nothing_stuck k g' \<and>
    same_raised g g' \<and> negotiating_weight g' < negotiating_weight g"
proof -
  obtain g' where g': "negotiating_step k g (Arrives u) = Some g'" "negotiating_inv k n g'"
    using arrives_step [OF inv] by blast
  then have raised: "same_raised g g' \<and> negotiating_weight g' < negotiating_weight g"
    using w
    by (auto simp: negotiating_step_def Let_def same_raised_def negotiating_weight_side [of _ u] side_weight_def)
  have "descriptions (underway k g' UploaderSide)
      \<le> (if pc_local (sd_client (ng_side g' UploaderSide)) = Some Answer then 0 else 1)"
    by (rule still_one_offer [OF inv g'(2) quiet, where calls = "[]"])
      (use g'(1) quiet w raised in \<open>auto simp: negotiating_step_def nothing_stuck_def Let_def split: if_splits\<close>)
  then have "nothing_stuck k g'"
    using g'(1) quiet w by (auto simp: negotiating_step_def nothing_stuck_def side_ready_def Let_def)
  then show ?thesis using g' raised by blast
qed

lemma can_settle:
  "negotiating_inv k n g \<Longrightarrow> lawful_cipher k \<Longrightarrow> nothing_stuck k g \<Longrightarrow> n < 2 ^ 32 - 1 \<Longrightarrow>
   \<exists>evs g'. negotiating_run k g evs = Some g' \<and> negotiating_inv k n g' \<and> nothing_stuck k g' \<and> same_raised g g' \<and>
     (\<forall>u. underway k g' u = [])"
proof (induction "negotiating_weight g" arbitrary: g rule: less_induct)
  case less
  have go: "\<exists>evs g'. negotiating_run k g evs = Some g' \<and> negotiating_inv k n g' \<and> nothing_stuck k g' \<and>
      same_raised g g' \<and> (\<forall>u. underway k g' u = [])"
    if g1: "negotiating_allowed g ev" "negotiating_step k g ev = Some g1" "negotiating_inv k n g1" "nothing_stuck k g1"
      "same_raised g g1" "negotiating_weight g1 < negotiating_weight g" for ev g1
  proof -
    obtain evs g' where "negotiating_run k g1 evs = Some g'" "negotiating_inv k n g'" "nothing_stuck k g'"
      "same_raised g1 g'" "\<forall>u. underway k g' u = []"
      using less.hyps [OF g1(6,3) less.prems(2) g1(4) less.prems(4)] by blast
    then show ?thesis using g1 by (intro exI [of _ "ev # evs"]) (auto simp: same_raised_def)
  qed
  show ?case
  proof (cases "\<exists>u. sd_queue (ng_side g u) \<noteq> []")
    case True
    then obtain u e q where "sd_queue (ng_side g u) = e # q" by (auto simp: neq_Nil_conv)
    moreover have "negotiating_allowed g (TakesTurn u good_io)" by (simp add: negotiating_allowed_def good_io_def)
    ultimately show ?thesis using good_turn [OF less.prems] go by blast
  next
    case queues: False
    show ?thesis
    proof (cases "\<exists>u. ng_wire g u \<noteq> []")
      case True
      then obtain u ct cts where "ng_wire g u = ct # cts" by (auto simp: neq_Nil_conv)
      moreover have "negotiating_allowed g (Arrives u)" by (simp add: negotiating_allowed_def)
      ultimately show ?thesis using good_arrival [OF less.prems(1,3)] go by blast
    next
      case False
      then have "\<forall>u. underway k g u = []"
        using queues less.prems(3) by (simp add: underway_def nothing_stuck_def side_ready_def)
      then show ?thesis using less.prems by (intro exI [of _ "[]"] exI [of _ g]) (simp add: same_raised_def)
    qed
  qed
qed

lemma negotiating_run_append:
  "negotiating_run k g (evs @ evs') = Option.bind (negotiating_run k g evs) (\<lambda>g. negotiating_run k g evs')"
  by (induction evs arbitrary: g) (auto split: Option.bind_splits)

text \<open>C12: 
  A negotiation in which nothing was lost and nothing is stuck can always be brought to its end,
  with what the stacks have raised so far: finitely many more turns and deliveries, in which
  sending succeeds, tell each side's connection exactly what the other side's stack raised.
\<close>

theorem negotiation_completes:
  assumes "negotiating_start up_rtc down_rtc up_socket down_socket = Some (Inr g0)" and k: "lawful_cipher k"
    and run: "negotiating_run k g0 evs = Some g" and quiet: "nothing_stuck k g" and n: "length evs < 2 ^ 32 - 1"
  shows "\<exists>evs' g'. negotiating_run k g0 (evs @ evs') = Some g' \<and>
    (\<forall>u. told_messages (sd_told (ng_side g' u)) = signaled (sd_raised (ng_side g (peer_side u))))"
proof -
  have "negotiating_inv k (length evs) g"
    using negotiating_run_inv [OF negotiating_start_inv [OF assms(1)] k, of evs] run n by auto
  from can_settle [OF this k quiet n] obtain evs' g' where g': "negotiating_run k g evs' = Some g'"
    "negotiating_inv k (length evs) g'" "nothing_stuck k g'" "same_raised g g'" "\<forall>u. underway k g' u = []" by blast
  have "told_messages (sd_told (ng_side g' u)) = signaled (sd_raised (ng_side g (peer_side u)))" for u
    using negotiating_invD(2) [OF g'(2), of u] g'(3-5) by (simp add: way_ok_def same_raised_def nothing_stuck_def)
  moreover have "negotiating_run k g0 (evs @ evs') = Some g'"
    using run g'(1) by (simp add: negotiating_run_append)
  ultimately show ?thesis by blast
qed


subsection \<open>Examples\<close>

definition example_cipher :: signaling_cipher where
  "example_cipher =
     \<lparr>sc_seal = example_seal, sc_open = example_open, sc_hkdf = (@), sc_encode = encode_example,
      sc_decode = decode_example, sc_key = [1]\<rparr>"

definition example_offer :: session_description where
  "example_offer = \<lparr>sdp = ''v=0'', sd_type = sdp_number Offer\<rparr>"

definition example_candidate :: ice_candidate where
  "example_candidate = \<lparr>candidate = ''host'', mid = ''0''\<rparr>"

lemma example_lawful: "lawful_cipher example_cipher"
  using example_aead example_codec by (simp add: lawful_cipher_def example_cipher_def)

definition example_start :: negotiating where
  "example_start =
     (case negotiating_start (\<lambda>_. None) (\<lambda>_. None) True True of Some (Inr g) \<Rightarrow> g)"

lemma example_start: "negotiating_start (\<lambda>_. None) (\<lambda>_. None) True True = Some (Inr example_start)"
  by (simp add: example_start_def negotiating_start_def p2p_new_def create_offer_def)

lemmas negotiation_simps =
  negotiating_start_def p2p_new_def create_offer_def set_websocket_client_def fresh_side_def Let_def
  negotiating_step_def negotiating_allowed_def outgoing_of_def side_event_def outgoing_signaling_def
  outgoing_admitted_def side_send_def signaling_send_def signaling_flush_def flush_connect_def good_io_def
  message_lost_def signaled_def

lemma example_type [simp]: "description_type example_offer = Offer"
  by (simp add: example_offer_def description_type_def sdp_of_number_def)

lemma example_decrypt:
  "side_decrypt example_cipher UploaderSide \<lparr>ers_ciphertext =
     encrypt_signaling (sc_seal example_cipher) (sc_hkdf example_cipher) (sc_encode example_cipher)
       (sc_key example_cipher) (replicate NONCE_SIZE 0) (replicate NONCE_SIZE 0) DownloaderSide
       \<lparr>rtc_inner = Some m\<rparr>\<rparr> = Inr \<lparr>rtc_inner = Some m\<rparr>"
  using example_lawful native.message_roundtrip [of "sc_seal example_cipher" "sc_open example_cipher"
      "sc_encode example_cipher" "sc_decode example_cipher" "replicate NONCE_SIZE 0" "replicate NONCE_SIZE 0"]
  by (auto simp: side_decrypt_def signaling_decrypt_def decrypt_signaling_def encrypt_signaling_def lawful_cipher_def)

lemma example_readable:
  "readable example_cipher UploaderSide
     (encrypt_signaling (sc_seal example_cipher) (sc_hkdf example_cipher) (sc_encode example_cipher)
       (sc_key example_cipher) (replicate NONCE_SIZE 0) (replicate NONCE_SIZE 0) DownloaderSide
       \<lparr>rtc_inner = Some m\<rparr>) = [m]"
  by (simp add: readable_def example_decrypt)

text \<open>An offer and a candidate on their way.\<close>

definition example_negotiation :: "negotiating_event list" where
  "example_negotiation =
     [StackRaises DownloaderSide (OutgoingSignaling (SessionDescription example_offer)),
      TakesTurn DownloaderSide good_io,
      StackRaises DownloaderSide (OutgoingSignaling (IceCandidate example_candidate))]"

lemma example_negotiation_run:
  "\<exists>g. negotiating_run example_cipher example_start example_negotiation = Some g \<and> nothing_stuck example_cipher g \<and>
     sd_raised (ng_side g DownloaderSide) = [SessionDescription example_offer, IceCandidate example_candidate]"
  by (simp add: example_start_def negotiation_simps example_negotiation_def example_candidate_def
      nothing_stuck_def side_ready_def underway_def example_readable outgoing_queued_def
      split: signaling_usage.split)

lemma example_signaled:
  "signaled [SessionDescription example_offer, IceCandidate example_candidate]
    = [SessionDescription example_offer, IceCandidate example_candidate]"
  by (simp add: signaled_def outgoing_admitted_def example_candidate_def)

theorem negotiation_completes_witness:
  "\<exists>evs g. negotiating_run example_cipher example_start (example_negotiation @ evs) = Some g \<and>
     told_messages (sd_told (ng_side g UploaderSide))
       = [SessionDescription example_offer, IceCandidate example_candidate]"
proof -
  obtain g where g: "negotiating_run example_cipher example_start example_negotiation = Some g"
    "nothing_stuck example_cipher g"
    "sd_raised (ng_side g DownloaderSide) = [SessionDescription example_offer, IceCandidate example_candidate]"
    using example_negotiation_run by blast
  have "length example_negotiation < 2 ^ 32 - 1" by (simp add: example_negotiation_def)
  from negotiation_completes [OF example_start example_lawful g(1,2) this] obtain evs' g'
    where "negotiating_run example_cipher example_start (example_negotiation @ evs') = Some g'"
      "told_messages (sd_told (ng_side g' UploaderSide)) = signaled (sd_raised (ng_side g DownloaderSide))"
    by (metis peer_side.simps(2))
  then show ?thesis using g(3) example_signaled by auto
qed

text \<open>
  A fallback: the uploader answers the first offer, the downloader's client offers again, and
  the second offer gets a connection of its own.
\<close>

definition example_fallback :: "negotiating_event list" where
  "example_fallback =
     [StackRaises DownloaderSide (OutgoingSignaling (SessionDescription example_offer)),
      TakesTurn DownloaderSide good_io, Arrives UploaderSide, TakesTurn UploaderSide good_io,
      OffersAgain (\<lambda>_. None),
      StackRaises DownloaderSide (OutgoingSignaling (SessionDescription example_offer)),
      TakesTurn DownloaderSide good_io, Arrives UploaderSide, TakesTurn UploaderSide good_io]"

lemma example_fallback_run:
  "\<exists>g. negotiating_run example_cipher example_start example_fallback = Some g \<and> \<not> ng_lossy g \<and>
     pc_id (sd_client (ng_side g UploaderSide)) = 1 \<and>
     sd_told (ng_side g UploaderSide)
       = [SetRemote example_offer, CreateAnswer, NewConnection 1, SetRemote example_offer, CreateAnswer] \<and>
     sd_raised (ng_side g DownloaderSide) = [SessionDescription example_offer, SessionDescription example_offer]"
  by (simp add: example_start_def negotiation_simps example_fallback_def incoming_signaling_def
      incoming_description_def accept_offer_def reset_connection_def next_connection_id_def example_decrypt
      example_readable split: signaling_usage.split)

theorem negotiation_in_order_witness:
  "\<exists>g. negotiating_run example_cipher example_start example_fallback = Some g \<and>
     told_messages (sd_told (ng_side g UploaderSide))
       = [SessionDescription example_offer, SessionDescription example_offer] \<and>
     descriptions (told_messages (sd_told (ng_side g UploaderSide)))
       \<le> creations DownloaderSide (sd_told (ng_side g DownloaderSide))"
proof -
  have "length example_fallback < 2 ^ 32" by (simp add: example_fallback_def)
  from negotiation_in_order [OF example_start example_lawful this] example_fallback_run
  show ?thesis by auto
qed

text \<open>
  Order alone does not survive a loss: when sending the offer fails, the offer is dropped and
  its candidates go on, so that the uploader's connection is told of a candidate without having
  a description, which ends its transfer if the stack refuses it.
\<close>

lemma lost_offer_leaves_candidates:
  "\<exists>g. negotiating_run example_cipher example_start
      [StackRaises DownloaderSide (OutgoingSignaling (SessionDescription example_offer)),
       TakesTurn DownloaderSide (good_io\<lparr>si_flush := \<lambda>_. \<lparr>fi_now = 0, fi_in_time = True, fi_connect = Inr 0,
         fi_send = Some (WsIO ''broken'')\<rparr>\<rparr>),
       StackRaises DownloaderSide (OutgoingSignaling (IceCandidate example_candidate)),
       TakesTurn DownloaderSide good_io, Arrives UploaderSide, TakesTurn UploaderSide good_io] = Some g \<and>
    ng_lossy g \<and> sd_told (ng_side g UploaderSide) = [AddCandidate example_candidate]"
  using example_decrypt [of "IceCandidate example_candidate"]
  by (simp add: example_start_def negotiation_simps example_candidate_def incoming_signaling_def
      split: signaling_usage.split)

end
