(* ===== verification/Client_Callbacks.thy ===== *)
theory Client_Callbacks
  imports Client_Websocket
begin

text \<open>
  The registration of callbacks on javascript objects (\<^verbatim>\<open>util/web.rs\<close>), and what becomes of the
  callbacks that \<open>WebWebSocketConnection::connect\<close> of \<^verbatim>\<open>websocket/web.rs\<close> registers. An object
  has one slot for each kind of event; setting a slot replaces what was in it.
\<close>

subsection \<open>Callbacks\<close>

text \<open>\<open>'s\<close> names the slots, \<open>'f\<close> the closures.\<close>

type_synonym ('s, 'f) slots = "'s \<rightharpoonup> 'f"

text \<open>\<open>Callbacks\<close>: the slots that its members clear when they are dropped, in their order.\<close>

type_synonym 's callbacks = "'s list"

definition add_event ::
  "'s \<Rightarrow> 'f \<Rightarrow> 's callbacks \<times> ('s, 'f) slots \<Rightarrow> 's callbacks \<times> ('s, 'f) slots" where
  "add_event s f c = (fst c @ [s], (snd c)(s \<mapsto> f))"

definition drop_callbacks :: "'s callbacks \<Rightarrow> ('s, 'f) slots \<Rightarrow> ('s, 'f) slots" where
  "drop_callbacks cs m = foldl (\<lambda>m s. m(s := None)) m cs"

lemma drop_callbacks_apply: "drop_callbacks cs m s = (if s \<in> set cs then None else m s)"
  by (induction cs arbitrary: m) (auto simp: drop_callbacks_def)

subsection \<open>Connecting a websocket\<close>

datatype ws_slot = OnOpen | OnError | OnMessage | OnClose

datatype ws_closure = Resolves | Rejects | HandlesMessage | HandlesClose | HandlesError

text \<open>
  The slots of the websocket when \<open>connect\<close> returns. Only a socket that was not open at once
  gets the callbacks of the opening phase, which are dropped at the end.
\<close>

definition opening_callbacks :: "bool \<Rightarrow> ws_slot callbacks \<times> (ws_slot, ws_closure) slots" where
  "opening_callbacks connecting =
     (if connecting then add_event OnError Rejects (add_event OnOpen Resolves ([], Map.empty))
      else ([], Map.empty))"

definition connected_slots ::
  "bool \<Rightarrow> ws_slot callbacks \<times> (ws_slot, ws_closure) slots" where
  "connected_slots connecting =
     (let (init_callbacks, m) = opening_callbacks connecting;
          m = m(OnOpen := None);
          (callbacks, m) = add_event OnError HandlesError
            (add_event OnClose HandlesClose (add_event OnMessage HandlesMessage ([], m)))
      in (callbacks, drop_callbacks init_callbacks m))"

text \<open>Dropping the callbacks of the opening phase clears the slot for errors after the
  connection's own handler was put there: a websocket that had to be opened, as all do, reports
  no error to its connection, only its closing; and dropping the connection clears its slots.\<close>

theorem websocket_errors_unhandled:
  "snd (connected_slots connecting) =
     (if connecting then [OnMessage \<mapsto> HandlesMessage, OnClose \<mapsto> HandlesClose]
      else [OnMessage \<mapsto> HandlesMessage, OnClose \<mapsto> HandlesClose, OnError \<mapsto> HandlesError]) \<and>
   drop_callbacks (fst (connected_slots connecting)) (snd (connected_slots connecting)) = Map.empty"
proof
  show "snd (connected_slots connecting) =
     (if connecting then [OnMessage \<mapsto> HandlesMessage, OnClose \<mapsto> HandlesClose]
      else [OnMessage \<mapsto> HandlesMessage, OnClose \<mapsto> HandlesClose, OnError \<mapsto> HandlesError])"
    by (rule ext) (auto simp: connected_slots_def opening_callbacks_def add_event_def
        drop_callbacks_apply)
  show "drop_callbacks (fst (connected_slots connecting)) (snd (connected_slots connecting)) = Map.empty"
    by (rule ext) (auto simp: connected_slots_def opening_callbacks_def add_event_def
        drop_callbacks_apply)
qed

subsection \<open>The outcome of connecting\<close>

text \<open>
  \<open>created\<close> is the error of the constructor, \<open>opened\<close> how the promise of the opening phase
  ends, and the two states are those the socket is in before and after (0 is connecting, 1 is
  open). Nothing runs between the callbacks' registration and the second look at the state.
\<close>

definition web_connect ::
  "string option \<Rightarrow> nat \<Rightarrow> string + unit \<Rightarrow> nat \<Rightarrow> websocket_error + web_connection" where
  "web_connect created ready_state opened ready_state' =
     (case created of
        Some e \<Rightarrow> Inl (WsClient e)
      | None \<Rightarrow>
     case (if ready_state = 0 then opened else Inr ()) of
        Inl e \<Rightarrow> Inl (WsClient e)
      | Inr _ \<Rightarrow>
          (let c = \<lparr>wb_error = None, wb_closed = False\<rparr>
           in if ready_state' = 1 then Inr c
              else case fst (try_join c) of
                     Some (Inl e) \<Rightarrow> Inl e
                   | _ \<Rightarrow> Inl (WsClosed (Known ConnectionClosed) ''closed immediately'')))"

lemma web_connect_open:
  "web_connect created s opened s' = Inr c \<Longrightarrow> s' = 1 \<and> wb_error c = None \<and> \<not> wb_closed c"
  by (auto simp: web_connect_def Let_def split: option.splits sum.splits if_splits)

end
