(* ===== verification/Client_Web_File.thy ===== *)
theory Client_Web_File
  imports Client_File
begin

text \<open>
  The files of the web clients: \<open>UploadFile\<close> of \<^verbatim>\<open>uploader_client/web.rs\<close>, an \<open>AsyncRead\<close> over
  a javascript object that answers reads with promises, and \<open>DownloadFile\<close> of
  \<^verbatim>\<open>downloader_client/web.rs\<close>, an \<open>AsyncWrite\<close> over one that takes writes with promises. What
  the promise in flight answers when it is polled is an input of the polls; a panic is \<open>None\<close>
  (a future that is polled again after it has ended panics).
\<close>

subsection \<open>Reading\<close>

datatype js_value = Uint8Array bytes | OtherValue

datatype read_state = Idle | Reading u64 u64 | ReadEnded | Available bytes

record js_upload_file =
  uf_offset :: u64
  uf_read :: read_state

text \<open>The promise of \<open>readAt(offset, len)\<close>, by its arguments.\<close>

type_synonym read_promise = "u64 \<Rightarrow> u64 \<Rightarrow> (string + js_value) poll"

definition new_upload_file :: js_upload_file where
  "new_upload_file = \<lparr>uf_offset = 0, uf_read = Idle\<rparr>"

text \<open>Copy what fits into the buffer and keep the rest for the next read.\<close>

definition serve_data :: "bytes \<Rightarrow> nat \<Rightarrow> js_upload_file \<Rightarrow> (string + bytes) poll \<times> js_upload_file" where
  "serve_data data buf_len f =
     (let read_len = min (length data) buf_len
      in (Ready (Inr (take read_len data)),
          if buf_len < length data then f\<lparr>uf_read := Available (drop buf_len data)\<rparr> else f))"

definition poll_promise ::
  "read_promise \<Rightarrow> u64 \<Rightarrow> u64 \<Rightarrow> nat \<Rightarrow> js_upload_file \<Rightarrow>
   ((string + bytes) poll \<times> js_upload_file) option" where
  "poll_promise read_at offset len buf_len f =
     (case read_at offset len of
        Waiting \<Rightarrow> Some (Waiting, f\<lparr>uf_read := Reading offset len\<rparr>)
      | Ready (Inl e) \<Rightarrow> Some (Ready (Inl e), f\<lparr>uf_read := ReadEnded\<rparr>)
      | Ready (Inr OtherValue) \<Rightarrow> None
      | Ready (Inr (Uint8Array data)) \<Rightarrow>
          Some (serve_data data buf_len
            (f\<lparr>uf_read := Idle, uf_offset := uf_offset f + len64 data\<rparr>)))"

definition web_poll_read ::
  "read_promise \<Rightarrow> nat \<Rightarrow> js_upload_file \<Rightarrow> ((string + bytes) poll \<times> js_upload_file) option" where
  "web_poll_read read_at buf_len f =
     (case uf_read f of
        Idle \<Rightarrow> poll_promise read_at (uf_offset f) (of_nat buf_len) buf_len f
      | Reading offset len \<Rightarrow> poll_promise read_at offset len buf_len f
      | ReadEnded \<Rightarrow> None
      | Available data \<Rightarrow> Some (serve_data data buf_len (f\<lparr>uf_read := Idle\<rparr>)))"

text \<open>
  The reads of \<open>read_plaintext_to_end\<close>: polls into one buffer until a read of length zero or
  an error.
\<close>

fun poll_reads :: "nat \<Rightarrow> js_upload_file \<Rightarrow> read_promise list \<Rightarrow> (string + bytes) list option" where
  "poll_reads buf_len f [] = Some []"
| "poll_reads buf_len f (p # ps) =
     (case web_poll_read p buf_len f of
        None \<Rightarrow> None
      | Some (Waiting, f') \<Rightarrow> poll_reads buf_len f' ps
      | Some (Ready (Inl e), f') \<Rightarrow> Some [Inl e]
      | Some (Ready (Inr bs), f') \<Rightarrow>
          if bs = [] then Some [Inr []] else map_option (Cons (Inr bs)) (poll_reads buf_len f' ps))"

text \<open>
  The contract of the javascript object: a read answers with bytes of one content from the
  offset asked for, as many as it likes, and with none only at the end.
\<close>

definition reads_content :: "bytes \<Rightarrow> read_promise \<Rightarrow> bool" where
  "reads_content C read_at =
     (\<forall>offset len. case read_at offset len of
        Ready (Inr (Uint8Array d)) \<Rightarrow>
          prefix d (drop (unat offset) C) \<and> (d = [] \<longrightarrow> len = 0 \<or> length C \<le> unat offset)
      | Ready (Inr OtherValue) \<Rightarrow> False
      | _ \<Rightarrow> True)"

text \<open>What the file will still yield, as a list of bytes that a read takes the front of.\<close>

definition remaining :: "bytes \<Rightarrow> js_upload_file \<Rightarrow> bytes" where
  "remaining C f =
     (case uf_read f of Available d \<Rightarrow> d | _ \<Rightarrow> []) @ drop (unat (uf_offset f)) C"

definition upload_file_ok :: "bytes \<Rightarrow> js_upload_file \<Rightarrow> bool" where
  "upload_file_ok C f =
     (unat (uf_offset f) \<le> length C \<and>
      (case uf_read f of
         Idle \<Rightarrow> True
       | Reading offset len \<Rightarrow> offset = uf_offset f \<and> len \<noteq> 0
       | ReadEnded \<Rightarrow> False
       | Available d \<Rightarrow> d \<noteq> []))"

definition reads_front :: "bytes \<Rightarrow> nat \<Rightarrow> js_upload_file \<Rightarrow> (string + bytes) poll \<times> js_upload_file \<Rightarrow> bool" where
  "reads_front C buf_len f r =
     (case r of
        (Waiting, f') \<Rightarrow> upload_file_ok C f' \<and> remaining C f' = remaining C f
      | (Ready (Inl e), f') \<Rightarrow> True
      | (Ready (Inr bs), f') \<Rightarrow>
          upload_file_ok C f' \<and> remaining C f = bs @ remaining C f' \<and> length bs \<le> buf_len \<and>
          (bs = [] \<longrightarrow> remaining C f = []))"

lemma serve_data_front:
  assumes "unat (uf_offset f) \<le> length C" and "uf_read f = Idle"
    and "remaining C f0 = data @ remaining C f" and "0 < buf_len"
    and "data = [] \<Longrightarrow> remaining C f0 = []"
  shows "reads_front C buf_len f0 (serve_data data buf_len f)"
  using assms
  by (auto simp: serve_data_def reads_front_def upload_file_ok_def remaining_def min_def)

lemma poll_promise_front:
  assumes "upload_file_ok C f" and "reads_content C read_at" and "length C < 2 ^ 64"
    and "\<And>d. uf_read f \<noteq> Available d" and "offset = uf_offset f" and "len \<noteq> 0" and "0 < buf_len"
  shows "\<exists>r. poll_promise read_at offset len buf_len f = Some r \<and> reads_front C buf_len f r"
proof -
  have c: "case read_at offset len of
      Ready (Inr (Uint8Array d)) \<Rightarrow>
        prefix d (drop (unat offset) C) \<and> (d = [] \<longrightarrow> len = 0 \<or> length C \<le> unat offset)
    | Ready (Inr OtherValue) \<Rightarrow> False | _ \<Rightarrow> True"
    using assms(2) unfolding reads_content_def by blast
  have rem: "remaining C f = drop (unat offset) C"
    using assms(4,5) by (auto simp: remaining_def split: read_state.split)
  show ?thesis
  proof (cases "read_at offset len")
    case Waiting
    then show ?thesis
      using assms rem by (auto simp: poll_promise_def reads_front_def upload_file_ok_def remaining_def)
  next
    case (Ready r)
    show ?thesis
    proof (cases r)
      case (Inl e)
      then show ?thesis using Ready by (simp add: poll_promise_def reads_front_def)
    next
      case (Inr v)
      then obtain d where v: "v = Uint8Array d" and d: "prefix d (drop (unat offset) C)"
        "d = [] \<longrightarrow> length C \<le> unat offset"
        using c Ready assms(6) by (cases v) auto
      have le: "unat offset + length d \<le> length C"
        using prefix_drop_length [OF d(1)] assms(1,5) by (auto simp: upload_file_ok_def)
      let ?f = "f\<lparr>uf_read := Idle, uf_offset := uf_offset f + len64 d\<rparr>"
      have u: "unat (uf_offset ?f) = unat offset + length d"
        using le assms(3,5) by (simp add: unat_add_len64)
      have "remaining C f = d @ remaining C ?f"
        using d(1) u unfolding rem by (auto simp: remaining_def prefix_def add.commute simp flip: drop_drop)
      moreover have "d = [] \<Longrightarrow> remaining C f = []" using d(2) rem by simp
      ultimately have "reads_front C buf_len f (serve_data d buf_len ?f)"
        using u le assms(7) by (intro serve_data_front) simp_all
      then show ?thesis using Ready Inr v by (simp add: poll_promise_def)
    qed
  qed
qed

text \<open>A read takes the front of what remains: it does not panic, what it returns is what the file
  still had to yield, as much as fits, and nothing only at the end.\<close>

lemma web_poll_read_front:
  assumes "upload_file_ok C f" and "reads_content C read_at" and "length C < 2 ^ 64"
    and "0 < buf_len" and "buf_len < 2 ^ 64"
  shows "\<exists>r. web_poll_read read_at buf_len f = Some r \<and> reads_front C buf_len f r"
proof -
  have nz: "(of_nat buf_len :: u64) \<noteq> 0"
    using assms(4,5) by (metis less_numeral_extra(3) unat_0 unat_of_nat_len)
  show ?thesis
  proof (cases "uf_read f")
    case (Available d)
    then have "reads_front C buf_len f (serve_data d buf_len (f\<lparr>uf_read := Idle\<rparr>))"
      using assms by (intro serve_data_front) (simp_all add: upload_file_ok_def remaining_def)
    then show ?thesis using Available by (simp add: web_poll_read_def)
  qed (use assms poll_promise_front [OF assms(1,2,3)] nz in
      \<open>auto simp: web_poll_read_def upload_file_ok_def\<close>)
qed

text \<open>C38: Reading a file in a browser refines reading a list of bytes: over any polls, each against a
  promise that answers with bytes of one content from the offset it was asked for (fewer, or
  more, than fit the buffer), the reads do not panic, and when they end without an error they
  have returned the whole content in order, as \<open>read_plaintext_to_end\<close> requires.\<close>

theorem web_reads_are_content:
  assumes "upload_file_ok C f" and "list_all (reads_content C) promises" and "length C < 2 ^ 64"
    and "0 < buf_len" and "buf_len < 2 ^ 64"
  shows "\<exists>reads. poll_reads buf_len f promises = Some reads \<and>
    (Inr [] \<in> set reads \<longrightarrow> read_all reads = Inr (remaining C f)) \<and>
    (\<forall>bs. Inr bs \<in> set reads \<longrightarrow> length bs \<le> buf_len)"
  using assms(1,2)
proof (induction promises arbitrary: f)
  case Nil
  then show ?case by simp
next
  case (Cons p ps)
  obtain q f' where r: "web_poll_read p buf_len f = Some (q, f')" "reads_front C buf_len f (q, f')"
    using web_poll_read_front [OF Cons.prems(1) _ assms(3-5), of p] Cons.prems(2) by fastforce
  have ps: "list_all (reads_content C) ps" using Cons.prems(2) by simp
  show ?case
  proof (cases q)
    case Waiting
    then show ?thesis
      using r Cons.IH [OF _ ps, of f'] by (auto simp: reads_front_def)
  next
    case (Ready x)
    show ?thesis
    proof (cases x)
      case (Inl e)
      then show ?thesis using r Ready by simp
    next
      case (Inr bs)
      then have fr: "upload_file_ok C f'" "remaining C f = bs @ remaining C f'"
        "length bs \<le> buf_len" "bs = [] \<Longrightarrow> remaining C f = []"
        using r(2) Ready by (auto simp: reads_front_def)
      show ?thesis
      proof (cases bs)
        case Nil
        then show ?thesis using r(1) Ready Inr fr(3,4) by simp
      next
        case (Cons b bs')
        then show ?thesis
          using r(1) Ready Inr fr Cons.IH [OF fr(1) ps] by (auto split: sum.splits)
      qed
    qed
  qed
qed

text \<open>A file that answers at most three bytes at a time, at every second poll.\<close>

definition example_reads :: "bytes \<Rightarrow> read_promise list" where
  "example_reads C =
     [\<lambda>offset len. Waiting, \<lambda>offset len. Ready (Inr (Uint8Array (take 3 (drop (unat offset) C)))),
      \<lambda>offset len. Waiting, \<lambda>offset len. Waiting,
      \<lambda>offset len. Ready (Inr (Uint8Array (take 3 (drop (unat offset) C)))),
      \<lambda>offset len. Ready (Inr (Uint8Array (take 3 (drop (unat offset) C))))]"

theorem web_reads_are_content_witness:
  "poll_reads 2 new_upload_file (example_reads [1, 2, 3]) = Some [Inr [1, 2], Inr [3], Inr []] \<and>
   read_all [Inr [1, 2], Inr [3], Inr []] = Inr [1, 2, 3 :: u8]"
proof -
  have e: "poll_reads 2 new_upload_file (example_reads [1, 2, 3]) = Some [Inr [1, 2], Inr [3], Inr []]"
    by (simp add: example_reads_def new_upload_file_def web_poll_read_def poll_promise_def
        serve_data_def len64_def)
  have "upload_file_ok [1, 2, 3] new_upload_file" "list_all (reads_content [1, 2, 3]) (example_reads [1, 2, 3])"
    by (simp_all add: upload_file_ok_def new_upload_file_def example_reads_def reads_content_def
        take_is_prefix)
  from web_reads_are_content [OF this, of 2] e
  show ?thesis by (simp add: remaining_def new_upload_file_def)
qed

subsection \<open>Writing\<close>

datatype write_promise = InFlight bytes | WriteEnded

text \<open>\<open>jf_written\<close> are the buffers whose writes have succeeded.\<close>

record js_download_file =
  jf_pending :: "write_promise option"
  jf_written :: "bytes list"

definition new_download_file :: js_download_file where
  "new_download_file = \<lparr>jf_pending = None, jf_written = []\<rparr>"

type_synonym write_outcome = "(string + unit) poll"

definition poll_pending_write ::
  "write_outcome \<Rightarrow> js_download_file \<Rightarrow> ((string + unit) poll \<times> js_download_file) option" where
  "poll_pending_write promise f =
     (case jf_pending f of
        None \<Rightarrow> Some (Ready (Inr ()), f)
      | Some WriteEnded \<Rightarrow> None
      | Some (InFlight d) \<Rightarrow>
          (case promise of
             Waiting \<Rightarrow> Some (Waiting, f)
           | Ready (Inl e) \<Rightarrow> Some (Ready (Inl e), f\<lparr>jf_pending := Some WriteEnded\<rparr>)
           | Ready (Inr _) \<Rightarrow>
               Some (Ready (Inr ()),
                 f\<lparr>jf_pending := Some WriteEnded, jf_written := jf_written f @ [d]\<rparr>)))"

definition web_poll_write ::
  "write_outcome \<Rightarrow> bytes \<Rightarrow> js_download_file \<Rightarrow> ((string + nat) poll \<times> js_download_file) option" where
  "web_poll_write promise buf f =
     (case poll_pending_write promise f of
        None \<Rightarrow> None
      | Some (Waiting, f') \<Rightarrow> Some (Waiting, f')
      | Some (Ready (Inl e), f') \<Rightarrow> Some (Ready (Inl e), f')
      | Some (Ready (Inr _), f') \<Rightarrow>
          Some (Ready (Inr (length buf)), f'\<lparr>jf_pending := Some (InFlight buf)\<rparr>))"

definition web_poll_flush ::
  "write_outcome \<Rightarrow> js_download_file \<Rightarrow> ((string + unit) poll \<times> js_download_file) option" where
  "web_poll_flush promise f =
     (case poll_pending_write promise f of
        None \<Rightarrow> None
      | Some (Waiting, f') \<Rightarrow> Some (Waiting, f')
      | Some (Ready (Inl e), f') \<Rightarrow> Some (Ready (Inl e), f')
      | Some (Ready (Inr _), f') \<Rightarrow> Some (Ready (Inr ()), f'\<lparr>jf_pending := None\<rparr>))"

definition web_poll_close ::
  "write_outcome \<Rightarrow> js_download_file \<Rightarrow> ((string + unit) poll \<times> js_download_file) option" where
  "web_poll_close promise f = web_poll_flush promise f"

subsection \<open>Any sequence of writes\<close>

datatype web_op = WebWrite bytes | WebFlush | WebClose

text \<open>One operation: what it answers, and the buffers it has taken.\<close>

fun web_step ::
  "write_outcome \<Rightarrow> web_op \<Rightarrow> js_download_file \<Rightarrow>
   ((string + unit) poll \<times> bytes list \<times> js_download_file) option" where
  "web_step promise (WebWrite buf) f =
     (case web_poll_write promise buf f of
        None \<Rightarrow> None
      | Some (Waiting, f') \<Rightarrow> Some (Waiting, [], f')
      | Some (Ready (Inl e), f') \<Rightarrow> Some (Ready (Inl e), [], f')
      | Some (Ready (Inr n), f') \<Rightarrow> Some (Ready (Inr ()), [buf], f'))"
| "web_step promise WebFlush f = map_option (\<lambda>(r, f'). (r, [], f')) (web_poll_flush promise f)"
| "web_step promise WebClose f = map_option (\<lambda>(r, f'). (r, [], f')) (web_poll_close promise f)"

text \<open>Operations up to the first that fails: the buffers taken, and whether one failed.\<close>

fun web_run ::
  "(web_op \<times> write_outcome) list \<Rightarrow> js_download_file \<Rightarrow> (bytes list \<times> bool \<times> js_download_file) option" where
  "web_run [] f = Some ([], False, f)"
| "web_run ((operation, promise) # ops) f =
     (case web_step promise operation f of
        None \<Rightarrow> None
      | Some (Ready (Inl e), taken, f') \<Rightarrow> Some (taken, True, f')
      | Some (_, taken, f') \<Rightarrow> map_option (apfst ((@) taken)) (web_run ops f'))"

definition in_flight :: "js_download_file \<Rightarrow> bytes list" where
  "in_flight f = (case jf_pending f of Some (InFlight d) \<Rightarrow> [d] | _ \<Rightarrow> [])"

definition not_ended :: "js_download_file \<Rightarrow> bool" where
  "not_ended f = (jf_pending f \<noteq> Some WriteEnded)"

lemmas web_write_defs = web_poll_write_def web_poll_flush_def web_poll_close_def
  poll_pending_write_def in_flight_def not_ended_def

lemma web_step_in_order:
  assumes "not_ended f"
  shows "\<exists>r taken f'. web_step promise operation f = Some (r, taken, f') \<and>
    (case r of
       Ready (Inl e) \<Rightarrow> taken = [] \<and> jf_written f' = jf_written f
     | _ \<Rightarrow> not_ended f' \<and> jf_written f' @ in_flight f' = (jf_written f @ in_flight f) @ taken)"
  using assms
  by (cases operation; cases "jf_pending f"; cases promise)
    (auto simp: web_write_defs split: write_promise.splits sum.splits)

text \<open>The browser's writer keeps the order of the data and loses none: over any operations and
  answers of the javascript object, as long as none has failed nothing panics, the writes that
  have succeeded and the one in flight are exactly the buffers taken, in their order, with at
  most one write in flight; and a failure leaves a prefix written.\<close>

theorem web_writes_in_order:
  "\<exists>taken failed f. web_run ops new_download_file = Some (taken, failed, f) \<and>
    prefix (jf_written f) taken \<and>
    (failed \<or> taken = jf_written f @ in_flight f)"
proof -
  have "\<exists>taken failed f'. web_run ops f = Some (taken, failed, f') \<and>
      prefix (jf_written f') ((jf_written f @ in_flight f) @ taken) \<and>
      (failed \<or> (jf_written f @ in_flight f) @ taken = jf_written f' @ in_flight f')"
    if "not_ended f" for f
    using that
  proof (induction ops arbitrary: f)
    case Nil
    show ?case by (intro exI [of _ "[]"] exI [of _ False] exI [of _ f]) simp
  next
    case (Cons op_promise ops)
    obtain operation promise where op: "op_promise = (operation, promise)" by fastforce
    obtain r taken f1 where st: "web_step promise operation f = Some (r, taken, f1)"
      and o: "case r of
         Ready (Inl e) \<Rightarrow> taken = [] \<and> jf_written f1 = jf_written f
       | _ \<Rightarrow> not_ended f1 \<and> jf_written f1 @ in_flight f1 = (jf_written f @ in_flight f) @ taken"
      using web_step_in_order [OF Cons.prems, of promise operation] by blast
    show ?case
    proof (cases "\<exists>e. r = Ready (Inl e)")
      case True
      then show ?thesis using op st o by auto
    next
      case False
      then have ok: "not_ended f1" "jf_written f1 @ in_flight f1 = (jf_written f @ in_flight f) @ taken"
        using o by (cases r; auto split: sum.splits)+
      obtain taken' failed f' where "web_run ops f1 = Some (taken', failed, f')"
        "prefix (jf_written f') ((jf_written f1 @ in_flight f1) @ taken')"
        "failed \<or> (jf_written f1 @ in_flight f1) @ taken' = jf_written f' @ in_flight f'"
        using Cons.IH [OF ok(1)] by blast
      then show ?thesis
        using False op st ok(2) by (cases r) (auto split: sum.splits)
    qed
  qed
  from this [of new_download_file] show ?thesis
    by (auto simp: new_download_file_def not_ended_def in_flight_def)
qed

end
