(* ===== verification/Client_Drivers.thy ===== *)
theory Client_Drivers
  imports Client_Session Client_Web_File
begin

text \<open>
  The faces of the client: the blocking calls of \<^verbatim>\<open>uploader_client/native.rs\<close> and
  \<^verbatim>\<open>downloader_client/native.rs\<close>, those of the foreign-function interface (\<^verbatim>\<open>*/ffi.rs\<close>), the
  classes exported to javascript (\<^verbatim>\<open>*/web.rs\<close>), and the errors as their users see them: the
  text of \<^verbatim>\<open>error.rs\<close> and the javascript error classes of \<^verbatim>\<open>error/web.rs\<close>.
\<close>

subsection \<open>Errors as text\<close>

definition known_status_text :: "known_close_status \<Rightarrow> string" where
  "known_status_text s =
     (case s of
        Normal \<Rightarrow> ''1000 (normal)''
      | Gone \<Rightarrow> ''1001 (gone)''
      | ProtocolError \<Rightarrow> ''1002 (protocol error)''
      | UnsupportedFrameType \<Rightarrow> ''1003 (unsupported frame type)''
      | MissingStatusCode \<Rightarrow> ''1005 (missing status code)''
      | ConnectionClosed \<Rightarrow> ''1006 (connection closed)''
      | InvalidFrameData \<Rightarrow> ''1007 (invalid frame data)''
      | Client_Error.Forbidden \<Rightarrow> ''1008 (forbidden)''
      | FrameTooLarge \<Rightarrow> ''1009 (frame too large)''
      | MissingProtocolExtension \<Rightarrow> ''1010 (missing protocol extension)''
      | InternalServerError \<Rightarrow> ''1011 (internal server error)''
      | TlsError \<Rightarrow> ''1015 (TLS error)'')"

definition close_status_text :: "close_status \<Rightarrow> string" where
  "close_status_text s =
     (case s of
        Known k \<Rightarrow> known_status_text k
      | Unknown n \<Rightarrow> decimal (unat n) @ '' (unknown)'')"

definition error_text :: "error \<Rightarrow> string" where
  "error_text e =
     (case e of
        ClientHttpErrorResponse m s ra \<Rightarrow> ''API status '' @ decimal (unat s) @ '' - '' @ m
      | ClientApiErrorResponse m r \<Rightarrow> ''API error: '' @ r @ '' - '' @ m
      | WebSocketClosed s r \<Rightarrow> ''WebSocket closed with status '' @ close_status_text s @ '': '' @ r
      | IO src \<Rightarrow> ''IO Error: '' @ src
      | HTTPClient src \<Rightarrow> ''HTTP Client error: '' @ src
      | RTCDataChannel src \<Rightarrow> ''RTC Data Channel error: '' @ src
      | WebSocketClient src \<Rightarrow> ''WebSocket Client error: '' @ src
      | InvalidPeerMessage src \<Rightarrow> ''Invalid message from peer: '' @ src
      | InvalidInput m \<Rightarrow> ''Invalid input: '' @ m
      | InvalidCipherKey \<Rightarrow> ''Invalid cipher key''
      | Decrypt \<Rightarrow> ''Decryption error''
      | InvalidServerResponse m \<Rightarrow> ''Invalid server response: '' @ m
      | TimedOut \<Rightarrow> ''Timed out'')"

subsection \<open>Errors in javascript\<close>

datatype js_field = NoField | NumberField u16 | StringField string

record js_error =
  je_class :: string
  je_message :: string
  je_field :: js_field

definition js_of_error :: "error \<Rightarrow> js_error" where
  "js_of_error e =
     (let message = error_text e
      in case e of
        ClientHttpErrorResponse _ s _ \<Rightarrow> \<lparr>je_class = ''HTTPErrorResponseError'', je_message = message, je_field = NumberField s\<rparr>
      | ClientApiErrorResponse _ r \<Rightarrow> \<lparr>je_class = ''ApiErrorResponseError'', je_message = message, je_field = StringField r\<rparr>
      | WebSocketClosed s _ \<Rightarrow> \<lparr>je_class = ''WebSocketClosedError'', je_message = message, je_field = NumberField (close_code s)\<rparr>
      | IO _ \<Rightarrow> \<lparr>je_class = ''IOError'', je_message = message, je_field = NoField\<rparr>
      | HTTPClient _ \<Rightarrow> \<lparr>je_class = ''HTTPClientError'', je_message = message, je_field = NoField\<rparr>
      | RTCDataChannel _ \<Rightarrow> \<lparr>je_class = ''RTCDataChannelError'', je_message = message, je_field = NoField\<rparr>
      | WebSocketClient _ \<Rightarrow> \<lparr>je_class = ''WebSocketClientError'', je_message = message, je_field = NoField\<rparr>
      | InvalidPeerMessage _ \<Rightarrow> \<lparr>je_class = ''InvalidPeerMessageError'', je_message = message, je_field = NoField\<rparr>
      | InvalidInput _ \<Rightarrow> \<lparr>je_class = ''InvalidInputError'', je_message = message, je_field = NoField\<rparr>
      | InvalidCipherKey \<Rightarrow> \<lparr>je_class = ''InvalidCipherKeyError'', je_message = message, je_field = NoField\<rparr>
      | Decrypt \<Rightarrow> \<lparr>je_class = ''DecryptError'', je_message = message, je_field = NoField\<rparr>
      | InvalidServerResponse _ \<Rightarrow> \<lparr>je_class = ''InvalidServerResponseError'', je_message = message, je_field = NoField\<rparr>
      | TimedOut \<Rightarrow> \<lparr>je_class = ''TimeoutError'', je_message = message, je_field = NoField\<rparr>)"

lemma known_status_text_code: "prefix (decimal (unat (known_code k))) (known_status_text k)"
  by (cases k) (simp_all add: known_status_text_def decimal.simps)

lemma known_not_unknown:
  "known_status_text k @ x \<noteq> decimal (unat (known_code k)) @ '' (unknown)'' @ y"
  by (cases k) (simp_all add: known_status_text_def decimal.simps)

lemma close_status_text_inj:
  assumes "close_code s = close_code t" and "close_status_text s @ x = close_status_text t @ y"
  shows "s = t \<and> x = y"
  using assms known_not_unknown
  by (cases s; cases t) (auto simp: close_code_def close_status_text_def dest!: known_code_inj, metis+)

text \<open>An error is not lost on its way to javascript: errors that arrive equal are of the same
  variant and, apart from the delay a server asked for, the same error.\<close>

theorem js_errors_distinct:
  assumes "js_of_error a = js_of_error b"
  shows "a = b \<or> (\<exists>m s ra rb. a = ClientHttpErrorResponse m s ra \<and> b = ClientHttpErrorResponse m s rb)"
proof (cases "\<exists>s r. a = WebSocketClosed s r")
  case True
  then obtain s r where a: "a = WebSocketClosed s r" by blast
  obtain t q where b: "b = WebSocketClosed t q"
    using assms a by (cases b) (simp_all add: js_of_error_def)
  have "close_code s = close_code t"
    "close_status_text s @ '': '' @ r = close_status_text t @ '': '' @ q"
    using assms by (simp_all add: a b js_of_error_def error_text_def)
  then have "s = t \<and> '': '' @ r = '': '' @ q" by (rule close_status_text_inj)
  then show ?thesis by (simp add: a b)
next
  case False
  then show ?thesis
    using assms by (cases a; cases b) (simp_all add: js_of_error_def error_text_def)
qed

theorem js_errors_distinct_witness:
  "js_of_error (ClientHttpErrorResponse ''m'' 503 None)
     = js_of_error (ClientHttpErrorResponse ''m'' 503 (Some 7)) \<and>
   js_of_error (IO ''m'') \<noteq> js_of_error (HTTPClient ''m'')"
proof -
  have e: "js_of_error (ClientHttpErrorResponse ''m'' 503 None)
     = js_of_error (ClientHttpErrorResponse ''m'' 503 (Some 7))"
    by (simp add: js_of_error_def error_text_def)
  have "js_of_error (IO ''m'') \<noteq> js_of_error (HTTPClient ''m'')"
    using js_errors_distinct [of "IO ''m''" "HTTPClient ''m''"] by auto
  then show ?thesis using e js_errors_distinct [OF e] by simp
qed

subsection \<open>Following an operation\<close>

text \<open>
  The loop \<open>while let Some(progress) = stream.try_next().await?\<close>: what the callback is called
  with, and the result.
\<close>

fun drive_progress :: "(error + 'u) list \<Rightarrow> 'u list \<times> (error + unit)" where
  "drive_progress [] = ([], Inr ())"
| "drive_progress (Inl e # items) = ([], Inl e)"
| "drive_progress (Inr u # items) = apfst (Cons u) (drive_progress items)"

text \<open>In javascript the callback is optional and may throw, which ends the loop.\<close>

fun web_drive :: "('u \<Rightarrow> js_error option) option \<Rightarrow> (error + 'u) list \<Rightarrow> 'u list \<times> (js_error + unit)" where
  "web_drive handler [] = ([], Inr ())"
| "web_drive handler (Inl e # items) = ([], Inl (js_of_error e))"
| "web_drive handler (Inr u # items) =
     (case handler of
        None \<Rightarrow> web_drive handler items
      | Some h \<Rightarrow>
          (case h u of
             Some thrown \<Rightarrow> ([u], Inl thrown)
           | None \<Rightarrow> apfst (Cons u) (web_drive handler items)))"

text \<open>How the operation itself ends: the first answer of its future.\<close>

fun operation_outcome :: "'u progress_event list \<Rightarrow> (error + unit) option" where
  "operation_outcome [] = None"
| "operation_outcome (Sends u # evs) = operation_outcome evs"
| "operation_outcome (Polls (Ready r) # evs) = Some r"
| "operation_outcome (Polls Waiting # evs) = operation_outcome evs"

text \<open>A download in javascript without a handler awaits the operation itself.\<close>

definition web_download ::
  "('u \<Rightarrow> js_error option) option \<Rightarrow> 'u progress_event list \<Rightarrow> ('u list \<times> (js_error + unit)) option" where
  "web_download handler evs =
     (case handler of
        Some h \<Rightarrow> Some (web_drive (Some h) (fst (progress_items [] evs)))
      | None \<Rightarrow> map_option (\<lambda>r. ([], map_sum js_of_error id r)) (operation_outcome evs))"

lemma progress_items_outcome:
  "operation_outcome evs = Some r \<Longrightarrow>
   \<exists>us. fst (progress_items queued evs) = map Inr us @ (case r of Inl e \<Rightarrow> [Inl e] | Inr _ \<Rightarrow> []) \<and>
     prefix us (queued @ sent_updates evs)"
proof (induction queued evs rule: progress_items.induct)
  case (2 queued u evs)
  then show ?case by (simp add: sent_updates_def)
next
  case (3 queued future evs)
  show ?case
  proof (cases future)
    case (Ready x)
    then show ?thesis using 3(3)
      by (intro exI [of _ "[]"]) (auto simp: progress_poll_next_def split: sum.splits)
  next
    case Waiting
    then have r: "operation_outcome evs = Some r" using 3(3) by simp
    have se: "sent_updates (Polls future # evs) = sent_updates evs" by (simp add: sent_updates_def)
    show ?thesis
    proof (cases queued)
      case Nil
      then have "progress_items queued (Polls future # evs) = progress_items [] evs"
        using Waiting by (simp add: progress_poll_next_def)
      then show ?thesis
        using 3(1) [OF _ _ r, of Waiting "[]"] Nil Waiting se by (simp add: progress_poll_next_def)
    next
      case (Cons u us)
      then obtain vs where
        "fst (progress_items us evs) = map Inr vs @ (case r of Inl e \<Rightarrow> [Inl e] | Inr _ \<Rightarrow> [])"
        "prefix vs (us @ sent_updates evs)"
        using 3(2) [of "Ready (Some (Inr u))" us "Some (Inr u)" "Inr u" u] r Waiting
        by (auto simp: progress_poll_next_def)
      then show ?thesis
        using Cons Waiting se by (intro exI [of _ "u # vs"]) (auto simp: progress_poll_next_def)
    qed
  qed
qed simp

lemma drive_progress_outcome:
  "drive_progress (map Inr us @ (case r of Inl e \<Rightarrow> [Inl e] | Inr _ \<Rightarrow> [])) = (us, r)"
  by (induction us) (auto split: sum.splits)

lemma web_drive_quiet:
  "web_drive None (map Inr us @ (case r of Inl e \<Rightarrow> [Inl e] | Inr _ \<Rightarrow> [])) = ([], map_sum js_of_error id r)"
  "(\<And>u. h u = None) \<Longrightarrow>
   web_drive (Some h) (map Inr us @ (case r of Inl e \<Rightarrow> [Inl e] | Inr _ \<Rightarrow> [])) = (us, map_sum js_of_error id r)"
  by (induction us) (auto split: sum.splits)

text \<open>Every face of the client reports an upload or a download as it went: when the operation
  ends, the blocking call returns its result, the javascript class the same or the error's
  javascript form, whether a callback follows it or not, and the callbacks (if the javascript one
  does not throw) have been called with the updates sent, in order and from the first.\<close>

theorem drivers_report_outcome:
  assumes "operation_outcome evs = Some r" and "\<And>u. h u = None"
  shows "\<exists>us. prefix us (sent_updates evs) \<and>
    drive_progress (fst (progress_items [] evs)) = (us, r) \<and>
    web_drive (Some h) (fst (progress_items [] evs)) = (us, map_sum js_of_error id r) \<and>
    web_drive None (fst (progress_items [] evs)) = ([], map_sum js_of_error id r) \<and>
    web_download (Some h) evs = Some (us, map_sum js_of_error id r) \<and>
    web_download None evs = Some ([], map_sum js_of_error id r)"
proof -
  obtain us where us: "fst (progress_items [] evs) = map Inr us @ (case r of Inl e \<Rightarrow> [Inl e] | Inr _ \<Rightarrow> [])"
    "prefix us (sent_updates evs)"
    using progress_items_outcome [OF assms(1), of "[]"] by auto
  have "web_drive (Some h) (fst (progress_items [] evs)) = (us, map_sum js_of_error id r)"
    "web_drive None (fst (progress_items [] evs)) = ([], map_sum js_of_error id r)"
    "drive_progress (fst (progress_items [] evs)) = (us, r)"
    unfolding us(1) web_drive_quiet(2) [OF assms(2)] web_drive_quiet(1) drive_progress_outcome by simp_all
  then show ?thesis using us(2) assms(1) by (auto simp: web_download_def)
qed

theorem drivers_report_outcome_witness:
  "drive_progress (fst (progress_items []
     [Sends (1 :: nat), Polls Waiting, Sends 2, Polls (Ready (Inl TimedOut))])) = ([1], Inl TimedOut)"
proof -
  let ?evs = "[Sends (1 :: nat), Polls Waiting, Sends 2, Polls (Ready (Inl TimedOut))]"
  have "operation_outcome ?evs = Some (Inl TimedOut)" by simp
  from drivers_report_outcome [OF this, of "\<lambda>_. None"]
  obtain us where us: "drive_progress (fst (progress_items [] ?evs)) = (us, Inl TimedOut)" by auto
  have "fst (progress_items [] ?evs) = [Inr 1, Inl TimedOut]"
    by (simp add: progress_poll_next_def)
  then show ?thesis using us by simp
qed

subsection \<open>Native calls\<close>

text \<open>
  \<open>Path::file_name\<close>, for the paths of Unix: the last component, where empty components and
  \<open>.\<close> do not count, if it is a name.
\<close>

fun split_slash :: "string \<Rightarrow> string list" where
  "split_slash [] = [[]]"
| "split_slash (c # s) =
     (if c = CHR ''/'' then [] # split_slash s
      else case split_slash s of [] \<Rightarrow> [[c]] | p # ps \<Rightarrow> (c # p) # ps)"

definition path_file_name :: "string \<Rightarrow> string option" where
  "path_file_name path =
     (case rev (filter (\<lambda>c. c \<noteq> [] \<and> c \<noteq> ''.'') (split_slash path)) of
        [] \<Rightarrow> None
      | name # _ \<Rightarrow> if name = ''..'' then None else Some name)"

text \<open>
  \<open>current_thread_block_on\<close> fails when the runtime cannot be built (\<open>runtime\<close>). Opening the
  file may fail too; what the server answers depends on the name that is posted.
\<close>

definition native_provision_file ::
  "string option \<Rightarrow> (string \<Rightarrow> string option) \<Rightarrow> cipher_key \<Rightarrow> string + u64 \<Rightarrow>
   (string \<Rightarrow> error + string \<times> string) \<Rightarrow> string \<Rightarrow> (error + provisioned_file) option" where
  "native_provision_file runtime open_file key file_len response path =
     (case runtime of
        Some e \<Rightarrow> Some (Inl (IO e))
      | None \<Rightarrow>
     case open_file path of
        Some e \<Rightarrow> Some (Inl (IO e))
      | None \<Rightarrow>
     case path_file_name path of
        None \<Rightarrow> Some (Inl (InvalidInput ''invalid file path''))
      | Some name \<Rightarrow> provision_file_async key file_len (response name))"

definition native_upload ::
  "string option \<Rightarrow> (error + 'u) list \<Rightarrow> 'u list \<times> (error + unit)" where
  "native_upload runtime items =
     (case runtime of Some e \<Rightarrow> ([], Inl (IO e)) | None \<Rightarrow> drive_progress items)"

text \<open>The file is created before anything is transferred: whatever the outcome, it then exists.\<close>

definition native_download ::
  "string option \<Rightarrow> (string \<Rightarrow> string option) \<Rightarrow> string option \<Rightarrow> file_meta \<Rightarrow> (error + 'u) list \<Rightarrow>
   string list \<times> 'u list \<times> (error + unit)" where
  "native_download runtime creating output_dir meta items =
     (case runtime of
        Some e \<Rightarrow> ([], [], Inl (IO e))
      | None \<Rightarrow>
          (let path = output_path output_dir meta
           in case creating path of
                Some e \<Rightarrow> ([], [], Inl (IO e))
              | None \<Rightarrow> ([path], drive_progress items)))"

subsection \<open>Classes for javascript\<close>

record web_provisioned =
  wp_inner :: "provisioned_file option"

definition web_provision_file ::
  "(error + provisioned_file) option \<Rightarrow> (js_error + web_provisioned) option" where
  "web_provision_file provisioned =
     map_option (map_sum js_of_error (\<lambda>p. \<lparr>wp_inner = Some p\<rparr>)) provisioned"

text \<open>Uploading takes the file out of its wrapper; a second use panics.\<close>

definition web_upload_file ::
  "(provisioned_file \<Rightarrow> (error + 'u) list) \<Rightarrow> ('u \<Rightarrow> js_error option) option \<Rightarrow> web_provisioned \<Rightarrow>
   (('u list \<times> (js_error + unit)) \<times> web_provisioned) option" where
  "web_upload_file upload handler w =
     (case wp_inner w of
        None \<Rightarrow> None
      | Some p \<Rightarrow> Some (web_drive handler (upload p), w\<lparr>wp_inner := None\<rparr>))"

definition web_download_url ::
  "(string \<Rightarrow> js_error + 'url) \<Rightarrow> (bytes \<Rightarrow> string) \<Rightarrow> string \<Rightarrow> web_provisioned \<Rightarrow>
   (js_error + 'url) option" where
  "web_download_url new_url enc origin w =
     map_option
       (\<lambda>p. new_url (formatted_download_url_and_key enc origin (pf_download_id p) (pf_key p)))
       (wp_inner w)"

lemma web_upload_once:
  "web_upload_file upload handler w = Some (r, w') \<Longrightarrow>
   web_upload_file upload handler w' = None \<and> web_download_url new_url enc origin w' = None"
  by (auto simp: web_upload_file_def web_download_url_def split: option.splits)

subsection \<open>Foreign-function interface\<close>

definition new_ffi ::
  "(string \<Rightarrow> 'url option) \<Rightarrow> string \<Rightarrow> string \<Rightarrow> transport \<Rightarrow> error + 'url \<times> 'url \<times> transport" where
  "new_ffi parse api_endpoint download_endpoint transport =
     (case parse api_endpoint of
        None \<Rightarrow> Inl (InvalidInput ''invalid api endpoint'')
      | Some api \<Rightarrow>
     case parse download_endpoint of
        None \<Rightarrow> Inl (InvalidInput ''invalid api endpoint'')
      | Some download \<Rightarrow> Inr (api, download, transport))"

definition from_download_url_ffi ::
  "(string \<Rightarrow> 'url option) \<Rightarrow> (string \<Rightarrow> (string \<times> string option) option) \<Rightarrow> (string \<Rightarrow> bytes option) \<Rightarrow>
   string \<Rightarrow> string \<Rightarrow> transport \<Rightarrow> error + 'url \<times> (string \<times> cipher_key) \<times> transport" where
  "from_download_url_ffi parse parse_download dec download_url api_endpoint transport =
     (case parse api_endpoint of
        None \<Rightarrow> Inl (InvalidInput ''invalid api endpoint'')
      | Some api \<Rightarrow>
     case parse_download_url parse_download dec download_url of
        Inl e \<Rightarrow> Inl e
      | Inr link \<Rightarrow> Inr (api, link, transport))"

text \<open>The file behind a handle is cloned, so that a handle can be uploaded again.\<close>

definition upload_provisioned_file_ffi ::
  "string option \<Rightarrow> error option \<Rightarrow> string option \<Rightarrow> (error + 'u) list \<Rightarrow> error + unit" where
  "upload_provisioned_file_ffi clone_runtime cloned runtime items =
     (case clone_runtime of
        Some e \<Rightarrow> Inl (IO e)
      | None \<Rightarrow> case cloned of Some e \<Rightarrow> Inl e | None \<Rightarrow> snd (native_upload runtime items))"

definition download_ffi ::
  "string option \<Rightarrow> (string \<Rightarrow> string option) \<Rightarrow> file_meta \<Rightarrow> string option \<Rightarrow> (error + 'u) list \<Rightarrow>
   string list \<times> (error + unit)" where
  "download_ffi runtime creating meta output_dir items =
     apsnd snd (native_download runtime creating output_dir meta items)"

text \<open>An endpoint that is no URL is refused, but the message always names the api endpoint.\<close>

lemma new_ffi_message:
  "parse api = Some u \<Longrightarrow> parse download = None \<Longrightarrow>
   new_ffi parse api download transport = Inl (InvalidInput ''invalid api endpoint'')"
  by (simp add: new_ffi_def)

end
