(* ===== verification/Cli.thy ===== *)
theory Cli
  imports Client_Drivers "HOL-Library.Sublist"
begin

text \<open>
  The command line client (\<^verbatim>\<open>cli/src/main.rs\<close>): the two commands, and the thread that shows
  the progress of a transfer, which the transfer feeds over a channel. What the terminal shows
  is the list of effects (writing to it does not fail). Instants are milliseconds and do not
  reach their end.
\<close>

subsection \<open>Throttling\<close>

type_synonym progress_state = "u64 \<times> u64"

definition PROGRESS_UPDATE_INTERVAL :: nat where
  "PROGRESS_UPDATE_INTERVAL = 500"

datatype 'a received = Received 'a | WaitTimeout | Disconnected

record 'a throttle =
  th_next :: nat
  th_last :: "'a option"

datatype 'a throttled = Yields 'a | Again | Exhausted

text \<open>One round of the loop of \<open>throttle_receiver\<close>: what was received, and the time then.\<close>

definition throttle_turn :: "nat \<Rightarrow> 'a received \<Rightarrow> 'a throttle \<Rightarrow> 'a throttled \<times> 'a throttle" where
  "throttle_turn now r th =
     (case r of
        Disconnected \<Rightarrow> (Exhausted, th)
      | _ \<Rightarrow>
          (let th = (case r of Received p \<Rightarrow> th\<lparr>th_last := Some p\<rparr> | _ \<Rightarrow> th)
           in if now \<ge> th_next th
              then (case th_last th of Some p \<Rightarrow> Yields p | None \<Rightarrow> Again,
                    th\<lparr>th_next := now + PROGRESS_UPDATE_INTERVAL\<rparr>)
              else (Again, th)))"

subsection \<open>A transfer and its progress thread\<close>

text \<open>\<open>SetPosition\<close> carries the time at which the position is shown.\<close>

datatype cli_effect =
    FinishEncrypt | PrintLink string
  | ResetEta | SetPosition nat u64 | FinishTransfer | TickFinish | FinishSpinner

text \<open>
  The link is there until it is printed (never for a download); \<open>cl_running\<close> is whether the
  thread still runs, and with it the receiving end of the channel is there.
\<close>

record cli =
  cl_link :: "string option"
  cl_sender :: bool
  cl_queue :: "progress_state list"
  cl_running :: bool
  cl_throttle :: "progress_state throttle"
  cl_first_byte :: bool
  cl_now :: nat
  cl_panicked :: bool

definition cli_new :: "string option \<Rightarrow> nat \<Rightarrow> cli" where
  "cli_new link now =
     \<lparr>cl_link = link, cl_sender = True, cl_queue = [], cl_running = True,
      cl_throttle = \<lparr>th_next = now, th_last = None\<rparr>, cl_first_byte = False, cl_now = now,
      cl_panicked = False\<rparr>"

definition report_progress :: "progress_state \<Rightarrow> cli \<Rightarrow> cli_effect list \<times> cli" where
  "report_progress p s =
     (case cl_link s of Some l \<Rightarrow> [FinishEncrypt, PrintLink l] | None \<Rightarrow> [],
      if cl_running s then s\<lparr>cl_link := None, cl_queue := cl_queue s @ [p]\<rparr>
      else s\<lparr>cl_link := None, cl_panicked := True\<rparr>)"

definition receive_progress :: "cli \<Rightarrow> progress_state received \<times> cli" where
  "receive_progress s =
     (case cl_queue s of
        p # ps \<Rightarrow> (Received p, s\<lparr>cl_queue := ps\<rparr>)
      | [] \<Rightarrow> (if cl_sender s then WaitTimeout else Disconnected, s))"

text \<open>The body of the loop of \<open>run_transfer_progress\<close>.\<close>

definition show_progress :: "nat \<Rightarrow> progress_state \<Rightarrow> cli \<Rightarrow> cli_effect list \<times> cli" where
  "show_progress now p s =
     ((if fst p \<noteq> 0 \<and> \<not> cl_first_byte s then [ResetEta] else []) @
        [SetPosition now (fst p)] @
        (if fst p = snd p then [FinishTransfer, TickFinish] else []),
      s\<lparr>cl_first_byte := (cl_first_byte s \<or> fst p \<noteq> 0)\<rparr>)"

definition progress_turn :: "nat \<Rightarrow> cli \<Rightarrow> cli_effect list \<times> cli" where
  "progress_turn now s =
     (let (r, s) = receive_progress s;
          (y, th) = throttle_turn now r (cl_throttle s);
          s = s\<lparr>cl_throttle := th, cl_now := now\<rparr>
      in case y of
           Yields p \<Rightarrow> show_progress now p s
         | Again \<Rightarrow> ([], s)
         | Exhausted \<Rightarrow> ([FinishTransfer, FinishSpinner], s\<lparr>cl_running := False\<rparr>))"

text \<open>
  The transfer reports its progress until it ends, which drops its end of the channel. The
  thread's wait ends when something arrives, with the end of the channel, or when its time is up.
\<close>

datatype cli_label = Reports progress_state | Drops | Turns nat

definition wait_over :: "nat \<Rightarrow> cli \<Rightarrow> bool" where
  "wait_over now s = (cl_queue s \<noteq> [] \<or> \<not> cl_sender s \<or> th_next (cl_throttle s) \<le> now)"

inductive cli_step :: "cli \<Rightarrow> cli_label \<Rightarrow> cli_effect list \<Rightarrow> cli \<Rightarrow> bool" where
  reports: "cl_sender s \<Longrightarrow> \<not> cl_panicked s \<Longrightarrow> report_progress p s = (es, s') \<Longrightarrow>
    cli_step s (Reports p) es s'"
| drops: "cl_sender s \<Longrightarrow> cli_step s Drops [] (s\<lparr>cl_sender := False\<rparr>)"
| turns: "cl_running s \<Longrightarrow> cl_now s \<le> now \<Longrightarrow> wait_over now s \<Longrightarrow> progress_turn now s = (es, s') \<Longrightarrow>
    cli_step s (Turns now) es s'"

inductive cli_run :: "cli \<Rightarrow> cli_label list \<Rightarrow> cli_effect list \<Rightarrow> cli \<Rightarrow> bool" where
  run_none: "cli_run s [] [] s"
| run_next: "cli_run s ls es s' \<Longrightarrow> cli_step s' l es' s'' \<Longrightarrow> cli_run s (ls @ [l]) (es @ es') s''"

inductive_cases reportsE: "cli_step s (Reports p) es s'"
inductive_cases dropsE: "cli_step s Drops es s'"
inductive_cases turnsE: "cli_step s (Turns now) es s'"

inductive_simps cli_run_Nil [simp]: "cli_run s [] es s'"

fun sent_progress :: "cli_label list \<Rightarrow> progress_state list" where
  "sent_progress [] = []"
| "sent_progress (Reports p # ls) = p # sent_progress ls"
| "sent_progress (l # ls) = sent_progress ls"

fun shown :: "cli_effect list \<Rightarrow> (nat \<times> u64) list" where
  "shown [] = []"
| "shown (SetPosition now v # es) = (now, v) # shown es"
| "shown (e # es) = shown es"

lemma sent_progress_append [simp]: "sent_progress (ls @ ks) = sent_progress ls @ sent_progress ks"
  by (induction ls rule: sent_progress.induct) simp_all

lemma shown_append [simp]: "shown (es @ es') = shown es @ shown es'"
  by (induction es rule: shown.induct) simp_all

subsection \<open>What one turn of the thread does\<close>

text \<open>Either the channel has ended, or at most the latest progress is shown, when it is time.\<close>

lemma progress_turn_cases:
  assumes "progress_turn now s = (es, s')" and "wait_over now s"
  obtains (ends) "cl_queue s = []" "\<not> cl_sender s" "es = [FinishTransfer, FinishSpinner]"
      "s' = s\<lparr>cl_now := now, cl_running := False\<rparr>"
  | (waits) last rest nxt where "es = []"
      "s' = s\<lparr>cl_queue := rest, cl_throttle := \<lparr>th_next = nxt, th_last = last\<rparr>, cl_now := now\<rparr>"
      "(case cl_queue s of [] \<Rightarrow> rest = [] \<and> last = th_last (cl_throttle s)
          | p # ps \<Rightarrow> rest = ps \<and> last = Some p)"
      "nxt = th_next (cl_throttle s) \<or> th_next (cl_throttle s) \<le> now \<and> nxt = now + PROGRESS_UPDATE_INTERVAL"
  | (displays) p rest where "th_next (cl_throttle s) \<le> now"
      "(es, s') = show_progress now p (s\<lparr>cl_queue := rest, cl_throttle :=
         \<lparr>th_next = now + PROGRESS_UPDATE_INTERVAL, th_last = Some p\<rparr>, cl_now := now\<rparr>)"
      "(case cl_queue s of [] \<Rightarrow> rest = [] \<and> th_last (cl_throttle s) = Some p
          | q # ps \<Rightarrow> rest = ps \<and> p = q)"
proof -
  obtain a b where th: "cl_throttle s = \<lparr>th_next = a, th_last = b\<rparr>" by (cases "cl_throttle s")
  show thesis
  proof (cases "cl_queue s")
    case Nil
    show thesis
    proof (cases "cl_sender s")
      case True
      then have t: "th_next (cl_throttle s) \<le> now" using assms(2) Nil by (simp add: wait_over_def)
      show thesis
      proof (cases "th_last (cl_throttle s)")
        case None
        with assms th Nil True t show thesis
          by (intro waits [where rest = "[]" and last = None and nxt = "now + PROGRESS_UPDATE_INTERVAL"])
            (cases s; auto simp: progress_turn_def receive_progress_def throttle_turn_def)+
      next
        case (Some p)
        with assms th Nil True t show thesis
          by (intro displays [where rest = "[]" and p = p])
            (cases s; auto simp: progress_turn_def receive_progress_def throttle_turn_def)+
      qed
    next
      case False
      with assms th Nil show thesis
        by (intro ends) (cases s; auto simp: progress_turn_def receive_progress_def throttle_turn_def)+
    qed
  next
    case (Cons p ps)
    show thesis
    proof (cases "th_next (cl_throttle s) \<le> now")
      case True
      with assms th Cons show thesis
        by (intro displays [where rest = ps and p = p])
          (cases s; auto simp: progress_turn_def receive_progress_def throttle_turn_def)+
    next
      case False
      with assms th Cons show thesis
        by (intro waits [where rest = ps and last = "Some p" and nxt = "th_next (cl_throttle s)"])
          (cases s; auto simp: progress_turn_def receive_progress_def throttle_turn_def)+
    qed
  qed
qed

subsection \<open>The thread serves the transfer\<close>

fun printed :: "cli_effect list \<Rightarrow> string list" where
  "printed [] = []"
| "printed (PrintLink l # es) = l # printed es"
| "printed (e # es) = printed es"

lemma printed_append [simp]: "printed (es @ es') = printed es @ printed es'"
  by (induction es rule: printed.induct) simp_all

definition serve_inv :: "string option \<Rightarrow> progress_state list \<Rightarrow> cli_effect list \<Rightarrow> cli \<Rightarrow> bool" where
  "serve_inv link sent es s =
     (\<not> cl_panicked s \<and> (cl_running s \<or> \<not> cl_sender s) \<and>
      cl_link s = (if sent = [] then link else None) \<and>
      printed es = (if sent = [] then [] else case link of Some l \<Rightarrow> [l] | None \<Rightarrow> []))"

lemma show_progress_keeps:
  "show_progress now p s = (es, s') \<Longrightarrow>
   printed es = [] \<and> cl_panicked s' = cl_panicked s \<and> cl_running s' = cl_running s \<and>
   cl_sender s' = cl_sender s \<and> cl_link s' = cl_link s \<and> cl_queue s' = cl_queue s \<and>
   cl_throttle s' = cl_throttle s \<and> cl_now s' = cl_now s \<and> shown es = [(now, fst p)] \<and>
   cl_first_byte s' = (cl_first_byte s \<or> fst p \<noteq> 0) \<and>
   count_list es ResetEta = (if fst p \<noteq> 0 \<and> \<not> cl_first_byte s then 1 else 0)"
  by (auto simp: show_progress_def)

lemma serve_step:
  assumes "serve_inv link sent es s" and "cli_step s l es' s'"
  shows "serve_inv link (sent @ sent_progress [l]) (es @ es') s'"
proof (cases l)
  case (Reports p)
  then show ?thesis
    using assms by (auto simp: serve_inv_def report_progress_def elim!: reportsE split: option.splits if_splits)
next
  case Drops
  then show ?thesis using assms by (auto simp: serve_inv_def elim!: dropsE)
next
  case (Turns now)
  then have r: "cl_running s" and t: "progress_turn now s = (es', s')" "wait_over now s"
    using assms(2) by (auto elim: turnsE)
  from t show ?thesis
  proof (cases rule: progress_turn_cases)
    case (displays p rest)
    then show ?thesis
      using show_progress_keeps [OF displays(2) [symmetric]] assms(1) Turns by (simp add: serve_inv_def)
  qed (use assms(1) Turns in \<open>auto simp: serve_inv_def\<close>)
qed

lemma serve_run: "cli_run s ls es s' \<Longrightarrow> s = cli_new link t0 \<Longrightarrow> serve_inv link (sent_progress ls) es s'"
proof (induction rule: cli_run.induct)
  case (run_none s)
  then show ?case by (simp add: serve_inv_def cli_new_def)
next
  case (run_next s ls es s' l es' s'')
  then show ?case using serve_step [of link "sent_progress ls" es s' l es' s''] by simp
qed

lemma cli_run_append: "cli_run s' ks es' s'' \<Longrightarrow> cli_run s ls es s' \<Longrightarrow> cli_run s (ls @ ks) (es @ es') s''"
proof (induction arbitrary: s ls es rule: cli_run.induct)
  case (run_next s' ks es' s1 l es1 s2)
  then show ?case using cli_run.run_next [OF run_next.IH [OF run_next.prems] run_next.hyps(2)] by simp
qed simp

lemma cli_run_one: "cli_step s l es s' \<Longrightarrow> cli_run s [l] es s'"
  using cli_run.run_next [OF cli_run.run_none, of s l es s'] by simp

text \<open>When the transfer has ended, the thread drains the channel and stops.\<close>

lemma thread_drains:
  "cl_running s \<Longrightarrow> \<not> cl_sender s \<Longrightarrow> cl_now s \<le> now \<Longrightarrow>
   \<exists>es s'. cli_run s (replicate (length (cl_queue s) + 1) (Turns now)) es s' \<and> \<not> cl_running s' \<and>
     suffix [FinishTransfer, FinishSpinner] es"
proof (induction "cl_queue s" arbitrary: s)
  case Nil
  obtain es s' where t: "progress_turn now s = (es, s')" by fastforce
  have w: "wait_over now s" using Nil by (simp add: wait_over_def)
  have st: "cli_step s (Turns now) es s'" using turns Nil.prems w t by blast
  have "es = [FinishTransfer, FinishSpinner] \<and> \<not> cl_running s'"
    using t Nil by (auto simp: progress_turn_def receive_progress_def throttle_turn_def)
  moreover have q: "cl_queue s = []" using Nil(1) by simp
  ultimately show ?case using cli_run_one [OF st] by (auto simp: q)
next
  case (Cons p ps)
  have q: "cl_queue s = p # ps" using Cons.hyps(2) by simp
  obtain es s' where t: "progress_turn now s = (es, s')" by fastforce
  have w: "wait_over now s" using q by (simp add: wait_over_def)
  have st: "cli_step s (Turns now) es s'" using turns Cons.prems w t by blast
  from t w have "cl_queue s' = ps \<and> cl_running s' \<and> \<not> cl_sender s' \<and> cl_now s' = now"
  proof (cases rule: progress_turn_cases)
    case ends
    then show ?thesis using q by simp
  next
    case (waits last rest nxt)
    then show ?thesis using Cons.prems q by simp
  next
    case (displays p' rest)
    then show ?thesis
      using show_progress_keeps [OF displays(2) [symmetric]] Cons.prems q by simp
  qed
  with Cons.hyps(1) [of s'] obtain es' s'' where r: "cli_run s' (replicate (length ps + 1) (Turns now)) es' s''"
    "\<not> cl_running s''" "suffix [FinishTransfer, FinishSpinner] es'" by auto
  have "cli_run s (Turns now # replicate (length ps + 1) (Turns now)) (es @ es') s''"
    using cli_run_append [OF r(1) cli_run_one [OF st]] by simp
  moreover have "suffix [FinishTransfer, FinishSpinner] (es @ es')"
    using r(3) by (rule suffix_appendI)
  ultimately show ?case using r(2) by (auto simp: q)
qed

text \<open>C40: The progress thread serves the transfer to its end: however the two interleave, reporting
  progress never finds the thread gone (the \<open>expect\<close> of both commands), the link of an upload
  is printed exactly once, with the first report; and once the transfer has ended, the thread
  stops after the reports still queued, with the bars finished, so that it can be joined.\<close>

theorem progress_thread_serves_transfer:
  assumes "cli_run (cli_new link t0) ls es s"
  shows "\<not> cl_panicked s \<and>
    printed es = (if sent_progress ls = [] then [] else case link of Some l \<Rightarrow> [l] | None \<Rightarrow> []) \<and>
    (cl_sender s \<longrightarrow> cl_running s) \<and>
    (cl_running s \<and> \<not> cl_sender s \<longrightarrow>
      (\<exists>es' s'. cli_run s (replicate (length (cl_queue s) + 1) (Turns (cl_now s))) es' s' \<and>
         \<not> cl_running s' \<and> suffix [FinishTransfer, FinishSpinner] es'))"
  using serve_run [OF assms refl] thread_drains [of s "cl_now s"] by (auto simp: serve_inv_def)

lemma example_cli_run:
  "cli_run (cli_new (Some ''link'') 0) [Reports (1, 2), Turns 0, Reports (2, 2), Drops]
     [FinishEncrypt, PrintLink ''link'', ResetEta, SetPosition 0 1]
     \<lparr>cl_link = None, cl_sender = False, cl_queue = [(2, 2)], cl_running = True,
      cl_throttle = \<lparr>th_next = 500, th_last = Some (1, 2)\<rparr>, cl_first_byte = True, cl_now = 0,
      cl_panicked = False\<rparr>"
proof -
  let ?s = "\<lambda>q sender. \<lparr>cl_link = None, cl_sender = sender, cl_queue = q, cl_running = True,
      cl_throttle = \<lparr>th_next = 500, th_last = Some (1, 2)\<rparr>, cl_first_byte = True, cl_now = 0,
      cl_panicked = False\<rparr>"
  let ?s1 = "\<lparr>cl_link = None, cl_sender = True, cl_queue = [(1, 2)], cl_running = True,
      cl_throttle = \<lparr>th_next = 0, th_last = None\<rparr>, cl_first_byte = False, cl_now = 0,
      cl_panicked = False\<rparr>"
  have 1: "cli_step (cli_new (Some ''link'') 0) (Reports (1, 2)) [FinishEncrypt, PrintLink ''link''] ?s1"
    by (rule reports) (simp_all add: cli_new_def report_progress_def)
  have 2: "cli_step ?s1 (Turns 0) [ResetEta, SetPosition 0 1] (?s [] True)"
    by (rule turns) (simp_all add: wait_over_def progress_turn_def receive_progress_def
        throttle_turn_def show_progress_def PROGRESS_UPDATE_INTERVAL_def)
  have 3: "cli_step (?s [] True) (Reports (2, 2)) [] (?s [(2, 2)] True)"
    by (rule reports) (simp_all add: report_progress_def)
  have 4: "cli_step (?s [(2, 2)] True) Drops [] (?s [(2, 2)] False)"
    using drops [of "?s [(2, 2)] True"] by simp
  from cli_run_append [OF cli_run_one [OF 4] cli_run_append [OF cli_run_one [OF 3]
        cli_run_append [OF cli_run_one [OF 2] cli_run_one [OF 1]]]]
  show ?thesis by simp
qed

theorem progress_thread_serves_transfer_witness:
  "\<exists>es' s'. cli_run \<lparr>cl_link = None, cl_sender = False, cl_queue = [(2, 2)], cl_running = True,
      cl_throttle = \<lparr>th_next = 500, th_last = Some (1, 2)\<rparr>, cl_first_byte = True, cl_now = 0,
      cl_panicked = False\<rparr> [Turns 0, Turns 0] es' s' \<and> \<not> cl_running s'"
  using progress_thread_serves_transfer [OF example_cli_run] by (auto simp: numeral_2_eq_2)

subsection \<open>What the bar shows\<close>

definition display_inv :: "progress_state list \<Rightarrow> cli_effect list \<Rightarrow> cli \<Rightarrow> bool" where
  "display_inv sent es s =
     (sorted_wrt (\<lambda>a b. fst a + PROGRESS_UPDATE_INTERVAL \<le> fst b) (shown es) \<and>
      (\<forall>(t, v) \<in> set (shown es). t + PROGRESS_UPDATE_INTERVAL \<le> th_next (cl_throttle s)) \<and>
      cl_first_byte s = (\<exists>(t, v) \<in> set (shown es). v \<noteq> 0) \<and>
      count_list es ResetEta = (if cl_first_byte s then 1 else 0) \<and>
      (\<exists>seen. sent = seen @ cl_queue s \<and>
         th_last (cl_throttle s) = (if seen = [] then None else Some (last seen)) \<and>
         (\<forall>(t, v) \<in> set (shown es). \<exists>p \<in> set seen. v = fst p) \<and>
         (sorted (map fst seen) \<longrightarrow> sorted (map snd (shown es)))))"

lemma sorted_map_le_last:
  "sorted (map f xs) \<Longrightarrow> x \<in> set xs \<Longrightarrow> f x \<le> (f (last xs) :: 'a :: linorder)"
  by (induction xs) auto

lemma display_shows:
  assumes d: "display_inv sent es s" and t: "th_next (cl_throttle s) \<le> now"
    and sh: "(es', s') = show_progress now p (s\<lparr>cl_queue := rest, cl_throttle :=
         \<lparr>th_next = now + PROGRESS_UPDATE_INTERVAL, th_last = Some p\<rparr>, cl_now := now\<rparr>)"
    and q: "case cl_queue s of [] \<Rightarrow> rest = [] \<and> th_last (cl_throttle s) = Some p
          | q # ps \<Rightarrow> rest = ps \<and> p = q"
  shows "display_inv sent (es @ es') s'"
proof -
  note k = show_progress_keeps [OF sh [symmetric], simplified]
  from d obtain seen where seen: "sent = seen @ cl_queue s"
    "th_last (cl_throttle s) = (if seen = [] then None else Some (last seen))"
    "\<forall>(t, v) \<in> set (shown es). \<exists>p \<in> set seen. v = fst p"
    "sorted (map fst seen) \<longrightarrow> sorted (map snd (shown es))"
    unfolding display_inv_def by blast
  obtain seen' where s': "sent = seen' @ rest" "seen' \<noteq> []" "last seen' = p" "prefix seen seen'"
  proof (cases "cl_queue s")
    case Nil
    then show thesis using that [of seen] seen(1,2) q by (auto split: if_splits)
  next
    case (Cons q ps)
    then show thesis using that [of "seen @ [p]"] seen(1) q by auto
  qed
  have "\<forall>(t, v) \<in> set (shown es). \<exists>p \<in> set seen'. v = fst p"
    using seen(3) s'(4) set_mono_prefix by fastforce
  moreover have "sorted (map snd (shown es @ [(now, fst p)]))" if "sorted (map fst seen')"
  proof -
    have "sorted (map fst seen)" using that s'(4) by (auto simp: prefix_def sorted_append)
    moreover have "\<forall>x \<in> set (shown es). snd x \<le> fst p"
      using seen(3) s'(3,4) sorted_map_le_last [OF that] set_mono_prefix by fastforce
    ultimately show ?thesis using seen(4) by (auto simp: sorted_append)
  qed
  moreover have "p \<in> set seen'" using s'(2,3) last_in_set by blast
  ultimately have "\<exists>seen. sent = seen @ rest \<and> Some p = (if seen = [] then None else Some (last seen)) \<and>
      (\<forall>(t, v) \<in> set (shown es @ [(now, fst p)]). \<exists>p \<in> set seen. v = fst p) \<and>
      (sorted (map fst seen) \<longrightarrow> sorted (map snd (shown es @ [(now, fst p)])))"
    using s'(1-3) by (intro exI [of _ seen']) auto
  moreover have "sorted_wrt (\<lambda>a b. fst a + PROGRESS_UPDATE_INTERVAL \<le> fst b) (shown es @ [(now, fst p)])"
    using d t by (fastforce simp: display_inv_def sorted_wrt_append)
  moreover have "\<forall>(t, v) \<in> set (shown es @ [(now, fst p)]). t + PROGRESS_UPDATE_INTERVAL
      \<le> now + PROGRESS_UPDATE_INTERVAL"
    using d t by (fastforce simp: display_inv_def)
  moreover have "cl_first_byte s' = (\<exists>(t, v) \<in> set (shown es @ [(now, fst p)]). v \<noteq> 0) \<and>
      count_list (es @ es') ResetEta = (if cl_first_byte s' then 1 else 0)"
    using d k by (auto simp: display_inv_def)
  ultimately show ?thesis
    using k unfolding display_inv_def by simp
qed

lemma display_step:
  assumes "display_inv sent es s" and "cli_step s l es' s'" and "\<not> cl_panicked s'"
  shows "display_inv (sent @ sent_progress [l]) (es @ es') s'"
proof (cases l)
  case (Reports p)
  then have "s' = s\<lparr>cl_link := None, cl_queue := cl_queue s @ [p]\<rparr>"
    "es' = (case cl_link s of Some l \<Rightarrow> [FinishEncrypt, PrintLink l] | None \<Rightarrow> [])"
    using assms(2,3) by (auto simp: report_progress_def elim!: reportsE split: if_splits)
  then show ?thesis
    using assms(1) Reports by (auto simp: display_inv_def split: option.splits)
next
  case Drops
  then have "s' = s\<lparr>cl_sender := False\<rparr>" "es' = []" using assms(2) by (auto elim: dropsE)
  then show ?thesis using assms(1) Drops by (simp add: display_inv_def)
next
  case (Turns now)
  then have t: "progress_turn now s = (es', s')" "wait_over now s"
    using assms(2) by (auto elim: turnsE)
  from t show ?thesis
  proof (cases rule: progress_turn_cases)
    case ends
    then show ?thesis using assms(1) Turns by (auto simp: display_inv_def)
  next
    case (displays p rest)
    then show ?thesis using display_shows [OF assms(1)] Turns by simp
  next
    case (waits last rest nxt)
    from assms(1) obtain seen where seen: "sent = seen @ cl_queue s"
      "th_last (cl_throttle s) = (if seen = [] then None else Some (List.last seen))"
      "\<forall>(t, v) \<in> set (shown es). \<exists>p \<in> set seen. v = fst p"
      "sorted (map fst seen) \<longrightarrow> sorted (map snd (shown es))"
      unfolding display_inv_def by blast
    have "\<exists>seen. sent = seen @ rest \<and> last = (if seen = [] then None else Some (List.last seen)) \<and>
        (\<forall>(t, v) \<in> set (shown es). \<exists>p \<in> set seen. v = fst p) \<and>
        (sorted (map fst seen) \<longrightarrow> sorted (map snd (shown es)))"
    proof (cases "cl_queue s")
      case Nil
      then show ?thesis using seen waits(3) by (intro exI [of _ seen]) auto
    next
      case (Cons p ps)
      then show ?thesis
        using seen waits(3) by (intro exI [of _ "seen @ [p]"]) (fastforce simp: sorted_append)
    qed
    moreover have "\<forall>(t, v) \<in> set (shown es). t + PROGRESS_UPDATE_INTERVAL \<le> nxt"
      using assms(1) waits(4) by (fastforce simp: display_inv_def)
    ultimately show ?thesis
      using assms(1) waits(1,2) Turns by (simp add: display_inv_def)
  qed
qed

lemma display_run:
  "cli_run s ls es s' \<Longrightarrow> s = cli_new link t0 \<Longrightarrow> display_inv (sent_progress ls) es s'"
proof (induction rule: cli_run.induct)
  case (run_none s)
  then show ?case by (simp add: display_inv_def cli_new_def)
next
  case (run_next s ls es s' l es' s'')
  then have "\<not> cl_panicked s''"
    using serve_run [OF cli_run.run_next [OF run_next.hyps]] by (simp add: serve_inv_def)
  with run_next show ?case using display_step [of "sent_progress ls" es s' l es' s''] by simp
qed

text \<open>The bar is updated calmly: at most every half second, only with progress that was
  reported, and never backwards if none of the reports goes backwards. The time remaining is
  reset once, when the first byte is shown.\<close>

theorem progress_display_throttled:
  assumes "cli_run (cli_new link t0) ls es s"
  shows "sorted_wrt (\<lambda>a b. fst a + 500 \<le> fst b) (shown es) \<and>
    snd ` set (shown es) \<subseteq> fst ` set (sent_progress ls) \<and>
    (sorted (map fst (sent_progress ls)) \<longrightarrow> sorted (map snd (shown es))) \<and>
    count_list es ResetEta = (if \<exists>v \<in> snd ` set (shown es). v \<noteq> 0 then 1 else 0)"
proof -
  from display_run [OF assms refl] obtain seen where d: "display_inv (sent_progress ls) es s"
    and seen: "sent_progress ls = seen @ cl_queue s"
      "\<forall>(t, v) \<in> set (shown es). \<exists>p \<in> set seen. v = fst p"
      "sorted (map fst seen) \<longrightarrow> sorted (map snd (shown es))"
    unfolding display_inv_def by blast
  have "snd ` set (shown es) \<subseteq> fst ` set (sent_progress ls)"
    using seen(1,2) by fastforce
  moreover have "sorted (map fst (sent_progress ls)) \<longrightarrow> sorted (map snd (shown es))"
    using seen(1,3) by (simp add: sorted_append)
  moreover have "sorted_wrt (\<lambda>a b. fst a + 500 \<le> fst b) (shown es)"
    using d by (simp add: display_inv_def PROGRESS_UPDATE_INTERVAL_def)
  moreover have "count_list es ResetEta = (if \<exists>v \<in> snd ` set (shown es). v \<noteq> 0 then 1 else 0)"
    using d by (force simp: display_inv_def)
  ultimately show ?thesis by blast
qed

theorem progress_display_throttled_witness:
  "sorted_wrt (\<lambda>a b. fst a + 500 \<le> fst b)
     (shown [FinishEncrypt, PrintLink ''link'', ResetEta, SetPosition 0 1]) \<and>
   count_list [FinishEncrypt, PrintLink ''link'', ResetEta, SetPosition 0 1] ResetEta = 1"
  using progress_display_throttled [OF example_cli_run] by simp

subsection \<open>The commands\<close>

datatype cli_error = BothDisabled | ClientError error

text \<open>
  \<open>send\<close>: what the transfer does to the progress thread, and the result; \<open>None\<close> is a panic.
  \<open>items\<close> is what the progress stream of the upload yields.
\<close>

definition cli_send ::
  "bool \<Rightarrow> bool \<Rightarrow> string \<Rightarrow> (transport \<Rightarrow> string \<Rightarrow> (error + provisioned_file) option) \<Rightarrow>
   string option \<Rightarrow> (transport \<Rightarrow> provisioned_file \<Rightarrow> (error + progress_state) list) \<Rightarrow>
   (bytes \<Rightarrow> string) \<Rightarrow> string \<Rightarrow>
   (string option \<times> cli_label list \<times> (cli_error + unit)) option" where
  "cli_send no_p2p no_relay path provision runtime items enc origin =
     (case with_p2p_and_relay (\<not> no_p2p) (\<not> no_relay) of
        None \<Rightarrow> Some (None, [], Inl BothDisabled)
      | Some t \<Rightarrow>
     case provision t path of
        None \<Rightarrow> None
      | Some (Inl e) \<Rightarrow> Some (None, [], Inl (ClientError e))
      | Some (Inr f) \<Rightarrow>
     case path_file_name path of
        None \<Rightarrow> None
      | Some name \<Rightarrow>
          (let link = formatted_download_url_and_key enc origin (pf_download_id f) (pf_key f);
               (us, r) = native_upload runtime (items t f)
           in Some (Some link, map Reports us @ [Drops], map_sum ClientError id r)))"

text \<open>\<open>receive\<close>: the files created, what goes to the progress thread, and the line shown at the end.\<close>

definition cli_receive ::
  "bool \<Rightarrow> bool \<Rightarrow> string \<Rightarrow> (string \<Rightarrow> (string \<times> string option) option) \<Rightarrow> (string \<Rightarrow> bytes option) \<Rightarrow>
   (string \<Rightarrow> cipher_key \<Rightarrow> error + file_meta) \<Rightarrow> string option \<Rightarrow> (string \<Rightarrow> string option) \<Rightarrow>
   (transport \<Rightarrow> file_meta \<Rightarrow> (error + progress_state) list) \<Rightarrow> (file_meta \<Rightarrow> string) \<Rightarrow>
   string list \<times> cli_label list \<times> (cli_error + string)" where
  "cli_receive no_p2p no_relay link parse dec fetch runtime creating items done_line =
     (case with_p2p_and_relay (\<not> no_p2p) (\<not> no_relay) of
        None \<Rightarrow> ([], [], Inl BothDisabled)
      | Some t \<Rightarrow>
     case parse_download_url parse dec link of
        Inl e \<Rightarrow> ([], [], Inl (ClientError e))
      | Inr (i, key) \<Rightarrow>
     case fetch i key of
        Inl e \<Rightarrow> ([], [], Inl (ClientError e))
      | Inr meta \<Rightarrow>
          (let (created, us, r) = native_download runtime creating None meta (items t meta)
           in (created, map Reports us @ [Drops],
               case r of Inl e \<Rightarrow> Inl (ClientError e) | Inr _ \<Rightarrow> Inr (done_line meta))))"

text \<open>
  The elapsed time, from its whole seconds; how a floating point number of seconds prints with
  one digit is \<open>tenths\<close>.
\<close>

definition two_digits :: "nat \<Rightarrow> string" where
  "two_digits n = (if n < 10 then ''0'' else []) @ decimal n"

definition format_elapsed :: "('duration \<Rightarrow> string) \<Rightarrow> ('duration \<Rightarrow> nat) \<Rightarrow> 'duration \<Rightarrow> string" where
  "format_elapsed tenths as_secs elapsed =
     (let seconds = as_secs elapsed;
          hours = seconds div 3600; minutes = (seconds mod 3600) div 60; seconds = seconds mod 60
      in if hours > 0 then decimal hours @ ''h'' @ two_digits minutes @ ''m'' @ two_digits seconds @ ''s''
         else if minutes > 0 then decimal minutes @ ''m'' @ two_digits seconds @ ''s''
         else tenths elapsed @ ''s'')"

definition completion_line :: "(u64 \<Rightarrow> string) \<Rightarrow> string \<Rightarrow> file_meta \<Rightarrow> string" where
  "completion_line human_bytes elapsed meta =
     ''Successfully downloaded '' @ file_name meta @ '' ('' @ human_bytes (file_size meta)
       @ '' in '' @ elapsed @ '')''"

lemma example_elapsed:
  "format_elapsed (\<lambda>_. []) id 3725 = ''1h02m05s''" "format_elapsed (\<lambda>_. []) id 65 = ''1m05s''"
  by (simp_all add: format_elapsed_def two_digits_def decimal.simps [of 1] decimal.simps [of "Suc 0"] decimal.simps [of 2] decimal.simps [of 5])

lemma provisioned_path:
  "native_provision_file runtime open_file key len response path = Some (Inr f) \<Longrightarrow>
   path_file_name path \<noteq> None"
  by (auto simp: native_provision_file_def split: option.splits)

definition main_actions :: "cli_label list \<Rightarrow> cli_label list" where
  "main_actions ls = filter (\<lambda>l. case l of Turns _ \<Rightarrow> False | _ \<Rightarrow> True) ls"

lemma sent_main_actions [simp]: "sent_progress (main_actions ls) = sent_progress ls"
  by (induction ls rule: sent_progress.induct) (simp_all add: main_actions_def)

lemma sent_reports [simp]: "sent_progress (map Reports us) = us"
  by (induction us) simp_all

lemma dropped: "cli_run s ls es s' \<Longrightarrow> Drops \<in> set ls \<Longrightarrow> \<not> cl_sender s'"
proof (induction rule: cli_run.induct)
  case (run_next s ls es s' l es' s'')
  show ?case
  proof (cases "Drops \<in> set ls")
    case True
    then have "\<not> cl_sender s'" using run_next.IH by simp
    then show ?thesis
      using run_next.hyps(2)
    proof (cases l)
      case (Turns now)
      then have t: "progress_turn now s' = (es', s'')" "wait_over now s'"
        using run_next.hyps(2) by (auto elim: turnsE)
      from t show ?thesis
      proof (cases rule: progress_turn_cases)
        case (displays p rest)
        then show ?thesis
          using show_progress_keeps [OF displays(2) [symmetric]] \<open>\<not> cl_sender s'\<close> by simp
      qed (use \<open>\<not> cl_sender s'\<close> in simp_all)
    qed (auto elim: reportsE dropsE)
  next
    case False
    then show ?thesis using run_next by (auto elim: dropsE)
  qed
qed simp

text \<open>Sending reports the upload as it went: once a file is provisioned the command does not
  panic (its name is there, and the progress thread too), its result is the upload's, and
  however it interleaves with the progress thread the link is printed exactly once, if the
  upload reports any progress, and never otherwise.\<close>

theorem send_reports_upload:
  assumes "with_p2p_and_relay (\<not> no_p2p) (\<not> no_relay) = Some t"
    and "native_provision_file runtime open_file key len response path = Some (Inr f)"
    and "native_upload runtime' (items t f) = (us, result)"
  shows "\<exists>link ls. cli_send no_p2p no_relay path
        (\<lambda>_. native_provision_file runtime open_file key len response) runtime' items enc origin
      = Some (Some link, ls, map_sum ClientError id result) \<and>
    (\<forall>t0 ks es s. cli_run (cli_new (Some link) t0) ks es s \<and> main_actions ks = ls \<longrightarrow>
      \<not> cl_panicked s \<and> \<not> cl_sender s \<and>
      printed es = (if us = [] then []
        else [formatted_download_url_and_key enc origin (pf_download_id f) (pf_key f)]))"
proof -
  let ?link = "formatted_download_url_and_key enc origin (pf_download_id f) (pf_key f)"
  obtain name where name: "path_file_name path = Some name"
    using provisioned_path [OF assms(2)] by blast
  have "cli_send no_p2p no_relay path
        (\<lambda>_. native_provision_file runtime open_file key len response) runtime' items enc origin
      = Some (Some ?link, map Reports us @ [Drops], map_sum ClientError id result)"
    using assms name by (simp add: cli_send_def)
  moreover have "\<not> cl_panicked s \<and> \<not> cl_sender s \<and> printed es = (if us = [] then [] else [?link])"
    if r: "cli_run (cli_new (Some ?link) t0) ks es s" and m: "main_actions ks = map Reports us @ [Drops]"
    for t0 ks es s
  proof -
    have "sent_progress (main_actions ks) = us" by (simp add: m)
    then have "sent_progress ks = us" by simp
    moreover have "Drops \<in> set (main_actions ks)" by (simp add: m)
    then have "Drops \<in> set ks" by (auto simp: main_actions_def)
    ultimately show ?thesis
      using serve_run [OF r refl] dropped [OF r] by (simp add: serve_inv_def)
  qed
  ultimately show ?thesis by blast
qed

theorem send_reports_upload_witness:
  "\<exists>link ls. cli_send False True ''dir/a.txt''
        (\<lambda>_. native_provision_file None (\<lambda>_. None) (replicate 32 0) (Inr 2)
          (\<lambda>_. Inr (''/upload'', ''id''))) None (\<lambda>_ _. [Inr (1, 2), Inr (2, 2)])
        (\<lambda>_. ''key'') ''https://s'' = Some (Some link, ls, Inr ())"
proof -
  have t: "with_p2p_and_relay (\<not> False) (\<not> True) = Some P2P" by (simp add: with_p2p_and_relay_def)
  obtain f where f: "native_provision_file None (\<lambda>_. None) (replicate 32 0) (Inr 2)
      (\<lambda>_. Inr (''/upload'', ''id'')) ''dir/a.txt'' = Some (Inr f)"
    by (auto simp: native_provision_file_def path_file_name_def provision_file_async_def download_id_new_def)
  have u: "native_upload None ((\<lambda>_ _. [Inr (1, 2), Inr (2, 2)]) P2P f)
      = ([(1, 2), (2, 2)], Inr ())" by (simp add: native_upload_def)
  from send_reports_upload [OF t f u, where enc = "\<lambda>_. ''key''" and origin = "''https://s''"]
  show ?thesis by auto
qed

lemma both_disabled:
  "cli_send True True path provision runtime items enc origin = Some (None, [], Inl BothDisabled)"
  "cli_receive True True link parse dec fetch runtime creating items' done_line = ([], [], Inl BothDisabled)"
  by (simp_all add: cli_send_def cli_receive_def with_p2p_and_relay_def)

subsection \<open>The command\<close>

text \<open>
  \<open>Commands\<close>, as clap parses it, and what \<open>main\<close> makes of it. An endpoint is the given one; the
  default, from the environment of the build or built in, must parse also if it is not
  used. What reaches the network depends on the endpoint of the relay.
\<close>

datatype 'url cli_command =
    SendCommand string "'url option" "'url option" bool bool
  | ReceiveCommand string "'url option" bool bool

definition cli_endpoint :: "(string \<Rightarrow> 'url option) \<Rightarrow> string option \<Rightarrow> string \<Rightarrow> 'url option \<Rightarrow> 'url option" where
  "cli_endpoint parse_url from_env built_in given =
     map_option (\<lambda>default. case given of Some u \<Rightarrow> u | None \<Rightarrow> default)
       (parse_url (case from_env of Some s \<Rightarrow> s | None \<Rightarrow> built_in))"

record 'url cli_world =
  cw_api_env :: "string option"
  cw_download_env :: "string option"
  cw_parse_url :: "string \<Rightarrow> 'url option"
  cw_origin :: "'url \<Rightarrow> string"
  cw_runtime :: "string option"
  cw_provision :: "'url \<Rightarrow> transport \<Rightarrow> string \<Rightarrow> (error + provisioned_file) option"
  cw_upload_items :: "'url \<Rightarrow> transport \<Rightarrow> provisioned_file \<Rightarrow> (error + progress_state) list"
  cw_enc :: "bytes \<Rightarrow> string"
  cw_parse_link :: "string \<Rightarrow> (string \<times> string option) option"
  cw_dec :: "string \<Rightarrow> bytes option"
  cw_fetch :: "'url \<Rightarrow> string \<Rightarrow> cipher_key \<Rightarrow> error + file_meta"
  cw_creating :: "string \<Rightarrow> string option"
  cw_download_items :: "'url \<Rightarrow> transport \<Rightarrow> file_meta \<Rightarrow> (error + progress_state) list"
  cw_done_line :: "file_meta \<Rightarrow> string"

definition main_send ::
  "'url cli_world \<Rightarrow> string \<Rightarrow> 'url option \<Rightarrow> 'url option \<Rightarrow> bool \<Rightarrow> bool \<Rightarrow>
   (string option \<times> cli_label list \<times> (cli_error + unit)) option" where
  "main_send w path api download no_p2p no_relay =
     Option.bind (cli_endpoint (cw_parse_url w) (cw_api_env w) ''https://relay.s.endoftheworl.de'' api)
       (\<lambda>api. Option.bind (cli_endpoint (cw_parse_url w) (cw_download_env w) ''https://s.endoftheworl.de'' download)
          (\<lambda>download. cli_send no_p2p no_relay path (cw_provision w api) (cw_runtime w) (cw_upload_items w api)
             (cw_enc w) (cw_origin w download)))"

definition main_receive ::
  "'url cli_world \<Rightarrow> string \<Rightarrow> 'url option \<Rightarrow> bool \<Rightarrow> bool \<Rightarrow>
   (string list \<times> cli_label list \<times> (cli_error + string)) option" where
  "main_receive w link api no_p2p no_relay =
     map_option
       (\<lambda>api. cli_receive no_p2p no_relay link (cw_parse_link w) (cw_dec w) (cw_fetch w api) (cw_runtime w)
          (cw_creating w) (cw_download_items w api) (cw_done_line w))
       (cli_endpoint (cw_parse_url w) (cw_api_env w) ''https://relay.s.endoftheworl.de'' api)"

text \<open>Whether the process ends well; \<open>None\<close> is a panic.\<close>

definition cli_main :: "'url cli_world \<Rightarrow> 'url cli_command \<Rightarrow> (cli_error + unit) option" where
  "cli_main w cmd =
     (case cmd of
        SendCommand path api download no_p2p no_relay \<Rightarrow>
          map_option (\<lambda>(_, _, r). r) (main_send w path api download no_p2p no_relay)
      | ReceiveCommand link api no_p2p no_relay \<Rightarrow>
          map_option (\<lambda>(_, _, r). map_sum id (\<lambda>_. ()) r) (main_receive w link api no_p2p no_relay))"

text \<open>
  Given endpoints are the ones used, whatever the defaults are (as long as they parse), and
  a command that disables both ways touches neither network nor file system.
\<close>

lemma main_given_endpoint:
  "cw_parse_url w (case cw_api_env w of Some s \<Rightarrow> s | None \<Rightarrow> ''https://relay.s.endoftheworl.de'') \<noteq> None \<Longrightarrow>
   main_receive w link (Some api) no_p2p no_relay =
     Some (cli_receive no_p2p no_relay link (cw_parse_link w) (cw_dec w) (cw_fetch w api) (cw_runtime w)
       (cw_creating w) (cw_download_items w api) (cw_done_line w))"
  by (auto simp: main_receive_def cli_endpoint_def)

lemma main_both_disabled:
  assumes "\<And>s. cw_parse_url w s \<noteq> None"
  shows "cli_main w (SendCommand path api download True True) = Some (Inl BothDisabled)"
    "cli_main w (ReceiveCommand link api True True) = Some (Inl BothDisabled)"
proof -
  have e: "\<exists>u. cli_endpoint (cw_parse_url w) env built_in given = Some u" for env built_in given
    using assms by (auto simp: cli_endpoint_def)
  show "cli_main w (SendCommand path api download True True) = Some (Inl BothDisabled)"
    using e [of "cw_api_env w" "''https://relay.s.endoftheworl.de''" api]
      e [of "cw_download_env w" "''https://s.endoftheworl.de''" download]
    by (auto simp: cli_main_def main_send_def cli_send_def with_p2p_and_relay_def)
  show "cli_main w (ReceiveCommand link api True True) = Some (Inl BothDisabled)"
    using e [of "cw_api_env w" "''https://relay.s.endoftheworl.de''" api]
    by (auto simp: cli_main_def main_receive_def cli_receive_def with_p2p_and_relay_def)
qed

end
