(* ===== verification/Relay_Calls.thy ===== *)
theory Relay_Calls
  imports Relay_Session_Replies Relay_Api
begin

text \<open>
  The handle through which the rest of the relay talks to a session (\<open>Session\<close> of
  \<^verbatim>\<open>session.rs\<close>): each method sends one command with a reply channel of its own and turns the
  reply, or the channel's end, into its answer. A channel carries values of one type; here
  a reply of another type is an answer \<open>None\<close>, and the theorem shows that there is none.
\<close>

subsection \<open>Methods\<close>

datatype session_call =
    MetadataCall
  | StartDownloadCall token position chan
  | FinishDownloadCall
  | CheckStartUploadCall position
  | StartUploadCall token position
  | UploadDataCall token chunk
  | FlushUploadCall token
  | StartWebsocketCall direction ws_peer
  | WebsocketDataCall direction frame
  | DisconnectedCall token peer

fun call_command :: "waiter \<Rightarrow> session_call \<Rightarrow> command" where
  "call_command w MetadataCall = Metadata w"
| "call_command w (StartDownloadCall t p events) =
     StartDownload \<lparr>d_token = t, d_position = p, d_events = events\<rparr> w"
| "call_command w FinishDownloadCall = FinishDownload w"
| "call_command w (CheckStartUploadCall p) = CheckStartUpload p w"
| "call_command w (StartUploadCall t p) = StartUpload t p w"
| "call_command w (UploadDataCall t c) = UploadData t c w"
| "call_command w (FlushUploadCall t) = FlushUpload t w"
| "call_command w (StartWebsocketCall d p) = StartWebsocket d p w"
| "call_command w (WebsocketDataCall d f) = WebsocketData d f"
| "call_command w (DisconnectedCall t p) = DisconnectedCmd t p"

datatype call_answer =
    MetadataAnswer "string option"
  | UnitAnswer "unit option"
  | UploadAnswer upload_result
  | NoAnswer

datatype reply_kind = MetadataKind | UnitKind | UploadKind

text \<open>The type of the method's reply channel, if it has one.\<close>

fun call_kind :: "session_call \<Rightarrow> reply_kind option" where
  "call_kind MetadataCall = Some MetadataKind"
| "call_kind (StartDownloadCall t p events) = Some UnitKind"
| "call_kind FinishDownloadCall = Some UnitKind"
| "call_kind (CheckStartUploadCall p) = Some UploadKind"
| "call_kind (StartUploadCall t p) = Some UploadKind"
| "call_kind (UploadDataCall t c) = Some UploadKind"
| "call_kind (FlushUploadCall t) = Some UploadKind"
| "call_kind (StartWebsocketCall d p) = Some UnitKind"
| "call_kind (WebsocketDataCall d f) = None"
| "call_kind (DisconnectedCall t p) = None"

fun kind_answer :: "reply_kind \<Rightarrow> reply option \<Rightarrow> call_answer option" where
  "kind_answer MetadataKind None = Some (MetadataAnswer None)"
| "kind_answer MetadataKind (Some (MetadataReply m)) = Some (MetadataAnswer (Some m))"
| "kind_answer UnitKind None = Some (UnitAnswer None)"
| "kind_answer UnitKind (Some UnitReply) = Some (UnitAnswer (Some ()))"
| "kind_answer UploadKind None = Some (UploadAnswer (or_not_found None))"
| "kind_answer UploadKind (Some (UploadReply r)) = Some (UploadAnswer (or_not_found (Some r)))"
| "kind_answer _ _ = None"

definition call_answer :: "session_call \<Rightarrow> reply option \<Rightarrow> call_answer option" where
  "call_answer c r = (case call_kind c of None \<Rightarrow> Some NoAnswer | Some k \<Rightarrow> kind_answer k r)"

subsection \<open>Replies have the type that is expected\<close>

fun kind_of :: "reply \<Rightarrow> reply_kind" where
  "kind_of (MetadataReply m) = MetadataKind"
| "kind_of UnitReply = UnitKind"
| "kind_of (UploadReply r) = UploadKind"

definition sent_kinds :: "effect list \<Rightarrow> (waiter \<times> reply_kind) set" where
  "sent_kinds es = {(w, kind_of r) | w r. Reply w r \<in> set es}"

definition held_kinds :: "state \<Rightarrow> (waiter \<times> reply_kind) set" where
  "held_kinds s = {(w, UploadKind) | w. w \<in> set (waiting s)}"

definition asked_kinds :: "command \<Rightarrow> (waiter \<times> reply_kind) set" where
  "asked_kinds c =
     (case c of
        Metadata w \<Rightarrow> {(w, MetadataKind)} | StartDownload d w \<Rightarrow> {(w, UnitKind)}
      | FinishDownload w \<Rightarrow> {(w, UnitKind)} | CheckStartUpload p w \<Rightarrow> {(w, UploadKind)}
      | StartUpload t p w \<Rightarrow> {(w, UploadKind)} | UploadData t ch w \<Rightarrow> {(w, UploadKind)}
      | FlushUpload t w \<Rightarrow> {(w, UploadKind)} | StartWebsocket d p w \<Rightarrow> {(w, UnitKind)}
      | WebsocketData d f \<Rightarrow> {} | DisconnectedCmd t p \<Rightarrow> {})"

lemma sent_kinds_simps [simp]:
  "sent_kinds [] = {}"
  "sent_kinds (Reply w r # es) = insert (w, kind_of r) (sent_kinds es)"
  "sent_kinds (Event ch ev # es) = sent_kinds es"
  "sent_kinds (WsCommand k x # es) = sent_kinds es"
  "sent_kinds (es @ es') = sent_kinds es \<union> sent_kinds es'"
  by (auto simp: sent_kinds_def)

lemma sent_kinds_map [simp]: "sent_kinds (map (\<lambda>f. WsCommand k (WsSend f)) fs) = {}"
  by (induction fs) simp_all

lemma sent_kinds_progress [simp]: "sent_kinds (send_upload_progress pb ws p) = {}"
  by (simp add: send_upload_progress_def split: option.split)

lemma sent_kinds_reply_to [simp]:
  "sent_kinds (reply_to w r) = (case w of None \<Rightarrow> {} | Some w \<Rightarrow> {(w, UploadKind)})"
  by (simp add: reply_to_def split: option.split)

lemma held_kinds_simps [simp]:
  "pending s = NoPending \<Longrightarrow> held_kinds s = {}"
  "pending s = PendingError e \<Longrightarrow> held_kinds s = {}"
  "pending s = PendingData c w p n \<Longrightarrow>
     held_kinds s = (case w of None \<Rightarrow> {} | Some w \<Rightarrow> {(w, UploadKind)})"
  by (auto simp: held_kinds_def split: option.split)

lemma held_kinds_waiting: "waiting s' = waiting s \<Longrightarrow> held_kinds s' = held_kinds s"
  by (simp add: held_kinds_def)

definition kinds_within :: "effect list \<Rightarrow> state \<Rightarrow> (waiter \<times> reply_kind) set \<Rightarrow> bool" where
  "kinds_within es s A = (sent_kinds es \<union> held_kinds s \<subseteq> A)"

lemma start_download_kinds:
  "start_download pb s d = (s', es) \<Longrightarrow> kinds_within es s' (held_kinds s)"
  by (cases "pending s"; cases "downloader_slot s"; cases "uploader_slot s")
    (auto simp: kinds_within_def start_download_def replace_downloader_def take_pending_def
        terminate_uploader_def Let_def split: if_splits option.splits)

lemma finish_download_kinds:
  "finish_download s w = (f, s', es) \<Longrightarrow> kinds_within es s' (insert (w, UnitKind) (held_kinds s))"
  by (cases "pending s"; cases "downloader_slot s"; cases "uploader_slot s")
    (auto simp: kinds_within_def finish_download_def replace_downloader_def terminate_uploader_def
        Let_def split: if_splits option.splits)

lemma start_upload_kinds:
  "start_upload pb s t p w = (s', es) \<Longrightarrow> kinds_within es s' (insert (w, UploadKind) (held_kinds s))"
  by (cases "pending s"; cases "uploader_slot s")
    (auto simp: kinds_within_def start_upload_def terminate_uploader_def Let_def
        split: if_splits sum.splits option.splits)

lemma upload_data_kinds:
  "upload_data pb s t c w = (s', es) \<Longrightarrow> kinds_within es s' (insert (w, UploadKind) (held_kinds s))"
  by (cases "pending s"; cases "downloader_slot s"; cases "uploader_slot s")
    (auto simp: kinds_within_def upload_data_def Let_def split: if_splits option.splits)

lemma flush_upload_kinds:
  "flush_upload s t w = (s', es) \<Longrightarrow> kinds_within es s' (insert (w, UploadKind) (held_kinds s))"
  by (cases "pending s") (auto simp: kinds_within_def flush_upload_def split: if_splits option.splits)

lemma websocket_kinds:
  "start_websocket s d p = (s', es) \<Longrightarrow> sent_kinds es = {} \<and> held_kinds s' = held_kinds s"
  "relay_frame s d fr = (s', es) \<Longrightarrow> sent_kinds es = {} \<and> held_kinds s' = held_kinds s"
  "disconnected s t pe = (f, s') \<Longrightarrow> held_kinds s' = held_kinds s"
  using balance(6) [of s d p s' es] balance(7) [of s d fr s' es] balance(8) [of s t pe f s']
  by (auto simp: sent_kinds_def answered_def answered_by_def intro!: held_kinds_waiting
      split: effect.splits)

lemma handle_kinds:
  assumes "handle pb s c = (f, s', es)"
  shows "kinds_within es s' (held_kinds s \<union> asked_kinds c)"
  using assms
proof (cases rule: handle_cases)
  case (StartDownload d w e)
  then show ?thesis using start_download_kinds [of pb s d s' e] by (auto simp: asked_kinds_def kinds_within_def)
next
  case (FinishDownload w)
  then show ?thesis using finish_download_kinds [of s w f s' es] by (simp add: asked_kinds_def)
next
  case (StartUpload t p w)
  then show ?thesis using start_upload_kinds [of pb s t p w s' es] by (simp add: asked_kinds_def)
next
  case (UploadData t ch w)
  then show ?thesis using upload_data_kinds [of pb s t ch w s' es] by (simp add: asked_kinds_def)
next
  case (FlushUpload t w)
  then show ?thesis using flush_upload_kinds [of s t w s' es] by (simp add: asked_kinds_def)
next
  case (StartWebsocket d p w e)
  then show ?thesis
    using websocket_kinds(1) [of s d p s' e] by (auto simp: asked_kinds_def kinds_within_def)
next
  case (WebsocketData d fr)
  then show ?thesis
    using websocket_kinds(2) [of s d fr s' es] by (auto simp: asked_kinds_def kinds_within_def)
next
  case (Disconnected t p)
  then show ?thesis
    using websocket_kinds(3) [of s t p f s'] by (auto simp: asked_kinds_def kinds_within_def)
qed (auto simp: asked_kinds_def kinds_within_def)

lemma run_kinds:
  "run_session pb s cs = (f, s', es) \<Longrightarrow>
   kinds_within es s' (held_kinds s \<union> \<Union>(asked_kinds ` set cs))"
proof (induction cs arbitrary: s es)
  case Nil
  then show ?case by (simp add: run_session_def kinds_within_def)
next
  case (Cons c cs)
  obtain f1 s1 es1 where st: "handle pb s c = (f1, s1, es1)" by (cases "handle pb s c")
  note k = handle_kinds [OF st]
  show ?case
  proof (cases f1)
    case (Break u)
    with Cons.prems st have "s' = s1" "es = es1" by (auto simp: run_session_def)
    with k show ?thesis by (auto simp: kinds_within_def)
  next
    case (Continue u)
    with Cons.prems st obtain es2 where "run_session pb s1 cs = (f, s', es2)" "es = es1 @ es2"
      by (auto simp: run_session_def split: prod.splits)
    with k Cons.IH [of s1 es2] show ?thesis by (auto simp: kinds_within_def)
  qed
qed

lemma asked_call_command:
  "(w', k) \<in> asked_kinds (call_command w c) \<longleftrightarrow> w' = w \<and> call_kind c = Some k"
  by (cases c) (auto simp: asked_kinds_def)

text \<open>
  Over any calls, each with a reply channel of its own, every reply that the session sends to a
  channel is of the type of the channel.
\<close>

lemma session_calls_typed:
  assumes "run_session pb (initial_state i m) (map (\<lambda>(w, c). call_command w c) calls) = (f, s, es)"
    and "distinct (map fst calls)" and "(w, c) \<in> set calls" and "Reply w r \<in> set es"
  shows "call_kind c = Some (kind_of r) \<and> call_answer c (Some r) \<noteq> None"
proof -
  have "(w, kind_of r) \<in> sent_kinds es" using assms(4) by (auto simp: sent_kinds_def)
  moreover have "held_kinds (initial_state i m) = {}" by (simp add: initial_state_def)
  ultimately obtain w' c' where c': "(w', c') \<in> set calls" "(w, kind_of r) \<in> asked_kinds (call_command w' c')"
    using run_kinds [OF assms(1)] by (auto simp: kinds_within_def)
  then have "w' = w" and k: "call_kind c' = Some (kind_of r)" by (simp_all add: asked_call_command)
  then have "c' = c" using assms(2,3) c'(1) by (auto dest: eq_key_imp_eq_value)
  with k have ck: "call_kind c = Some (kind_of r)" by simp
  then show ?thesis by (cases r) (simp_all add: call_answer_def)
qed

end
