(* ===== verification/Relay_Server.thy ===== *)
theory Relay_Server
  imports Relay_Http Relay_Websocket Relay_Calls
begin

text \<open>
  The relay as a whole: the node with its sessions (\<open>Relay_Node\<close>) together with every HTTP
  request and websocket it serves (\<^verbatim>\<open>api.rs\<close>, \<^verbatim>\<open>websocket.rs\<close>). A request arrives, is routed and
  begins; its handler then goes on whenever what it awaits is there; the client may go away at
  any point, which drops the handler with its guards. Handlers, sessions and websockets
  interleave freely. What a handler awaits is read off the session's task: a reply in its log, or
  the fact that the sender of the reply is gone; the events and frames of a channel in the log,
  or the fact that the channel is closed.
\<close>

subsection \<open>State\<close>

text \<open>What is not part of the repository: the base64 engine and prost's encoder.\<close>

record codecs =
  cd_encode :: "bytes \<Rightarrow> string"
  cd_decode :: "string \<Rightarrow> bytes option"
  cd_pb :: encoder

text \<open>
  A request with its path in segments. The form fields are what \<open>Form\<close> made of the body, or
  none; the body is what the handler of an upload reads; \<open>rq_rejected\<close> says whether it is no
  websocket handshake.
\<close>

record request =
  rq_method :: string
  rq_path :: "string list"
  rq_metadata :: "string option"
  rq_position :: "u64 option"
  rq_range :: "string option"
  rq_content_range :: "string option"
  rq_body :: body_items
  rq_rejected :: "response option"

text \<open>Where a handler stands: at which await, with what it holds.\<close>

datatype conn_phase =
    AskedMeta session_handle waiter
  | AskedCheck session_handle waiter
  | AskedDownload session_handle download_start token chan waiter
  | Streaming session_handle token chan nat bool
  | Uploading session_handle token upload_state "waiter option"
  | AskedSocket session_handle direction token chan waiter
  | Relaying session_handle chan nat relay_loop
  | Closed

text \<open>A connection, with the answer, the items of the body and the websocket messages it was sent.\<close>

record server_conn =
  cn_request :: request
  cn_phase :: conn_phase
  cn_answer :: "response option"
  cn_body :: "bytes list"
  cn_messages :: "message list"

record server =
  sv_node :: node
  sv_token :: u64
  sv_next :: nat
  sv_conns :: "server_conn list"

definition server_new :: server where
  "server_new = \<lparr>sv_node = node_new, sv_token = 0, sv_next = 0, sv_conns = []\<rparr>"

subsection \<open>Talking to a session\<close>

definition tell :: "session_handle \<Rightarrow> command \<Rightarrow> server \<Rightarrow> server" where
  "tell h c s = (case send_command h c (sv_node s) of None \<Rightarrow> s | Some n \<Rightarrow> s\<lparr>sv_node := n\<rparr>)"

definition task_of :: "server \<Rightarrow> session_handle \<Rightarrow> task option" where
  "task_of s h = n_tasks (sv_node s) (sh_commands h)"

text \<open>The reply senders that a task still holds: in its state and in its queue.\<close>

definition open_waiters :: "task \<Rightarrow> waiter list" where
  "open_waiters t = waiting (t_state t) @ concat (map asked (t_queue t))"

definition replies_to :: "waiter \<Rightarrow> effect list \<Rightarrow> reply list" where
  "replies_to w es = concat (map (\<lambda>e. case e of Reply w' r \<Rightarrow> if w' = w then [r] else [] | _ \<Rightarrow> []) es)"

text \<open>A oneshot receiver: nothing yet, the reply, or the sender was dropped.\<close>

definition reply_of :: "server \<Rightarrow> session_handle \<Rightarrow> waiter \<Rightarrow> reply option option" where
  "reply_of s h w =
     (case task_of s h of
        None \<Rightarrow> Some None
      | Some t \<Rightarrow>
          (case replies_to w (t_log t) of
             r # _ \<Rightarrow> Some (Some r)
           | [] \<Rightarrow> if t_phase t = Ended \<or> w \<notin> set (open_waiters t) then Some None else None))"

definition channel_open :: "task \<Rightarrow> chan \<Rightarrow> bool" where
  "channel_open t ch =
     (t_phase t \<noteq> Ended \<and>
      (case downloader_slot (t_state t) of Connected d \<Rightarrow> d_events d = ch | _ \<Rightarrow> False))"

text \<open>The next event of a download after the first \<open>n\<close>; the channel closes with its sender.\<close>

definition next_event :: "server \<Rightarrow> session_handle \<Rightarrow> chan \<Rightarrow> nat \<Rightarrow> download_event option option" where
  "next_event s h ch n =
     (case task_of s h of
        None \<Rightarrow> Some None
      | Some t \<Rightarrow>
          (case drop n (events_on ch (t_log t)) of
             ev # _ \<Rightarrow> Some (Some ev)
           | [] \<Rightarrow> if channel_open t ch then None else Some None))"

definition commands_on :: "chan \<Rightarrow> effect list \<Rightarrow> ws_command list" where
  "commands_on ch es = concat (map (\<lambda>e. case e of WsCommand k x \<Rightarrow> if k = ch then [x] else [] | _ \<Rightarrow> []) es)"

definition inbox_open :: "task \<Rightarrow> direction \<Rightarrow> chan \<Rightarrow> bool" where
  "inbox_open t dir ch = (t_phase t \<noteq> Ended \<and> map_option wp_commands (websocket dir (t_state t)) = Some ch)"

definition next_command ::
  "server \<Rightarrow> session_handle \<Rightarrow> direction \<Rightarrow> chan \<Rightarrow> nat \<Rightarrow> ws_command option option" where
  "next_command s h dir ch n =
     (case task_of s h of
        None \<Rightarrow> Some None
      | Some t \<Rightarrow>
          (case drop n (commands_on ch (t_log t)) of
             x # _ \<Rightarrow> Some (Some x)
           | [] \<Rightarrow> if inbox_open t dir ch then None else Some None))"

subsection \<open>A request begins\<close>

text \<open>
  The handler of an endpoint up to its first await: where it stands and what it answers at once.
  The upload sends its first request when it is polled.
\<close>

definition serve ::
  "codecs \<Rightarrow> (nat \<Rightarrow> bytes) \<Rightarrow> request \<Rightarrow> endpoint \<Rightarrow> server \<Rightarrow> conn_phase \<times> response option \<times> server" where
  "serve cd fill rq e s =
     (let registry = n_sessions (sv_node s); w = sv_next s;
          socket = (\<lambda>i dir.
            case websocket_upgrade (cd_decode cd) registry i (rq_rejected rq) dir of
              Inl err \<Rightarrow> (Closed, Some (error_response err), s)
            | Inr (Rejected r) \<Rightarrow> (Closed, Some r, s)
            | Inr (RelayStarted h d) \<Rightarrow>
                (let (t, next) = new_token (sv_token s)
                 in (AskedSocket h d t (w + 1) w, Some (plain 101),
                     tell h (StartWebsocket d \<lparr>wp_token = t, wp_commands = w + 1\<rparr> w)
                       (s\<lparr>sv_token := next, sv_next := w + 2\<rparr>))))
      in case e of
        HealthCheck \<Rightarrow> (Closed, Some (json 200 UploadOk), s)
      | CreateFile \<Rightarrow>
          (case create_file (cd_encode cd) fill (rq_metadata rq) (sv_node s) of
             (r, n) \<Rightarrow> (Closed, Some (answer r), s\<lparr>sv_node := n\<rparr>))
      | DownloadMeta i \<Rightarrow>
          (case lookup_session (cd_decode cd) registry i of
             Inl err \<Rightarrow> (Closed, Some (error_response err), s)
           | Inr h \<Rightarrow> (AskedMeta h w, None, tell h (Metadata w) (s\<lparr>sv_next := w + 1\<rparr>)))
      | DownloadContent i \<Rightarrow>
          (let d = download_begin (cd_decode cd) Some registry i (rq_range rq)
           in case d of
                DownloadRefused err \<Rightarrow> (Closed, Some (error_response err), s)
              | DownloadFinish h \<Rightarrow>
                  (AskedDownload h d 0 0 w, None, tell h (FinishDownload w) (s\<lparr>sv_next := w + 1\<rparr>))
              | DownloadFrom h p \<Rightarrow>
                  (let (t, next) = new_token (sv_token s)
                   in (AskedDownload h d t (w + 1) w, None,
                       tell h (StartDownload \<lparr>d_token = t, d_position = p, d_events = w + 1\<rparr> w)
                         (s\<lparr>sv_token := next, sv_next := w + 2\<rparr>))))
      | UploadContent i \<Rightarrow>
          (case lookup_session (cd_decode cd) registry i of
             Inl err \<Rightarrow> (Closed, Some (error_response err), s)
           | Inr h \<Rightarrow>
               (case upload_begin (cd_decode cd) Some registry i (rq_content_range rq) (rq_body rq) of
                  UpDone a \<Rightarrow> (Closed, Some (answer a), s)
                | st \<Rightarrow>
                    (let (t, next) = new_token (sv_token s)
                     in (Uploading h t st None, None, s\<lparr>sv_token := next\<rparr>))))
      | StartUploadCheck i \<Rightarrow>
          (case start_upload_begin (cd_decode cd) registry i (rq_position rq) of
             Inl err \<Rightarrow> (Closed, Some (error_response err), s)
           | Inr (h, p) \<Rightarrow>
               (AskedCheck h w, None, tell h (CheckStartUpload p w) (s\<lparr>sv_next := w + 1\<rparr>)))
      | DownloadWebsocket i \<Rightarrow> socket i Download
      | UploadWebsocket i \<Rightarrow> socket i Upload
      | MethodNotAllowed \<Rightarrow> (Closed, Some (plain 405), s)
      | NoRoute \<Rightarrow> (Closed, Some (plain 404), s))"

text \<open>The headers are added, and preflight requests answered, below \<open>/api\<close>.\<close>

definition headed :: "request \<Rightarrow> response \<Rightarrow> response" where
  "headed rq r = (if take 1 (rq_path rq) = [''api''] then common_headers (rq_method rq) r else r)"

definition arrives :: "codecs \<Rightarrow> (nat \<Rightarrow> bytes) \<Rightarrow> request \<Rightarrow> server \<Rightarrow> server" where
  "arrives cd fill rq s =
     (let (phase, r, s') =
            (if rq_method rq = ''OPTIONS'' \<and> take 1 (rq_path rq) = [''api''] then (Closed, Some (plain 200), s)
             else serve cd fill rq (route (rq_method rq) (rq_path rq)) s)
      in s'\<lparr>sv_conns := sv_conns s' @
           [\<lparr>cn_request = rq, cn_phase = phase, cn_answer = map_option (headed rq) r,
             cn_body = [], cn_messages = []\<rparr>]\<rparr>)"

subsection \<open>A handler goes on\<close>

definition respond :: "response \<Rightarrow> server_conn \<Rightarrow> server_conn" where
  "respond r c = c\<lparr>cn_phase := Closed, cn_answer := Some (headed (cn_request c) r)\<rparr>"

definition metadata_answer :: "reply option \<Rightarrow> string option" where
  "metadata_answer r = (case r of Some (MetadataReply m) \<Rightarrow> Some m | _ \<Rightarrow> None)"

definition unit_answer :: "reply option \<Rightarrow> unit option" where
  "unit_answer r = (case r of Some UnitReply \<Rightarrow> Some () | _ \<Rightarrow> None)"

definition upload_answer :: "reply option \<Rightarrow> upload_result" where
  "upload_answer r = or_not_found (case r of Some (UploadReply x) \<Rightarrow> Some x | _ \<Rightarrow> None)"

definition stream_event ::
  "session_handle \<Rightarrow> token \<Rightarrow> chan \<Rightarrow> nat \<Rightarrow> server_conn \<Rightarrow> server \<Rightarrow> download_event option \<Rightarrow> server_conn \<times> server" where
  "stream_event h t ch n c s ev =
     (case ev of
        Some (MoreEvent d) \<Rightarrow> (c\<lparr>cn_phase := Streaming h t ch (Suc n) False, cn_body := cn_body c @ [d]\<rparr>, s)
      | Some (FinalEvent d) \<Rightarrow> (c\<lparr>cn_phase := Streaming h t ch (Suc n) True, cn_body := cn_body c @ [d]\<rparr>, s)
      | Some ReplacedEvent \<Rightarrow> (c\<lparr>cn_phase := Closed\<rparr>, tell h (download_drop t False) s)
      | None \<Rightarrow> (c\<lparr>cn_phase := Closed\<rparr>, tell h (download_drop t False) s))"

text \<open>
  One poll: the value is none while what the handler awaits is not there. An upload sends its
  next request, or ends and drops its guard; a stream yields the next item, and ends with the
  guard of its download.
\<close>

fun poll_phase :: "codecs \<Rightarrow> nat \<Rightarrow> server_conn \<Rightarrow> server \<Rightarrow> conn_phase \<Rightarrow> (server_conn \<times> server) option" where
  "poll_phase cd now c s (AskedMeta h w) =
     map_option (\<lambda>r. (respond (answer (download_meta (cd_encode cd) h (metadata_answer r))) c, s)) (reply_of s h w)"
| "poll_phase cd now c s (AskedCheck h w) =
     map_option (\<lambda>r. (respond (answer (start_upload_answer (upload_answer r))) c, s)) (reply_of s h w)"
| "poll_phase cd now c s (AskedDownload h d t ch w) =
     map_option (\<lambda>r.
       let a = answer (download_answer d (unit_answer r)); c' = respond a c
       in (if body a = ContentBody then c'\<lparr>cn_phase := Streaming h t ch 0 False\<rparr> else c', s)) (reply_of s h w)"
| "poll_phase cd now c s (Streaming h t ch n completed) =
     (if completed then Some (c\<lparr>cn_phase := Closed\<rparr>, tell h (download_drop t True) s)
      else map_option (stream_event h t ch n c s) (next_event s h ch n))"
| "poll_phase cd now c s (Uploading h t st None) =
     (case st of
        UpDone a \<Rightarrow> Some (respond (answer a) c, tell h (upload_drop t) s)
      | _ \<Rightarrow>
          map_option (\<lambda>cmd. (c\<lparr>cn_phase := Uploading h t st (Some (sv_next s))\<rparr>,
              tell h cmd (s\<lparr>sv_next := Suc (sv_next s)\<rparr>)))
            (upload_command t (sv_next s) st))"
| "poll_phase cd now c s (Uploading h t st (Some w)) =
     map_option (\<lambda>r. (c\<lparr>cn_phase := Uploading h t (upload_reply st (upload_answer r)) None\<rparr>, s)) (reply_of s h w)"
| "poll_phase cd now c s (AskedSocket h dir t ch w) =
     map_option (\<lambda>r. (c\<lparr>cn_phase := (case unit_answer r of
        None \<Rightarrow> Closed | Some _ \<Rightarrow> Relaying h ch 0 (relay_begin t dir now))\<rparr>, s)) (reply_of s h w)"
| "poll_phase cd now c s (Relaying h ch n l) = None"
| "poll_phase cd now c s Closed = None"

text \<open>A turn of a websocket's loop, if the loop can take that input.\<close>

definition takes_input :: "server \<Rightarrow> session_handle \<Rightarrow> chan \<Rightarrow> nat \<Rightarrow> relay_loop \<Rightarrow> nat \<times> ws_input \<Rightarrow> bool" where
  "takes_input s h ch n l i =
     (turn_enabled l i \<and>
      (case snd i of Inbox cmd ok \<Rightarrow> next_command s h (rl_direction l) ch n = Some cmd | _ \<Rightarrow> True))"

definition tell_effect :: "session_handle \<Rightarrow> ws_effect \<Rightarrow> server \<Rightarrow> server" where
  "tell_effect h e s = (case e of ToSession cmd \<Rightarrow> tell h cmd s | SinkSend m \<Rightarrow> s)"

definition sent_messages :: "ws_input \<Rightarrow> ws_effect list \<Rightarrow> message list" where
  "sent_messages i es =
     (if (case i of Inbox cmd ok \<Rightarrow> ok | PingDue ok \<Rightarrow> ok | _ \<Rightarrow> True)
      then concat (map (\<lambda>e. case e of SinkSend m \<Rightarrow> [m] | _ \<Rightarrow> []) es) else [])"

fun relay_phase :: "nat \<times> ws_input \<Rightarrow> server_conn \<Rightarrow> server \<Rightarrow> conn_phase \<Rightarrow> (server_conn \<times> server) option" where
  "relay_phase i c s (Relaying h ch n l) =
     (if takes_input s h ch n l i then
        (case relay_turn l i of
           (f, l', es) \<Rightarrow>
             Some (c\<lparr>cn_phase := (if is_break f then Closed
                        else Relaying h ch (case snd i of Inbox (Some _) _ \<Rightarrow> Suc n | _ \<Rightarrow> n) l'),
                      cn_messages := cn_messages c @ sent_messages (snd i) es\<rparr>,
                   fold (tell_effect h) es s))
      else None)"
| "relay_phase i c s _ = None"

text \<open>
  The client goes away: the handler is dropped. A relay is a task of its own, which learns of
  it from its socket.
\<close>

fun cancel_phase :: "server \<Rightarrow> conn_phase \<Rightarrow> server option" where
  "cancel_phase s (Streaming h t ch n completed) = Some (tell h (download_drop t completed) s)"
| "cancel_phase s (Uploading h t st w) = Some (tell h (upload_drop t) s)"
| "cancel_phase s (AskedSocket h dir t ch w) = None"
| "cancel_phase s (Relaying h ch n l) = None"
| "cancel_phase s Closed = None"
| "cancel_phase s _ = Some s"

subsection \<open>Steps\<close>

text \<open>The handle that a handler or a websocket's relay holds, until it is dropped.\<close>

fun conn_session :: "conn_phase \<Rightarrow> session_handle option" where
  "conn_session (AskedMeta h w) = Some h"
| "conn_session (AskedCheck h w) = Some h"
| "conn_session (AskedDownload h d t ch w) = Some h"
| "conn_session (Streaming h t ch n completed) = Some h"
| "conn_session (Uploading h t st w) = Some h"
| "conn_session (AskedSocket h dir t ch w) = Some h"
| "conn_session (Relaying h ch n l) = Some h"
| "conn_session Closed = None"

definition handle_held :: "server \<Rightarrow> chan \<Rightarrow> bool" where
  "handle_held s k = list_ex (\<lambda>c. map_option sh_commands (conn_session (cn_phase c)) = Some k) (sv_conns s)"

datatype server_event =
    Arrives "nat \<Rightarrow> bytes" request
  | Polls nat nat
  | Relays nat "nat \<times> ws_input"
  | Cancelled nat
  | SessionTurns chan
  | SessionCloses chan
  | SessionEnds chan

definition set_conn :: "nat \<Rightarrow> server_conn \<times> server \<Rightarrow> server" where
  "set_conn i r = (snd r)\<lparr>sv_conns := (sv_conns (snd r))[i := fst r]\<rparr>"

fun server_step :: "codecs \<Rightarrow> server \<Rightarrow> server_event \<Rightarrow> server option" where
  "server_step cd s (Arrives fill rq) = Some (arrives cd fill rq s)"
| "server_step cd s (Polls i now) =
     (if i < length (sv_conns s)
      then map_option (set_conn i) (poll_phase cd now (sv_conns s ! i) s (cn_phase (sv_conns s ! i))) else None)"
| "server_step cd s (Relays i input) =
     (if i < length (sv_conns s)
      then map_option (set_conn i) (relay_phase input (sv_conns s ! i) s (cn_phase (sv_conns s ! i))) else None)"
| "server_step cd s (Cancelled i) =
     (if i < length (sv_conns s)
      then map_option (\<lambda>s'. set_conn i ((sv_conns s ! i)\<lparr>cn_phase := Closed\<rparr>, s'))
        (cancel_phase s (cn_phase (sv_conns s ! i))) else None)"
| "server_step cd s (SessionTurns k) =
     map_option (\<lambda>n. s\<lparr>sv_node := n\<rparr>) (node_apply (cd_pb cd) (TurnEv k) (sv_node s))"
| "server_step cd s (SessionCloses k) =
     (if handle_held s k then None
      else map_option (\<lambda>n. s\<lparr>sv_node := n\<rparr>) (node_apply (cd_pb cd) (CloseEv k) (sv_node s)))"
| "server_step cd s (SessionEnds k) =
     map_option (\<lambda>n. s\<lparr>sv_node := n\<rparr>) (node_apply (cd_pb cd) (EndEv k) (sv_node s))"

text \<open>A run; an event that is not possible where it comes ends it without a value.\<close>

fun server_run :: "codecs \<Rightarrow> server \<Rightarrow> server_event list \<Rightarrow> server option" where
  "server_run cd s [] = Some s"
| "server_run cd s (ev # evs) = Option.bind (server_step cd s ev) (\<lambda>s. server_run cd s evs)"


subsection \<open>The node of a server\<close>

lemma tell_simps [simp]:
  "sv_conns (tell h c s) = sv_conns s" "sv_next (tell h c s) = sv_next s" "sv_token (tell h c s) = sv_token s"
  "tell h c (s\<lparr>sv_conns := cs\<rparr>) = (tell h c s)\<lparr>sv_conns := cs\<rparr>"
  "tell h c (s\<lparr>sv_token := tk, sv_next := m\<rparr>) = (tell h c (s\<lparr>sv_next := m\<rparr>))\<lparr>sv_token := tk\<rparr>"
  by (simp_all add: tell_def split: option.split)

lemma tell_reachable: "node_reachable pb (sv_node s) \<Longrightarrow> node_reachable pb (sv_node (tell h c s))"
  by (auto simp: tell_def split: option.split intro: reach_step step_send)

lemma create_file_reachable:
  "node_reachable pb n \<Longrightarrow> create_file enc fill form n = (r, n') \<Longrightarrow> node_reachable pb n'"
  by (auto simp: create_file_def Let_def split: option.splits prod.splits intro: reach_step step_create)

lemma serve_reachable:
  "node_reachable pb (sv_node s) \<Longrightarrow> serve cd fill rq e s = (ph, r, s') \<Longrightarrow>
   node_reachable pb (sv_node s') \<and> sv_conns s' = sv_conns s"
  by (cases e) (auto simp: serve_def Let_def new_token_def create_file_reachable
      split: sum.splits prod.splits upgraded.splits download_start.splits upload_state.splits
      intro!: tell_reachable)

lemma arrives_reachable:
  "node_reachable pb (sv_node s) \<Longrightarrow> node_reachable pb (sv_node (arrives cd fill rq s))"
  using serve_reachable [of pb s cd fill rq] by (auto simp: arrives_def Let_def split: prod.splits)

lemma arrives_conns: "length (sv_conns (arrives cd fill rq s)) = Suc (length (sv_conns s))"
  by (cases "route (rq_method rq) (rq_path rq)")
    (auto simp: arrives_def serve_def tell_def Let_def new_token_def
      split: sum.splits prod.splits upgraded.splits download_start.splits upload_state.splits option.splits)

lemma stream_reachable:
  "node_reachable pb (sv_node s) \<Longrightarrow> stream_event h t ch n c s ev = (c', s') \<Longrightarrow>
   node_reachable pb (sv_node s') \<and> sv_conns s' = sv_conns s"
  by (auto simp: stream_event_def tell_reachable split: option.splits download_event.splits)

lemma poll_reachable:
  "node_reachable pb (sv_node s) \<Longrightarrow> poll_phase cd now c s ph = Some (c', s') \<Longrightarrow>
   node_reachable pb (sv_node s') \<and> sv_conns s' = sv_conns s"
  by (induction cd now c s ph rule: poll_phase.induct)
    (auto simp: Let_def tell_reachable dest: stream_reachable split: if_splits upload_state.splits)

lemma tell_effects_reachable:
  "node_reachable pb (sv_node s) \<Longrightarrow>
   node_reachable pb (sv_node (fold (tell_effect h) es s)) \<and> sv_conns (fold (tell_effect h) es s) = sv_conns s"
  by (induction es arbitrary: s) (auto simp: tell_effect_def tell_reachable split: ws_effect.split)

lemma relay_reachable:
  "node_reachable pb (sv_node s) \<Longrightarrow> relay_phase i c s ph = Some (c', s') \<Longrightarrow>
   node_reachable pb (sv_node s') \<and> sv_conns s' = sv_conns s"
  by (cases ph) (auto simp: tell_effects_reachable split: if_splits prod.splits)

lemma cancel_reachable:
  "node_reachable pb (sv_node s) \<Longrightarrow> cancel_phase s ph = Some s' \<Longrightarrow>
   node_reachable pb (sv_node s') \<and> sv_conns s' = sv_conns s"
  by (cases ph) (auto intro: tell_reachable)

lemma server_step_reachable:
  assumes "node_reachable (cd_pb cd) (sv_node s)" and "server_step cd s ev = Some s'"
  shows "node_reachable (cd_pb cd) (sv_node s')"
proof (cases ev)
  case (Arrives fill rq)
  then show ?thesis using assms by (auto intro: arrives_reachable)
next
  case (Polls i now)
  with assms(2) obtain c' t where "poll_phase cd now (sv_conns s ! i) s (cn_phase (sv_conns s ! i)) = Some (c', t)"
    "s' = set_conn i (c', t)" by (auto split: if_splits)
  with poll_reachable [OF assms(1)] show ?thesis by (simp add: set_conn_def)
next
  case (Relays i input)
  with assms(2) obtain c' t where "relay_phase input (sv_conns s ! i) s (cn_phase (sv_conns s ! i)) = Some (c', t)"
    "s' = set_conn i (c', t)" by (auto split: if_splits)
  with relay_reachable [OF assms(1)] show ?thesis by (simp add: set_conn_def)
next
  case (Cancelled i)
  with assms(2) obtain t c' where "cancel_phase s (cn_phase (sv_conns s ! i)) = Some t" "s' = set_conn i (c', t)"
    by (auto split: if_splits)
  with cancel_reachable [OF assms(1)] show ?thesis by (simp add: set_conn_def)
next
  case (SessionTurns k)
  then obtain n where n: "node_apply (cd_pb cd) (TurnEv k) (sv_node s) = Some n" "s' = s\<lparr>sv_node := n\<rparr>"
    using assms(2) by (auto simp del: node_apply.simps)
  show ?thesis using reach_step [OF assms(1) node_apply_step [OF n(1)]] n(2) by simp
next
  case (SessionCloses k)
  then obtain n where n: "node_apply (cd_pb cd) (CloseEv k) (sv_node s) = Some n" "s' = s\<lparr>sv_node := n\<rparr>"
    using assms(2) by (auto simp del: node_apply.simps split: if_splits)
  show ?thesis using reach_step [OF assms(1) node_apply_step [OF n(1)]] n(2) by simp
next
  case (SessionEnds k)
  then obtain n where n: "node_apply (cd_pb cd) (EndEv k) (sv_node s) = Some n" "s' = s\<lparr>sv_node := n\<rparr>"
    using assms(2) by (auto simp del: node_apply.simps)
  show ?thesis using reach_step [OF assms(1) node_apply_step [OF n(1)]] n(2) by simp
qed

text \<open>So everything shown of the sessions of a node holds in the server.\<close>

lemma server_run_reachable:
  "node_reachable (cd_pb cd) (sv_node s) \<Longrightarrow> server_run cd s evs = Some s' \<Longrightarrow> node_reachable (cd_pb cd) (sv_node s')"
  by (induction evs arbitrary: s) (auto split: Option.bind_splits intro: server_step_reachable)

subsection \<open>Requests by endpoint\<close>

lemma headed_parts:
  "rq_method rq \<noteq> ''OPTIONS'' \<Longrightarrow> status (headed rq r) = status r"
  "rq_method rq \<noteq> ''OPTIONS'' \<Longrightarrow> body (headed rq r) = body r"
  by (simp_all add: headed_def common_headers_def Let_def)

lemma answer_parts:
  "status (plain n) = n" "status (json n b) = n" "body (json n b) = b" "body (plain n) = EmptyBody"
  "answer (Inr r) = r" "answer (Inl e) = error_response e" "error_response ApiNotFound = plain 404"
  "error_response (ApiInvalid x) = plain 400"
  by (simp_all add: plain_def json_def answer_def error_response_def)

lemma arrives_other:
  "rq_method rq \<noteq> ''OPTIONS'' \<Longrightarrow> arrives cd fill rq s =
     (case serve cd fill rq (route (rq_method rq) (rq_path rq)) s of
        (phase, r, s') \<Rightarrow> s'\<lparr>sv_conns := sv_conns s' @
          [\<lparr>cn_request = rq, cn_phase = phase, cn_answer = map_option (headed rq) r, cn_body = [], cn_messages = []\<rparr>]\<rparr>)"
  by (simp add: arrives_def)

lemma served:
  "serve cd fill rq HealthCheck s = (Closed, Some (json 200 UploadOk), s)"
  "serve cd fill rq MethodNotAllowed s = (Closed, Some (plain 405), s)"
  "serve cd fill rq NoRoute s = (Closed, Some (plain 404), s)"
  "serve cd fill rq CreateFile s = (case create_file (cd_encode cd) fill (rq_metadata rq) (sv_node s) of
     (r, n) \<Rightarrow> (Closed, Some (answer r), s\<lparr>sv_node := n\<rparr>))"
  by (simp_all add: serve_def Let_def)

lemma serve_unknown:
  assumes "lookup_session (cd_decode cd) (n_sessions (sv_node s)) i = Inl err"
  shows "serve cd fill rq (DownloadMeta i) s = (Closed, Some (error_response err), s)"
    "serve cd fill rq (DownloadContent i) s = (Closed, Some (error_response err), s)"
    "serve cd fill rq (UploadContent i) s = (Closed, Some (error_response err), s)"
    "rq_position rq = Some p \<Longrightarrow> serve cd fill rq (StartUploadCheck i) s = (Closed, Some (error_response err), s)"
    "serve cd fill rq (DownloadWebsocket i) s = (Closed, Some (error_response err), s)"
    "serve cd fill rq (UploadWebsocket i) s = (Closed, Some (error_response err), s)"
  using assms
  by (simp_all add: serve_def download_begin_def start_upload_begin_def websocket_upgrade_def Let_def)

lemma serve_known:
  assumes "lookup_session (cd_decode cd) (n_sessions (sv_node s)) i = Inr h"
  shows "serve cd fill rq (DownloadMeta i) s =
      (AskedMeta h (sv_next s), None, tell h (Metadata (sv_next s)) (s\<lparr>sv_next := sv_next s + 1\<rparr>))"
    "download_position Some (rq_range rq) = Inr (At p) \<Longrightarrow> serve cd fill rq (DownloadContent i) s =
      (AskedDownload h (DownloadFrom h p) (sv_token s) (sv_next s + 1) (sv_next s), None,
       tell h (StartDownload \<lparr>d_token = sv_token s, d_position = p, d_events = sv_next s + 1\<rparr> (sv_next s))
         (s\<lparr>sv_token := sv_token s + 1, sv_next := sv_next s + 2\<rparr>))"
    "download_position Some (rq_range rq) = Inr Eof \<Longrightarrow> serve cd fill rq (DownloadContent i) s =
      (AskedDownload h (DownloadFinish h) 0 0 (sv_next s), None,
       tell h (FinishDownload (sv_next s)) (s\<lparr>sv_next := sv_next s + 1\<rparr>))"
    "download_position Some (rq_range rq) = Inl x \<Longrightarrow> serve cd fill rq (DownloadContent i) s =
      (Closed, Some (plain 400), s)"
    "upload_position Some (rq_content_range rq) = Inr p \<Longrightarrow> serve cd fill rq (UploadContent i) s =
      (Uploading h (sv_token s) (UpStarting p (rq_body rq)) None, None, s\<lparr>sv_token := sv_token s + 1\<rparr>)"
    "upload_position Some (rq_content_range rq) = Inl x \<Longrightarrow> serve cd fill rq (UploadContent i) s =
      (Closed, Some (plain 400), s)"
    "rq_position rq = Some p \<Longrightarrow> serve cd fill rq (StartUploadCheck i) s =
      (AskedCheck h (sv_next s), None, tell h (CheckStartUpload p (sv_next s)) (s\<lparr>sv_next := sv_next s + 1\<rparr>))"
    "rq_position rq = None \<Longrightarrow> serve cd fill rq (StartUploadCheck i) s = (Closed, Some (plain 400), s)"
    "rq_rejected rq = None \<Longrightarrow> serve cd fill rq (DownloadWebsocket i) s =
      (AskedSocket h Download (sv_token s) (sv_next s + 1) (sv_next s), Some (plain 101),
       tell h (StartWebsocket Download \<lparr>wp_token = sv_token s, wp_commands = sv_next s + 1\<rparr> (sv_next s))
         (s\<lparr>sv_token := sv_token s + 1, sv_next := sv_next s + 2\<rparr>))"
    "rq_rejected rq = None \<Longrightarrow> serve cd fill rq (UploadWebsocket i) s =
      (AskedSocket h Upload (sv_token s) (sv_next s + 1) (sv_next s), Some (plain 101),
       tell h (StartWebsocket Upload \<lparr>wp_token = sv_token s, wp_commands = sv_next s + 1\<rparr> (sv_next s))
         (s\<lparr>sv_token := sv_token s + 1, sv_next := sv_next s + 2\<rparr>))"
  using assms
  by (simp_all add: serve_def download_begin_def upload_begin_def start_upload_begin_def websocket_upgrade_def
      new_token_def answer_parts Let_def)

text \<open>The task of a new session answers with the metadata that the session was created with.\<close>

lemma metadata_is_answered:
  assumes law: "base64_law (cd_encode cd) (cd_decode cd)" and fill: "fill ID_LENGTH \<noteq> []"
    and create: "rq_method rq = ''POST''" "rq_path rq = [''api'', ''v1'', ''files'']" "rq_metadata rq = Some m"
    and i: "i = encode_id (cd_encode cd) (fill ID_LENGTH)"
    and fetch: "rq_method q = ''GET''" "rq_path q = [''api'', ''v1'', ''download'', i]"
  shows "\<exists>s' r r'.
    server_run cd (arrives cd fill rq s)
      [Arrives fill' q, SessionTurns (n_next (sv_node s)), Polls (Suc (length (sv_conns s))) now] = Some s' \<and>
    cn_answer (sv_conns (arrives cd fill rq s) ! length (sv_conns s)) = Some r \<and> status r = 200 \<and>
    body r = Created (''/api/v1/upload/'' @ i) i \<and>
    cn_answer (sv_conns s' ! Suc (length (sv_conns s))) = Some r' \<and> status r' = 200 \<and>
    body r' = DownloadMetaBody m (''/api/v1/download/'' @ i @ ''/content'')"
proof -
  let ?k = "n_next (sv_node s)"
  let ?h = "\<lparr>sh_id = fill ID_LENGTH, sh_commands = ?k\<rparr>"
  let ?t = "\<lambda>cs. \<lparr>t_phase = Running, t_state = initial_state (fill ID_LENGTH) m, t_queue = cs, t_log = []\<rparr>"
  let ?n = "\<lambda>cs. \<lparr>n_sessions = (n_sessions (sv_node s))(fill ID_LENGTH \<mapsto> ?h),
    n_tasks = (n_tasks (sv_node s))(?k \<mapsto> ?t cs), n_next = Suc ?k\<rparr>"
  define c where "c = \<lparr>cn_request = rq, cn_phase = Closed,
    cn_answer = Some (headed rq (json 200 (Created (''/api/v1/upload/'' @ i) i))), cn_body = [], cn_messages = []\<rparr>"
  have ne: "i \<noteq> []" using fill by (simp add: i encode_id_def base64_enc_Nil [OF law])
  have dec: "decode_id (cd_decode cd) i = Some (fill ID_LENGTH)"
    using fill by (simp add: i decode_encode_id [OF law])
  have r: "route ''POST'' [''api'', ''v1'', ''files''] = CreateFile" "route ''GET'' [''api'', ''v1'', ''download'', i] = DownloadMeta i"
    using ne by (simp_all add: route_def on_get_def on_post_def)
  have s1: "arrives cd fill rq s = s\<lparr>sv_node := ?n [], sv_conns := sv_conns s @ [c]\<rparr>"
    using create by (simp add: arrives_other r served create_file_def create_session_def spawn_session_def generate_id_def
        registry_insert_def answer_parts i c_def Let_def)
  let ?s1 = "s\<lparr>sv_node := ?n [], sv_conns := sv_conns s @ [c]\<rparr>"
  have look: "lookup_session (cd_decode cd) (n_sessions (sv_node ?s1)) i = Inr ?h"
    by (simp add: lookup_session_def registry_get_def dec)
  have s2: "arrives cd fill' q ?s1 = s\<lparr>sv_node := ?n [Metadata (sv_next s)], sv_next := Suc (sv_next s),
      sv_conns := sv_conns s @ [c, \<lparr>cn_request = q, cn_phase = AskedMeta ?h (sv_next s), cn_answer = None,
        cn_body = [], cn_messages = []\<rparr>]\<rparr>"
    using fetch by (simp add: arrives_other r serve_known(1) [OF look] tell_def send_command_def)
  show ?thesis
    unfolding s1 server_run.simps server_step.simps s2 bind.bind_lunit
    using create(1) fetch(1)
    by (simp add: run_turn_def task_of_def reply_of_def replies_to_def set_conn_def respond_def metadata_answer_def
        download_meta_def answer_parts headed_parts nth_append i c_def initial_state_def)
qed

end
