(* ===== verification/Relay_Settling.thy ===== *)
theory Relay_Settling
  imports Relay_Server
begin

text \<open>
  Everything the relay is asked comes to an end: its own steps cannot go on for ever, and where
  they stop, every request has been answered, or waits for a peer that has not come. The replies
  are followed from the handler that awaits one to the session that answers it.
\<close>

subsection \<open>The server settles\<close>

text \<open>
  The steps the server makes by itself: no request arrives, no client goes away, no socket has
  a frame and no timer fires.
\<close>

fun internal :: "server_event \<Rightarrow> bool" where
  "internal (Polls i now) = True"
| "internal (Relays i input) = (case snd input of Inbox cmd ok \<Rightarrow> True | _ \<Rightarrow> False)"
| "internal (SessionTurns k) = True"
| "internal (SessionCloses k) = True"
| "internal (SessionEnds k) = True"
| "internal _ = False"

text \<open>The requests an upload still makes at most.\<close>

fun upload_steps :: "upload_state \<Rightarrow> nat" where
  "upload_steps (UpStarting p items) = 3 + length items"
| "upload_steps (UpFlushing items) = 2 + length items"
| "upload_steps (UpSending c nxt items) = (if is_final c then 1 else 2 + length items)"
| "upload_steps (UpDone a) = 0"

lemma send_next_steps: "upload_steps (send_next nxt items) \<le> 1 + length items"
  by (cases "(nxt, items)" rule: send_next.cases) (simp_all add: read_failed_def)

lemma read_first_steps: "upload_steps (read_first items) \<le> 1 + length items"
proof (cases items rule: read_first.cases)
  case (3 d rest)
  then show ?thesis using send_next_steps [of "Some d" rest] by simp
qed (simp_all add: read_failed_def)

lemma upload_reply_steps: "upload_steps (upload_reply st r) < max 1 (upload_steps st)"
proof (cases st)
  case (UpFlushing items)
  then show ?thesis using read_first_steps [of items] by (cases r) auto
next
  case (UpSending c nxt items)
  then show ?thesis using send_next_steps [of nxt items] by (cases r) auto
qed (auto split: sum.split)

text \<open>
  What a connection may still tell its session, and what a session has still to handle: every
  step lessens their sum, or takes one more item of a log.
\<close>

fun phase_weight :: "conn_phase \<Rightarrow> nat" where
  "phase_weight (AskedMeta h w) = 1"
| "phase_weight (AskedCheck h w) = 1"
| "phase_weight (AskedDownload h d t ch w) = 4"
| "phase_weight (Streaming h t ch n completed) = (if completed then 2 else 3)"
| "phase_weight (Uploading h t st None) = 4 * upload_steps st + 3"
| "phase_weight (Uploading h t st (Some w)) = 4 * max 1 (upload_steps st) + 1"
| "phase_weight (AskedSocket h dir t ch w) = 4"
| "phase_weight (Relaying h ch n l) = 3"
| "phase_weight Closed = 0"

definition task_weight :: "task option \<Rightarrow> nat" where
  "task_weight t =
     (case t of
        None \<Rightarrow> 0
      | Some t \<Rightarrow> length (t_queue t) + (case t_phase t of Running \<Rightarrow> 2 | Stopping \<Rightarrow> 1 | Ended \<Rightarrow> 0))"

definition node_weight :: "node \<Rightarrow> nat" where
  "node_weight n = (\<Sum>k<n_next n. task_weight (n_tasks n k))"

definition server_weight :: "server \<Rightarrow> nat" where
  "server_weight s = node_weight (sv_node s) + sum_list (map (phase_weight \<circ> cn_phase) (sv_conns s))"

fun unread :: "server \<Rightarrow> conn_phase \<Rightarrow> nat" where
  "unread s (Streaming h t ch n completed) =
     (case task_of s h of None \<Rightarrow> 0 | Some t \<Rightarrow> length (events_on ch (t_log t)) - n)"
| "unread s (Relaying h ch n l) =
     (case task_of s h of None \<Rightarrow> 0 | Some t \<Rightarrow> length (commands_on ch (t_log t)) - n)"
| "unread s _ = 0"

definition server_unread :: "server \<Rightarrow> nat" where
  "server_unread s = sum_list (map (unread s \<circ> cn_phase) (sv_conns s))"

lemma sum_change:
  fixes f g :: "nat \<Rightarrow> nat"
  assumes "k < n" and "\<And>j. j \<noteq> k \<Longrightarrow> g j = f j"
  shows "sum g {..<n} + f k = sum f {..<n} + g k"
proof -
  have "sum g ({..<n} - {k}) = sum f ({..<n} - {k})" by (rule sum.cong) (auto simp: assms(2))
  moreover have "sum f {..<n} = f k + sum f ({..<n} - {k})" "sum g {..<n} = g k + sum g ({..<n} - {k})"
    by (rule sum.remove; use assms(1) in simp)+
  ultimately show ?thesis by simp
qed

lemma sum_list_change:
  fixes f :: "'a \<Rightarrow> nat"
  assumes "i < length xs"
  shows "sum_list (map f (xs[i := x])) + f (xs ! i) = sum_list (map f xs) + f x"
  using assms
proof (induction xs arbitrary: i)
  case (Cons y ys)
  then show ?case by (cases i) (simp_all add: ac_simps)
qed simp

lemma tell_weight: "node_weight (sv_node (tell h c s)) \<le> Suc (node_weight (sv_node s))"
proof (cases "send_command h c (sv_node s)")
  case (Some n)
  then obtain t where t: "n_tasks (sv_node s) (sh_commands h) = Some t"
    "n = (sv_node s)\<lparr>n_tasks := (n_tasks (sv_node s))(sh_commands h \<mapsto> t\<lparr>t_queue := t_queue t @ [c]\<rparr>)\<rparr>"
    by (auto simp: send_command_def split: option.splits if_splits)
  show ?thesis
  proof (cases "sh_commands h < n_next (sv_node s)")
    case True
    show ?thesis
      using sum_change [OF True, of "\<lambda>k. task_weight (n_tasks n k)" "\<lambda>k. task_weight (n_tasks (sv_node s) k)"] t Some
      by (simp add: tell_def node_weight_def task_weight_def)
  next
    case False
    then have "node_weight n = node_weight (sv_node s)" by (auto simp: node_weight_def t(2) intro!: sum.cong)
    then show ?thesis using Some by (simp add: tell_def)
  qed
qed (simp add: tell_def)


lemma node_change_weight:
  assumes "n_tasks n k = Some t" and "k < n_next n" and "task_weight (Some t') < task_weight (Some t)"
  shows "node_weight (n\<lparr>n_tasks := (n_tasks n)(k \<mapsto> t'), n_sessions := r\<rparr>) < node_weight n"
  using sum_change [OF assms(2), of "\<lambda>j. task_weight (((n_tasks n)(k \<mapsto> t')) j)" "\<lambda>j. task_weight (n_tasks n j)"]
    assms(1,3)
  by (simp add: node_weight_def)

lemma turn_weight:
  assumes "node_apply pb (TurnEv k) n = Some n'" and "node_reachable pb n"
  shows "node_weight n' < node_weight n"
proof -
  obtain t t' where t: "n_tasks n k = Some t" "run_turn pb t = Some t'" "n' = n\<lparr>n_tasks := (n_tasks n)(k \<mapsto> t')\<rparr>"
    using assms(1) by (auto split: option.splits)
  have "k < n_next n" using node_reachable_inv [OF assms(2)] t(1) by (simp add: node_inv_def)
  moreover have "task_weight (Some t') < task_weight (Some t)"
    using t(2) by (auto simp: run_turn_def task_weight_def split: task_phase.splits list.splits prod.splits)
  ultimately show ?thesis using node_change_weight [OF t(1), of t' "n_sessions n"] t(3) by simp
qed

lemma close_weight:
  assumes "node_apply pb (CloseEv k) n = Some n'" and "node_reachable pb n"
  shows "node_weight n' < node_weight n"
proof -
  obtain t where t: "n_tasks n k = Some t" "t_phase t = Running" "t_queue t = []"
    "n' = n\<lparr>n_tasks := (n_tasks n)(k \<mapsto> t\<lparr>t_phase := Stopping\<rparr>)\<rparr>"
    using assms(1) by (auto simp: run_closed_def split: option.splits if_splits)
  have "k < n_next n" using node_reachable_inv [OF assms(2)] t(1) by (simp add: node_inv_def)
  moreover have "task_weight (Some (t\<lparr>t_phase := Stopping\<rparr>)) < task_weight (Some t)"
    using t(2) by (simp add: task_weight_def)
  ultimately show ?thesis
    using node_change_weight [OF t(1), of "t\<lparr>t_phase := Stopping\<rparr>" "n_sessions n"] t(4) by simp
qed

lemma end_weight:
  assumes "node_apply pb (EndEv k) n = Some n'" and "node_reachable pb n"
  shows "node_weight n' < node_weight n"
proof -
  obtain t where t: "n_tasks n k = Some t" "t_phase t = Stopping"
    "n' = n\<lparr>n_tasks := (n_tasks n)(k \<mapsto> fst (end_task t (n_sessions n))), n_sessions := snd (end_task t (n_sessions n))\<rparr>"
    using assms(1) by (auto split: option.splits if_splits prod.splits)
  have "k < n_next n" using node_reachable_inv [OF assms(2)] t(1) by (simp add: node_inv_def)
  then show ?thesis
    using node_change_weight [OF t(1), of "fst (end_task t (n_sessions n))" "snd (end_task t (n_sessions n))"] t(2,3)
    by (simp add: task_weight_def end_task_def)
qed

text \<open>A step of a connection makes progress if one of the two measures says so.\<close>

definition progress :: "server \<Rightarrow> conn_phase \<Rightarrow> server \<Rightarrow> conn_phase \<Rightarrow> bool" where
  "progress s ph s' ph' =
     (node_weight (sv_node s') + phase_weight ph' < node_weight (sv_node s) + phase_weight ph \<or>
      sv_node s' = sv_node s \<and> phase_weight ph' \<le> phase_weight ph \<and> unread s ph' < unread s ph)"

lemma stream_progress:
  assumes "next_event s h ch n = Some ev" and "stream_event h t ch n c s ev = (c', s')"
  shows "progress s (Streaming h t ch n False) s' (cn_phase c')"
proof -
  have tell: "phase_weight (Streaming h t ch n False) = 3"
    "node_weight (sv_node (tell h (download_drop t False) s)) \<le> Suc (node_weight (sv_node s))"
    using tell_weight by simp_all
  show ?thesis
    using assms tell
    by (auto simp: stream_event_def next_event_def progress_def split: option.splits download_event.splits list.splits
        if_splits dest: arg_cong [of "drop n _" _ length])
qed

lemma poll_progress:
  assumes "poll_phase cd now c s ph = Some (c', s')"
  shows "progress s ph s' (cn_phase c')"
proof (cases ph)
  case (Streaming h t ch n completed)
  then show ?thesis
    using assms stream_progress [of s h ch n _ t c c' s'] tell_weight [of h "download_drop t True" s]
    by (auto simp: progress_def split: if_splits)
next
  case (Uploading h t st w)
  show ?thesis
  proof (cases w)
    case None
    then show ?thesis
      using assms Uploading tell_weight
      by (cases st) (auto simp: progress_def respond_def intro!: le_less_trans [OF add_right_mono [OF tell_weight]])
  next
    case (Some x)
    have "4 * upload_steps (upload_reply st r) + 3 < 4 * max 1 (upload_steps st) + 1" for r
      using upload_reply_steps [of st r] by linarith
    then show ?thesis using assms Uploading Some by (auto simp: progress_def)
  qed
qed (use assms in \<open>auto simp: progress_def respond_def Let_def split: option.splits\<close>)


lemma tell_effects_weight:
  "node_weight (sv_node (fold (tell_effect h) es s))
     \<le> node_weight (sv_node s) + length (filter (\<lambda>e. case e of ToSession c \<Rightarrow> True | _ \<Rightarrow> False) es)"
proof (induction es arbitrary: s)
  case (Cons e es)
  show ?case
  proof (cases e)
    case (ToSession c)
    then show ?thesis using Cons [of "tell h c s"] tell_weight [of h c s] by (simp add: tell_effect_def)
  qed (use Cons in \<open>simp add: tell_effect_def\<close>)
qed simp

lemma relay_progress:
  assumes "relay_phase i c s ph = Some (c', s')" and "case snd i of Inbox cmd ok \<Rightarrow> True | _ \<Rightarrow> False"
  shows "progress s ph s' (cn_phase c')"
proof -
  obtain cmd ok where i: "snd i = Inbox cmd ok" using assms(2) by (auto split: ws_input.splits)
  obtain h ch n l where ph: "ph = Relaying h ch n l" using assms(1) by (cases ph) auto
  obtain f l' es where turn: "relay_turn l i = (f, l', es)" by (cases "relay_turn l i")
  have input: "takes_input s h ch n l i" using assms(1) ph by (auto split: if_splits)
  have out: "c' = c\<lparr>cn_phase := (if is_break f then Closed
        else Relaying h ch (case snd i of Inbox (Some _) _ \<Rightarrow> Suc n | _ \<Rightarrow> n) l'),
      cn_messages := cn_messages c @ sent_messages (snd i) es\<rparr>" "s' = fold (tell_effect h) es s"
    using assms(1) ph turn input by auto
  show ?thesis
  proof (cases "is_break f")
    case True
    have "length (filter (\<lambda>e. case e of ToSession c \<Rightarrow> True | _ \<Rightarrow> False) es) \<le> 1"
      using turn i by (cases i) (auto simp: leave_def sent_def relay_drop_def split: option.splits ws_command.splits if_splits)
    then show ?thesis using True out ph tell_effects_weight [of h es s] by (simp add: progress_def)
  next
    case False
    have cmd: "\<exists>x. cmd = Some x" and "\<exists>m. es = [SinkSend m]"
      using turn i False by (cases i; auto simp: leave_def sent_def split: option.splits ws_command.splits if_splits)+
    then have "s' = s" using out(2) by (auto simp: tell_effect_def)
    moreover have "unread s (Relaying h ch (Suc n) l') < unread s (Relaying h ch n l)"
      using input i cmd
      by (auto simp: takes_input_def next_command_def split: option.splits list.splits if_splits
          dest: arg_cong [of "drop n _" _ length])
    moreover have "cn_phase c' = Relaying h ch (Suc n) l'" using out(1) False i cmd by auto
    ultimately show ?thesis using ph by (simp add: progress_def)
  qed
qed

text \<open>Both measures, in this order.\<close>

definition settling :: "(server \<times> server) set" where
  "settling = inv_image (less_than <*lex*> less_than) (\<lambda>s. (server_weight s, server_unread s))"

lemma wf_settling: "wf settling"
  unfolding settling_def by (intro wf_inv_image wf_lex_prod wf_less_than)

lemma conn_progress:
  assumes "i < length (sv_conns s)" and "sv_conns s' = sv_conns s"
    and "progress s (cn_phase (sv_conns s ! i)) s' (cn_phase c')"
  shows "(set_conn i (c', s'), s) \<in> settling"
proof -
  note weight = sum_list_change [OF assms(1), of "phase_weight \<circ> cn_phase" c']
  note unread = sum_list_change [OF assms(1), of "unread s \<circ> cn_phase" c']
  have "sv_node s' = sv_node s \<Longrightarrow> unread (set_conn i (c', s')) ph = unread s ph" for ph
    by (cases ph) (simp_all add: set_conn_def task_of_def)
  then have "sv_node s' = sv_node s \<Longrightarrow>
      server_unread (set_conn i (c', s')) = sum_list (map (unread s \<circ> cn_phase) ((sv_conns s)[i := c']))"
    using assms(2) by (simp add: server_unread_def set_conn_def o_def)
  then show ?thesis
    using assms(2,3) weight unread
    by (auto simp: settling_def progress_def server_weight_def server_unread_def set_conn_def)
qed

lemma internal_settling:
  assumes "node_reachable (cd_pb cd) (sv_node s)" and "internal ev" and "server_step cd s ev = Some s'"
  shows "(s', s) \<in> settling"
proof (cases ev)
  case (Polls i now)
  then obtain c' t where "poll_phase cd now (sv_conns s ! i) s (cn_phase (sv_conns s ! i)) = Some (c', t)"
    "s' = set_conn i (c', t)" "i < length (sv_conns s)" using assms(3) by (auto split: if_splits)
  then show ?thesis using conn_progress poll_progress poll_reachable [OF assms(1)] by metis
next
  case (Relays i input)
  then obtain c' t where "relay_phase input (sv_conns s ! i) s (cn_phase (sv_conns s ! i)) = Some (c', t)"
    "s' = set_conn i (c', t)" "i < length (sv_conns s)" using assms(3) by (auto split: if_splits)
  moreover have "case snd input of Inbox cmd ok \<Rightarrow> True | _ \<Rightarrow> False" using assms(2) Relays by simp
  ultimately show ?thesis using conn_progress relay_progress relay_reachable [OF assms(1)] by metis
next
  case (SessionTurns k)
  then obtain n where n: "node_apply (cd_pb cd) (TurnEv k) (sv_node s) = Some n" "s' = s\<lparr>sv_node := n\<rparr>"
    using assms(3) by (auto simp del: node_apply.simps)
  from turn_weight [OF n(1) assms(1)] n(2) show ?thesis by (simp add: settling_def server_weight_def)
next
  case (SessionCloses k)
  then obtain n where n: "node_apply (cd_pb cd) (CloseEv k) (sv_node s) = Some n" "s' = s\<lparr>sv_node := n\<rparr>"
    using assms(3) by (auto simp del: node_apply.simps split: if_splits)
  from close_weight [OF n(1) assms(1)] n(2) show ?thesis by (simp add: settling_def server_weight_def)
next
  case (SessionEnds k)
  then obtain n where n: "node_apply (cd_pb cd) (EndEv k) (sv_node s) = Some n" "s' = s\<lparr>sv_node := n\<rparr>"
    using assms(3) by (auto simp del: node_apply.simps)
  from end_weight [OF n(1) assms(1)] n(2) show ?thesis by (simp add: settling_def server_weight_def)
qed (use assms(2) in simp_all)


subsection \<open>What a request waits for\<close>

text \<open>The replies a session may keep for later: those of chunks and flushes.\<close>

definition held_by :: "command \<Rightarrow> waiter list" where
  "held_by c = (case c of UploadData t ch w \<Rightarrow> [w] | FlushUpload t w \<Rightarrow> [w] | _ \<Rightarrow> [])"

lemma handle_holds:
  assumes "handle pb s c = (f, s', es)"
  shows "set (waiting s') \<subseteq> set (waiting s) \<union> set (held_by c)"
  using assms
proof (cases rule: handle_cases)
  case (FinishDownload w)
  then show ?thesis
    by (cases "pending s"; cases "uploader_slot s")
      (auto simp: finish_download_def replace_downloader_def terminate_uploader_def held_by_def Let_def
        split: if_splits option.splits)
next
  case (StartUpload t p w)
  then show ?thesis
    by (cases "pending s"; cases "uploader_slot s")
      (auto simp: start_upload_def terminate_uploader_def held_by_def Let_def split: if_splits sum.splits option.splits)
next
  case (UploadData t ch w)
  then show ?thesis
    by (cases "pending s"; cases "uploader_slot s"; cases "downloader_slot s")
      (auto simp: upload_data_def held_by_def Let_def split: if_splits option.splits)
next
  case (FlushUpload t w)
  then show ?thesis
    by (cases "pending s") (auto simp: flush_upload_def held_by_def split: if_splits option.splits)
qed (auto simp: held_by_def dest: balance)

definition task_kinds :: "task \<Rightarrow> (waiter \<times> reply_kind) set" where
  "task_kinds t = sent_kinds (t_log t) \<union> held_kinds (t_state t) \<union> \<Union> (asked_kinds ` set (t_queue t))"

definition task_holds :: "task \<Rightarrow> waiter set" where
  "task_holds t = set (waiting (t_state t)) \<union> \<Union> ((\<lambda>c. set (held_by c)) ` set (t_queue t))"

lemma run_turn_kinds:
  assumes "run_turn pb t = Some t'"
  shows "task_kinds t' \<subseteq> task_kinds t \<and> task_holds t' \<subseteq> task_holds t"
proof -
  obtain c q f s' es where t: "t_queue t = c # q" "handle pb (t_state t) c = (f, s', es)"
    "t_state t' = s'" "t_queue t' = q" "t_log t' = t_log t @ es"
    using assms by (auto simp: run_turn_def split: task_phase.splits list.splits prod.splits)
  show ?thesis
    using handle_kinds [OF t(2)] handle_holds [OF t(2)] t
    by (auto simp: task_kinds_def task_holds_def kinds_within_def)
qed

text \<open>
  A handler that awaits a reply: of which session, on which channel, of which kind, and whether
  the session may keep it.
\<close>

fun awaits :: "conn_phase \<Rightarrow> (session_handle \<times> waiter \<times> reply_kind \<times> bool) option" where
  "awaits (AskedMeta h w) = Some (h, w, MetadataKind, False)"
| "awaits (AskedCheck h w) = Some (h, w, UploadKind, False)"
| "awaits (AskedDownload h d t ch w) = Some (h, w, UnitKind, False)"
| "awaits (Uploading h t st (Some w)) = Some (h, w, UploadKind, \<not> (\<exists>p items. st = UpStarting p items))"
| "awaits (AskedSocket h dir t ch w) = Some (h, w, UnitKind, False)"
| "awaits _ = None"

fun session_of :: "conn_phase \<Rightarrow> session_handle option" where
  "session_of (Uploading h t st w) = Some h"
| "session_of (Streaming h t ch n completed) = Some h"
| "session_of (Relaying h ch n l) = Some h"
| "session_of _ = None"

definition wait_ok :: "server \<Rightarrow> session_handle \<times> waiter \<times> reply_kind \<times> bool \<Rightarrow> bool" where
  "wait_ok s x =
     (case x of (h, w, k, b) \<Rightarrow>
        w < sv_next s \<and>
        (\<exists>t. task_of s h = Some t \<and> (\<forall>k'. (w, k') \<in> task_kinds t \<longrightarrow> k' = k) \<and> (b \<or> w \<notin> task_holds t)))"

definition phase_ok :: "server \<Rightarrow> conn_phase \<Rightarrow> bool" where
  "phase_ok s ph =
     ((\<forall>x. awaits ph = Some x \<longrightarrow> wait_ok s x) \<and>
      (\<forall>h. session_of ph = Some h \<longrightarrow> task_of s h \<noteq> None))"

definition tasks_ok :: "server \<Rightarrow> bool" where
  "tasks_ok s = (\<forall>k t w kd. n_tasks (sv_node s) k = Some t \<longrightarrow> (w, kd) \<in> task_kinds t \<longrightarrow> w < sv_next s)"

definition server_ok :: "codecs \<Rightarrow> server \<Rightarrow> bool" where
  "server_ok cd s =
     (node_reachable (cd_pb cd) (sv_node s) \<and> tasks_ok s \<and> (\<forall>c\<in>set (sv_conns s). phase_ok s (cn_phase c)))"

text \<open>
  What a step may do to the rest of the server: tasks stay, and their reply channels are old
  ones or those that were just made.
\<close>

definition grows :: "server \<Rightarrow> server \<Rightarrow> bool" where
  "grows s s' =
     (sv_next s \<le> sv_next s' \<and>
      (\<forall>k t. n_tasks (sv_node s) k = Some t \<longrightarrow>
         (\<exists>t'. n_tasks (sv_node s') k = Some t' \<and>
            (\<forall>w kd. (w, kd) \<in> task_kinds t' \<longrightarrow> (w, kd) \<in> task_kinds t \<or> sv_next s \<le> w) \<and>
            (\<forall>w. w \<in> task_holds t' \<longrightarrow> w \<in> task_holds t \<or> sv_next s \<le> w))))"

lemma grows_refl [simp]: "grows s s"
  by (auto simp: grows_def)

lemma grows_conns [simp]:
  "grows s (s'\<lparr>sv_conns := cs\<rparr>) = grows s s'" "grows (s\<lparr>sv_conns := cs\<rparr>) s' = grows s s'"
  "grows s (s'\<lparr>sv_token := tk\<rparr>) = grows s s'"
  by (simp_all add: grows_def)

lemma growsD:
  assumes "grows s s'" and "task_of s h = Some t"
  obtains t' where "task_of s' h = Some t'"
    and "\<And>w kd. (w, kd) \<in> task_kinds t' \<Longrightarrow> w < sv_next s \<Longrightarrow> (w, kd) \<in> task_kinds t"
    and "\<And>w. w \<in> task_holds t' \<Longrightarrow> w < sv_next s \<Longrightarrow> w \<in> task_holds t"
  using assms unfolding grows_def task_of_def by (metis not_le)

lemma grows_trans: "grows s s' \<Longrightarrow> grows s' s'' \<Longrightarrow> grows s s''"
  unfolding grows_def by (clarsimp, meson order_trans)

lemma grows_wait:
  assumes "grows s s'" and "wait_ok s x"
  shows "wait_ok s' x"
proof -
  obtain h w k b where x: "x = (h, w, k, b)" by (cases x)
  obtain t where t: "task_of s h = Some t" "w < sv_next s" "\<forall>k'. (w, k') \<in> task_kinds t \<longrightarrow> k' = k"
    "b \<or> w \<notin> task_holds t" using assms(2) x by (auto simp: wait_ok_def)
  obtain t' where "task_of s' h = Some t'"
    "\<And>w kd. (w, kd) \<in> task_kinds t' \<Longrightarrow> w < sv_next s \<Longrightarrow> (w, kd) \<in> task_kinds t"
    "\<And>w. w \<in> task_holds t' \<Longrightarrow> w < sv_next s \<Longrightarrow> w \<in> task_holds t"
    using growsD [OF assms(1) t(1)] by metis
  moreover have "sv_next s \<le> sv_next s'" using assms(1) by (simp add: grows_def)
  ultimately show ?thesis using t x by (auto simp: wait_ok_def)
qed

lemma grows_task: "grows s s' \<Longrightarrow> task_of s h \<noteq> None \<Longrightarrow> task_of s' h \<noteq> None"
  unfolding grows_def task_of_def by blast

lemma grows_phase: "grows s s' \<Longrightarrow> phase_ok s ph \<Longrightarrow> phase_ok s' ph"
  unfolding phase_ok_def using grows_wait grows_task by blast

lemma phase_ok_conns [simp]:
  "phase_ok (s\<lparr>sv_conns := cs\<rparr>) ph = phase_ok s ph" "tasks_ok (s\<lparr>sv_conns := cs\<rparr>) = tasks_ok s"
  "phase_ok (s\<lparr>sv_token := tk\<rparr>) ph = phase_ok s ph" "tasks_ok (s\<lparr>sv_token := tk\<rparr>) = tasks_ok s"
  by (simp_all add: phase_ok_def wait_ok_def task_of_def tasks_ok_def)


lemma send_command_task:
  assumes "send_command h c n = Some n'"
  obtains t where "n_tasks n (sh_commands h) = Some t"
    "n' = n\<lparr>n_tasks := (n_tasks n)(sh_commands h \<mapsto> t\<lparr>t_queue := t_queue t @ [c]\<rparr>)\<rparr>"
  using assms by (auto simp: send_command_def split: option.splits if_splits)

lemma queued_kinds [simp]:
  "task_kinds (t\<lparr>t_queue := t_queue t @ [c]\<rparr>) = task_kinds t \<union> asked_kinds c"
  "task_holds (t\<lparr>t_queue := t_queue t @ [c]\<rparr>) = task_holds t \<union> set (held_by c)"
  by (auto simp: task_kinds_def task_holds_def)

lemma held_asked: "w \<in> set (held_by c) \<Longrightarrow> \<exists>k. (w, k) \<in> asked_kinds c"
  by (cases c) (auto simp: held_by_def asked_kinds_def)

text \<open>A command whose reply channel, if it has one, was just made.\<close>

lemma tell_grows:
  assumes "\<And>w k. (w, k) \<in> asked_kinds c \<Longrightarrow> w = sv_next s" and "sv_next s \<le> m"
  shows "grows s (tell h c (s\<lparr>sv_next := m\<rparr>))"
proof (cases "send_command h c (sv_node s)")
  case (Some n)
  then obtain t where "n_tasks (sv_node s) (sh_commands h) = Some t"
    "n = (sv_node s)\<lparr>n_tasks := (n_tasks (sv_node s))(sh_commands h \<mapsto> t\<lparr>t_queue := t_queue t @ [c]\<rparr>)\<rparr>"
    by (elim send_command_task)
  then show ?thesis
    using Some assms held_asked [of _ c] by (auto simp: grows_def tell_def) (metis order_refl)
qed (use assms in \<open>simp add: grows_def tell_def\<close>)

lemma tell_tasks_ok:
  assumes "tasks_ok s" and "\<And>w k. (w, k) \<in> asked_kinds c \<Longrightarrow> w < m" and "sv_next s \<le> m"
  shows "tasks_ok (tell h c (s\<lparr>sv_next := m\<rparr>))"
proof (cases "send_command h c (sv_node s)")
  case (Some n)
  then obtain t where "n_tasks (sv_node s) (sh_commands h) = Some t"
    "n = (sv_node s)\<lparr>n_tasks := (n_tasks (sv_node s))(sh_commands h \<mapsto> t\<lparr>t_queue := t_queue t @ [c]\<rparr>)\<rparr>"
    by (elim send_command_task)
  then show ?thesis
    using Some assms by (auto simp: tasks_ok_def tell_def split: if_splits; meson less_le_trans)
qed (use assms in \<open>auto simp: tasks_ok_def tell_def; meson less_le_trans\<close>)

text \<open>The phase that asked with it.\<close>

lemma tell_wait_ok:
  assumes "tasks_ok s" and "task_of s h \<noteq> None" and "asked_kinds c = {(sv_next s, k)}" and "sv_next s < m"
    and "b \<or> held_by c = []"
  shows "wait_ok (tell h c (s\<lparr>sv_next := m\<rparr>)) (h, sv_next s, k, b)"
proof -
  obtain t where t: "task_of s h = Some t" using assms(2) by blast
  have old: "(sv_next s, k') \<notin> task_kinds t" for k'
    using assms(1) t by (fastforce simp: tasks_ok_def task_of_def)
  then have "sv_next s \<notin> task_holds t"
    using held_asked by (fastforce simp: task_holds_def task_kinds_def held_kinds_def)
  then show ?thesis
    using old t assms by (auto simp: wait_ok_def tell_def task_of_def send_command_def split: if_splits)
qed


text \<open>What every step of a handler keeps.\<close>

definition keeps :: "server \<Rightarrow> server \<Rightarrow> conn_phase \<Rightarrow> bool" where
  "keeps s s' ph = (grows s s' \<and> tasks_ok s' \<and> phase_ok s' ph)"

lemma phase_ok_Closed [simp]: "phase_ok s Closed"
  by (simp add: phase_ok_def)

lemma keeps_Closed [simp]: "keeps s s Closed = tasks_ok s"
  by (simp add: keeps_def phase_ok_def)

lemma task_of_simps [simp]: "task_of (s\<lparr>sv_token := tk\<rparr>) h = task_of s h" "task_of (s\<lparr>sv_conns := cs\<rparr>) h = task_of s h"
  by (simp_all add: task_of_def)

lemma keeps_token [simp]: "keeps s (s'\<lparr>sv_token := tk\<rparr>) ph = keeps s s' ph"
  by (simp add: keeps_def)

lemma ask_keeps:
  assumes "tasks_ok s" and "task_of s h \<noteq> None" and "asked_kinds c = {(sv_next s, k)}" and "sv_next s < m"
    and "awaits ph = Some (h, sv_next s, k, b)" and "b \<or> held_by c = []"
    and "session_of ph = None \<or> session_of ph = Some h"
  shows "keeps s (tell h c (s\<lparr>sv_next := m\<rparr>)) ph"
proof -
  have g: "grows s (tell h c (s\<lparr>sv_next := m\<rparr>))"
    by (rule tell_grows) (use assms(3,4) in auto)
  moreover have "tasks_ok (tell h c (s\<lparr>sv_next := m\<rparr>))"
    by (rule tell_tasks_ok) (use assms(1,3,4) in auto)
  ultimately show ?thesis
    using tell_wait_ok [OF assms(1,2,3,4,6)] grows_task [OF g assms(2)] assms(5,7) by (auto simp: keeps_def phase_ok_def)
qed

text \<open>A command without a reply.\<close>

lemma notify_keeps:
  assumes "tasks_ok s" and "asked_kinds c = {}" and "phase_ok s ph"
  shows "keeps s (tell h c s) ph"
proof -
  have g: "grows s (tell h c (s\<lparr>sv_next := sv_next s\<rparr>))" by (rule tell_grows) (use assms(2) in auto)
  moreover have "tasks_ok (tell h c (s\<lparr>sv_next := sv_next s\<rparr>))" by (rule tell_tasks_ok) (use assms(1,2) in auto)
  ultimately show ?thesis using grows_phase assms(3) by (simp add: keeps_def)
qed

lemma looked_up:
  assumes "node_reachable pb (sv_node s)" and "lookup_session dec (n_sessions (sv_node s)) i = Inr h"
  shows "task_of s h \<noteq> None"
proof -
  obtain j where "registry_get (n_sessions (sv_node s)) j = Some h"
    using assms(2) by (auto simp: lookup_session_def split: option.splits)
  from registered_session_is_live [OF assms(1) this] show ?thesis by (auto simp: task_of_def)
qed

lemma begun_lookup:
  "download_begin dec str r i header = DownloadFinish h \<Longrightarrow> lookup_session dec r i = Inr h"
  "download_begin dec str r i header = DownloadFrom h p \<Longrightarrow> lookup_session dec r i = Inr h"
  "websocket_upgrade dec r i rej dir = Inr (RelayStarted h d) \<Longrightarrow> lookup_session dec r i = Inr h"
  "start_upload_begin dec r i form = Inr (h, p) \<Longrightarrow> lookup_session dec r i = Inr h"
  by (auto simp: download_begin_def websocket_upgrade_def start_upload_begin_def
      split: sum.splits option.splits download_position.splits)

lemma new_task_kinds [simp]:
  "task_kinds \<lparr>t_phase = ph, t_state = initial_state i m, t_queue = [], t_log = []\<rparr> = {}"
  by (simp add: task_kinds_def initial_state_def)

lemma create_file_keeps:
  assumes "node_reachable pb (sv_node s)" and "tasks_ok s" and "create_file enc fill form (sv_node s) = (r, n)"
  shows "keeps s (s\<lparr>sv_node := n\<rparr>) Closed"
proof (cases form)
  case (Some m)
  have new: "n_tasks (sv_node s) (n_next (sv_node s)) = None"
    using node_reachable_inv [OF assms(1)] by (cases "n_tasks (sv_node s) (n_next (sv_node s))") (auto simp: node_inv_def)
  show ?thesis
    using assms(2,3) Some new
    by (auto simp: keeps_def grows_def tasks_ok_def phase_ok_def create_file_def create_session_def spawn_session_def
        Let_def split: prod.splits if_splits) blast
qed (use assms in \<open>auto simp: create_file_def\<close>)

lemma serve_keeps:
  assumes r: "node_reachable pb (sv_node s)" and t: "tasks_ok s" and "serve cd fill rq e s = (ph, a, s')"
  shows "keeps s s' ph"
proof -
  note up = looked_up [OF r]
  have ask: "keeps s (tell h c (s\<lparr>sv_next := m\<rparr>)) ph'"
    if "lookup_session (cd_decode cd) (n_sessions (sv_node s)) i = Inr h" "asked_kinds c = {(sv_next s, k)}"
      "sv_next s < m" "awaits ph' = Some (h, sv_next s, k, False)" "held_by c = []" "session_of ph' = None"
    for h i c k m ph'
    by (rule ask_keeps [OF t up [OF that(1)] that(2,3,4)]) (use that(5,6) in simp_all)
  note kinds = asked_kinds_def held_by_def
  have sock: "keeps s (tell h (StartWebsocket d \<lparr>wp_token = tk, wp_commands = ch\<rparr> (sv_next s))
      (s\<lparr>sv_next := sv_next s + 2\<rparr>)) (AskedSocket h d tk ch (sv_next s))"
    if "websocket_upgrade (cd_decode cd) (n_sessions (sv_node s)) i (rq_rejected rq) dir = Inr (RelayStarted h d)"
    for h d tk ch i dir
    by (rule ask [OF begun_lookup(3) [OF that]]) (simp_all add: kinds)
  have meta: "keeps s (tell h (Metadata (sv_next s)) (s\<lparr>sv_next := sv_next s + 1\<rparr>)) (AskedMeta h (sv_next s))"
    if "lookup_session (cd_decode cd) (n_sessions (sv_node s)) i = Inr h" for h i
    by (rule ask [OF that]) (simp_all add: kinds)
  have check: "keeps s (tell h (CheckStartUpload p (sv_next s)) (s\<lparr>sv_next := sv_next s + 1\<rparr>)) (AskedCheck h (sv_next s))"
    if "start_upload_begin (cd_decode cd) (n_sessions (sv_node s)) i (rq_position rq) = Inr (h, p)" for h i p
    by (rule ask [OF begun_lookup(4) [OF that]]) (simp_all add: kinds)
  have fin: "keeps s (tell h (FinishDownload (sv_next s)) (s\<lparr>sv_next := sv_next s + 1\<rparr>)) (AskedDownload h d tk ch (sv_next s))"
    if "lookup_session (cd_decode cd) (n_sessions (sv_node s)) i = Inr h" for h i d tk ch
    by (rule ask [OF that]) (simp_all add: kinds)
  have down: "keeps s (tell h (StartDownload x (sv_next s)) (s\<lparr>sv_next := sv_next s + 2\<rparr>)) (AskedDownload h d tk ch (sv_next s))"
    if "lookup_session (cd_decode cd) (n_sessions (sv_node s)) i = Inr h" for h i d tk ch x
    by (rule ask [OF that]) (simp_all add: kinds)
  have begun: "keeps s (s\<lparr>sv_token := tk'\<rparr>) (Uploading h tk st None)"
    if "lookup_session (cd_decode cd) (n_sessions (sv_node s)) i = Inr h" for h i tk tk' st
    using t up [OF that] by (simp add: keeps_def phase_ok_def)
  show ?thesis
  proof (cases e)
    case (DownloadContent i)
    then show ?thesis
      using assms(3) t
        fin [OF begun_lookup(1) [of "cd_decode cd" Some "n_sessions (sv_node s)" i "rq_range rq"]]
        down [OF begun_lookup(2) [of "cd_decode cd" Some "n_sessions (sv_node s)" i "rq_range rq"]]
      by (auto simp: serve_def Let_def new_token_def split: download_start.splits)
  next
    case (UploadContent i)
    then show ?thesis
      using assms(3) t begun by (auto simp: serve_def Let_def new_token_def split: sum.splits upload_state.splits)
  qed (use assms sock meta check create_file_keeps [OF r t] in
      \<open>auto simp: serve_def Let_def new_token_def split: sum.splits upgraded.splits prod.splits\<close>)
qed


lemma stream_keeps:
  assumes "tasks_ok s" and "task_of s h \<noteq> None" and "stream_event h t ch n c s ev = (c', s')"
  shows "keeps s s' (cn_phase c')"
  using assms notify_keeps [OF assms(1), of "download_drop t False" Closed h]
  by (auto simp: stream_event_def keeps_def phase_ok_def download_drop_def asked_kinds_def
      split: option.splits download_event.splits)

lemma upload_command_kinds:
  "upload_command t w st = Some c \<Longrightarrow> asked_kinds c = {(w, UploadKind)} \<and>
     (held_by c = [] \<or> \<not> (\<exists>p items. st = UpStarting p items))"
  by (cases st) (auto simp: asked_kinds_def held_by_def)

lemma poll_keeps:
  assumes t: "tasks_ok s" and ok: "phase_ok s ph" and "poll_phase cd now c s ph = Some (c', s')"
  shows "keeps s s' (cn_phase c')"
proof -
  have closed: "keeps s s Closed" using t by simp
  have drop: "keeps s (tell h (DisconnectedCmd tk p) s) Closed" for h tk p
    by (rule notify_keeps [OF t]) (simp_all add: asked_kinds_def phase_ok_def)
  have here: "keeps s s ph'" if "awaits ph' = None" "session_of ph' = Some h" "task_of s h \<noteq> None" for ph' h
    using t that by (simp add: keeps_def phase_ok_def)
  show ?thesis
  proof (cases ph)
    case (AskedDownload h d tk ch w)
    then have "task_of s h \<noteq> None" using ok by (auto simp: phase_ok_def wait_ok_def)
    then show ?thesis
      using assms(3) AskedDownload closed here [of "Streaming h tk ch 0 False" h] by (auto simp: respond_def Let_def)
  next
    case (Streaming h tk ch n completed)
    then have h: "task_of s h \<noteq> None" using ok by (auto simp: phase_ok_def)
    show ?thesis
      using assms(3) Streaming drop stream_keeps [OF t h] by (auto simp: download_drop_def split: if_splits)
  next
    case (Uploading h tk st w)
    then have h: "task_of s h \<noteq> None" using ok by (auto simp: phase_ok_def)
    show ?thesis
    proof (cases w)
      case None
      show ?thesis
      proof (cases "upload_command tk (sv_next s) st")
        case None
        then show ?thesis
          using assms(3) Uploading \<open>w = None\<close> drop by (cases st) (auto simp: respond_def upload_drop_def)
      next
        case (Some cmd)
        note cmd = upload_command_kinds [OF Some]
        have "keeps s (tell h cmd (s\<lparr>sv_next := Suc (sv_next s)\<rparr>)) (Uploading h tk st (Some (sv_next s)))"
          by (rule ask_keeps [OF t h, where k = UploadKind and b = "\<not> (\<exists>p items. st = UpStarting p items)"])
            (use cmd in auto)
        then show ?thesis using assms(3) Uploading \<open>w = None\<close> Some by (cases st) auto
      qed
    next
      case (Some x)
      then show ?thesis using assms(3) Uploading here [of "Uploading h tk _ None" h] h by auto
    qed
  next
    case (AskedSocket h dir tk ch w)
    then have "task_of s h \<noteq> None" using ok by (auto simp: phase_ok_def wait_ok_def)
    then show ?thesis
      using assms(3) AskedSocket closed here [of "Relaying h ch 0 _" h] by (auto split: option.split)
  qed (use assms(3) closed in \<open>auto simp: respond_def\<close>)
qed

lemma tell_effects_keep:
  assumes "tasks_ok s" and "phase_ok s ph"
    and "\<And>c. ToSession c \<in> set es \<Longrightarrow> asked_kinds c = {}"
  shows "keeps s (fold (tell_effect h) es s) ph"
  using assms
proof (induction es arbitrary: s)
  case (Cons e es)
  show ?case
  proof (cases e)
    case (ToSession c)
    have "keeps s (tell h c s) ph" by (rule notify_keeps) (use Cons.prems ToSession in auto)
    then show ?thesis
      using Cons.IH [of "tell h c s"] Cons.prems(3) ToSession grows_trans by (auto simp: keeps_def tell_effect_def)
  next
    case (SinkSend m)
    then show ?thesis using Cons by (simp add: tell_effect_def)
  qed
qed (simp add: keeps_def)

lemma relay_keeps:
  assumes t: "tasks_ok s" and ok: "phase_ok s ph" and "relay_phase i c s ph = Some (c', s')"
  shows "keeps s s' (cn_phase c')"
proof -
  obtain h ch n l where ph: "ph = Relaying h ch n l" using assms(3) by (cases ph) auto
  obtain f l' es where turn: "relay_turn l i = (f, l', es)" by (cases "relay_turn l i")
  have "asked_kinds x = {}" if "ToSession x \<in> set es" for x
    using turn that
    by (cases "(l, i)" rule: relay_turn.cases)
      (auto simp: leave_def sent_def relay_drop_def session_frame_def Let_def asked_kinds_def
        split: option.splits ws_command.splits message.splits if_splits)
  moreover have "phase_ok s (cn_phase c')"
    using assms(3) ph turn ok by (auto simp: phase_ok_def split: if_splits)
  moreover have "s' = fold (tell_effect h) es s" using assms(3) ph turn by (auto split: if_splits)
  ultimately show ?thesis using tell_effects_keep [OF t] by blast
qed

lemma cancel_phase_keeps:
  assumes "tasks_ok s" and "cancel_phase s ph = Some s'"
  shows "keeps s s' Closed"
  using assms notify_keeps [OF assms(1), of _ Closed]
  by (cases ph) (auto simp: download_drop_def upload_drop_def asked_kinds_def phase_ok_def)


lemma keeps_conns:
  assumes "keeps s s' ph" and "\<forall>c\<in>set (sv_conns s). phase_ok s (cn_phase c)" and "sv_conns s' = sv_conns s"
  shows "tasks_ok s' \<and> phase_ok s' ph \<and> (\<forall>c\<in>set (sv_conns s'). phase_ok s' (cn_phase c))"
  using assms grows_phase by (auto simp: keeps_def)

lemma set_conn_ok:
  assumes "keeps s s' (cn_phase c)" and "\<forall>c\<in>set (sv_conns s). phase_ok s (cn_phase c)" and "sv_conns s' = sv_conns s"
  shows "tasks_ok (set_conn i (c, s')) \<and> (\<forall>c'\<in>set (sv_conns (set_conn i (c, s'))). phase_ok (set_conn i (c, s')) (cn_phase c'))"
  using keeps_conns [OF assms] by (auto simp: set_conn_def dest!: set_update_subset_insert [THEN subsetD])

lemma node_keeps:
  assumes "tasks_ok s" and "n_tasks (sv_node s) k = Some t"
    and "task_kinds t' \<subseteq> task_kinds t" and "task_holds t' \<subseteq> task_holds t"
    and "n_tasks n = (n_tasks (sv_node s))(k \<mapsto> t')"
  shows "keeps s (s\<lparr>sv_node := n\<rparr>) Closed"
  using assms by (fastforce simp: keeps_def grows_def tasks_ok_def phase_ok_def)

lemma arrival_ok:
  assumes ok: "server_ok cd s"
  shows "tasks_ok (arrives cd fill rq s) \<and> (\<forall>c\<in>set (sv_conns (arrives cd fill rq s)). phase_ok (arrives cd fill rq s) (cn_phase c))"
proof -
  have r: "node_reachable (cd_pb cd) (sv_node s)" and t: "tasks_ok s"
    and cs: "\<forall>c\<in>set (sv_conns s). phase_ok s (cn_phase c)" using ok by (simp_all add: server_ok_def)
  show ?thesis
  proof (cases "rq_method rq = ''OPTIONS'' \<and> take 1 (rq_path rq) = [''api'']")
    case True
    then show ?thesis using t cs by (auto simp: arrives_def)
  next
    case False
    obtain ph a s1 where serve: "serve cd fill rq (route (rq_method rq) (rq_path rq)) s = (ph, a, s1)"
      by (cases "serve cd fill rq (route (rq_method rq) (rq_path rq)) s")
    show ?thesis
      using keeps_conns [OF serve_keeps [OF r t serve] cs] serve_reachable [OF r serve] False serve
      by (auto simp: arrives_def)
  qed
qed

lemma session_step_ok:
  assumes ok: "server_ok cd s" and step: "server_step cd s ev = Some s'" and ev: "ev = SessionTurns k \<or> ev = SessionCloses k \<or> ev = SessionEnds k"
  shows "tasks_ok s' \<and> (\<forall>c\<in>set (sv_conns s'). phase_ok s' (cn_phase c))"
proof -
  have r: "node_reachable (cd_pb cd) (sv_node s)" and t: "tasks_ok s"
    and cs: "\<forall>c\<in>set (sv_conns s). phase_ok s (cn_phase c)" using ok by (simp_all add: server_ok_def)
  from ev show ?thesis
  proof (elim disjE)
    assume "ev = SessionTurns k"
    then obtain u u' where u: "n_tasks (sv_node s) k = Some u" "run_turn (cd_pb cd) u = Some u'"
      "s' = s\<lparr>sv_node := (sv_node s)\<lparr>n_tasks := (n_tasks (sv_node s))(k \<mapsto> u')\<rparr>\<rparr>"
      using step by (auto split: option.splits)
    have "keeps s s' Closed"
      unfolding u(3) by (rule node_keeps [OF t u(1)]) (use run_turn_kinds [OF u(2)] in simp_all)
    from keeps_conns [OF this cs] show ?thesis using u(3) by simp
  next
    assume "ev = SessionCloses k"
    then obtain u where u: "n_tasks (sv_node s) k = Some u"
      "s' = s\<lparr>sv_node := (sv_node s)\<lparr>n_tasks := (n_tasks (sv_node s))(k \<mapsto> u\<lparr>t_phase := Stopping\<rparr>)\<rparr>\<rparr>"
      using step by (auto simp: run_closed_def split: option.splits if_splits)
    have "task_kinds (u\<lparr>t_phase := Stopping\<rparr>) \<subseteq> task_kinds u" "task_holds (u\<lparr>t_phase := Stopping\<rparr>) \<subseteq> task_holds u"
      by (simp_all add: task_kinds_def task_holds_def)
    then have "keeps s s' Closed" unfolding u(2) by (intro node_keeps [OF t u(1)]) simp_all
    from keeps_conns [OF this cs] show ?thesis using u(2) by simp
  next
    assume "ev = SessionEnds k"
    then obtain u where u: "n_tasks (sv_node s) k = Some u" "s' = s\<lparr>sv_node := (sv_node s)
        \<lparr>n_tasks := (n_tasks (sv_node s))(k \<mapsto> u\<lparr>t_phase := Ended, t_queue := []\<rparr>),
         n_sessions := registry_remove (n_sessions (sv_node s)) (sid (t_state u))\<rparr>\<rparr>"
      using step by (auto simp: end_task_def split: option.splits if_splits)
    have "task_kinds (u\<lparr>t_phase := Ended, t_queue := []\<rparr>) \<subseteq> task_kinds u"
      "task_holds (u\<lparr>t_phase := Ended, t_queue := []\<rparr>) \<subseteq> task_holds u"
      by (auto simp: task_kinds_def task_holds_def)
    then have "keeps s s' Closed" unfolding u(2) by (intro node_keeps [OF t u(1)]) simp_all
    from keeps_conns [OF this cs] show ?thesis using u(2) by simp
  qed
qed

lemma server_step_ok:
  assumes ok: "server_ok cd s" and step: "server_step cd s ev = Some s'"
  shows "server_ok cd s'"
proof -
  have r: "node_reachable (cd_pb cd) (sv_node s)" and t: "tasks_ok s"
    and cs: "\<forall>c\<in>set (sv_conns s). phase_ok s (cn_phase c)" using ok by (simp_all add: server_ok_def)
  have "tasks_ok s' \<and> (\<forall>c\<in>set (sv_conns s'). phase_ok s' (cn_phase c))"
  proof (cases ev)
    case (Arrives fill rq)
    then show ?thesis using arrival_ok [OF ok] step by auto
  next
    case (Polls i now)
    then obtain c' s1 where p: "poll_phase cd now (sv_conns s ! i) s (cn_phase (sv_conns s ! i)) = Some (c', s1)"
      "s' = set_conn i (c', s1)" "i < length (sv_conns s)" using step by (auto split: if_splits)
    then show ?thesis
      using set_conn_ok [OF poll_keeps [OF t _ p(1)] cs] poll_reachable [OF r p(1)] cs by simp
  next
    case (Relays i input)
    then obtain c' s1 where p: "relay_phase input (sv_conns s ! i) s (cn_phase (sv_conns s ! i)) = Some (c', s1)"
      "s' = set_conn i (c', s1)" "i < length (sv_conns s)" using step by (auto split: if_splits)
    then show ?thesis
      using set_conn_ok [OF relay_keeps [OF t _ p(1)] cs] relay_reachable [OF r p(1)] cs by simp
  next
    case (Cancelled i)
    then obtain s1 where p: "cancel_phase s (cn_phase (sv_conns s ! i)) = Some s1"
      "s' = set_conn i ((sv_conns s ! i)\<lparr>cn_phase := Closed\<rparr>, s1)" using step by (auto split: if_splits)
    then show ?thesis
      using set_conn_ok [of s s1 "(sv_conns s ! i)\<lparr>cn_phase := Closed\<rparr>" i] cancel_phase_keeps [OF t p(1)]
        cancel_reachable [OF r p(1)] cs by simp
  next
    case (SessionTurns k)
    then show ?thesis using session_step_ok [OF ok step] by blast
  next
    case (SessionCloses k)
    then show ?thesis using session_step_ok [OF ok step] by blast
  next
    case (SessionEnds k)
    then show ?thesis using session_step_ok [OF ok step] by blast
  qed
  then show ?thesis using server_step_reachable [OF r step] by (simp add: server_ok_def)
qed

lemma server_run_ok: "server_ok cd s \<Longrightarrow> server_run cd s evs = Some s' \<Longrightarrow> server_ok cd s'"
  by (induction evs arbitrary: s) (auto split: Option.bind_splits intro: server_step_ok)

lemma server_new_ok: "server_ok cd server_new"
  using reach_new [of "cd_pb cd"] by (simp add: server_ok_def server_new_def tasks_ok_def node_new_def)


subsection \<open>Requests are answered\<close>

text \<open>No internal step is possible any more.\<close>

definition settled :: "codecs \<Rightarrow> server \<Rightarrow> bool" where
  "settled cd s = (\<forall>ev. internal ev \<longrightarrow> server_step cd s ev = None)"

lemma settledD:
  assumes "settled cd s"
  shows "i < length (sv_conns s) \<Longrightarrow> poll_phase cd now (sv_conns s ! i) s (cn_phase (sv_conns s ! i)) = None"
    and "i < length (sv_conns s) \<Longrightarrow> snd input = Inbox cmd ok \<Longrightarrow>
      relay_phase input (sv_conns s ! i) s (cn_phase (sv_conns s ! i)) = None"
    and "n_tasks (sv_node s) k = Some t \<Longrightarrow> run_turn (cd_pb cd) t = None \<and> t_phase t \<noteq> Stopping"
proof -
  have none: "internal ev \<Longrightarrow> server_step cd s ev = None" for ev using assms by (simp add: settled_def)
  show "poll_phase cd now (sv_conns s ! i) s (cn_phase (sv_conns s ! i)) = None" if "i < length (sv_conns s)"
    using none [of "Polls i now"] that by simp
  show "relay_phase input (sv_conns s ! i) s (cn_phase (sv_conns s ! i)) = None"
    if "i < length (sv_conns s)" "snd input = Inbox cmd ok"
    using none [of "Relays i input"] that by simp
  show "run_turn (cd_pb cd) t = None \<and> t_phase t \<noteq> Stopping" if "n_tasks (sv_node s) k = Some t"
    using none [of "SessionTurns k"] none [of "SessionEnds k"] that by (auto split: if_splits prod.splits)
qed

text \<open>A settled session has nothing queued, so that an open reply is one that it keeps.\<close>

lemma settled_task:
  assumes "settled cd s" and "n_tasks (sv_node s) k = Some t" and "t_phase t \<noteq> Ended"
  shows "t_phase t = Running \<and> t_queue t = []"
proof -
  have phase: "t_phase t = Running" using settledD(3) [OF assms(1,2)] assms(3) by (cases "t_phase t") auto
  then show ?thesis
    using settledD(3) [OF assms(1,2)] by (auto simp: run_turn_def split: list.splits prod.splits)
qed

definition chunk_waits :: "server \<Rightarrow> session_handle \<Rightarrow> waiter \<Rightarrow> bool" where
  "chunk_waits s h w =
     (\<exists>t c p n. task_of s h = Some t \<and> t_phase t = Running \<and> pending (t_state t) = PendingData c (Some w) p n \<and>
        (\<forall>d. downloader_slot (t_state t) \<noteq> Connected d))"

lemma waits_for_chunk:
  assumes ok: "server_ok cd s" and quiet: "settled cd s"
    and wait: "wait_ok s (h, w, k, b)" and none: "reply_of s h w = None"
  shows "b \<and> chunk_waits s h w"
proof -
  obtain t where t: "task_of s h = Some t" "b \<or> w \<notin> task_holds t" using wait by (auto simp: wait_ok_def)
  have n: "t_phase t \<noteq> Ended" "w \<in> set (open_waiters t)"
    using none t(1) by (auto simp: reply_of_def split: list.splits if_splits)
  have task: "n_tasks (sv_node s) (sh_commands h) = Some t" using t(1) by (simp add: task_of_def)
  have run: "t_phase t = Running" "t_queue t = []" using settled_task [OF quiet task n(1)] by simp_all
  have w: "w \<in> set (waiting (t_state t))" using n(2) run(2) by (simp add: open_waiters_def)
  then obtain c p m where pend: "pending (t_state t) = PendingData c (Some w) p m"
    by (cases "pending (t_state t)") (auto split: option.splits)
  have "node_reachable (cd_pb cd) (sv_node s)" using ok by (simp add: server_ok_def)
  from node_reachable_inv [OF this] task have "task_ran (cd_pb cd) t" by (simp add: node_inv_def)
  then obtain x cs f where
    "run_session (cd_pb cd) (initial_state (sid (t_state t)) x) cs = (f, t_state t, t_log t)"
    unfolding task_ran_def by blast
  from reachable_rendezvous [OF this] pend have "\<forall>d. downloader_slot (t_state t) \<noteq> Connected d"
    by (auto simp: rendezvous_inv_def)
  then show ?thesis using t w run(1) pend by (auto simp: chunk_waits_def task_holds_def)
qed


text \<open>
  What a connection may be doing once the server has settled: a download has been sent
  everything there is for it and its session still has it, a websocket likewise, and an upload
  waits for a downloader to take the chunk that the session holds.
\<close>

definition at_rest :: "server \<Rightarrow> conn_phase \<Rightarrow> bool" where
  "at_rest s ph =
     (case ph of
        Closed \<Rightarrow> True
      | Streaming h t ch n completed \<Rightarrow>
          \<not> completed \<and> (\<exists>x. task_of s h = Some x \<and> channel_open x ch \<and> length (events_on ch (t_log x)) \<le> n)
      | Relaying h ch n l \<Rightarrow>
          \<exists>x. task_of s h = Some x \<and> inbox_open x (rl_direction l) ch \<and> length (commands_on ch (t_log x)) \<le> n
      | Uploading h t st w \<Rightarrow> \<exists>w'. w = Some w' \<and> chunk_waits s h w'
      | _ \<Rightarrow> False)"

text \<open>A file is provisioned and asked for, with codecs that are enough for that.\<close>

definition example_codecs :: codecs where
  "example_codecs = \<lparr>cd_encode = b64_encode, cd_decode = b64_decode, cd_pb = (\<lambda>_. [])\<rparr>"

definition example_request :: "string \<Rightarrow> string list \<Rightarrow> request" where
  "example_request method path =
     \<lparr>rq_method = method, rq_path = [''api'', ''v1''] @ path, rq_metadata = Some ''m'', rq_position = None,
      rq_range = None, rq_content_range = None, rq_body = [], rq_rejected = Some (plain 400)\<rparr>"

definition example_server :: server where
  "example_server =
     arrives example_codecs (\<lambda>_. []) (example_request ''GET'' [''download'', encode_id b64_encode [1, 2], ''content''])
       (arrives example_codecs (\<lambda>_. [1, 2]) (example_request ''POST'' [''files'']) server_new)"

lemma example_run:
  "server_run example_codecs server_new
     [Arrives (\<lambda>_. [1, 2]) (example_request ''POST'' [''files'']),
      Arrives (\<lambda>_. []) (example_request ''GET'' [''download'', encode_id b64_encode [1, 2], ''content''])]
     = Some example_server"
  by (simp add: example_server_def)

text \<open>C15: 
  The relay settles: in every state it can reach, whatever requests it has served, its own steps
  cannot go on for ever.
\<close>

theorem server_settles:
  assumes "server_run cd server_new evs = Some s"
  shows "\<nexists>run. run 0 = s \<and> (\<forall>i. \<exists>ev. internal ev \<and> server_step cd (run i) ev = Some (run (Suc i)))"
proof
  assume "\<exists>run. run 0 = s \<and> (\<forall>i. \<exists>ev. internal ev \<and> server_step cd (run i) ev = Some (run (Suc i)))"
  then obtain run where run: "run 0 = s" "\<And>i. \<exists>ev. internal ev \<and> server_step cd (run i) ev = Some (run (Suc i))"
    by blast
  have "node_reachable (cd_pb cd) (sv_node (run i))" for i
  proof (induction i)
    case 0
    have "node_reachable (cd_pb cd) (sv_node server_new)" by (simp add: server_new_def reach_new)
    then show ?case using server_run_reachable assms run(1) by blast
  next
    case (Suc i)
    then show ?case using run(2) [of i] server_step_reachable by blast
  qed
  then have "(run (Suc i), run i) \<in> settling" for i using run(2) [of i] internal_settling by blast
  with wf_settling show False unfolding wf_iff_no_infinite_down_chain by blast
qed

theorem server_settles_witness:
  "\<nexists>run. run 0 = example_server \<and>
     (\<forall>i. \<exists>ev. internal ev \<and> server_step example_codecs (run i) ev = Some (run (Suc i)))"
  by (rule server_settles [OF example_run])

lemma settled_poll:
  assumes ok: "server_ok cd s" and quiet: "settled cd s" and c: "phase_ok s ph"
    and poll: "\<And>now. poll_phase cd now c s ph = None"
    and relay: "\<And>input cmd b. snd input = Inbox cmd b \<Longrightarrow> relay_phase input c s ph = None"
  shows "at_rest s ph"
proof (cases ph)
  case (Streaming h t ch n completed)
  then show ?thesis
    using poll [of 0] by (auto simp: at_rest_def next_event_def split: option.splits list.splits if_splits)
next
  case (Uploading h t st w)
  show ?thesis
  proof (cases w)
    case None
    then show ?thesis using poll [of 0] Uploading by (cases st) auto
  next
    case (Some x)
    then have "reply_of s h x = None" using poll [of 0] Uploading by simp
    then show ?thesis
      using waits_for_chunk [OF ok quiet] c Uploading Some by (auto simp: at_rest_def phase_ok_def)
  qed
next
  case (Relaying h ch n l)
  have "\<not> takes_input s h ch n l (0, Inbox cmd b)" for cmd b
    using relay [of "(0, Inbox cmd b)"] Relaying by (auto split: if_splits prod.splits)
  then have "next_command s h (rl_direction l) ch n = None"
    by (cases "next_command s h (rl_direction l) ch n") (auto simp: takes_input_def turn_enabled_def)
  then show ?thesis
    using Relaying by (auto simp: at_rest_def next_command_def split: option.splits list.splits if_splits)
qed (use poll [of 0] waits_for_chunk [OF ok quiet] c in \<open>auto simp: at_rest_def phase_ok_def\<close>)

lemma server_can_settle:
  assumes "node_reachable (cd_pb cd) (sv_node s)"
  shows "\<exists>evs s'. list_all internal evs \<and> server_run cd s evs = Some s' \<and> settled cd s'"
  using assms
proof (induction s rule: wf_induct_rule [OF wf_settling])
  case (1 s)
  show ?case
  proof (cases "settled cd s")
    case True
    then show ?thesis by (intro exI [of _ "[]"]) simp
  next
    case False
    then obtain ev s1 where s1: "internal ev" "server_step cd s ev = Some s1" by (auto simp: settled_def)
    obtain evs s' where "list_all internal evs" "server_run cd s1 evs = Some s'" "settled cd s'"
      using 1(1) [OF internal_settling [OF 1(2) s1] server_step_reachable [OF 1(2) s1(2)]] by blast
    then show ?thesis using s1 by (intro exI [of _ "ev # evs"]) auto
  qed
qed

text \<open>C14: 
  Every request is answered: from every state the relay can reach its own steps lead to one in
  which it has settled, and there the only connections left open are downloads and websockets
  that have been sent all there is for them, and uploads whose next chunk the session holds
  while no downloader is connected to take it.
\<close>

theorem requests_answered:
  assumes "server_run cd server_new evs = Some s"
  shows "(\<exists>evs' s'. list_all internal evs' \<and> server_run cd s evs' = Some s' \<and> settled cd s') \<and>
    (settled cd s \<longrightarrow> (\<forall>i < length (sv_conns s). at_rest s (cn_phase (sv_conns s ! i))))"
proof (intro conjI impI allI)
  have ok: "server_ok cd s" using server_run_ok [OF server_new_ok assms] .
  then show "\<exists>evs' s'. list_all internal evs' \<and> server_run cd s evs' = Some s' \<and> settled cd s'"
    by (intro server_can_settle) (simp add: server_ok_def)
  fix i assume quiet: "settled cd s" and i: "i < length (sv_conns s)"
  have "phase_ok s (cn_phase (sv_conns s ! i))" using ok i by (simp add: server_ok_def)
  from settled_poll [OF ok quiet this] settledD(1,2) [OF quiet i]
  show "at_rest s (cn_phase (sv_conns s ! i))" by blast
qed

lemma server_run_then: "server_run cd s evs = Some s' \<Longrightarrow> server_run cd s (evs @ evs') = server_run cd s' evs'"
  by (induction evs arbitrary: s) (auto split: Option.bind_splits)

lemma internal_conns:
  assumes "node_reachable (cd_pb cd) (sv_node s)" and "internal ev" and "server_step cd s ev = Some s'"
  shows "length (sv_conns s') = length (sv_conns s)"
proof (cases ev)
  case (Polls i now)
  with assms(3) show ?thesis by (auto simp: set_conn_def dest!: poll_reachable [OF assms(1)] split: if_splits)
next
  case (Relays i input)
  with assms(3) show ?thesis by (auto simp: set_conn_def dest!: relay_reachable [OF assms(1)] split: if_splits)
qed (use assms in \<open>auto simp del: node_apply.simps split: if_splits\<close>)

lemma internal_run_conns:
  "node_reachable (cd_pb cd) (sv_node s) \<Longrightarrow> list_all internal evs \<Longrightarrow> server_run cd s evs = Some s' \<Longrightarrow>
   length (sv_conns s') = length (sv_conns s)"
proof (induction evs arbitrary: s)
  case (Cons ev evs)
  then obtain s1 where s1: "server_step cd s ev = Some s1" "server_run cd s1 evs = Some s'"
    by (auto split: Option.bind_splits)
  then show ?case
    using Cons.IH [OF server_step_reachable [OF Cons.prems(1) s1(1)]] internal_conns [OF Cons.prems(1) _ s1(1)]
      Cons.prems(2) by simp
qed simp

text \<open>The download of the example is streamed, if to nobody yet; the request for the file was answered.\<close>

theorem requests_answered_witness:
  "\<exists>evs s. list_all internal evs \<and> server_run example_codecs example_server evs = Some s \<and>
     settled example_codecs s \<and> length (sv_conns s) = 2 \<and>
     at_rest s (cn_phase (sv_conns s ! 0)) \<and> at_rest s (cn_phase (sv_conns s ! 1))"
proof -
  obtain evs s where s: "list_all internal evs" "server_run example_codecs example_server evs = Some s"
    "settled example_codecs s" using requests_answered [OF example_run] by blast
  have "node_reachable (cd_pb example_codecs) (sv_node example_server)"
    using server_run_reachable [OF _ example_run] by (simp add: server_new_def reach_new)
  then have "length (sv_conns s) = 2"
    using internal_run_conns [OF _ s(1,2)] by (simp add: example_server_def arrives_conns server_new_def)
  moreover have "\<forall>i < length (sv_conns s). at_rest s (cn_phase (sv_conns s ! i))"
    using requests_answered [OF trans [OF server_run_then [OF example_run] s(2)]] s(3) by blast
  ultimately show ?thesis using s by auto
qed

end
