(* ===== verification/Derive_Error.thy ===== *)
theory Derive_Error
  imports Main "HOL-Library.Sublist"
begin

text \<open>
  The attribute macro \<open>typescript_error\<close> (\<^verbatim>\<open>macros/src/lib.rs\<close>, \<^verbatim>\<open>macros/src/derive_error.rs\<close>):
  from a struct it generates the typescript declaration of an error class, its javascript
  definition, and the Rust constructor that calls it. The struct is what \<open>syn\<close> makes of the
  input: its name, and its fields with their names, types and attribute.
\<close>

subsection \<open>Fields\<close>

datatype typescript_attr = TypeIs string | OtherMeta

record struct_field =
  sf_ident :: string
  sf_type :: string
  sf_attr :: "typescript_attr option"

datatype struct_fields = Named "struct_field list" | UnitFields | Unnamed

record typescript_field =
  tf_name :: string
  tf_type :: string

definition typescript_field_new :: "struct_field \<Rightarrow> string + typescript_field option" where
  "typescript_field_new f =
     (case sf_attr f of
        None \<Rightarrow> Inr None
      | Some OtherMeta \<Rightarrow> Inl ''usage: #[typescript_type = \"...\"]''
      | Some (TypeIs ty) \<Rightarrow> Inr (Some \<lparr>tf_name = sf_ident f, tf_type = ty\<rparr>))"

text \<open>\<open>filter_map\<close> and \<open>collect\<close>: the first error, or the fields that have the attribute.\<close>

fun typescript_fields :: "struct_field list \<Rightarrow> string + typescript_field list" where
  "typescript_fields [] = Inr []"
| "typescript_fields (f # fs) =
     (case typescript_field_new f of
        Inl e \<Rightarrow> Inl e
      | Inr None \<Rightarrow> typescript_fields fs
      | Inr (Some t) \<Rightarrow> map_sum id (Cons t) (typescript_fields fs))"

subsection \<open>Generated text\<close>

definition line :: "string \<Rightarrow> string" where
  "line s = s @ [CHR 0x0A]"

fun join :: "string \<Rightarrow> string list \<Rightarrow> string" where
  "join sep [] = []"
| "join sep [s] = s"
| "join sep (s # ss) = s @ sep @ join sep ss"

definition typescript_error_declaration :: "string \<Rightarrow> typescript_field list \<Rightarrow> string" where
  "typescript_error_declaration class_name fs =
     line (''export interface '' @ class_name @ '' {'') @
     concat (map (\<lambda>f. line (''  '' @ (tf_name f @ '': '' @ tf_type f) @ '';'')) fs) @
     line ''}'' @
     line (''export interface '' @ class_name @ ''Name { '' @ class_name @ '' }'')"

definition typescript_error_definition :: "string \<Rightarrow> typescript_field list \<Rightarrow> string" where
  "typescript_error_definition class_name fs =
     (let field_names = map tf_name fs
      in line (''export class '' @ class_name @ '' extends Error {'') @
         line (''  constructor(message, '' @ join '', '' field_names @ '') {'') @
         line ''    super(message);'' @
         line (''    this.name = \"'' @ class_name @ ''\";'') @
         concat (map (\<lambda>name. line (''    this.'' @ name @ '' = '' @ name @ '';'')) field_names) @
         line ''  }'' @
         line ''}'')"

record expansion =
  ex_typescript :: string
  ex_javascript :: string
  ex_params :: "(string \<times> string) list"

definition expand_typescript_error :: "string \<Rightarrow> struct_fields \<Rightarrow> string + expansion" where
  "expand_typescript_error ident content =
     (case (case content of
              Named fs \<Rightarrow> typescript_fields fs
            | UnitFields \<Rightarrow> Inr []
            | Unnamed \<Rightarrow> Inl ''#[typescript_error] can only be used for structs with named fields'') of
        Inl e \<Rightarrow> Inl e
      | Inr ts \<Rightarrow>
          Inr \<lparr>ex_typescript = typescript_error_declaration ident ts,
               ex_javascript = typescript_error_definition ident ts,
               ex_params = (''message'', ''&str'') #
                 map (\<lambda>f. (sf_ident f, sf_type f)) (case content of Named fs \<Rightarrow> fs | _ \<Rightarrow> [])\<rparr>)"

lemma typescript_fields_names:
  "typescript_fields fs = Inr ts \<Longrightarrow>
   map tf_name ts = map sf_ident (filter (\<lambda>f. sf_attr f \<noteq> None) fs)"
proof (induction fs arbitrary: ts)
  case (Cons f fs)
  then show ?case
    by (cases "typescript_fields fs")
      (auto simp: typescript_field_new_def split: option.splits typescript_attr.splits)
qed simp

text \<open>The Rust constructor passes its arguments by position, so it fits the class it is bound to
  only if both have the same parameters: this holds for exactly the structs whose fields all
  have the attribute, as those of \<^verbatim>\<open>error/web.rs\<close> do.\<close>

lemma constructors_agree:
  assumes "expand_typescript_error ident (Named fs) = Inr e" and "typescript_fields fs = Inr ts"
  shows "map fst (ex_params e) = ''message'' # map tf_name ts \<longleftrightarrow> (\<forall>f \<in> set fs. sf_attr f \<noteq> None)"
proof -
  have "map fst (ex_params e) = ''message'' # map sf_ident fs"
    using assms by (auto simp: expand_typescript_error_def comp_def)
  moreover have "map tf_name ts = map sf_ident (filter (\<lambda>f. sf_attr f \<noteq> None) fs)"
    by (rule typescript_fields_names [OF assms(2)])
  moreover have "map sf_ident fs = map sf_ident (filter P fs) \<longleftrightarrow> (\<forall>f \<in> set fs. P f)" for P
  proof
    assume "map sf_ident fs = map sf_ident (filter P fs)"
    then have "length (filter P fs) = length fs" by (metis length_map)
    then show "\<forall>f \<in> set fs. P f" by (metis length_filter_less less_irrefl)
  qed simp
  ultimately show ?thesis by simp
qed

text \<open>The class of the errors that carry a status, as it is generated.\<close>

lemma status_error_class:
  "map_sum id ex_javascript (expand_typescript_error ''WebSocketClosedError''
     (Named [\<lparr>sf_ident = ''status'', sf_type = ''u16'', sf_attr = Some (TypeIs ''number'')\<rparr>])) =
   Inr (line ''export class WebSocketClosedError extends Error {'' @
        line ''  constructor(message, status) {'' @
        line ''    super(message);'' @
        line ''    this.name = \"WebSocketClosedError\";'' @
        line ''    this.status = status;'' @
        line ''  }'' @ line ''}'')"
  by (simp add: expand_typescript_error_def typescript_field_new_def typescript_error_definition_def)

end
