(* ===== verification/Unit_Tests.thy ===== *)
theory Unit_Tests
  imports Relay_Session_Inv Client_Link Client_P2p Client_Fallback Client_Drivers
begin

text \<open>
  The unit tests that the repository keeps beside its code, read as statements about the
  definitions that model that code: one definition for each test, the conjunction of its
  assertions, and one lemma that it holds. What a test leaves to chance (a random key, a random
  nonce) is an argument, so that the lemma is about every value; the base64 engine is the one of
  \<open>Url_Base64\<close>. The tests of AES-GCM's authenticity and those that need a running relay are left
  out.
\<close>

subsection \<open>\<^verbatim>\<open>range.rs\<close>\<close>

definition test_download_ranges :: bool where
  "test_download_ranges =
     (let at = (\<lambda>v. download_position Some (Some v))
      in download_position Some (None :: string option) = Inr (At 0) \<and>
         at ''bytes=0-'' = Inr (At 0) \<and> at ''bytes=42-'' = Inr (At 42) \<and> at ''bytes=-0'' = Inr Eof \<and>
         isl (at ''bytes=0-10'') \<and> isl (at ''bytes=-10'') \<and> isl (at ''bytes=0-,20-'') \<and> isl (at ''items=0-''))"

definition test_upload_ranges :: bool where
  "test_upload_ranges =
     (let at = (\<lambda>v. upload_position Some (Some v))
      in upload_position Some (None :: string option) = Inr 0 \<and>
         at ''bytes */100'' = Inr 100 \<and> at ''bytes 0-99/100'' = Inr 0 \<and> at ''bytes 40-99/100'' = Inr 40 \<and>
         isl (at ''bytes 0-49/100'') \<and> isl (at ''bytes 0-99/*'') \<and> isl (at ''bytes */*'') \<and>
         isl (at ''items 0-99/100''))"

lemma download_ranges_hold: test_download_ranges
  by (simp add: test_download_ranges_def range_simps)

lemma upload_ranges_hold: test_upload_ranges
  by (simp add: test_upload_ranges_def range_simps)

subsection \<open>\<^verbatim>\<open>id.rs\<close>\<close>

definition test_id_round_trips :: "(nat \<Rightarrow> bytes) \<Rightarrow> bool" where
  "test_id_round_trips fill =
     (let i = generate_id fill in decode_id b64_decode (encode_id b64_encode i) = Some i)"

definition test_encodes_url_safe_alphabet :: bool where
  "test_encodes_url_safe_alphabet =
     (let i = [0xfb, 0xff, 0xbf, 0x00]
      in encode_id b64_encode i = ''-_-_AA~~'' \<and> decode_id b64_decode ''-_-_AA~~'' = Some i)"

definition test_rejects_malformed_ids :: bool where
  "test_rejects_malformed_ids =
     (decode_id b64_decode ''test_invalid_id'' = None \<and> decode_id b64_decode '''' = None)"

lemma id_round_trips_holds: "fill ID_LENGTH \<noteq> [] \<Longrightarrow> test_id_round_trips fill"
  using decode_encode_id [OF b64_law, of "fill ID_LENGTH"]
  by (simp add: test_id_round_trips_def generate_id_def)

lemma encodes_url_safe_alphabet_holds: test_encodes_url_safe_alphabet
  using example_id by (simp add: test_encodes_url_safe_alphabet_def)

lemma rejects_malformed_ids_holds: test_rejects_malformed_ids
  by (simp add: test_rejects_malformed_ids_def decode_id_def b64_decode_def from_url_char_def value64_def
      base64_chars_def char64_def Let_def)

subsection \<open>\<^verbatim>\<open>session.rs\<close>\<close>

text \<open>The frames that a channel was sent, as long as they are text.\<close>

fun test_sent :: "chan \<Rightarrow> effect list \<Rightarrow> string list" where
  "test_sent ch [] = []"
| "test_sent ch (WsCommand c (WsSend (TextFrame txt)) # es) = (if c = ch then txt # test_sent ch es else test_sent ch es)"
| "test_sent ch (WsCommand c _ # es) = (if c = ch then [] else test_sent ch es)"
| "test_sent ch (_ # es) = test_sent ch es"

definition test_signaling_waits :: "encoder \<Rightarrow> session_id \<Rightarrow> token \<Rightarrow> bool" where
  "test_signaling_waits pb i next =
     (let (t1, next1) = new_token next;
          (t2, next2) = new_token next1;
          downloader = \<lparr>wp_token = t1, wp_commands = 1\<rparr>;
          uploader = \<lparr>wp_token = t2, wp_commands = 2\<rparr>;
          (f, s, es) = run_session pb (initial_state i ''metadata'')
            [StartWebsocket Download downloader 1, WebsocketData Download (TextFrame ''offer''),
             StartWebsocket Upload uploader 2]
      in test_sent 2 es = [''offer''])"

lemma signaling_waits_holds: "test_signaling_waits pb i next"
  by (simp add: test_signaling_waits_def new_token_def run_session_def initial_state_def relay_frame_def hold_frame_def
      continue_def other_direction_def websocket_def held_frames_def set_held_frames_def set_websocket_def
      start_websocket_def MAX_HELD_FRAMES_def Let_def)

subsection \<open>\<^verbatim>\<open>cipher.rs\<close>\<close>

definition hello_world :: bytes where
  "hello_world = ascii ''Hello World''"

definition test_nonce :: bytes where
  "test_nonce = map of_nat [32..<32 + NONCE_SIZE]"

definition test_tag :: bytes where
  "test_tag = map of_nat [0..<TAG_SIZE]"

definition test_read_plaintext_to_end :: "bytes \<Rightarrow> bool" where
  "test_read_plaintext_to_end rnd =
     (map_sum id into_plaintext (read_plaintext_to_end rnd [Inr hello_world, Inr []]) = Inr hello_world)"

definition test_from_into_plaintext :: "bytes \<Rightarrow> bool" where
  "test_from_into_plaintext rnd =
     (let b = from_plaintext rnd hello_world
      in buf_payload b = hello_world \<and> into_plaintext b = hello_world)"

definition test_from_into_ciphertext :: bool where
  "test_from_into_ciphertext =
     (let payload = hello_world; nonce = test_nonce; tag = test_tag; ciphertext = payload @ tag;
          nonce_and_ciphertext = nonce @ ciphertext
      in case from_nonce_and_ciphertext nonce_and_ciphertext of
           Inl e \<Rightarrow> False
         | Inr b \<Rightarrow> buf_ciphertext b = ciphertext \<and> buf_payload b = payload \<and> buf_tag b = tag \<and>
             b = nonce_and_ciphertext)"

definition test_from_plaintext_into_ciphertext :: "bytes \<Rightarrow> bool" where
  "test_from_plaintext_into_ciphertext rnd =
     (let b = from_plaintext rnd hello_world; b = write_nonce test_nonce b; b = write_tag test_tag b
      in b = test_nonce @ hello_world @ test_tag)"

definition test_from_ciphertext_into_plaintext :: bool where
  "test_from_ciphertext_into_plaintext =
     (map_sum id into_plaintext (from_nonce_and_ciphertext (test_nonce @ hello_world @ test_tag)) = Inr hello_world)"

lemma test_parts [simp]: "length test_nonce = NONCE_SIZE" "length test_tag = TAG_SIZE"
  "length (replicate TAG_SIZE (0 :: u8)) = TAG_SIZE"
  by (simp_all add: test_nonce_def test_tag_def)

lemma buffers_hold:
  assumes [simp]: "length rnd = NONCE_SIZE"
  shows "test_read_plaintext_to_end rnd" "test_from_into_plaintext rnd" test_from_into_ciphertext
    "test_from_plaintext_into_ciphertext rnd" test_from_ciphertext_into_plaintext
proof -
  have "read_all [Inr hello_world, Inr []] = Inr hello_world"
    by (simp add: hello_world_def ascii_def)
  then show "test_read_plaintext_to_end rnd"
    by (simp add: test_read_plaintext_to_end_def read_plaintext_to_end_def from_plaintext_def)
qed (simp_all add: test_from_into_plaintext_def test_from_into_ciphertext_def Let_def
    test_from_plaintext_into_ciphertext_def test_from_ciphertext_into_plaintext_def from_plaintext_def)

text \<open>\<open>roundtrip\<close> of \<^verbatim>\<open>cipher/native.rs\<close>, for every AEAD that is one.\<close>

definition test_cipher_roundtrip ::
  "sealer \<Rightarrow> opener \<Rightarrow> (bytes \<Rightarrow> bytes \<Rightarrow> bytes) \<Rightarrow> cipher_key \<Rightarrow> bytes \<Rightarrow> bytes \<Rightarrow> bool" where
  "test_cipher_roundtrip seal unseal hkdf key nonce rnd =
     (let ciphertext = content_encrypt (native_encrypt seal) hkdf key nonce (from_plaintext rnd hello_world) Content
      in content_decrypt (native_decrypt unseal) hkdf key ciphertext Content = Inr hello_world)"

lemma cipher_roundtrip_holds:
  "aead_law seal unseal \<Longrightarrow> length nonce = NONCE_SIZE \<Longrightarrow> length rnd = NONCE_SIZE \<Longrightarrow>
   test_cipher_roundtrip seal unseal hkdf key nonce rnd"
  using native.content_roundtrip(1) [of seal unseal nonce rnd hkdf key hello_world Content]
  by (simp add: test_cipher_roundtrip_def from_plaintext_def Let_def)

subsection \<open>Links\<close>

definition test_key :: cipher_key where
  "test_key = replicate KEY_SIZE 1"

definition test_formatted_download_link :: bool where
  "test_formatted_download_link =
     (formatted_download_url_and_key b64_encode ''https://123.invalid:1234/their'' ''456'' test_key =
      ''https://123.invalid:1234/their/download/456#cipher_key=AQEBAQEBAQEBAQEBAQEBAQEBAQEBAQEBAQEBAQEBAQE~'')"

definition test_parse_download_url :: "(string \<Rightarrow> (string \<times> string option) option) \<Rightarrow> bool" where
  "test_parse_download_url parse =
     (parse_download_url parse b64_decode
        ''https://foo.bar:123/download/123abc#cipher_key=AQEBAQEBAQEBAQEBAQEBAQEBAQEBAQEBAQEBAQEBAQE=''
      = Inr (''123abc'', test_key))"

lemma ones_encoded:
  "b64_encode (1 # 1 # 1 # bs) = ''AQEB'' @ b64_encode bs" "b64_encode [1, 1] = ''AQE=''"
  by (simp_all add: char64_def base64_chars_def Let_def)

lemma test_key_encoded: "b64_encode test_key = ''AQEBAQEBAQEBAQEBAQEBAQEBAQEBAQEBAQEBAQEBAQE=''"
proof -
  have key: "test_key
      = [1, 1, 1, 1, 1, 1, 1, 1, 1, 1, 1, 1, 1, 1, 1, 1, 1, 1, 1, 1, 1, 1, 1, 1, 1, 1, 1, 1, 1, 1, 1, 1]"
    by (simp add: test_key_def KEY_SIZE_def eval_nat_numeral)
  show ?thesis unfolding key ones_encoded append.simps by (rule refl)
qed

lemma formatted_download_link_holds: test_formatted_download_link
  by (simp add: test_formatted_download_link_def formatted_download_url_and_key_def download_url_path_def
      cipher_key_serialized_def url_encode_def test_key_encoded to_url_char_def)

lemma parse_download_url_holds:
  assumes "\<And>path fragment. parse (''https://foo.bar:123'' @ path @ ''#'' @ fragment) = Some (path, Some fragment)"
  shows "test_parse_download_url parse"
proof -
  let ?key = "''AQEBAQEBAQEBAQEBAQEBAQEBAQEBAQEBAQEBAQEBAQE=''"
  have p: "parse ''https://foo.bar:123/download/123abc#cipher_key=AQEBAQEBAQEBAQEBAQEBAQEBAQEBAQEBAQEBAQEBAQE=''
      = Some (''/download/123abc'', Some (''cipher_key='' @ ?key))"
    using assms [of "''/download/123abc''" "''cipher_key='' @ ?key"] by simp
  have "url_decode b64_decode ?key = Some test_key"
    using url_decode_iff [OF b64_law, of ?key test_key] test_key_encoded
    by (simp add: url_encode_def to_url_char_def)
  then have "cipher_key_from_string b64_decode ?key = Inr test_key"
    by (simp add: cipher_key_from_string_def test_key_def)
  then show ?thesis by (simp add: test_parse_download_url_def parse_download_url_def p)
qed

subsection \<open>\<^verbatim>\<open>p2p.rs\<close>\<close>

text \<open>The clock reads \<open>now\<close> throughout a test, and is far from its last instant.\<close>

definition test_zero_timeout :: "nat \<Rightarrow> nat \<Rightarrow> bool" where
  "test_zero_timeout last_instant now =
     (case timeout_new last_instant now 0 of None \<Rightarrow> False | Some t \<Rightarrow> isl (timeout_remaining now t))"

definition test_timeout_reset :: "nat \<Rightarrow> nat \<Rightarrow> nat \<Rightarrow> bool" where
  "test_timeout_reset last_instant now later =
     (case timeout_new last_instant now 600 of
        None \<Rightarrow> False
      | Some t \<Rightarrow>
          (case timeout_reset last_instant later t of
             None \<Rightarrow> False | Some t \<Rightarrow> \<not> isl (timeout_remaining later t)))"

lemma timeouts_hold:
  "now \<le> last_instant \<Longrightarrow> test_zero_timeout last_instant now"
  "now \<le> later \<Longrightarrow> later + 600 \<le> last_instant \<Longrightarrow> test_timeout_reset last_instant now later"
  by (simp_all add: test_zero_timeout_def test_timeout_reset_def timeout_new_def timeout_reset_def deadline_def
      timeout_remaining_def)

subsection \<open>\<^verbatim>\<open>error.rs\<close>\<close>

definition test_http :: "u16 \<Rightarrow> duration option \<Rightarrow> error" where
  "test_http code retry_after = ClientHttpErrorResponse ''test'' code retry_after"

definition test_closed :: "close_status \<Rightarrow> error" where
  "test_closed s = WebSocketClosed s ''test''"

definition test_retry_after_wins :: bool where
  "test_retry_after_wins =
     (error_retriability (test_http 503 (Some 7)) = After 7 \<and>
      error_retriability (test_http 429 (Some 7)) = After 7 \<and>
      error_retriability (test_http 404 (Some 7)) = After 7)"

definition test_only_server_errors_retried :: bool where
  "test_only_server_errors_retried =
     (error_retriability (test_http 500 None) = Transient \<and> error_retriability (test_http 503 None) = Transient \<and>
      error_retriability (test_http 409 None) = Permanent \<and> error_retriability (test_http 429 None) = Permanent \<and>
      error_retriability (test_http 404 None) = Permanent \<and> error_retriability (test_http 400 None) = Permanent \<and>
      error_retriability (test_http 999 None) = Permanent)"

definition test_close_status_decides :: bool where
  "test_close_status_decides =
     (list_all (\<lambda>s. error_retriability (test_closed (Known s)) = Transient)
        [ConnectionClosed, InternalServerError, TlsError] \<and>
      list_all (\<lambda>s. error_retriability (test_closed (Known s)) = Permanent)
        [Normal, Gone, ProtocolError, UnsupportedFrameType, MissingStatusCode, InvalidFrameData, known_close_status.Forbidden,
         FrameTooLarge, MissingProtocolExtension] \<and>
      error_retriability (test_closed (Unknown 4000)) = Permanent)"

definition test_transport_failures_retried :: bool where
  "test_transport_failures_retried =
     (error_retriability (IO ''nope'') = Transient \<and> error_retriability TimedOut = Transient)"

definition test_call_sites_override :: bool where
  "test_call_sites_override =
     (error_retriability (test_http 409 None) = Permanent \<and>
      retry_retriability (transient (test_http 409 None)) = Transient \<and>
      error_retriability (IO ''disk full'') = Transient \<and>
      retry_retriability (permanent (IO ''disk full'')) = Permanent)"

definition test_errors_classify_themselves :: bool where
  "test_errors_classify_themselves =
     (let e = test_http 503 None
      in retry_retriability (retry_error_from e) = Transient \<and>
         error_retriability e = retry_retriability (retry_error_from e))"

definition test_client_failures_not_retried :: bool where
  "test_client_failures_not_retried =
     (error_retriability Decrypt = Permanent \<and> error_retriability InvalidCipherKey = Permanent \<and>
      error_retriability (InvalidInput ''test'') = Permanent \<and>
      error_retriability (InvalidServerResponse ''test'') = Permanent)"

lemma errors_hold:
  test_retry_after_wins test_only_server_errors_retried test_close_status_decides test_transport_failures_retried
  test_call_sites_override test_errors_classify_themselves test_client_failures_not_retried
  by (simp_all add: test_retry_after_wins_def test_only_server_errors_retried_def test_close_status_decides_def
      test_transport_failures_retried_def test_call_sites_override_def test_errors_classify_themselves_def
      test_client_failures_not_retried_def test_http_def test_closed_def status_code_def is_server_error_def
      known_retriability_def retry_retriability_def transient_def permanent_def retry_error_from_def)

subsection \<open>\<^verbatim>\<open>uploader_client/native.rs\<close> and \<^verbatim>\<open>lib.rs\<close>\<close>

definition test_upload_non_existent_file ::
  "cipher_key \<Rightarrow> string + u64 \<Rightarrow> (string \<Rightarrow> error + string \<times> string) \<Rightarrow> bool" where
  "test_upload_non_existent_file key file_len response =
     (case native_provision_file None (\<lambda>path. Some ''No such file or directory'') key file_len response
         ''path/to/non-existent-file'' of
        Some (Inl (IO e)) \<Rightarrow> True
      | _ \<Rightarrow> False)"

lemma upload_non_existent_file_holds: "test_upload_non_existent_file key file_len response"
  by (simp add: test_upload_non_existent_file_def native_provision_file_def)

text \<open>
  The peer does not answer before the timeout, and the relay would serve whatever it is asked;
  the other tests of \<^verbatim>\<open>lib.rs\<close> are cases of the theorems of the root theory.
\<close>

definition test_p2p_only ::
  "duration list \<Rightarrow> (bytes \<Rightarrow> uploader_message option) \<Rightarrow> (bytes \<Rightarrow> error + bytes) \<Rightarrow>
   ('h \<Rightarrow> string option) \<Rightarrow> (downloader_inner \<Rightarrow> error option) \<Rightarrow> u64 \<Rightarrow> 'h relayed_event list \<Rightarrow> bool" where
  "test_p2p_only delays decode decrypt to_str send len events =
     (case fallback_run P2P delays decode decrypt to_str send (fallback_start P2P delays (decrypt_file len) len)
         (SetUp # P2pFails TimedOut # map Relays events) of
        None \<Rightarrow> False
      | Some y \<Rightarrow> fb_phase y = Over (Inl TimedOut) \<and> df_target (ds_file (fb_state y)) = None)"

lemma p2p_only_holds: "test_p2p_only delays decode decrypt to_str send len events"
proof -
  have "fallback_run P2P delays decode decrypt to_str send y (map Relays events) = Some y"
    if "fb_phase y = Over r" for y r
    using that by (induction events) (simp_all add: fallback_step_def Let_def)
  then show ?thesis
    by (simp add: test_p2p_only_def fallback_start_def fallback_step_def p2p_failed_def first_failed_def
        connecting_def decrypt_file_def new_download_state_def Let_def)
qed

end
