(* ===== verification/Relay_Api_Tests.thy ===== *)
theory Relay_Api_Tests
  imports Relay_Settling
begin

text \<open>
  The end-to-end tests of the relay (\<^verbatim>\<open>glopfile-relay/tests/api.rs\<close>), run on the model of the whole
  relay: a definition for each test, which sends the test's requests, lets the relay settle where
  the test waits, and is true if the test's assertions hold; and a lemma that it does. The id that
  the relay draws is an argument.
\<close>

subsection \<open>The server of the tests\<close>

text \<open>
  \<open>drive\<close> lets the relay go on by itself, round by round, each session and each connection in its
  turn, as far as they can: the counterpart of \<open>settle\<close> and of awaiting a response.
\<close>

definition attempt :: "codecs \<Rightarrow> server_event \<Rightarrow> server \<Rightarrow> server" where
  "attempt cd ev s = (case server_step cd s ev of None \<Rightarrow> s | Some s' \<Rightarrow> s')"

definition own_event :: "server \<Rightarrow> nat \<Rightarrow> server_event" where
  "own_event s i =
     (case cn_phase (sv_conns s ! i) of
        Relaying h ch n l \<Rightarrow>
          (case next_command s h (rl_direction l) ch n of
             Some cmd \<Rightarrow> Relays i (0, Inbox cmd True) | None \<Rightarrow> Polls i 0)
      | _ \<Rightarrow> Polls i 0)"

definition one_round :: "codecs \<Rightarrow> server \<Rightarrow> server" where
  "one_round cd s =
     fold (\<lambda>i s. attempt cd (own_event s i) s) [0..<length (sv_conns s)]
       (fold (\<lambda>k s. attempt cd (SessionEnds k) (attempt cd (SessionTurns k) s)) [0..<n_next (sv_node s)] s)"

fun drive :: "nat \<Rightarrow> codecs \<Rightarrow> server \<Rightarrow> server" where
  "drive 0 cd s = s"
| "drive (Suc n) cd s = drive n cd (one_round cd s)"

text \<open>All that \<open>drive\<close> does are internal steps.\<close>

lemma attempt_run: "internal ev \<Longrightarrow> \<exists>evs. list_all internal evs \<and> server_run cd s evs = Some (attempt cd ev s)"
  by (cases "server_step cd s ev")
    (auto simp: attempt_def intro: exI [of _ "[]"] exI [of _ "[ev]"])

lemma server_run_append: "server_run cd s (evs @ evs') = Option.bind (server_run cd s evs) (\<lambda>s. server_run cd s evs')"
  by (induction evs arbitrary: s) (auto split: Option.bind_splits)

lemma fold_run:
  assumes "\<And>x s. \<exists>evs. list_all internal evs \<and> server_run cd s evs = Some (f x s)"
  shows "\<exists>evs. list_all internal evs \<and> server_run cd s evs = Some (fold f xs s)"
proof (induction xs arbitrary: s)
  case Nil
  then show ?case by (intro exI [of _ "[]"]) simp
next
  case (Cons x xs)
  obtain evs where "list_all internal evs" "server_run cd s evs = Some (f x s)" using assms by blast
  moreover obtain evs' where "list_all internal evs'" "server_run cd (f x s) evs' = Some (fold f xs (f x s))"
    using Cons by blast
  ultimately show ?case by (intro exI [of _ "evs @ evs'"]) (simp add: server_run_append)
qed

lemma own_event_internal: "internal (own_event s i)"
  by (auto simp: own_event_def split: conn_phase.split option.split)

lemma one_round_run: "\<exists>evs. list_all internal evs \<and> server_run cd s evs = Some (one_round cd s)"
proof -
  have turns: "\<exists>evs. list_all internal evs \<and>
      server_run cd s evs = Some (attempt cd (SessionEnds k) (attempt cd (SessionTurns k) s))" for k s
    using attempt_run [of "SessionTurns k" cd s] attempt_run [of "SessionEnds k" cd "attempt cd (SessionTurns k) s"]
    by (auto simp: server_run_append) (metis (no_types) server_run_append bind.simps(2) list_all_append)
  have own: "\<exists>evs. list_all internal evs \<and> server_run cd s evs = Some (attempt cd (own_event s i) s)" for i s
    by (rule attempt_run [OF own_event_internal])
  obtain s1 evs where s1: "list_all internal evs" "server_run cd s evs = Some s1"
    "s1 = fold (\<lambda>k s. attempt cd (SessionEnds k) (attempt cd (SessionTurns k) s)) [0..<n_next (sv_node s)] s"
    using fold_run [of cd "\<lambda>k s. attempt cd (SessionEnds k) (attempt cd (SessionTurns k) s)", OF turns] by blast
  obtain evs' where "list_all internal evs'"
    "server_run cd s1 evs' = Some (fold (\<lambda>i s. attempt cd (own_event s i) s) [0..<length (sv_conns s)] s1)"
    using fold_run [of cd "\<lambda>i s. attempt cd (own_event s i) s", OF own] by blast
  then show ?thesis using s1 by (intro exI [of _ "evs @ evs'"]) (simp add: server_run_append one_round_def)
qed

lemma drive_run: "\<exists>evs. list_all internal evs \<and> server_run cd s evs = Some (drive n cd s)"
proof (induction n arbitrary: s)
  case 0
  show ?case by (intro exI [of _ "[]"]) simp
next
  case (Suc n)
  obtain evs where "list_all internal evs" "server_run cd s evs = Some (one_round cd s)" using one_round_run by blast
  moreover obtain evs' where "list_all internal evs'" "server_run cd (one_round cd s) evs' = Some (drive n cd (one_round cd s))"
    using Suc by blast
  ultimately show ?case by (intro exI [of _ "evs @ evs'"]) (simp add: server_run_append)
qed


subsection \<open>Requests and assertions\<close>

definition test_codecs :: "encoder \<Rightarrow> codecs" where
  "test_codecs pb = \<lparr>cd_encode = b64_encode, cd_decode = b64_decode, cd_pb = pb\<rparr>"

definition api_request :: "string \<Rightarrow> string list \<Rightarrow> request" where
  "api_request method path =
     \<lparr>rq_method = method, rq_path = ''api'' # ''v1'' # path, rq_metadata = None, rq_position = None, rq_range = None,
      rq_content_range = None, rq_body = [], rq_rejected = Some (plain 400)\<rparr>"

definition METADATA :: string where "METADATA = ''test_metadata''"
definition CONTENT :: bytes where "CONTENT = map (\<lambda>c. of_nat (of_char c)) ''test_content''"
definition NONEXISTENT_ID :: string where "NONEXISTENT_ID = ''1234''"
definition INVALID_ID :: string where "INVALID_ID = ''test_invalid_id''"

definition provision :: "(nat \<Rightarrow> bytes) \<Rightarrow> codecs \<Rightarrow> server \<Rightarrow> server" where
  "provision fill cd s = arrives cd fill ((api_request ''POST'' [''files''])\<lparr>rq_metadata := Some METADATA\<rparr>) s"

text \<open>The id of the first session, as the test reads it from the answer.\<close>

definition test_id :: "(nat \<Rightarrow> bytes) \<Rightarrow> string" where
  "test_id fill = encode_id b64_encode (generate_id fill)"

definition sends :: "codecs \<Rightarrow> request \<Rightarrow> server \<Rightarrow> server" where
  "sends cd rq s = arrives cd (\<lambda>_. []) rq s"

definition status_of :: "server \<Rightarrow> nat \<Rightarrow> nat option" where
  "status_of s i = map_option status (cn_answer (sv_conns s ! i))"

definition json_of :: "server \<Rightarrow> nat \<Rightarrow> resp_body option" where
  "json_of s i = map_option body (cn_answer (sv_conns s ! i))"

definition header_of :: "server \<Rightarrow> nat \<Rightarrow> string \<Rightarrow> string option" where
  "header_of s i name = Option.bind (cn_answer (sv_conns s ! i)) (\<lambda>r. resp_headers r name)"

definition bytes_of :: "server \<Rightarrow> nat \<Rightarrow> bytes" where
  "bytes_of s i = concat (cn_body (sv_conns s ! i))"

lemma test_id_decoded [simp]:
  "fill ID_LENGTH \<noteq> [] \<Longrightarrow> decode_id b64_decode (test_id fill) = Some (fill ID_LENGTH)"
  by (simp add: test_id_def generate_id_def decode_encode_id [OF b64_law])

lemma test_id_not_Nil [simp]: "fill ID_LENGTH \<noteq> [] \<Longrightarrow> test_id fill \<noteq> []"
  using test_id_decoded [of fill] by (auto simp: decode_id_def b64_decode_def)

lemma test_id_folded [simp]:
  "encode_id b64_encode (fill ID_LENGTH) = test_id fill" "encode_id b64_encode (generate_id fill) = test_id fill"
  by (simp_all add: test_id_def generate_id_def)

lemma other_ids [simp]:
  "decode_id b64_decode ''1234'' = Some [0xd7, 0x6d, 0xf8]" "decode_id b64_decode ''test_invalid_id'' = None"
  by (simp_all add: decode_id_def b64_decode_def from_url_char_def value64_def base64_chars_def char64_def Let_def)

text \<open>
  Evaluation: requests and answers stay as they are, only what a step looks at is computed.
\<close>

lemma request_parts [simp]:
  "rq_method (api_request m p) = m" "rq_path (api_request m p) = ''api'' # ''v1'' # p"
  "rq_metadata (api_request m p) = None" "rq_position (api_request m p) = None" "rq_range (api_request m p) = None"
  "rq_content_range (api_request m p) = None" "rq_body (api_request m p) = []"
  "rq_rejected (api_request m p) = Some (plain 400)"
  by (simp_all add: api_request_def)

lemma codecs_parts [simp]:
  "cd_encode (test_codecs pb) = b64_encode" "cd_decode (test_codecs pb) = b64_decode" "cd_pb (test_codecs pb) = pb"
  by (simp_all add: test_codecs_def)

declare headed_parts [simp] answer_parts [simp]

lemma routes [simp]:
  "route ''POST'' [''api'', ''v1'', ''files''] = CreateFile"
  "route ''GET'' [''api'', ''v1'', ''files''] = MethodNotAllowed"
  "route ''GET'' [''api'', ''v1'', ''health_check''] = HealthCheck"
  "route ''GET'' [''api'', ''v1'', ''test_nonexistent_api''] = NoRoute"
  "i \<noteq> [] \<Longrightarrow> route ''GET'' [''api'', ''v1'', ''download'', i] = DownloadMeta i"
  "i \<noteq> [] \<Longrightarrow> route ''POST'' [''api'', ''v1'', ''download'', i] = MethodNotAllowed"
  "i \<noteq> [] \<Longrightarrow> route ''GET'' [''api'', ''v1'', ''download'', i, ''content''] = DownloadContent i"
  "i \<noteq> [] \<Longrightarrow> route ''GET'' [''api'', ''v1'', ''content'', i] = DownloadContent i"
  "i \<noteq> [] \<Longrightarrow> route ''POST'' [''api'', ''v1'', ''upload'', i] = UploadContent i"
  "i \<noteq> [] \<Longrightarrow> route ''POST'' [''api'', ''v1'', ''upload'', i, ''start''] = StartUploadCheck i"
  "i \<noteq> [] \<Longrightarrow> route ''GET'' [''api'', ''v1'', ''download'', i, ''ws''] = DownloadWebsocket i"
  "i \<noteq> [] \<Longrightarrow> route ''GET'' [''api'', ''v1'', ''upload'', i, ''ws''] = UploadWebsocket i"
  by (simp_all add: route_def on_get_def on_post_def)

text \<open>The server with its one session.\<close>

definition first_conn :: "(nat \<Rightarrow> bytes) \<Rightarrow> server_conn" where
  "first_conn fill =
     (let rq = (api_request ''POST'' [''files''])\<lparr>rq_metadata := Some METADATA\<rparr>
      in \<lparr>cn_request = rq, cn_phase = Closed,
          cn_answer = Some (headed rq (json 200 (Created (''/api/v1/upload/'' @ test_id fill) (test_id fill)))),
          cn_body = [], cn_messages = []\<rparr>)"

definition one_session :: "(nat \<Rightarrow> bytes) \<Rightarrow> task \<Rightarrow> node" where
  "one_session fill t =
     \<lparr>n_sessions = (if t_phase t = Ended then Map.empty else [fill ID_LENGTH \<mapsto> \<lparr>sh_id = fill ID_LENGTH, sh_commands = 0\<rparr>]),
      n_tasks = [0 \<mapsto> t], n_next = 1\<rparr>"

lemma provisioned:
  "provision fill cd server_new =
     \<lparr>sv_node = one_session fill
        \<lparr>t_phase = Running, t_state = initial_state (fill ID_LENGTH) METADATA, t_queue = [], t_log = []\<rparr>,
      sv_token = 0, sv_next = 0, sv_conns = [first_conn fill]\<rparr>"
  if "cd = test_codecs pb"
  using that
  by (simp add: provision_def arrives_other served create_file_def create_session_def spawn_session_def server_new_def
      node_new_def registry_new_def registry_insert_def one_session_def first_conn_def generate_id_def Let_def)

lemma one_session_lookup [simp]:
  "fill ID_LENGTH \<noteq> [] \<Longrightarrow> t_phase t \<noteq> Ended \<Longrightarrow>
   lookup_session b64_decode (n_sessions (one_session fill t)) (test_id fill)
     = Inr \<lparr>sh_id = fill ID_LENGTH, sh_commands = 0\<rparr>"
  "fill ID_LENGTH \<noteq> [] \<Longrightarrow> t_phase t = Ended \<Longrightarrow>
   lookup_session b64_decode (n_sessions (one_session fill t)) (test_id fill) = Inl ApiNotFound"
  by (simp_all add: lookup_session_def one_session_def registry_get_def)

subsection \<open>Tests without a session\<close>

definition nonexistent_api_returns_404 :: "codecs \<Rightarrow> bool" where
  "nonexistent_api_returns_404 cd =
     (let s = sends cd (api_request ''GET'' [''test_nonexistent_api'']) server_new in status_of s 0 = Some 404)"

definition provision_without_metadata_returns_400 :: "codecs \<Rightarrow> bool" where
  "provision_without_metadata_returns_400 cd =
     (let s = sends cd (api_request ''POST'' [''files'']) server_new in status_of s 0 = Some 400)"

definition non_post_provision_returns_405 :: "codecs \<Rightarrow> bool" where
  "non_post_provision_returns_405 cd =
     (let s = sends cd (api_request ''GET'' [''files'']) server_new in status_of s 0 = Some 405)"

definition provision_returns_upload_url_and_download_id :: "(nat \<Rightarrow> bytes) \<Rightarrow> codecs \<Rightarrow> bool" where
  "provision_returns_upload_url_and_download_id fill cd =
     (let s = provision fill cd server_new
      in status_of s 0 = Some 200 \<and> header_of s 0 ''content-type'' = Some ''application/json'' \<and>
         (case json_of s 0 of
            Some (Created upload_url download_id) \<Rightarrow> upload_url = ''/api/v1/upload/'' @ download_id
          | _ \<Rightarrow> False))"

definition preflight_returns_cors_headers :: "codecs \<Rightarrow> bool" where
  "preflight_returns_cors_headers cd =
     (let s = sends cd (api_request ''OPTIONS'' [''files'']) server_new
      in status_of s 0 = Some 200 \<and> header_of s 0 ''access-control-allow-origin'' = Some ''*'' \<and>
         header_of s 0 ''access-control-allow-headers'' = Some ''Content-Range, Range'' \<and>
         header_of s 0 ''cache-control'' = Some ''no-cache, no-store'')"

definition download_paths :: "string \<Rightarrow> string list list" where
  "download_paths i = [[''download'', i], [''download'', i, ''content''], [''content'', i]]"

definition nonexistent_download_returns_404 :: "codecs \<Rightarrow> bool" where
  "nonexistent_download_returns_404 cd =
     list_all (\<lambda>p. status_of (sends cd (api_request ''GET'' p) server_new) 0 = Some 404) (download_paths NONEXISTENT_ID)"

definition invalid_download_id_returns_400 :: "codecs \<Rightarrow> bool" where
  "invalid_download_id_returns_400 cd =
     list_all (\<lambda>p. status_of (sends cd (api_request ''GET'' p) server_new) 0 = Some 400) (download_paths INVALID_ID)"

definition nonexistent_upload_returns_404 :: "codecs \<Rightarrow> bool" where
  "nonexistent_upload_returns_404 cd =
     (let s = sends cd ((api_request ''POST'' [''upload'', NONEXISTENT_ID])\<lparr>rq_body := [Inr CONTENT]\<rparr>) server_new
      in status_of s 0 = Some 404)"

definition invalid_upload_id_returns_400 :: "codecs \<Rightarrow> bool" where
  "invalid_upload_id_returns_400 cd =
     (let s = sends cd ((api_request ''POST'' [''upload'', INVALID_ID])\<lparr>rq_body := [Inr CONTENT]\<rparr>) server_new
      in status_of s 0 = Some 400)"

definition websocket_for_a_nonexistent_session_returns_404 :: "codecs \<Rightarrow> bool" where
  "websocket_for_a_nonexistent_session_returns_404 cd =
     (let s = sends cd (api_request ''GET'' [''download'', NONEXISTENT_ID, ''ws'']) server_new in status_of s 0 = Some 404)"

definition start_upload_for_a_nonexistent_session_returns_404 :: "codecs \<Rightarrow> bool" where
  "start_upload_for_a_nonexistent_session_returns_404 cd =
     (let s = sends cd ((api_request ''POST'' [''upload'', NONEXISTENT_ID, ''start''])\<lparr>rq_position := Some 0\<rparr>) server_new
      in status_of s 0 = Some 404)"

definition health_check_reports_ok :: "codecs \<Rightarrow> bool" where
  "health_check_reports_ok cd =
     (let s = sends cd (api_request ''GET'' [''health_check'']) server_new
      in status_of s 0 = Some 200 \<and> json_of s 0 = Some UploadOk)"

definition non_get_download_returns_405 :: "(nat \<Rightarrow> bytes) \<Rightarrow> codecs \<Rightarrow> bool" where
  "non_get_download_returns_405 fill cd =
     (let s = sends cd (api_request ''POST'' [''download'', test_id fill]) (provision fill cd server_new)
      in status_of s 1 = Some 405)"

lemma new_lookup [simp]:
  "lookup_session b64_decode (n_sessions (sv_node server_new)) ''1234'' = Inl ApiNotFound"
  "lookup_session b64_decode (n_sessions (sv_node server_new)) ''test_invalid_id'' = Inl (ApiInvalid ''invalid id'')"
  by (simp_all add: lookup_session_def server_new_def node_new_def registry_get_def registry_new_def)

lemma new_conns [simp]: "sv_conns server_new = []"
  by (simp add: server_new_def)

lemmas request_simps =
  sends_def arrives_other served serve_unknown status_of_def json_of_def header_of_def NONEXISTENT_ID_def INVALID_ID_def

lemma requests_without_session:
  "nonexistent_api_returns_404 (test_codecs pb)" "provision_without_metadata_returns_400 (test_codecs pb)"
  "non_post_provision_returns_405 (test_codecs pb)" "health_check_reports_ok (test_codecs pb)"
  "fill ID_LENGTH \<noteq> [] \<Longrightarrow> non_get_download_returns_405 fill (test_codecs pb)"
  by (simp_all add: nonexistent_api_returns_404_def provision_without_metadata_returns_400_def create_file_def
      non_post_provision_returns_405_def health_check_reports_ok_def non_get_download_returns_405_def
      provisioned request_simps)

lemmas header_simps = headed_def common_headers_def fixed_headers_def json_def plain_def Let_def

lemma requests_with_headers:
  "provision_returns_upload_url_and_download_id fill (test_codecs pb)" "preflight_returns_cors_headers (test_codecs pb)"
  by (simp_all add: provision_returns_upload_url_and_download_id_def preflight_returns_cors_headers_def
      provisioned first_conn_def sends_def arrives_def status_of_def json_of_def header_of_def header_simps)

lemma refused_requests:
  "nonexistent_download_returns_404 (test_codecs pb)" "invalid_download_id_returns_400 (test_codecs pb)"
  "nonexistent_upload_returns_404 (test_codecs pb)" "invalid_upload_id_returns_400 (test_codecs pb)"
  "websocket_for_a_nonexistent_session_returns_404 (test_codecs pb)"
  "start_upload_for_a_nonexistent_session_returns_404 (test_codecs pb)"
  by (simp_all add: nonexistent_download_returns_404_def invalid_download_id_returns_400_def download_paths_def
      nonexistent_upload_returns_404_def invalid_upload_id_returns_400_def
      websocket_for_a_nonexistent_session_returns_404_def start_upload_for_a_nonexistent_session_returns_404_def
      request_simps)


subsection \<open>Tests with a session\<close>

text \<open>Connection 0 provisions the session; the test's own requests are the connections after it.\<close>

definition download_request :: "string \<Rightarrow> string option \<Rightarrow> request" where
  "download_request i r = (api_request ''GET'' [''download'', i, ''content''])\<lparr>rq_range := r\<rparr>"

definition upload_request :: "string \<Rightarrow> string option \<Rightarrow> body_items \<Rightarrow> request" where
  "upload_request i r items =
     (api_request ''POST'' [''upload'', i])\<lparr>rq_content_range := r, rq_body := items\<rparr>"

definition start_request :: "string \<Rightarrow> u64 option \<Rightarrow> request" where
  "start_request i p = (api_request ''POST'' [''upload'', i, ''start''])\<lparr>rq_position := p\<rparr>"

definition socket_request :: "string \<Rightarrow> string \<Rightarrow> request" where
  "socket_request side i = (api_request ''GET'' [side, i, ''ws''])\<lparr>rq_rejected := None\<rparr>"

lemma session_requests [simp]:
  "rq_method (download_request i r) = ''GET''"
  "rq_path (download_request i r) = [''api'', ''v1'', ''download'', i, ''content'']"
  "rq_range (download_request i r) = r"
  "rq_method (upload_request i r items) = ''POST''" "rq_path (upload_request i r items) = [''api'', ''v1'', ''upload'', i]"
  "rq_content_range (upload_request i r items) = r" "rq_body (upload_request i r items) = items"
  "rq_method (start_request i p) = ''POST''" "rq_path (start_request i p) = [''api'', ''v1'', ''upload'', i, ''start'']"
  "rq_position (start_request i p) = p"
  "rq_method (socket_request side i) = ''GET''" "rq_path (socket_request side i) = [''api'', ''v1'', side, i, ''ws'']"
  "rq_rejected (socket_request side i) = None"
  by (simp_all add: download_request_def upload_request_def start_request_def socket_request_def)

abbreviation session :: "(nat \<Rightarrow> bytes) \<Rightarrow> session_handle" where
  "session fill \<equiv> \<lparr>sh_id = fill ID_LENGTH, sh_commands = 0\<rparr>"

lemma at_session [simp]:
  "task_of \<lparr>sv_node = one_session fill t, sv_token = tk, sv_next = n, sv_conns = cs\<rparr> (session fill) = Some t"
  "t_phase t \<noteq> Ended \<Longrightarrow>
   tell (session fill) c \<lparr>sv_node = one_session fill t, sv_token = tk, sv_next = n, sv_conns = cs\<rparr>
     = \<lparr>sv_node = one_session fill (t\<lparr>t_queue := t_queue t @ [c]\<rparr>), sv_token = tk, sv_next = n, sv_conns = cs\<rparr>"
  "t_phase t = Ended \<Longrightarrow>
   tell (session fill) c \<lparr>sv_node = one_session fill t, sv_token = tk, sv_next = n, sv_conns = cs\<rparr>
     = \<lparr>sv_node = one_session fill t, sv_token = tk, sv_next = n, sv_conns = cs\<rparr>"
  "n_next (one_session fill t) = 1"
  by (simp_all add: task_of_def tell_def one_session_def send_command_def)

lemma session_turns:
  "attempt cd (SessionTurns 0) \<lparr>sv_node = one_session fill t, sv_token = tk, sv_next = n, sv_conns = cs\<rparr>
     = \<lparr>sv_node = one_session fill (case run_turn (cd_pb cd) t of None \<Rightarrow> t | Some t' \<Rightarrow> t'),
        sv_token = tk, sv_next = n, sv_conns = cs\<rparr>"
  by (auto simp: attempt_def one_session_def run_turn_def split: option.split list.split task_phase.split prod.split)

lemma session_ends:
  "sid (t_state t) = fill ID_LENGTH \<Longrightarrow>
   attempt cd (SessionEnds 0) \<lparr>sv_node = one_session fill t, sv_token = tk, sv_next = n, sv_conns = cs\<rparr>
     = \<lparr>sv_node = one_session fill (if t_phase t = Stopping then t\<lparr>t_phase := Ended, t_queue := []\<rparr> else t),
        sv_token = tk, sv_next = n, sv_conns = cs\<rparr>"
  by (simp add: attempt_def one_session_def end_task_def registry_remove_def)

lemma conn_polls:
  "i < length cs \<Longrightarrow>
   attempt cd (Polls i now) \<lparr>sv_node = one_session fill t, sv_token = tk, sv_next = n, sv_conns = cs\<rparr>
     = (case poll_phase cd now (cs ! i) \<lparr>sv_node = one_session fill t, sv_token = tk, sv_next = n, sv_conns = cs\<rparr>
              (cn_phase (cs ! i)) of
          None \<Rightarrow> \<lparr>sv_node = one_session fill t, sv_token = tk, sv_next = n, sv_conns = cs\<rparr>
        | Some (c, s) \<Rightarrow> s\<lparr>sv_conns := (sv_conns s)[i := c]\<rparr>)"
  by (auto simp: attempt_def set_conn_def split: option.split)

lemma conn_relays:
  "i < length cs \<Longrightarrow>
   attempt cd (Relays i input) \<lparr>sv_node = one_session fill t, sv_token = tk, sv_next = n, sv_conns = cs\<rparr>
     = (case relay_phase input (cs ! i) \<lparr>sv_node = one_session fill t, sv_token = tk, sv_next = n, sv_conns = cs\<rparr>
              (cn_phase (cs ! i)) of
          None \<Rightarrow> \<lparr>sv_node = one_session fill t, sv_token = tk, sv_next = n, sv_conns = cs\<rparr>
        | Some (c, s) \<Rightarrow> s\<lparr>sv_conns := (sv_conns s)[i := c]\<rparr>)"
  by (auto simp: attempt_def set_conn_def split: option.split)

lemma log_simps [simp]:
  "replies_to w [] = []" "replies_to w (es @ es') = replies_to w es @ replies_to w es'"
  "replies_to w (Reply w' r # es) = (if w' = w then r # replies_to w es else replies_to w es)"
  "replies_to w (Event ch ev # es) = replies_to w es" "replies_to w (WsCommand k x # es) = replies_to w es"
  "commands_on ch [] = []" "commands_on ch (es @ es') = commands_on ch es @ commands_on ch es'"
  "commands_on ch (Reply w' r # es) = commands_on ch es" "commands_on ch (Event ch' ev # es) = commands_on ch es"
  "commands_on ch (WsCommand k x # es) = (if k = ch then x # commands_on ch es else commands_on ch es)"
  by (simp_all add: replies_to_def commands_on_def)

lemma delivery_simps [simp]:
  "events_on ch (Reply w r # es) = events_on ch es" "events_on ch (WsCommand k x # es) = events_on ch es"
  "events_on ch (Event ch' ev # es) = (if ch' = ch then ev # events_on ch es else events_on ch es)"
  by simp_all

definition download_returns_metadata :: "(nat \<Rightarrow> bytes) \<Rightarrow> codecs \<Rightarrow> bool" where
  "download_returns_metadata fill cd =
     (let s = sends cd (api_request ''GET'' [''download'', test_id fill]) (provision fill cd server_new);
          s = drive 1 cd s
      in status_of s 1 = Some 200 \<and>
         json_of s 1 = Some (DownloadMetaBody METADATA (''/api/v1/download/'' @ test_id fill @ ''/content'')))"

definition transfer_relays_content_to_the_downloader :: "(nat \<Rightarrow> bytes) \<Rightarrow> codecs \<Rightarrow> bool" where
  "transfer_relays_content_to_the_downloader fill cd =
     (let i = test_id fill;
          s = sends cd (download_request i None) (provision fill cd server_new);
          s = drive 8 cd (sends cd (upload_request i None [Inr CONTENT]) s)
      in status_of s 2 = Some 200 \<and> json_of s 2 = Some UploadOk \<and> status_of s 1 = Some 200 \<and>
         header_of s 1 ''content-type'' = Some ''application/octet-stream'' \<and> bytes_of s 1 = CONTENT \<and>
         cn_phase (sv_conns s ! 1) = Closed)"

definition upload_at_the_wrong_position_returns_409 :: "(nat \<Rightarrow> bytes) \<Rightarrow> codecs \<Rightarrow> bool" where
  "upload_at_the_wrong_position_returns_409 fill cd =
     (let i = test_id fill;
          s = drive 2 cd (sends cd (download_request i None) (provision fill cd server_new));
          s = drive 4 cd (sends cd (upload_request i (Some ''bytes 5-11/12'') [Inr (drop 5 CONTENT)]) s)
      in status_of s 2 = Some 409 \<and> json_of s 2 = Some (Conflict 0))"

definition resuming_a_download_delivers_the_remaining_content :: "(nat \<Rightarrow> bytes) \<Rightarrow> codecs \<Rightarrow> bool" where
  "resuming_a_download_delivers_the_remaining_content fill cd =
     (let i = test_id fill;
          s = drive 2 cd (sends cd (download_request i (Some ''bytes=5-'')) (provision fill cd server_new));
          s = drive 8 cd (sends cd (upload_request i (Some ''bytes 5-11/12'') [Inr (drop 5 CONTENT)]) s)
      in status_of s 2 = Some 200 \<and> bytes_of s 1 = drop 5 CONTENT \<and> cn_phase (sv_conns s ! 1) = Closed)"

definition eof_range_finishes_the_download :: "(nat \<Rightarrow> bytes) \<Rightarrow> codecs \<Rightarrow> bool" where
  "eof_range_finishes_the_download fill cd =
     (let i = test_id fill;
          s = drive 2 cd (sends cd (download_request i (Some ''bytes=-0'')) (provision fill cd server_new));
          s' = drive 1 cd (sends cd (api_request ''GET'' [''download'', i]) s)
      in status_of s 1 = Some 200 \<and> bytes_of s 1 = [] \<and> status_of s' 2 = Some 404)"

definition unsupported_ranges_return_400 :: "(nat \<Rightarrow> bytes) \<Rightarrow> codecs \<Rightarrow> bool" where
  "unsupported_ranges_return_400 fill cd =
     (let i = test_id fill;
          s = sends cd (download_request i (Some ''bytes=0-5'')) (provision fill cd server_new);
          s = sends cd (upload_request i (Some ''bytes 0-5/100'') [Inr CONTENT]) s
      in status_of s 1 = Some 400 \<and> status_of s 2 = Some 400)"

text \<open>\<open>next_data_frame\<close>: the data frames a websocket was sent.\<close>

definition data_frames :: "server \<Rightarrow> nat \<Rightarrow> message list" where
  "data_frames s i =
     concat (map (\<lambda>m. case m of TextMessage t \<Rightarrow> [m] | BinaryMessage d \<Rightarrow> [m] | _ \<Rightarrow> []) (cn_messages (sv_conns s ! i)))"

definition TO_DOWNLOADER :: bytes where "TO_DOWNLOADER = map (\<lambda>c. of_nat (of_char c)) ''to downloader''"

definition websockets_relay_frames_between_peers :: "(nat \<Rightarrow> bytes) \<Rightarrow> codecs \<Rightarrow> bool" where
  "websockets_relay_frames_between_peers fill cd =
     (let i = test_id fill;
          s = drive 2 cd (sends cd (socket_request ''upload'' i) (provision fill cd server_new));
          s = drive 2 cd (sends cd (socket_request ''download'' i) s);
          s = drive 2 cd (attempt cd (Relays 1 (0, SocketFrame (Some (BinaryMessage TO_DOWNLOADER)))) s);
          s' = drive 2 cd (attempt cd (Relays 2 (0, SocketFrame (Some (TextMessage ''to uploader'')))) s)
      in data_frames s 2 = [BinaryMessage TO_DOWNLOADER] \<and> data_frames s' 1 = [TextMessage ''to uploader''])"

definition uploader_websocket_receives_progress_acks :: "(nat \<Rightarrow> bytes) \<Rightarrow> codecs \<Rightarrow> bool" where
  "uploader_websocket_receives_progress_acks fill cd =
     (let i = test_id fill; ack = (\<lambda>p. BinaryMessage (cd_pb cd \<lparr>wsm_inner = Some (UploadDataAck \<lparr>ack_offset = p\<rparr>)\<rparr>));
          s = drive 2 cd (sends cd (socket_request ''upload'' i) (provision fill cd server_new));
          s = drive 2 cd (sends cd (download_request i None) s);
          s = drive 8 cd (sends cd (upload_request i None [Inr CONTENT]) s)
      in status_of s 3 = Some 200 \<and> bytes_of s 2 = CONTENT \<and> data_frames s 1 = [ack 0, ack (len64 CONTENT)])"

text \<open>How the content is split is up to the transport; two chunks stand for it here.\<close>

definition transfer_relays_content_larger_than_one_chunk ::
  "bytes \<Rightarrow> bytes \<Rightarrow> (nat \<Rightarrow> bytes) \<Rightarrow> codecs \<Rightarrow> bool" where
  "transfer_relays_content_larger_than_one_chunk c1 c2 fill cd =
     (let i = test_id fill;
          s = sends cd (download_request i None) (provision fill cd server_new);
          s = drive 10 cd (sends cd (upload_request i None [Inr c1, Inr c2]) s)
      in status_of s 2 = Some 200 \<and> bytes_of s 1 = c1 @ c2 \<and> cn_phase (sv_conns s ! 1) = Closed)"

definition start_upload_accepts_the_expected_position :: "(nat \<Rightarrow> bytes) \<Rightarrow> codecs \<Rightarrow> bool" where
  "start_upload_accepts_the_expected_position fill cd =
     (let s = drive 1 cd (sends cd (start_request (test_id fill) (Some 0)) (provision fill cd server_new))
      in status_of s 1 = Some 200 \<and> json_of s 1 = Some UploadOk)"

definition start_upload_reports_the_downloader_position :: "(nat \<Rightarrow> bytes) \<Rightarrow> codecs \<Rightarrow> bool" where
  "start_upload_reports_the_downloader_position fill cd =
     (let i = test_id fill;
          s = drive 2 cd (sends cd (download_request i None) (provision fill cd server_new));
          s = drive 1 cd (sends cd (start_request i (Some 5)) s)
      in status_of s 2 = Some 409 \<and> json_of s 2 = Some (Conflict 0))"

definition start_upload_does_not_connect_an_uploader :: "(nat \<Rightarrow> bytes) \<Rightarrow> codecs \<Rightarrow> bool" where
  "start_upload_does_not_connect_an_uploader fill cd =
     (let i = test_id fill;
          s = drive 1 cd (sends cd (start_request i (Some 0)) (provision fill cd server_new));
          s = drive 1 cd (sends cd (start_request i (Some 0)) s)
      in list_all (\<lambda>n. status_of s n = Some 200 \<and> json_of s n = Some UploadOk) [1, 2])"

definition start_upload_without_a_position_returns_400 :: "(nat \<Rightarrow> bytes) \<Rightarrow> codecs \<Rightarrow> bool" where
  "start_upload_without_a_position_returns_400 fill cd =
     (let s = sends cd (start_request (test_id fill) None) (provision fill cd server_new) in status_of s 1 = Some 400)"

definition upload_past_the_end_waits_for_the_downloader_to_finish :: "(nat \<Rightarrow> bytes) \<Rightarrow> codecs \<Rightarrow> bool" where
  "upload_past_the_end_waits_for_the_downloader_to_finish fill cd =
     (let i = test_id fill;
          s = drive 2 cd (sends cd (download_request i (Some ''bytes=12-'')) (provision fill cd server_new));
          s = drive 8 cd (sends cd (upload_request i (Some ''bytes */12'') []) s)
      in status_of s 2 = Some 200 \<and> json_of s 2 = Some UploadOk \<and> bytes_of s 1 = [] \<and>
         cn_phase (sv_conns s ! 1) = Closed)"

definition rust_client_upload_sequence :: "(nat \<Rightarrow> bytes) \<Rightarrow> codecs \<Rightarrow> bool" where
  "rust_client_upload_sequence fill cd =
     (let i = test_id fill;
          s = drive 2 cd (sends cd (download_request i None) (provision fill cd server_new));
          s = drive 1 cd (sends cd (start_request i (Some 0)) s);
          s = drive 8 cd (sends cd (upload_request i (Some ''bytes 0-11/12'') [Inr CONTENT]) s)
      in status_of s 2 = Some 200 \<and> json_of s 2 = Some UploadOk \<and> status_of s 3 = Some 200 \<and>
         json_of s 3 = Some UploadOk \<and> bytes_of s 1 = CONTENT \<and> cn_phase (sv_conns s ! 1) = Closed)"

lemma test_ranges [simp]:
  "download_position Some None = Inr (At 0)" "download_position Some (Some ''bytes=5-'') = Inr (At 5)"
  "download_position Some (Some ''bytes=12-'') = Inr (At 12)" "download_position Some (Some ''bytes=-0'') = Inr Eof"
  "\<exists>x. download_position Some (Some ''bytes=0-5'') = Inl x"
  "upload_position Some None = Inr 0" "upload_position Some (Some ''bytes 5-11/12'') = Inr 5"
  "upload_position Some (Some ''bytes 0-11/12'') = Inr 0" "upload_position Some (Some ''bytes */12'') = Inr 12"
  "\<exists>x. upload_position Some (Some ''bytes 0-5/100'') = Inl x"
  by (simp_all add: range_simps)

lemmas session_simps =
  provisioned request_simps serve_known session_turns session_ends conn_polls own_event_def one_round_def
  reply_of_def open_waiters_def waiting_def asked_def next_event_def channel_open_def
  next_command_def inbox_open_def respond_def metadata_answer_def unit_answer_def upload_answer_def stream_event_def
  run_turn_def initial_state_def download_meta_def download_answer_def start_upload_answer_def api_upload_error_def
  or_not_found_def download_drop_def upload_drop_def start_download_def replace_downloader_def
  take_pending_def finish_download_def terminate_uploader_def start_upload_def check_start_position_def
  send_upload_progress_def upload_data_def flush_upload_def disconnected_def uploader_token_def into_event_def
  chunk_len_def reply_to_def continue_def bytes_of_def start_websocket_def relay_frame_def websocket_def set_websocket_def held_frames_def
  set_held_frames_def other_direction_def hold_frame_def Let_def

lemma first_conn_closed [simp]: "cn_phase (first_conn fill) = Closed"
  by (simp add: first_conn_def Let_def)

lemma drive_numeral [simp]: "drive (numeral k) cd s = drive (pred_numeral k) cd (one_round cd s)"
  by (simp add: numeral_eq_Suc)

lemmas socket_simps =
  conn_relays takes_input_def turn_enabled_def tell_effect_def sent_messages_def relay_begin_def sent_def
  session_frame_def frame_message_def reset_ping_def reset_idle_def data_frames_def leave_def relay_drop_def is_break_def

lemma download_returns_metadata_holds:
  "fill ID_LENGTH \<noteq> [] \<Longrightarrow> download_returns_metadata fill (test_codecs pb)"
  by (simp add: download_returns_metadata_def session_simps cong: let_weak_cong)

lemma content_type_kept [simp]:
  "rq_method rq \<noteq> ''OPTIONS'' \<Longrightarrow> resp_headers r ''content-type'' = Some v \<Longrightarrow> resp_headers (headed rq r) ''content-type'' = Some v"
  by (simp add: headed_def common_headers_def fixed_headers_def Let_def)

lemma transfer_relays_content_to_the_downloader_holds:
  "fill ID_LENGTH \<noteq> [] \<Longrightarrow> transfer_relays_content_to_the_downloader fill (test_codecs pb)"
  by (simp add: transfer_relays_content_to_the_downloader_def session_simps cong: let_weak_cong)

lemma upload_at_the_wrong_position_returns_409_holds:
  "fill ID_LENGTH \<noteq> [] \<Longrightarrow> upload_at_the_wrong_position_returns_409 fill (test_codecs pb)"
  by (simp add: upload_at_the_wrong_position_returns_409_def session_simps cong: let_weak_cong)

lemma resuming_a_download_delivers_the_remaining_content_holds:
  "fill ID_LENGTH \<noteq> [] \<Longrightarrow> resuming_a_download_delivers_the_remaining_content fill (test_codecs pb)"
  by (simp add: resuming_a_download_delivers_the_remaining_content_def session_simps cong: let_weak_cong)

lemma eof_range_finishes_the_download_holds:
  "fill ID_LENGTH \<noteq> [] \<Longrightarrow> eof_range_finishes_the_download fill (test_codecs pb)"
  by (simp add: eof_range_finishes_the_download_def session_simps cong: let_weak_cong)

lemma start_upload_accepts_the_expected_position_holds:
  "fill ID_LENGTH \<noteq> [] \<Longrightarrow> start_upload_accepts_the_expected_position fill (test_codecs pb)"
  by (simp add: start_upload_accepts_the_expected_position_def session_simps cong: let_weak_cong)

lemma start_upload_reports_the_downloader_position_holds:
  "fill ID_LENGTH \<noteq> [] \<Longrightarrow> start_upload_reports_the_downloader_position fill (test_codecs pb)"
  by (simp add: start_upload_reports_the_downloader_position_def session_simps cong: let_weak_cong)

lemma start_upload_does_not_connect_an_uploader_holds:
  "fill ID_LENGTH \<noteq> [] \<Longrightarrow> start_upload_does_not_connect_an_uploader fill (test_codecs pb)"
  by (simp add: start_upload_does_not_connect_an_uploader_def session_simps cong: let_weak_cong)

lemma start_upload_without_a_position_returns_400_holds:
  "fill ID_LENGTH \<noteq> [] \<Longrightarrow> start_upload_without_a_position_returns_400 fill (test_codecs pb)"
  by (simp add: start_upload_without_a_position_returns_400_def session_simps cong: let_weak_cong)

lemma upload_past_the_end_waits_for_the_downloader_to_finish_holds:
  "fill ID_LENGTH \<noteq> [] \<Longrightarrow> upload_past_the_end_waits_for_the_downloader_to_finish fill (test_codecs pb)"
  by (simp add: upload_past_the_end_waits_for_the_downloader_to_finish_def session_simps cong: let_weak_cong)

lemma rust_client_upload_sequence_holds:
  "fill ID_LENGTH \<noteq> [] \<Longrightarrow> rust_client_upload_sequence fill (test_codecs pb)"
  by (simp add: rust_client_upload_sequence_def session_simps cong: let_weak_cong)

lemma websockets_relay_frames_between_peers_holds:
  "fill ID_LENGTH \<noteq> [] \<Longrightarrow> websockets_relay_frames_between_peers fill (test_codecs pb)"
  by (simp add: websockets_relay_frames_between_peers_def session_simps socket_simps cong: let_weak_cong)

lemma uploader_websocket_receives_progress_acks_holds:
  "fill ID_LENGTH \<noteq> [] \<Longrightarrow> uploader_websocket_receives_progress_acks fill (test_codecs pb)"
  by (simp add: uploader_websocket_receives_progress_acks_def session_simps socket_simps cong: let_weak_cong)

lemma unsupported_ranges_return_400_holds:
  assumes "fill ID_LENGTH \<noteq> []"
  shows "unsupported_ranges_return_400 fill (test_codecs pb)"
proof -
  obtain x y where "download_position Some (Some ''bytes=0-5'') = Inl x" "upload_position Some (Some ''bytes 0-5/100'') = Inl y"
    using test_ranges(5,10) by blast
  then show ?thesis using assms
    by (simp add: unsupported_ranges_return_400_def session_simps cong: let_weak_cong)
qed

lemma transfer_relays_content_larger_than_one_chunk_holds:
  "fill ID_LENGTH \<noteq> [] \<Longrightarrow> transfer_relays_content_larger_than_one_chunk c1 c2 fill (test_codecs pb)"
  by (simp add: transfer_relays_content_larger_than_one_chunk_def session_simps cong: let_weak_cong)

subsection \<open>A downloader that goes away\<close>

text \<open>
  A download is asked for, the session goes on \<open>rounds\<close> times, and the client goes away; then
  the content is uploaded.
\<close>

definition upload_after_given_up :: "nat \<Rightarrow> (nat \<Rightarrow> bytes) \<Rightarrow> codecs \<Rightarrow> server" where
  "upload_after_given_up rounds fill cd =
     (let i = test_id fill;
          s = drive rounds cd (sends cd (download_request i None) (provision fill cd server_new));
          s = attempt cd (Cancelled 1) s
      in drive 8 cd (sends cd (upload_request i None [Inr CONTENT]) s))"

lemma conn_cancels:
  "i < length cs \<Longrightarrow>
   attempt cd (Cancelled i) \<lparr>sv_node = one_session fill t, sv_token = tk, sv_next = n, sv_conns = cs\<rparr>
     = (case cancel_phase \<lparr>sv_node = one_session fill t, sv_token = tk, sv_next = n, sv_conns = cs\<rparr>
              (cn_phase (cs ! i)) of
          None \<Rightarrow> \<lparr>sv_node = one_session fill t, sv_token = tk, sv_next = n, sv_conns = cs\<rparr>
        | Some s \<Rightarrow> s\<lparr>sv_conns := (sv_conns s)[i := (cs ! i)\<lparr>cn_phase := Closed\<rparr>]\<rparr>)"
  by (auto simp: attempt_def set_conn_def split: option.split)

text \<open>
  Once the response has begun its guard tells the session, and the upload waits for a downloader.
  A client that goes away before that leaves a downloader behind that is none: the handler is
  dropped before it made the guard, and the upload is taken, and answered, for nobody.
\<close>

lemma upload_waits_for_a_downloader:
  assumes "fill ID_LENGTH \<noteq> []"
  shows "cn_answer (sv_conns (upload_after_given_up 2 fill (test_codecs pb)) ! 2) = None"
  using assms by (simp add: upload_after_given_up_def session_simps conn_cancels cong: let_weak_cong)

lemma abandoned_download_takes_upload:
  assumes "fill ID_LENGTH \<noteq> []"
  shows "let s = upload_after_given_up 0 fill (test_codecs pb)
    in status_of s 2 = Some 200 \<and> json_of s 2 = Some UploadOk \<and> cn_answer (sv_conns s ! 1) = None \<and>
       list_all (\<lambda>c. cn_body c = []) (sv_conns s)"
  using assms
  by (simp add: upload_after_given_up_def session_simps conn_cancels cong: let_weak_cong) (simp add: first_conn_def Let_def)

end
