(* ===== verification/Relay_Isolation.thy ===== *)
theory Relay_Isolation
  imports Relay_Settling
begin

text \<open>
  The sessions of a relay do not see each other: a request, a connection, a websocket and a turn
  of a session reach the task of one session only, and what the handlers of another session
  await does not change.
\<close>

subsection \<open>The session of a request and of a connection\<close>

definition endpoint_session :: "codecs \<Rightarrow> server \<Rightarrow> endpoint \<Rightarrow> session_handle option" where
  "endpoint_session cd s e =
     (let look = (\<lambda>i. case lookup_session (cd_decode cd) (n_sessions (sv_node s)) i of Inl x \<Rightarrow> None | Inr h \<Rightarrow> Some h)
      in case e of
        DownloadMeta i \<Rightarrow> look i | DownloadContent i \<Rightarrow> look i | UploadContent i \<Rightarrow> look i
      | StartUploadCheck i \<Rightarrow> look i | DownloadWebsocket i \<Rightarrow> look i | UploadWebsocket i \<Rightarrow> look i
      | _ \<Rightarrow> None)"

text \<open>A new session takes the next free channel.\<close>

fun touches :: "codecs \<Rightarrow> server \<Rightarrow> server_event \<Rightarrow> chan \<Rightarrow> bool" where
  "touches cd s (Arrives fill rq) k =
     (let e = route (rq_method rq) (rq_path rq)
      in e = CreateFile \<and> k = n_next (sv_node s) \<or> map_option sh_commands (endpoint_session cd s e) = Some k)"
| "touches cd s (Polls i now) k = (map_option sh_commands (conn_session (cn_phase (sv_conns s ! i))) = Some k)"
| "touches cd s (Relays i input) k = (map_option sh_commands (conn_session (cn_phase (sv_conns s ! i))) = Some k)"
| "touches cd s (Cancelled i) k = (map_option sh_commands (conn_session (cn_phase (sv_conns s ! i))) = Some k)"
| "touches cd s (SessionTurns j) k = (j = k)"
| "touches cd s (SessionCloses j) k = (j = k)"
| "touches cd s (SessionEnds j) k = (j = k)"

fun untouched :: "codecs \<Rightarrow> server \<Rightarrow> server_event list \<Rightarrow> chan \<Rightarrow> bool" where
  "untouched cd s [] k = True"
| "untouched cd s (ev # evs) k =
     (\<not> touches cd s ev k \<and> (case server_step cd s ev of None \<Rightarrow> True | Some s' \<Rightarrow> untouched cd s' evs k))"

subsection \<open>One step\<close>

abbreviation task_at :: "server \<Rightarrow> chan \<Rightarrow> task option" where
  "task_at s k \<equiv> n_tasks (sv_node s) k"

lemma tell_other: "sh_commands h \<noteq> k \<Longrightarrow> task_at (tell h c s) k = task_at s k"
  by (auto simp: tell_def send_command_def split: option.splits)

lemma create_file_other:
  "create_file enc fill form n = (r, n') \<Longrightarrow> k \<noteq> n_next n \<Longrightarrow> n_tasks n' k = n_tasks n k"
  by (auto simp: create_file_def create_session_def spawn_session_def Let_def split: option.splits)

lemma socket_lookup:
  "websocket_upgrade dec reg i rejected dir = Inr (RelayStarted h d) \<Longrightarrow> lookup_session dec reg i = Inr h"
  by (auto simp: websocket_upgrade_def split: sum.splits option.splits)

lemma begun_session:
  "download_begin dec to_str reg i r = DownloadFinish h \<Longrightarrow> lookup_session dec reg i = Inr h"
  "download_begin dec to_str reg i r = DownloadFrom h p \<Longrightarrow> lookup_session dec reg i = Inr h"
  "start_upload_begin dec reg i q = Inr (h, p) \<Longrightarrow> lookup_session dec reg i = Inr h"
  by (auto simp: download_begin_def start_upload_begin_def split: sum.splits option.splits download_position.splits)

lemma serve_other:
  assumes "serve cd fill rq e s = (ph, r, s')"
    and "\<not> (e = CreateFile \<and> k = n_next (sv_node s))" and "map_option sh_commands (endpoint_session cd s e) \<noteq> Some k"
  shows "task_at s' k = task_at s k"
  using assms
  by (cases e)
    (auto simp: serve_def endpoint_session_def Let_def new_token_def tell_other
      dest!: socket_lookup begun_session create_file_other [where k = k]
      split: sum.splits prod.splits upgraded.splits download_start.splits upload_state.splits)

lemma stream_other: "stream_event h t ch n c s ev = (c', s') \<Longrightarrow> sh_commands h \<noteq> k \<Longrightarrow> task_at s' k = task_at s k"
  by (auto simp: stream_event_def tell_other split: option.splits download_event.splits)

lemma poll_other:
  "poll_phase cd now c s ph = Some (c', s') \<Longrightarrow> map_option sh_commands (conn_session ph) \<noteq> Some k \<Longrightarrow>
   task_at s' k = task_at s k"
  by (induction cd now c s ph rule: poll_phase.induct)
    (auto simp: Let_def tell_other dest: stream_other split: if_splits upload_state.splits)

lemma tell_effects_other: "sh_commands h \<noteq> k \<Longrightarrow> task_at (fold (tell_effect h) es s) k = task_at s k"
  by (induction es arbitrary: s) (auto simp: tell_effect_def tell_other split: ws_effect.split)

lemma relay_other:
  "relay_phase i c s ph = Some (c', s') \<Longrightarrow> map_option sh_commands (conn_session ph) \<noteq> Some k \<Longrightarrow>
   task_at s' k = task_at s k"
  by (cases ph) (auto simp: tell_effects_other split: if_splits prod.splits)

lemma cancel_other:
  "cancel_phase s ph = Some s' \<Longrightarrow> map_option sh_commands (conn_session ph) \<noteq> Some k \<Longrightarrow> task_at s' k = task_at s k"
  by (cases ph) (auto simp: tell_other)

lemma step_other:
  assumes "server_step cd s ev = Some s'" and "\<not> touches cd s ev k"
  shows "task_at s' k = task_at s k"
proof (cases ev)
  case (Arrives fill rq)
  obtain ph r s1 where serve: "serve cd fill rq (route (rq_method rq) (rq_path rq)) s = (ph, r, s1)"
    by (cases "serve cd fill rq (route (rq_method rq) (rq_path rq)) s")
  then show ?thesis
    using serve_other [OF serve, of k] assms Arrives by (auto simp: arrives_def Let_def split: if_splits)
next
  case (Polls i now)
  with assms show ?thesis by (auto simp: set_conn_def dest: poll_other split: if_splits)
next
  case (Relays i input)
  with assms show ?thesis by (auto simp: set_conn_def dest: relay_other split: if_splits)
next
  case (Cancelled i)
  with assms show ?thesis by (auto simp: set_conn_def dest: cancel_other split: if_splits)
next
  case (SessionTurns j)
  with assms show ?thesis by (auto split: option.splits)
next
  case (SessionCloses j)
  with assms show ?thesis by (auto split: option.splits if_splits)
next
  case (SessionEnds j)
  with assms show ?thesis by (auto simp: end_task_def split: option.splits if_splits)
qed

subsection \<open>Isolation\<close>

text \<open>C16: 
  Sessions are isolated: whatever a relay does in a run in which nothing reaches a session, its
  task is as it was, and what the handlers and websockets of that session await has neither
  come nor gone.
\<close>

theorem sessions_isolated:
  assumes "server_run cd s evs = Some s'" and "untouched cd s evs (sh_commands h)"
  shows "task_of s' h = task_of s h \<and> reply_of s' h w = reply_of s h w \<and>
    next_event s' h ch n = next_event s h ch n \<and> next_command s' h dir ch n = next_command s h dir ch n"
proof -
  have "task_of s' h = task_of s h"
    using assms
  proof (induction evs arbitrary: s)
    case (Cons ev evs)
    then obtain s1 where s1: "server_step cd s ev = Some s1" "server_run cd s1 evs = Some s'"
      by (auto split: Option.bind_splits)
    then show ?case
      using Cons.IH [OF s1(2)] Cons.prems(2) step_other [OF s1(1)] by (auto simp: task_of_def)
  qed simp
  then show ?thesis by (simp add: reply_of_def next_event_def next_command_def)
qed

text \<open>A second file is provisioned while the first one's download waits to be answered.\<close>

lemma content_request_next:
  "rq_method rq = ''GET'' \<Longrightarrow> route ''GET'' (rq_path rq) = DownloadContent i \<Longrightarrow>
   n_next (sv_node (arrives cd fill rq s)) = n_next (sv_node s)"
  by (auto simp: arrives_other serve_def tell_def send_command_def new_token_def Let_def split: download_start.split option.split)

lemma example_server_next: "n_next (sv_node example_server) = 1"
proof -
  have "route ''POST'' [''api'', ''v1'', ''files''] = CreateFile" by (simp add: route_def on_get_def on_post_def)
  then have "n_next (sv_node (arrives example_codecs (\<lambda>_. [1, 2]) (example_request ''POST'' [''files'']) server_new)) = 1"
    by (simp add: arrives_other example_request_def served create_file_def create_session_def spawn_session_def
        server_new_def node_new_def Let_def)
  moreover have "encode_id b64_encode [1, 2] \<noteq> []" by (simp add: encode_id_def)
  then have "route ''GET'' [''api'', ''v1'', ''download'', encode_id b64_encode [1, 2], ''content'']
      = DownloadContent (encode_id b64_encode [1, 2])"
    by (simp add: route_def on_get_def on_post_def)
  ultimately show ?thesis
    unfolding example_server_def by (subst content_request_next) (auto simp: example_request_def)
qed

theorem sessions_isolated_witness:
  "\<exists>s'. server_run example_codecs example_server [Arrives (\<lambda>_. [3, 4]) (example_request ''POST'' [''files''])] = Some s' \<and>
     task_of s' \<lparr>sh_id = [1, 2], sh_commands = 0\<rparr> = task_of example_server \<lparr>sh_id = [1, 2], sh_commands = 0\<rparr>"
proof -
  let ?ev = "Arrives (\<lambda>_. [3, 4]) (example_request ''POST'' [''files''])"
  have "server_run example_codecs example_server [?ev]
      = Some (arrives example_codecs (\<lambda>_. [3, 4]) (example_request ''POST'' [''files'']) example_server)" by simp
  moreover have "untouched example_codecs example_server [?ev] 0"
    by (simp add: example_request_def route_def on_get_def on_post_def endpoint_session_def example_server_next)
  ultimately show ?thesis
    using sessions_isolated [where h = "\<lparr>sh_id = [1, 2], sh_commands = 0\<rparr>"] by fastforce
qed

end
