(* ===== verification/Client_Setup.thy ===== *)
theory Client_Setup
  imports Client_Link Client_Session Relay_Server
begin

text \<open>
  How a pair of clients comes to share a file, up to its content: the clients' constructors
  (\<^verbatim>\<open>api_client.rs\<close>, \<^verbatim>\<open>uploader_client.rs\<close>, \<^verbatim>\<open>downloader_client.rs\<close> and their javascript faces), the
  keys both implementations of the cipher derive (\<^verbatim>\<open>cipher/native.rs\<close>, \<^verbatim>\<open>cipher/web.rs\<close>), and the
  requests that provision a file and fetch its metadata, made to the relay of \<open>Relay_Server\<close>.
\<close>

subsection \<open>Deriving the key of a cipher\<close>

text \<open>
  HKDF with SHA-256 (RFC 5869) over HMAC, which both libraries document. HMAC pads a key
  with zeros to the block of the hash, so that a key and its padding are the same key.
\<close>

type_synonym hmac = "bytes \<Rightarrow> bytes \<Rightarrow> bytes"

definition hmac_law :: "hmac \<Rightarrow> bool" where
  "hmac_law hmac =
     (\<forall>k m. length (hmac k m) = 32 \<and> (length k \<le> 64 \<longrightarrow> hmac (k @ replicate (64 - length k) 0) m = hmac k m))"

fun hkdf_blocks :: "hmac \<Rightarrow> bytes \<Rightarrow> bytes \<Rightarrow> bytes \<Rightarrow> u8 \<Rightarrow> nat \<Rightarrow> bytes" where
  "hkdf_blocks hmac prk info prev i 0 = []"
| "hkdf_blocks hmac prk info prev i (Suc n) =
     (let t = hmac prk (prev @ info @ [i]) in t @ hkdf_blocks hmac prk info t (i + 1) n)"

definition rfc5869 :: "hmac \<Rightarrow> bytes \<Rightarrow> bytes \<Rightarrow> bytes \<Rightarrow> nat \<Rightarrow> bytes" where
  "rfc5869 hmac salt ikm info len = take len (hkdf_blocks hmac (hmac salt ikm) info [] 1 ((len + 31) div 32))"

text \<open>
  The \<open>hkdf\<close> crate as \<open>hkdf salt ikm info len\<close>, which fails on an output that is too long and
  takes no salt for 32 zeros; and SubtleCrypto as \<open>derive_key salt info base bits\<close>.
\<close>

definition hkdf_law ::
  "hmac \<Rightarrow> (bytes option \<Rightarrow> bytes \<Rightarrow> bytes \<Rightarrow> nat \<Rightarrow> bytes option) \<Rightarrow> (bytes \<Rightarrow> bytes \<Rightarrow> bytes \<Rightarrow> nat \<Rightarrow> bytes) \<Rightarrow> bool" where
  "hkdf_law hmac hkdf derive_key =
     (hmac_law hmac \<and>
      (\<forall>salt ikm info len.
         hkdf salt ikm info len =
           (if len \<le> 255 * 32
            then Some (rfc5869 hmac (case salt of None \<Rightarrow> replicate 32 0 | Some x \<Rightarrow> x) ikm info len) else None)) \<and>
      (\<forall>salt info base len. derive_key salt info base (8 * len) = rfc5869 hmac salt base info len))"

text \<open>\<open>NativeCipher::derive_new\<close>, which panics where the expansion fails, and \<open>WebCipher::derive_new\<close>.\<close>

definition native_derive_new ::
  "(bytes option \<Rightarrow> bytes \<Rightarrow> bytes \<Rightarrow> nat \<Rightarrow> bytes option) \<Rightarrow> cipher_key \<Rightarrow> bytes \<Rightarrow> bytes option" where
  "native_derive_new hkdf base_key hkdf_info = hkdf None base_key hkdf_info KEY_SIZE"

definition web_derive_new ::
  "(bytes \<Rightarrow> bytes \<Rightarrow> bytes \<Rightarrow> nat \<Rightarrow> bytes) \<Rightarrow> cipher_key \<Rightarrow> bytes \<Rightarrow> bytes" where
  "web_derive_new derive_key base_key hkdf_info =
     (let salt = []; key_size_bits = 8 * KEY_SIZE in derive_key salt hkdf_info base_key key_size_bits)"

lemma length_hkdf_blocks: "hmac_law hmac \<Longrightarrow> length (hkdf_blocks hmac prk info prev i n) = 32 * n"
  by (induction n arbitrary: prev i) (simp_all add: Let_def hmac_law_def)

lemma empty_salt: "hmac_law hmac \<Longrightarrow> hmac [] m = hmac (replicate 32 0) m"
proof -
  assume law: "hmac_law hmac"
  have "hmac ([] @ replicate 64 0) m = hmac [] m"
    using law [unfolded hmac_law_def, rule_format, of "[]"] by simp
  moreover have "hmac (replicate 32 0 @ replicate 32 0) m = hmac (replicate 32 0) m"
    using law [unfolded hmac_law_def, rule_format, of "replicate 32 0"] by simp
  ultimately show ?thesis by (simp flip: replicate_add)
qed

text \<open>Both derive the same key of 32 bytes, and neither fails, although one passes no salt and the other an empty one.\<close>

lemma derived_keys_agree:
  assumes "hkdf_law hmac hkdf derive_key"
  shows "native_derive_new hkdf key info = Some (web_derive_new derive_key key info)"
    and "length (web_derive_new derive_key key info) = KEY_SIZE"
proof -
  have law: "hmac_law hmac" using assms by (simp add: hkdf_law_def)
  have web: "web_derive_new derive_key key info = rfc5869 hmac [] key info KEY_SIZE"
    using assms by (simp add: hkdf_law_def web_derive_new_def)
  then show "length (web_derive_new derive_key key info) = KEY_SIZE"
    using length_hkdf_blocks [OF law] by (simp add: rfc5869_def sizes del: hkdf_blocks.simps)
  show "native_derive_new hkdf key info = Some (web_derive_new derive_key key info)"
    using assms unfolding web by (simp add: hkdf_law_def native_derive_new_def rfc5869_def sizes empty_salt [OF law])
qed

definition example_hmac :: hmac where
  "example_hmac k m = replicate 32 (sum_list k + sum_list m)"

definition example_hkdf :: "bytes option \<Rightarrow> bytes \<Rightarrow> bytes \<Rightarrow> nat \<Rightarrow> bytes option" where
  "example_hkdf salt ikm info len =
     (if len \<le> 255 * 32
      then Some (rfc5869 example_hmac (case salt of None \<Rightarrow> replicate 32 0 | Some x \<Rightarrow> x) ikm info len) else None)"

definition example_derive_key :: "bytes \<Rightarrow> bytes \<Rightarrow> bytes \<Rightarrow> nat \<Rightarrow> bytes" where
  "example_derive_key salt info base bits = rfc5869 example_hmac salt base info (bits div 8)"

lemma sum_list_zeros: "sum_list (replicate n (0 :: u8)) = 0"
  by (induction n) simp_all

lemma example_hkdf_law: "hkdf_law example_hmac example_hkdf example_derive_key"
  by (simp add: hkdf_law_def hmac_law_def example_hmac_def example_hkdf_def example_derive_key_def sum_list_zeros)

text \<open>C24: 
  A file encrypted in a browser is decrypted by the native client and the other way round:
  with the keys each implementation derives for itself, what either encrypts under a key of
  the link, a usage and any nonce, the other decrypts, and the ciphertexts are the same.
\<close>

theorem clients_interoperate:
  assumes law: "aead_law seal unseal" and hkdf: "hkdf_law hmac hkdf derive_key"
    and nonces: "length nonce = NONCE_SIZE" "length rnd = NONCE_SIZE"
  shows "\<exists>native_key ct.
    (\<forall>info. native_derive_new hkdf key info = Some (native_key info)) \<and>
    ct = content_encrypt (native_encrypt seal) (\<lambda>_. native_key) key nonce (from_plaintext rnd p) usage \<and>
    ct = content_encrypt (web_encrypt (subtle_of seal)) (web_derive_new derive_key) key nonce (from_plaintext rnd p) usage \<and>
    content_decrypt (native_decrypt unseal) (\<lambda>_. native_key) key ct usage = Inr p \<and>
    content_decrypt (web_decrypt (subtle_open_of unseal)) (web_derive_new derive_key) key ct usage = Inr p"
proof -
  let ?n = "web_derive_new derive_key key"
  let ?ct = "content_encrypt (native_encrypt seal) (\<lambda>_. ?n) key nonce (from_plaintext rnd p) usage"
  have same: "content_encrypt e (\<lambda>_. ?n) key nonce b usage = content_encrypt e (web_derive_new derive_key) key nonce b usage"
    "content_decrypt d (\<lambda>_. ?n) key ct usage = content_decrypt d (web_derive_new derive_key) key ct usage" for e d b ct
    by (simp_all add: content_encrypt_def content_decrypt_def)
  note roundtrip = content_cipher_roundtrip [OF law nonces refl, of "\<lambda>_. ?n" key p usage]
  show ?thesis
  proof (intro exI [of _ ?n] exI [of _ ?ct] conjI allI)
    show "native_derive_new hkdf key info = Some (?n info)" for info by (rule derived_keys_agree(1) [OF hkdf])
  qed (use roundtrip in \<open>simp_all add: same\<close>)
qed

theorem clients_interoperate_witness:
  "\<exists>ct. content_encrypt (web_encrypt (subtle_of example_seal)) (web_derive_new example_derive_key) [1, 2]
         (replicate 12 5) (from_plaintext (replicate 12 6) [10, 11]) Content = ct \<and>
       content_decrypt (native_decrypt example_open) (\<lambda>k i. the (native_derive_new example_hkdf k i)) [1, 2] ct Content
         = Inr [10, 11]"
proof -
  have n: "length (replicate 12 (5 :: u8)) = NONCE_SIZE" "length (replicate 12 (6 :: u8)) = NONCE_SIZE"
    by (simp_all add: sizes)
  obtain native_key where "\<forall>info. native_derive_new example_hkdf [1, 2] info = Some (native_key info)"
    "content_decrypt (native_decrypt example_open) (\<lambda>_. native_key) [1, 2]
       (content_encrypt (web_encrypt (subtle_of example_seal)) (web_derive_new example_derive_key) [1, 2]
          (replicate 12 5) (from_plaintext (replicate 12 6) [10, 11]) Content) Content = Inr [10, 11]"
    using clients_interoperate [OF example_aead example_hkdf_law n, of "[1, 2]" "[10, 11]" Content] by metis
  then show ?thesis by (simp add: content_decrypt_def split: sum.splits)
qed

subsection \<open>Clients\<close>

record api_client =
  ac_key :: cipher_key
  ac_endpoint :: url

definition api_client_new :: "url \<Rightarrow> cipher_key \<Rightarrow> api_client" where
  "api_client_new endpoint cipher_key = \<lparr>ac_key = cipher_key, ac_endpoint = endpoint\<rparr>"

text \<open>The download endpoint is kept as the text that its URL prints, without a path.\<close>

record uploader_client =
  uc_api :: api_client
  uc_download_endpoint :: string
  uc_transport :: transport

record downloader_client =
  dc_api :: api_client
  dc_id :: string
  dc_transport :: transport

text \<open>\<open>UploaderClient::new\<close> with the key it draws.\<close>

definition uploader_client_new :: "url \<Rightarrow> string \<Rightarrow> transport \<Rightarrow> cipher_key \<Rightarrow> uploader_client" where
  "uploader_client_new api_endpoint download_endpoint transport random =
     \<lparr>uc_api = api_client_new api_endpoint random, uc_download_endpoint = download_endpoint, uc_transport = transport\<rparr>"

definition from_download_url ::
  "(string \<Rightarrow> (string \<times> string option) option) \<Rightarrow> (string \<Rightarrow> bytes option) \<Rightarrow> string \<Rightarrow> url \<Rightarrow> transport \<Rightarrow>
   error + downloader_client" where
  "from_download_url parse dec download_url_str api_endpoint transport =
     (case parse_download_url parse dec download_url_str of
        Inl e \<Rightarrow> Inl e
      | Inr (download_id, cipher_key) \<Rightarrow>
          Inr \<lparr>dc_api = api_client_new api_endpoint cipher_key, dc_id = download_id, dc_transport = transport\<rparr>)"

text \<open>The constructors of the tests: an endpoint comes from the build's environment or is the local one.\<close>

definition testing_endpoint :: "(string \<Rightarrow> 'u option) \<Rightarrow> string option \<Rightarrow> string \<Rightarrow> 'u option" where
  "testing_endpoint parse var unset = parse (case var of Some s \<Rightarrow> s | None \<Rightarrow> unset)"

definition uploader_new_testing ::
  "(string \<Rightarrow> url option) \<Rightarrow> (string \<Rightarrow> string option) \<Rightarrow> string option \<Rightarrow> string option \<Rightarrow> transport \<Rightarrow> cipher_key \<Rightarrow>
   uploader_client option" where
  "uploader_new_testing parse_api parse_download api_var download_var transport random =
     (case testing_endpoint parse_api api_var ''http://localhost:8080'' of
        None \<Rightarrow> None
      | Some api_endpoint \<Rightarrow>
          map_option (\<lambda>download_endpoint. uploader_client_new api_endpoint download_endpoint transport random)
            (testing_endpoint parse_download download_var ''http://localhost:3000''))"

definition from_testing_download_url ::
  "(string \<Rightarrow> url option) \<Rightarrow> (string \<Rightarrow> (string \<times> string option) option) \<Rightarrow> (string \<Rightarrow> bytes option) \<Rightarrow>
   string option \<Rightarrow> string \<Rightarrow> transport \<Rightarrow> (error + downloader_client) option" where
  "from_testing_download_url parse_api parse dec api_var download_url_str transport =
     map_option (\<lambda>api_endpoint. from_download_url parse dec download_url_str api_endpoint transport)
       (testing_endpoint parse_api api_var ''http://localhost:8080'')"

text \<open>In the browser: the URL objects are parsed again, which panics if the parser disagrees.\<close>

definition web_uploader_new ::
  "(string \<Rightarrow> url option) \<Rightarrow> (string \<Rightarrow> string option) \<Rightarrow> string \<Rightarrow> string \<Rightarrow> cipher_key \<Rightarrow> uploader_client option" where
  "web_uploader_new parse_api parse_download api_endpoint download_endpoint random =
     (case parse_api api_endpoint of
        None \<Rightarrow> None
      | Some api \<Rightarrow>
          map_option (\<lambda>download. uploader_client_new api download Both random) (parse_download download_endpoint))"

subsection \<open>Provisioning and fetching the metadata\<close>

text \<open>A request as the relay sees it; \<open>expect\<close> panics on an endpoint that cannot be joined.\<close>

definition http_request :: "string \<Rightarrow> url \<Rightarrow> request" where
  "http_request method u =
     \<lparr>rq_method = method, rq_path = u_path u, rq_metadata = None, rq_position = None, rq_range = None,
      rq_content_range = None, rq_body = [], rq_rejected = Some (plain 400)\<rparr>"

definition provision_request ::
  "(url \<Rightarrow> string \<Rightarrow> url option) \<Rightarrow> (bytes \<Rightarrow> string) \<Rightarrow> (bytes \<Rightarrow> buffer \<Rightarrow> bytes \<Rightarrow> bytes) \<Rightarrow> (bytes \<Rightarrow> bytes \<Rightarrow> bytes) \<Rightarrow>
   (file_meta \<Rightarrow> string) \<Rightarrow> (string \<Rightarrow> bytes) \<Rightarrow> bytes \<Rightarrow> bytes \<Rightarrow> api_client \<Rightarrow> file_meta \<Rightarrow> request option" where
  "provision_request join enc encrypt hkdf to_json as_bytes rnd nonce c meta =
     map_option
       (\<lambda>u. (http_request ''POST'' u)\<lparr>rq_metadata :=
          Some (provision_form enc encrypt hkdf to_json as_bytes (ac_key c) rnd nonce meta)\<rparr>)
       (join (ac_endpoint c) ''/api/v1/files'')"

definition meta_request :: "(url \<Rightarrow> string \<Rightarrow> url option) \<Rightarrow> api_client \<Rightarrow> string \<Rightarrow> request option" where
  "meta_request join c download_id =
     map_option (http_request ''GET'') (meta_address join (ac_endpoint c) download_id)"

text \<open>What the client reads from the answers, once their status is a success.\<close>

definition created_json :: "response \<Rightarrow> error + string \<times> string" where
  "created_json r =
     (case body r of
        Created upload_url download_id \<Rightarrow> Inr (upload_url, download_id)
      | _ \<Rightarrow> Inl (HTTPClient ''error decoding response body''))"

record fetched =
  dm_content_url :: string
  dm_file :: file_meta

definition fetch_meta ::
  "(string \<Rightarrow> bytes option) \<Rightarrow> (bytes \<Rightarrow> buffer \<Rightarrow> bytes \<Rightarrow> error + bytes) \<Rightarrow> (bytes \<Rightarrow> bytes \<Rightarrow> bytes) \<Rightarrow>
   (bytes \<Rightarrow> string option) \<Rightarrow> (string \<Rightarrow> file_meta option) \<Rightarrow> api_client \<Rightarrow> response \<Rightarrow> error + fetched" where
  "fetch_meta dec decrypt hkdf utf8 parse_json c r =
     (case body r of
        DownloadMetaBody meta url \<Rightarrow>
          (case fetched_meta dec decrypt hkdf utf8 parse_json (ac_key c) meta of
             Inl e \<Rightarrow> Inl e
           | Inr m \<Rightarrow> Inr \<lparr>dm_content_url = url, dm_file = m\<rparr>)
      | _ \<Rightarrow> Inl (HTTPClient ''error decoding response body''))"

definition download_link :: "(bytes \<Rightarrow> string) \<Rightarrow> uploader_client \<Rightarrow> provisioned_file \<Rightarrow> string" where
  "download_link enc c p = formatted_download_url_and_key enc (uc_download_endpoint c) (pf_download_id p) (pf_key p)"

lemma joined_paths:
  assumes "join_law join" and "base64_law enc dec" and "session \<noteq> []"
  shows "join u ''/api/v1/files'' = Some (u\<lparr>u_path := [''api'', ''v1'', ''files'']\<rparr>)"
    and "meta_address join u (encode_id enc session) = Some (u\<lparr>u_path := [''api'', ''v1'', ''download'', encode_id enc session]\<rparr>)"
proof -
  let ?i = "encode_id enc session"
  have i: "?i = url_encode enc session" by (simp add: encode_id_def url_encode_def)
  have "plain_text ?i" "?i \<noteq> []"
    using set_url_encode [OF assms(2)] assms(3) by (simp_all add: i url_encode_def base64_enc_Nil [OF assms(2)])
  then have "join u (path_string [''api'', ''v1'', ''download'', ?i]) = Some (u\<lparr>u_path := [''api'', ''v1'', ''download'', ?i]\<rparr>)"
    using plain_words by (intro join_lawD [OF assms(1)]) simp_all
  then show "meta_address join u ?i = Some (u\<lparr>u_path := [''api'', ''v1'', ''download'', ?i]\<rparr>)"
    by (simp add: meta_address_def path_string_simps)
  have "join u (path_string [''api'', ''v1'', ''files'']) = Some (u\<lparr>u_path := [''api'', ''v1'', ''files'']\<rparr>)"
    using plain_words by (intro join_lawD [OF assms(1)]) (simp_all add: plain_text_def url_safe_chars_def)
  then show "join u ''/api/v1/files'' = Some (u\<lparr>u_path := [''api'', ''v1'', ''files'']\<rparr>)"
    by (simp add: path_string_simps)
qed

subsection \<open>The downloader learns what is offered\<close>

text \<open>C6: 
  The uploader provisions a file at the relay and shows a link; whoever opens the link has the
  key, asks the relay and learns the file's name and size and where its content is, whatever
  else the relay is doing.
\<close>

theorem downloader_learns_file:
  assumes laws: "base64_law (cd_encode cd) (cd_decode cd)" "aead_law seal unseal" "join_law join"
      "parse_law parse (uc_download_endpoint up)"
    and sizes: "length rnd = NONCE_SIZE" "length nonce = NONCE_SIZE" "length key = KEY_SIZE" "length (fill ID_LENGTH) = ID_LENGTH"
    and json: "utf8 (as_bytes (to_json meta)) = Some (to_json meta)" "parse_json (to_json meta) = Some meta"
    and up: "up = uploader_client_new endpoint download_endpoint transport key"
    and rq: "provision_request join (cd_encode cd) (native_encrypt seal) hkdf to_json as_bytes rnd nonce (uc_api up) meta = Some rq"
  shows "\<exists>r p d q s' r' upload_url i.
    cn_answer (sv_conns (arrives cd fill rq s) ! length (sv_conns s)) = Some r \<and> created_json r = Inr (upload_url, i) \<and>
    provision_file_async (ac_key (uc_api up)) (Inr (file_size meta)) (created_json r) = Some (Inr p) \<and>
    from_download_url parse (cd_decode cd) (download_link (cd_encode cd) up p) endpoint' transport' = Inr d \<and>
    meta_request join (dc_api d) (dc_id d) = Some q \<and>
    server_run cd (arrives cd fill rq s)
      [server_event.Arrives fill' q, SessionTurns (n_next (sv_node s)), server_event.Polls (Suc (length (sv_conns s))) now] = Some s' \<and>
    cn_answer (sv_conns s' ! Suc (length (sv_conns s))) = Some r' \<and>
    fetch_meta (cd_decode cd) (native_decrypt unseal) hkdf utf8 parse_json (dc_api d) r'
      = Inr \<lparr>dm_content_url = ''/api/v1/download/'' @ i @ ''/content'', dm_file = meta\<rparr>"
proof -
  let ?i = "encode_id (cd_encode cd) (fill ID_LENGTH)"
  have fill: "fill ID_LENGTH \<noteq> []" using sizes(4) by (auto simp: ID_LENGTH_def)
  have key: "ac_key (uc_api up) = key" by (simp add: up uploader_client_new_def api_client_new_def)
  obtain m where m: "m = provision_form (cd_encode cd) (native_encrypt seal) hkdf to_json as_bytes key rnd nonce meta" by simp
  have rqs: "rq_method rq = ''POST''" "rq_path rq = [''api'', ''v1'', ''files'']" "rq_metadata rq = Some m"
    using rq joined_paths(1) [OF laws(3,1) fill]
    by (auto simp: provision_request_def http_request_def key m)
  have new: "download_id_new ?i = Some ?i"
    using url_encode_safe(1) [of "cd_encode cd" "fill ID_LENGTH"]
    by (simp add: download_id_new_def encode_id_def url_encode_def)
  define p where "p = \<lparr>pf_size = file_size meta, pf_upload_path = ''/api/v1/upload/'' @ ?i, pf_download_id = ?i, pf_key = key\<rparr>"
  define d where "d = \<lparr>dc_api = api_client_new endpoint' key, dc_id = ?i, dc_transport = transport'\<rparr>"
  define q where "q = http_request ''GET'' (endpoint'\<lparr>u_path := [''api'', ''v1'', ''download'', ?i]\<rparr>)"
  have q: "meta_request join (dc_api d) (dc_id d) = Some q" "rq_method q = ''GET''" "rq_path q = [''api'', ''v1'', ''download'', ?i]"
    using joined_paths(2) [OF laws(3,1) fill]
    by (simp_all add: meta_request_def d_def api_client_new_def q_def http_request_def)
  have d: "from_download_url parse (cd_decode cd) (download_link (cd_encode cd) up p) endpoint' transport' = Inr d"
    using download_link_roundtrip [OF laws(1,4) fill _ new, of key] sizes(3)
    by (simp add: from_download_url_def download_link_def p_def d_def KEY_SIZE_def)
  obtain s' r r' where s': "server_run cd (arrives cd fill rq s)
      [server_event.Arrives fill' q, SessionTurns (n_next (sv_node s)), server_event.Polls (Suc (length (sv_conns s))) now] = Some s'"
    and r: "cn_answer (sv_conns (arrives cd fill rq s) ! length (sv_conns s)) = Some r"
      "body r = Created (''/api/v1/upload/'' @ ?i) ?i"
    and r': "cn_answer (sv_conns s' ! Suc (length (sv_conns s))) = Some r'"
      "body r' = DownloadMetaBody m (''/api/v1/download/'' @ ?i @ ''/content'')"
    using metadata_is_answered [where fill = fill and i = ?i, OF laws(1) fill rqs refl q(2,3)] by blast
  have created: "created_json r = Inr (''/api/v1/upload/'' @ ?i, ?i)" by (simp add: created_json_def r(2))
  have "fetched_meta (cd_decode cd) (native_decrypt unseal) hkdf utf8 parse_json key m = Inr meta"
    unfolding m by (rule metadata_roundtrip) (use laws sizes json in simp_all)
  then have f: "fetch_meta (cd_decode cd) (native_decrypt unseal) hkdf utf8 parse_json (dc_api d) r'
      = Inr \<lparr>dm_content_url = ''/api/v1/download/'' @ ?i @ ''/content'', dm_file = meta\<rparr>"
    by (simp add: fetch_meta_def r'(2) d_def api_client_new_def)
  have "provision_file_async (ac_key (uc_api up)) (Inr (file_size meta)) (created_json r) = Some (Inr p)"
    by (simp add: provision_file_async_def created new key p_def)
  with created d q(1) s' r(1) r'(1) f show ?thesis by blast
qed

text \<open>A relay that serves nobody else, with the libraries of the examples.\<close>

definition example_endpoint :: url where
  "example_endpoint = \<lparr>u_scheme = ''https'', u_authority = ''r.invalid'', u_path = []\<rparr>"

definition example_uploader :: uploader_client where
  "example_uploader = uploader_client_new example_endpoint ''https://g.invalid'' Both (replicate 32 1)"

definition example_provision :: request where
  "example_provision =
     the (provision_request example_join b64_encode (native_encrypt example_seal) (@) file_name ascii
       (replicate 12 3) (replicate 12 4) (uc_api example_uploader) \<lparr>file_name = ''a.txt'', file_size = 5\<rparr>)"

theorem downloader_learns_file_witness:
  "\<exists>r p d q s' r' i.
    cn_answer (sv_conns (arrives \<lparr>cd_encode = b64_encode, cd_decode = b64_decode, cd_pb = (\<lambda>_. [])\<rparr>
      (\<lambda>n. replicate n 7) example_provision server_new) ! 0) = Some r \<and>
    provision_file_async (replicate 32 1) (Inr 5) (created_json r) = Some (Inr p) \<and>
    from_download_url example_parse b64_decode (download_link b64_encode example_uploader p) example_endpoint Both = Inr d \<and>
    meta_request example_join (dc_api d) (dc_id d) = Some q \<and>
    server_run \<lparr>cd_encode = b64_encode, cd_decode = b64_decode, cd_pb = (\<lambda>_. [])\<rparr>
      (arrives \<lparr>cd_encode = b64_encode, cd_decode = b64_decode, cd_pb = (\<lambda>_. [])\<rparr> (\<lambda>n. replicate n 7) example_provision server_new)
      [server_event.Arrives (\<lambda>_. []) q, SessionTurns 0, server_event.Polls 1 0] = Some s' \<and>
    cn_answer (sv_conns s' ! 1) = Some r' \<and>
    fetch_meta b64_decode (native_decrypt example_open) (@) (\<lambda>bs. Some (map (\<lambda>b. char_of (unat b)) bs))
      (\<lambda>s. Some \<lparr>file_name = s, file_size = 5\<rparr>) (dc_api d) r'
      = Inr \<lparr>dm_content_url = ''/api/v1/download/'' @ i @ ''/content'', dm_file = \<lparr>file_name = ''a.txt'', file_size = 5\<rparr>\<rparr>"
proof -
  let ?cd = "\<lparr>cd_encode = b64_encode, cd_decode = b64_decode, cd_pb = (\<lambda>_. [])\<rparr> :: codecs"
  let ?m = "\<lparr>file_name = ''a.txt'', file_size = 5\<rparr>"
  have laws: "base64_law (cd_encode ?cd) (cd_decode ?cd)" "parse_law example_parse (uc_download_endpoint example_uploader)"
    using b64_law example_parse_law by (simp_all add: example_uploader_def uploader_client_new_def)
  have "example_join u ''/api/v1/files'' \<noteq> None" for u
    using joined_paths(1) [OF example_join_law b64_law, of "[1]"] by simp
  then have rq: "provision_request example_join (cd_encode ?cd) (native_encrypt example_seal) (@) file_name ascii
      (replicate 12 3) (replicate 12 4) (uc_api example_uploader) ?m = Some example_provision"
    unfolding example_provision_def by (auto simp: provision_request_def)
  have key: "ac_key (uc_api example_uploader) = replicate 32 1"
    by (simp add: example_uploader_def uploader_client_new_def api_client_new_def)
  have n: "n_next (sv_node server_new) = 0" "length (sv_conns server_new) = 0"
    by (simp_all add: server_new_def node_new_def)
  from downloader_learns_file [where s = server_new and now = 0 and fill = "\<lambda>n. replicate n 7" and fill' = "\<lambda>_. []"
      and endpoint' = example_endpoint and transport' = Both and meta = ?m
      and ?utf8.0 = "\<lambda>bs. Some (map (\<lambda>b. char_of (unat b)) bs)" and parse_json = "\<lambda>s. Some \<lparr>file_name = s, file_size = 5\<rparr>",
      OF laws(1) example_aead example_join_law laws(2) _ _ _ _ _ _ example_uploader_def rq]
  show ?thesis by (simp add: sizes ascii_text key n) blast
qed

subsection \<open>Faces and errors at the edge\<close>

text \<open>\<open>download_url_without_cipher_key\<close>, as text, and its test.\<close>

definition download_url_without_cipher_key :: "uploader_client \<Rightarrow> string \<Rightarrow> string" where
  "download_url_without_cipher_key c download_id = uc_download_endpoint c @ download_url_path download_id"

definition test_download_url :: "(string \<Rightarrow> url option) \<Rightarrow> (string \<Rightarrow> string option) \<Rightarrow> cipher_key \<Rightarrow> bool" where
  "test_download_url parse_api parse_download random =
     (case uploader_new_testing parse_api parse_download None None Both random of
        None \<Rightarrow> False
      | Some c \<Rightarrow>
          map_option (download_url_without_cipher_key c) (download_id_new ''abc123'')
            = Some ''http://localhost:3000/download/abc123'')"

lemma download_url_holds:
  assumes "parse_api ''http://localhost:8080'' \<noteq> None" and "parse_download ''http://localhost:3000'' = Some ''http://localhost:3000''"
  shows "test_download_url parse_api parse_download random"
  using assms
  by (auto simp: test_download_url_def uploader_new_testing_def testing_endpoint_def uploader_client_new_def
      download_url_without_cipher_key_def download_url_path_def download_id_new_def)

lemma link_extends_url:
  "download_link enc c p
     = download_url_without_cipher_key c (pf_download_id p) @ ''#cipher_key='' @ cipher_key_serialized enc (pf_key p)"
  by (simp add: download_link_def download_url_without_cipher_key_def formatted_download_url_and_key_def)

definition web_from_download_url ::
  "(string \<Rightarrow> url option) \<Rightarrow> (string \<Rightarrow> (string \<times> string option) option) \<Rightarrow> (string \<Rightarrow> bytes option) \<Rightarrow> string \<Rightarrow> string \<Rightarrow>
   (error + downloader_client) option" where
  "web_from_download_url parse_api parse dec download_url api_endpoint =
     map_option (\<lambda>api. from_download_url parse dec download_url api Both) (parse_api api_endpoint)"

text \<open>A key is never shown: what debugging prints of it is the same for all keys.\<close>

definition cipher_key_debug :: "cipher_key \<Rightarrow> string" where
  "cipher_key_debug key = ''CipherKey { bytes: '' @ [CHR 0x22] @ ''[REDACTED]'' @ [CHR 0x22] @ '' }''"

text \<open>What javascript threw at a read or a write: a string is its own message, anything else is shown.\<close>

datatype js_thrown = ThrownString string | ThrownOther string

definition upload_file_read_error :: "js_thrown \<Rightarrow> string" where
  "upload_file_read_error from_js = (case from_js of ThrownString s \<Rightarrow> s | ThrownOther debug \<Rightarrow> debug)"

definition download_file_write_error :: "js_thrown \<Rightarrow> string" where
  "download_file_write_error from_js = (case from_js of ThrownString s \<Rightarrow> s | ThrownOther debug \<Rightarrow> debug)"

text \<open>
  An error of the websocket library: a handshake that was answered by HTTP, with its status and
  its \<open>Retry-After\<close> header, an error of the operating system, or any other.
\<close>

datatype 'h tungstenite_error = TgHttp u16 "'h option" | TgIo string | TgOther string

definition websocket_error_of ::
  "('h \<Rightarrow> string option) \<Rightarrow> 'h tungstenite_error \<Rightarrow> websocket_error" where
  "websocket_error_of to_str e =
     (case e of
        TgHttp code header \<Rightarrow>
          WsHttpErrorResponse ''failed to connect to websocket'' code
            (case response_retry_after to_str header of Inl _ \<Rightarrow> None | Inr retry_after \<Rightarrow> retry_after)
      | TgIo source \<Rightarrow> WsIO source
      | TgOther source \<Rightarrow> WsClient source)"

text \<open>
  A handshake is retried like a request that is answered with the same status and header, but
  where the header cannot be read: a request then fails for good, a handshake goes by its status.
\<close>

lemma handshake_retried_like_request:
  assumes "\<not> is_success code" and "response_retry_after to_str header = Inr after"
  shows "response_ok_or to_str message code header = Inl e \<Longrightarrow>
    error_retriability e = error_retriability (error_of_websocket (websocket_error_of to_str (TgHttp code header)))"
  using assms by (cases after) (auto simp: response_ok_or_def websocket_error_of_def)

lemma handshake_ignores_unreadable_header:
  assumes "\<not> is_success code" and "response_retry_after to_str header = Inl e" and "status_code code = Some c"
  shows "error_retriability (error_of_websocket (websocket_error_of to_str (TgHttp code header)))
      = (if is_server_error c then Transient else Permanent)"
    and "response_ok_or to_str message code header = Inl e"
  using assms by (simp_all add: response_ok_or_def websocket_error_of_def)

end
