(* ===== verification/Spec2Isabelle.thy ===== *)
theory Spec2Isabelle
  imports Relay_Session_Replies Relay_Session_Pipe Relay_Session_Frames Relay_Http Relay_Websocket Relayed_Transfer Client_Session Client_Exchange Client_Native_File Client_P2p
    Client_Rtc Client_Negotiation Client_Callbacks Cli Relay_Settling Derive_Error Unit_Tests Relay_Api_Tests Relay_Isolation Client_Setup
begin

text \<open>
  \<^bold>\<open>glopfile\<close> sends a file from one person to another: the uploader encrypts it and shows a
  link that carries a session id and the key; the downloader follows the link and receives
  the file either over a relay or over a peer-to-peer connection, falling back from one to
  the other. This development models the Rust code of the relay (\<^verbatim>\<open>src/glopfile-relay/src\<close>), of
  the client library (\<^verbatim>\<open>src/rust-client/glopfile/src\<close>) and of the command line client
  (\<^verbatim>\<open>src/rust-client/cli/src/main.rs\<close>). Paths below are relative to these.

  \<^bold>\<open>How the parts interact.\<close> The relay's handlers (\<^verbatim>\<open>api.rs\<close>) look a session up in the registry
  and send its task (\<^verbatim>\<open>session.rs\<close>) commands, each with a channel for the reply; the task holds at
  most one chunk of content until a downloader takes it, and relays websocket frames
  (\<^verbatim>\<open>websocket.rs\<close>) between the two peers. The client's \<open>ApiClient\<close> (\<^verbatim>\<open>api_client.rs\<close>) makes the
  requests with retries; uploader and downloader (\<^verbatim>\<open>uploader_client.rs\<close>, \<^verbatim>\<open>downloader_client.rs\<close>)
  run them beside a peer-to-peer transfer (\<^verbatim>\<open>p2p.rs\<close>), whose signaling goes over the relay's
  websockets, encrypted.

  \<^bold>\<open>Conventions.\<close> A Rust struct is a record and an enum a datatype with the source's names; \<open>u64\<close>
  and its kin are words, so that arithmetic wraps where the release build does, and a
  function whose debug build panics on overflow is treated as wrapping; \<open>Result\<close> is a sum with the error
  on the left; \<open>None\<close> as the value of a whole operation is a panic. An asynchronous function
  is a function of what the outside answers to it (network, timers, javascript promises, a
  peer), given as an argument, or of the list of such answers, poll by poll; a task is a
  step function over its state that returns its effects, and \<open>run_machine\<close> runs it. Code that is not
  in the repository is a parameter with a named law: \<open>aead_law\<close> (AES-GCM), \<open>base64_law\<close>, \<open>codec_law\<close>
  (prost), \<open>takes_in_order\<close> and \<open>buffers_file\<close> (the target of a download, and tokio's buffered writer
  that is the native one), the URL and header parsers; every property that uses a law has a witness with a
  concrete function that satisfies it.

  \<^bold>\<open>Shared theories.\<close>
  \<^item> \<open>Glop_Prelude\<close>: machine types, \<open>ControlFlow\<close>, lists seen through 64-bit lengths, runs, and the
    locales \<open>guarded_invariant\<close> and \<open>machine_invariant\<close> of their invariants.
  \<^item> \<open>Rust_Str\<close>: \<open>str\<close> and the decimal parsing and printing of integers; \<open>Url_Base64\<close>: the URL-safe
    alphabet of \<^verbatim>\<open>id.rs\<close> and \<^verbatim>\<open>url_safe_base64.rs\<close>; \<open>Wire_Messages\<close>: the protobuf messages.

  \<^bold>\<open>The relay.\<close>
  \<^item> \<open>Relay_Session\<close>: \<open>State\<close> and every command of \<^verbatim>\<open>session.rs\<close>, as \<open>handle\<close>. \<open>Relay_Session_Inv\<close> has its
    invariants (the rendezvous of downloader, uploader and held chunk; the held frames),
    \<open>Relay_Session_Replies\<close> the balance of replies (answered once, none forgotten, how a
    session ends), \<open>Relay_Session_Pipe\<close> what a session delivers, \<open>Relay_Session_Frames\<close> what
    becomes of the websocket frames, and \<open>Relay_Calls\<close> the methods of
    its handle with the types of their replies.
  \<^item> \<open>Relay_Registry\<close>, \<open>Relay_Node\<close>: \<^verbatim>\<open>id.rs\<close>, \<^verbatim>\<open>token.rs\<close>, \<^verbatim>\<open>registry.rs\<close> and all the tasks of a node; each
    has handled, in order, a beginning of the commands sent to its session, from the state it was
    created in, and ends with a command that ends it or when its last handle is gone. The locale
    \<open>session_table\<close> states what the registry promises.
  \<^item> \<open>Relay_Range\<close>, \<open>Relay_Api\<close>, \<open>Relay_Http\<close>: the range headers, every handler of \<^verbatim>\<open>api.rs\<close> as a state
    machine over replies and body items, and what they promise together.
  \<^item> \<open>Relay_System\<close>: one session with any number of upload handlers that interleave freely;
    nothing is assumed of the commands but of the bodies of the uploads.
  \<^item> \<open>Relay_Websocket\<close>: the select loop of \<^verbatim>\<open>websocket.rs\<close> with its timers.
  \<^item> \<open>Relay_Server\<close>: the whole relay, a state of the node and of every connection with a step for each
    arrival, poll, websocket turn, cancellation, turn of a session and end of a session that no
    handle holds any more. \<open>Relay_Settling\<close> shows that
    its own steps end, and that every request is then answered or waits for a peer; \<open>Relay_Isolation\<close>
    that its sessions do not see each other.

  \<^bold>\<open>The client.\<close>
  \<^item> \<open>Client_Error\<close>: \<^verbatim>\<open>error.rs\<close>, \<^verbatim>\<open>util/retry.rs\<close> and the close statuses of \<^verbatim>\<open>websocket.rs\<close>; the retry
    loop.
  \<^item> \<open>Client_Cipher\<close>: \<^verbatim>\<open>cipher.rs\<close> with both implementations (the locale \<open>cipher_impl\<close>); \<open>Client_File\<close>: the encrypted file and the
    state machine of the file being filled. What its target has taken of the plaintext (\<open>df_taken\<close>) is part
    of its state, and a poll of the pending write may take some of it and wait, or fail
    with some of it taken; the polls on an actual target, an argument with a law, are shown to be
    such polls. \<open>Client_Native_File\<close>, \<open>Client_Web_File\<close>: the native and the browser's files beneath them,
    the native target with what is on disk while and after it is written.
  \<^item> \<open>Client_Link\<close>, \<open>Client_Api\<close>, \<open>Client_Download\<close>: links and addresses, the requests of \<^verbatim>\<open>api_client.rs\<close>,
    and the relayed download that resumes (the locale
    \<open>retried\<close> carries an invariant through its retries); \<open>Relayed_Transfer\<close> puts the relay between the two clients.
  \<^item> \<open>Client_Downloader\<close>, \<open>Client_Transfer\<close>: the two sides of the peer-to-peer protocol, and their
    exchange over a reliable ordered channel as a step relation.
  \<^item> \<open>Client_Session\<close>: the choice of transports, the fallback loop, timers, progress, the uploader's select loop,
    over the outcomes of their parts. \<open>Client_Fallback\<close> is the whole download and \<open>Client_Uploading\<close> the
    whole upload, event by event, with the relayed transfer of each taken apart into its awaits
    (and shown to be the one of \<open>Client_Download\<close> and \<open>Client_Api\<close>); \<open>Client_Exchange\<close> runs the two against each other.
  \<^item> \<open>Client_Websocket\<close>, \<open>Client_Callbacks\<close>: the reconnecting websocket, both its connections and the
    browser's callbacks. \<open>Client_P2p\<close>, \<open>Client_Rtc\<close>: signaling, negotiation and the transfer loop of
    \<^verbatim>\<open>p2p.rs\<close>, and the two WebRTC stacks; the locales \<open>p2p_handler\<close> and \<open>rtc_peer\<close> are the traits
    \<open>PeerToPeerClientHandler\<close> and \<open>RtcPeerConnection\<close>, each interpreted on all its implementations.
    \<open>Client_Negotiation\<close> runs the clients of downloader and uploader against each other, from the offer
    to the last candidate, over a relay that keeps the order of messages but may lose some.
  \<^item> \<open>Client_Drivers\<close>, \<open>Cli\<close>: the blocking, foreign-function and javascript calls, the errors as
    their users see them, and the command line client with its progress thread.
  \<^item> \<open>Client_Setup\<close>: the clients' constructors, the keys that both ciphers derive, and the requests
    that provision a file and fetch its metadata, made to \<open>Relay_Server\<close>.
  \<^item> \<open>Derive_Error\<close>: the attribute macro of \<^verbatim>\<open>macros/src\<close>.
  \<^item> \<open>Unit_Tests\<close>: the assertions of the repository's unit tests, which the definitions satisfy.
    \<open>Relay_Api_Tests\<close>: the relay's end-to-end tests (\<^verbatim>\<open>tests/api.rs\<close>), run on \<open>Relay_Server\<close>.

  \<^bold>\<open>What is shown.\<close> The theorems of this theory follow a file from the reads of the uploader
  to the target of the downloader: peer to peer, over the relay, by both ways at once, and between
  two whole clients; the first properties of the components are their parts. The others are the invariants, bounds, round trips, error
  behaviour and endings named in the texts above them. A few state defects: what the code
  does where it was meant to do something else.

  \<^bold>\<open>Bounds and fuel.\<close> No definition of the code takes fuel (the \<open>drive\<close> of the relay's tests counts the rounds it waits for). Loops that depend on the outside consume the list of
  its answers, and a result \<open>None\<close> or an unfinished outcome says that the list ended first; termination is
  then proved of the loop (the fallback loop, the retry loop, the peer-to-peer exchange with
  at most two turns per byte and four more, the progress thread), with no bound chosen. Contents
  are assumed shorter than \<open>2 ^ 64\<close> bytes with their tag, which is what their length field can hold; that
  memory for them can be had is left aside, but for \<open>opened_file\<close>, which says when the downloader cannot
  even ask for it, and AES-GCM is assumed to seal them, which it does below \<open>2 ^ 36 - 32\<close> bytes.

  \<^bold>\<open>Not modelled.\<close> Starting the relay and its logging (\<^verbatim>\<open>main.rs\<close>, \<^verbatim>\<open>build.rs\<close>); argument parsing, drawing and
  the formatting of floating point numbers in the command line client; the declarations for
  wasm-bindgen and UniFFI, re-exports and task spawning; the iOS and web applications, which
  are Swift and TypeScript with a few lines of Rust glue; the client's tests against a running relay; memory wiping of keys. HTTP, TLS,
  WebRTC and the schedulers are the outside: their answers and their order are arbitrary. The handler of a peer's message runs to its
  end before the next event: the awaits of its sends, flushes and closes are answered in its arguments, and no
  other part of the client comes in between. A retry schedule is the
  list of its delays, whatever the backon crate draws them from.
\<close>

subsection \<open>From file to file\<close>

text \<open>C2: From the uploader's file to the downloader's, peer to peer: whatever the uploader reads
  from its file and encrypts, a download that starts afresh with the announced size ends,
  however the peers take turns, after at most two turns for every byte of the ciphertext and
  four more, it can always go on to its end, and what is then in the target file is what was
  read.\<close>

theorem file_reaches_downloader:
  assumes "aead_law seal unseal" and "length nonce = NONCE_SIZE" and "length rnd = NONCE_SIZE"
    and "encrypt_file (native_encrypt seal) hkdf key rnd nonce reads = Inr F"
    and "read_all reads = Inr contents" and "length contents + 28 < 2 ^ 64"
    and "(p2p_step (\<lambda>ct. content_decrypt (native_decrypt unseal) hkdf key ct Content) F ^^ k)
      (pair_start (new_download_state (decrypt_file (len64 contents)) (len64 contents))) p"
  shows "k \<le> 2 * (length contents + 28) + 4 \<and>
    (pp_to_up p = [] \<and> pp_to_down p = [] \<longrightarrow>
       pp_finished p \<and> pp_served p \<and> df_target (ds_file (pp_state p)) = Some contents) \<and>
    (\<exists>j q. (p2p_step (\<lambda>ct. content_decrypt (native_decrypt unseal) hkdf key ct Content) F ^^ j) p q \<and>
       pp_finished q \<and> pp_served q \<and> df_target (ds_file (pp_state q)) = Some contents)"
proof -
  let ?st = "new_download_state (decrypt_file (len64 contents)) (len64 contents)"
  let ?dec = "\<lambda>ct. content_decrypt (native_decrypt unseal) hkdf key ct Content"
  note e = encrypt_file_decrypts [OF assms(1-5)]
  have len: "length F = length contents + 28" using e(2) by (simp add: sizes)
  have "len64 contents + extra_ciphertext_len = len64 F"
    by (simp add: len64_def extra_ciphertext_len_def len sizes)
  then have "holds_first F 0 ?st"
    by (simp add: holds_first_def new_download_state_def decrypt_file_def window_ok_def)
  moreover have "length F < 2 ^ 64" "ds_requested ?st = of_nat 0"
    using len assms(6) by (simp_all add: new_download_state_def)
  ultimately have p: "k \<le> 2 * length F + 4" "pair_inv contents F p" and l: "length F < 2 ^ 64"
    using pair_outcome [OF e(1) _ _ _ assms(7), of 0] by simp_all
  from pair_can_complete [where decrypt = ?dec and F = F, OF p(2) l e(1)] pair_quiet
  have "\<exists>j q. (p2p_step ?dec F ^^ j) p q \<and> pp_finished q \<and> pp_served q \<and>
      df_target (ds_file (pp_state q)) = Some contents" by blast
  then show ?thesis using p pair_quiet [of contents F p] len by auto
qed

theorem file_reaches_downloader_witness:
  "\<exists>k p. (p2p_step (\<lambda>ct. content_decrypt (native_decrypt example_open) (@) [1] ct Content)
       (content_encrypt (native_encrypt example_seal) (@) [1] (replicate 12 5)
         (from_plaintext (replicate 12 6) [7]) Content) ^^ k)
     (pair_start (new_download_state (decrypt_file 1) 1)) p \<and>
     pp_finished p \<and> df_target (ds_file (pp_state p)) = Some [7]"
proof -
  let ?F = "content_encrypt (native_encrypt example_seal) (@) [1] (replicate 12 5)
    (from_plaintext (replicate 12 6) [7]) Content"
  let ?p = "pair_start (new_download_state (decrypt_file (len64 [7 :: u8])) (len64 [7 :: u8]))"
  have "(p2p_step (\<lambda>ct. content_decrypt (native_decrypt example_open) (@) [1] ct Content) ?F ^^ 0) ?p ?p"
    by simp
  from file_reaches_downloader [where nonce = "replicate 12 5" and rnd = "replicate 12 6" and
      reads = "[Inr [7]]", OF example_aead _ _ _ _ _ this, THEN conjunct2, THEN conjunct2]
  show ?thesis by (auto simp: sizes encrypt_file_def read_plaintext_to_end_def len64_def)
qed

subsection \<open>From file to file, over the relay\<close>

text \<open>C3: From the uploader's file to the downloader's, over the relay: let the uploader encrypt what
  it reads, and let each attempt of the download be refused or meet a relay to which only the
  uploader's client uploads (any number of requests, resumed, overlapping or broken off,
  interleaved with anything else). Whatever the attempts receive of their responses and however
  the write to the target ends, the client does not panic, reports success only with the
  uploader's content in the target, has not completed the target otherwise, and the target has
  never taken anything but a beginning of that content.\<close>

theorem file_reaches_downloader_relayed:
  assumes "aead_law seal unseal" and "length nonce = NONCE_SIZE" and "length rnd = NONCE_SIZE"
    and "encrypt_file (native_encrypt seal) hkdf key rnd nonce reads = Inr F"
    and "read_all reads = Inr contents" and "length contents + 28 < 2 ^ 64"
    and "list_all (\<lambda>a. client_attempt F (dy_relay a)) attempts"
  shows "\<exists>result f log.
    download_content (\<lambda>ct. content_decrypt (native_decrypt unseal) hkdf key ct Content) Some
      (len64 contents) (decrypt_file (len64 contents)) (map (relay_server pb i m) attempts) schedule
      = Some (result, f, log) \<and>
    df_target f = (if result = Some (Inr ()) then Some contents else None) \<and>
    prefix (df_taken f) contents"
proof -
  let ?dec = "\<lambda>ct. content_decrypt (native_decrypt unseal) hkdf key ct Content"
  let ?f = "decrypt_file (len64 contents)" and ?n = "len64 contents + extra_ciphertext_len"
  note e = encrypt_file_decrypts [OF assms(1-5)]
  have len: "length F = length contents + 28" using e(2) by (simp add: sizes)
  have n: "unat ?n = length F"
    using len assms(6) by (simp add: unat_word_ariths unat_len64 extra_ciphertext_len_def sizes)
  have "relayed_inv F ?n (?f, [])"
    using len assms(6) by (simp add: relayed_inv_def partial_file_def decrypt_file_def)
  moreover have "list_all (serves F) (map (relay_server pb i m) attempts)"
    using assms(6,7) len by (simp add: list_all_iff client_attempt_serves)
  ultimately obtain result f log where
    d: "download_content ?dec Some (len64 contents) ?f (map (relay_server pb i m) attempts) schedule
      = Some (result, f, log)" and
    o: "case result of None \<Rightarrow> relayed_inv F ?n (f, log) | Some (Inl _) \<Rightarrow> left_begun ?dec F ?n (fst (f, log))
      | Some (Inr _) \<Rightarrow> relayed_done ?dec F ?n (f, log)"
    using relayed.retry_with_outcome [of F ?n "(?f, [])" "map (relay_server pb i m) attempts" ?dec Some
        "len64 contents" schedule] unfolding download_content_def by auto
  have "df_target f = (if result = Some (Inr ()) then Some contents else None) \<and> prefix (df_taken f) contents"
    using o e(1) n
    by (cases result; cases "the result")
      (auto simp: relayed_inv_def partial_file_def relayed_done_def left_begun_def target_begins_def
        split: write_state.splits)
  then show ?thesis using d by blast
qed

theorem file_reaches_downloader_relayed_witness:
  "\<exists>f log. download_content (\<lambda>ct. content_decrypt (native_decrypt example_open) (@) [1] ct Content)
       Some 1 (decrypt_file 1)
       [relay_server (\<lambda>_. []) [1] ''m'' (example_try
          (content_encrypt (native_encrypt example_seal) (@) [1] (replicate 12 5)
            (from_plaintext (replicate 12 6) [7]) Content))] [] = Some (Some (Inr ()), f, log) \<and>
     df_target f = Some [7]"
proof -
  let ?F = "content_encrypt (native_encrypt example_seal) (@) [1] (replicate 12 5)
    (from_plaintext (replicate 12 6) [7]) Content"
  let ?dec = "\<lambda>ct. content_decrypt (native_decrypt example_open) (@) [1] ct Content"
  have enc: "encrypt_file (native_encrypt example_seal) (@) [1] (replicate 12 6) (replicate 12 5) [Inr [7]]
      = Inr ?F" by (simp add: encrypt_file_def read_plaintext_to_end_def)
  have sz: "length (replicate 12 (5 :: u8)) = NONCE_SIZE" "length (replicate 12 (6 :: u8)) = NONCE_SIZE"
    and rd: "read_all [Inr [7]] = Inr [7]" by (simp_all add: sizes)
  note e = encrypt_file_decrypts [OF example_aead sz enc rd]
  have len: "length ?F = 29" using e(2) by (simp add: sizes)
  have "list_all (\<lambda>a. client_attempt ?F (dy_relay a)) [example_try ?F]"
    using len by (simp add: example_attempt_client example_try_def)
  from file_reaches_downloader_relayed [OF example_aead sz enc rd _ this, of "\<lambda>_. []" "[1]" "''m''" "[]"]
  obtain result f log where
    d: "download_content ?dec Some 1 (decrypt_file 1) [relay_server (\<lambda>_. []) [1] ''m'' (example_try ?F)] []
      = Some (result, f, log)" and t: "df_target f = (if result = Some (Inr ()) then Some [7] else None)"
    by (auto simp: len64_def)
  have "\<exists>f log. download_content ?dec Some 1 (decrypt_file 1)
      [relay_server (\<lambda>_. []) [1] ''m'' (example_try ?F)] [] = Some (Some (Inr ()), f, log) \<and>
      df_target f = Some [7]"
  proof (rule complete_response_finishes [where n = 29 and F = "?F"])
    show "unat (29 :: u64) = length ?F" "length ?F < 2 ^ 64" using len by simp_all
    show "partial_file ?F 29 (decrypt_file 1)"
      by (simp add: partial_file_def decrypt_file_def extra_ciphertext_len_def sizes)
    show "?dec ?F = Inr [7]" by (rule e(1))
    fix q :: u64 assume "unat q \<le> length ?F"
    then have "relay_items (\<lambda>_. []) [1] ''m'' (example_attempt ?F) q = [drop (unat q) ?F]"
      using len by (intro example_attempt_items) simp_all
    then show "\<exists>bs. concat bs = drop (unat q) ?F \<and>
        relay_server (\<lambda>_. []) [1] ''m'' (example_try ?F) (download_range q)
          = \<lparr>dr_sent = Inr (200, None), dr_items = map StreamData bs, dr_io = None\<rparr>"
      by (intro exI [of _ "[drop (unat q) ?F]"])
        (simp add: relay_server_def download_position_range stream_end_def example_try_def example_attempt_def)
  qed
  then show ?thesis using d t by auto
qed

subsection \<open>From file to file, by either way\<close>

text \<open>C4: From the uploader's file to the downloader's, with the fallback: let the uploader encrypt what
  it reads, and let the download use both transports, in any interleaving of relayed and
  peer-to-peer events in which relay and peer serve that ciphertext, except for one: that an
  answer of the peer which comes late is taken by a handler that then fails, while a relayed
  transfer has its request out (\<open>no_late_failure\<close> rules it out; it is the defect in the ordering
  of \<open>download_p2p\<close> that \<open>late_answer_misplaces_relay\<close> shows). Then the target takes nothing but
  a beginning of what was read, and is complete only with all of it; a download that reports
  success has delivered it; and as long as no write to the target failed, the download is not
  over and the response of its relayed transfer has not ended with the file still short, it can
  still go on to deliver it.\<close>

theorem file_reaches_downloader_either_way:
  assumes "aead_law seal unseal" and "length nonce = NONCE_SIZE" and "length rnd = NONCE_SIZE"
    and "encrypt_file (native_encrypt seal) hkdf key rnd nonce reads = Inr F"
    and "read_all reads = Inr contents" and "length contents + 28 < 2 ^ 64"
    and "d = (\<lambda>ct. content_decrypt (native_decrypt unseal) hkdf key ct Content)"
    and "y0 = fallback_start Both delays (decrypt_file (len64 contents)) (len64 contents)"
    and "honest_run Both delays decode d to_str send F y0 evs"
    and "no_late_failure Both delays decode d to_str send y0 evs"
    and "fallback_run Both delays decode d to_str send y0 evs = Some y"
  shows "prefix (df_taken (ds_file (fb_state y))) contents \<and>
    df_target (ds_file (fb_state y)) \<in> {None, Some contents} \<and>
    (fb_phase y = Over (Inr ()) \<longrightarrow> df_target (ds_file (fb_state y)) = Some contents) \<and>
    (df_state (ds_file (fb_state y)) \<noteq> Poisoned \<and> goes_on y \<longrightarrow>
       (\<exists>evs' y'. honest_run Both delays decode d to_str send F y evs' \<and>
          fallback_run Both delays decode d to_str send y evs' = Some y' \<and>
          fb_phase y' = Over (Inr ()) \<and> df_target (ds_file (fb_state y')) = Some contents))"
proof -
  note e = encrypt_file_decrypts [OF assms(1-5)]
  have "length F = length contents + 28" using e(2) by (simp add: sizes)
  then have "unat (len64 contents + extra_ciphertext_len) = length F"
    using assms(6) by (simp add: unat_word_ariths unat_len64 extra_ciphertext_len_def sizes)
  moreover have "d F = Inr contents" using e(1) assms(7) by simp
  ultimately show ?thesis
    using fallback_delivers [where decrypt = d and F = F and transport = Both, OF _ _ assms(8-11)] by blast
qed

theorem file_reaches_downloader_either_way_witness:
  "\<exists>evs y. fallback_run Both [] (greeting_or_data 0)
       (\<lambda>ct. content_decrypt (native_decrypt example_open) (@) [1] ct Content) (\<lambda>_ :: unit. None) (\<lambda>_. None)
       (fallback_start Both [] (decrypt_file 1) 1) (SetUp # evs) = Some y \<and>
     fb_phase y = Over (Inr ()) \<and> df_target (ds_file (fb_state y)) = Some [7]"
proof -
  let ?F = "content_encrypt (native_encrypt example_seal) (@) [1] (replicate 12 5)
    (from_plaintext (replicate 12 6) [7]) Content"
  let ?d = "\<lambda>ct. content_decrypt (native_decrypt example_open) (@) [1] ct Content"
  let ?y = "fallback_start Both [] (decrypt_file (len64 [7 :: u8])) (len64 [7 :: u8])"
  have run: "fallback_run Both [] (greeting_or_data 0) ?d (\<lambda>_ :: unit. None) (\<lambda>_. None) ?y [SetUp]
      = Some (?y\<lparr>fb_phase := Connecting\<rparr>)"
    by (simp add: fallback_start_def fallback_step_def)
  have honest: "honest_run Both [] (greeting_or_data 0) ?d (\<lambda>_ :: unit. None) (\<lambda>_. None) ?F ?y [SetUp]"
    by (simp add: honest_event_def split: option.split)
  have late: "no_late_failure Both [] (greeting_or_data 0) ?d (\<lambda>_ :: unit. None) (\<lambda>_. None) ?y [SetUp]"
    by (simp add: late_failure_def split: option.split)
  from file_reaches_downloader_either_way [where nonce = "replicate 12 5" and rnd = "replicate 12 6" and
      reads = "[Inr [7]]", OF example_aead _ _ _ _ _ refl refl honest late run, THEN conjunct2, THEN conjunct2, THEN conjunct2]
  obtain evs y where "fallback_run Both [] (greeting_or_data 0) ?d (\<lambda>_ :: unit. None) (\<lambda>_. None)
      (?y\<lparr>fb_phase := Connecting\<rparr>) evs = Some y"
    "fb_phase y = Over (Inr ())" "df_target (ds_file (fb_state y)) = Some [7]"
    by (auto simp: sizes encrypt_file_def read_plaintext_to_end_def goes_on_def fallback_start_def
        new_download_state_def decrypt_file_def)
  then show ?thesis
    using run by (intro exI [of _ evs] exI [of _ y])
      (auto simp: len64_def split: Option.bind_splits)
qed

subsection \<open>Both clients together\<close>

text \<open>C5: Uploader and downloader together: let the uploader encrypt what it reads and the two go on
  in any interleaving of all their events, in which each hears from its peer only what the
  other has said (lost, repeated, late or reordered as it may be) and the relay serves the
  ciphertext. Nothing that the downloader has asked for makes the uploader panic. And unless
  the downloader suffers a late failure, the defect of \<open>download_p2p\<close> that
  \<open>late_answer_misplaces_relay\<close> shows, its target takes nothing but a beginning of what was read,
  is complete only with all of it, and a download that reports success has delivered it.\<close>

theorem clients_exchange_one_file:
  assumes "aead_law seal unseal" and "length nonce = NONCE_SIZE" and "length rnd = NONCE_SIZE"
    and "encrypt_file (native_encrypt seal) hkdf key rnd nonce reads = Inr F"
    and "read_all reads = Inr contents" and "length contents + 28 < 2 ^ 64"
    and "d = (\<lambda>ct. content_decrypt (native_decrypt unseal) hkdf key ct Content)"
    and "uploading_start (xs_up_transport s) (xs_outer s) (Inr F) failed = Inr u0"
    and "y0 = fallback_start (xs_down_transport s) (xs_delays s) (decrypt_file (len64 contents)) (len64 contents)"
    and "x0 = \<lparr>ex_up = u0, ex_down = y0, ex_asked = []\<rparr>"
    and "exchange_run s d F x0 evs = Some x"
  shows "(exchange_no_late_failure s d F x0 evs \<longrightarrow>
      prefix (df_taken (ds_file (fb_state (ex_down x)))) contents \<and>
      df_target (ds_file (fb_state (ex_down x))) \<in> {None, Some contents} \<and>
      (fb_phase (ex_down x) = Over (Inr ()) \<longrightarrow> df_target (ds_file (fb_state (ex_down x))) = Some contents)) \<and>
    (\<forall>e. exchange_allowed s F x (Upper e) \<longrightarrow> exchange_step s d F x (Upper e) \<noteq> None)"
proof -
  note e = encrypt_file_decrypts [OF assms(1-5)]
  have len: "length F = length contents + 28" using e(2) by (simp add: sizes)
  then have "unat (len64 contents + extra_ciphertext_len) = length F"
    using assms(6) by (simp add: unat_word_ariths unat_len64 extra_ciphertext_len_def sizes)
  from fallback_start_inv [OF this] have y0: "fallback_inv F contents y0" "asks_well y0"
    by (simp_all add: assms(9) asks_well_def fallback_start_def new_download_state_def)
  moreover have "uploading_inv (xs_up_transport s) F u0" by (rule uploading_start_inv [OF assms(8)])
  ultimately have inv: "exchange_inv s F x0"
    by (simp add: exchange_inv_def fallback_inv_def assms(10))
  have "fallback_inv F contents (ex_down x0)" using y0(1) assms(10) by simp
  moreover have "d F = Inr contents" "length F < 2 ^ 64" using e(1) assms(6,7) len by simp_all
  ultimately show ?thesis by (rule exchange_delivers [where decrypt = d and F = F, OF assms(11) inv])
qed

theorem clients_exchange_one_file_witness:
  "\<exists>F u0 x. length F = 29 \<and> uploading_start P2P [] (Inr F) None = Inr u0 \<and>
     exchange_run example_setting (\<lambda>ct. content_decrypt (native_decrypt example_open) (@) [1] ct Content) F
       \<lparr>ex_up = u0, ex_down = fallback_start Both [] (decrypt_file 1) 1, ex_asked = []\<rparr> (example_exchange F) = Some x \<and>
     ul_result (ex_up x) = Some (Inr ()) \<and> df_target (ds_file (fb_state (ex_down x))) = Some [7]"
proof -
  let ?F = "content_encrypt (native_encrypt example_seal) (@) [1] (replicate 12 5)
    (from_plaintext (replicate 12 6) [7]) Content"
  let ?d = "\<lambda>ct. content_decrypt (native_decrypt example_open) (@) [1] ct Content"
  have enc: "encrypt_file (native_encrypt example_seal) (@) [1] (replicate 12 6) (replicate 12 5) [Inr [7]]
      = Inr ?F" by (simp add: encrypt_file_def read_plaintext_to_end_def)
  have sz: "length (replicate 12 (5 :: u8)) = NONCE_SIZE" "length (replicate 12 (6 :: u8)) = NONCE_SIZE"
    and rd: "read_all [Inr [7]] = Inr [7]" by (simp_all add: sizes)
  note e = encrypt_file_decrypts [OF example_aead sz enc rd]
  have len: "length ?F = 29" using e(2) by (simp add: sizes)
  obtain u0 where u0: "uploading_start P2P [] (Inr ?F) None = Inr u0" by (simp add: uploading_start_def)
  obtain x where x: "exchange_run example_setting ?d ?F
      \<lparr>ex_up = u0, ex_down = fallback_start Both [] (decrypt_file 1) 1, ex_asked = []\<rparr> (example_exchange ?F) = Some x"
    "fb_phase (ex_down x) = Over (Inr ())" "ul_result (ex_up x) = Some (Inr ())"
    and late: "exchange_no_late_failure example_setting ?d ?F
      \<lparr>ex_up = u0, ex_down = fallback_start Both [] (decrypt_file 1) 1, ex_asked = []\<rparr> (example_exchange ?F)"
    using example_exchange_run [where decrypt = ?d, OF len e(1) u0] by blast
  have "df_target (ds_file (fb_state (ex_down x))) = Some [7]"
    using clients_exchange_one_file [where s = example_setting and failed = None,
        OF example_aead sz enc rd _ refl _ refl refl, of u0 "example_exchange ?F" x] u0 x late
    by (simp add: example_setting_def len64_def)
  then show ?thesis using len u0 x by blast
qed

end
